(* ===== verification/Looms_Prelude.thy ===== *)
theory Looms_Prelude
  imports Complex_Main "HOL-Library.AList"
begin

text \<open>
  Shared vocabulary of the development: how JavaScript values are represented and the lemmas
  on association lists and lists that every component uses.

  \<^item> A JavaScript number is a finite one, represented exactly (\<open>number\<close> is \<open>rat\<close>). Rounding of
    doubles is not modelled; \<open>NaN\<close> and the infinities never occur in JSON, so the values that
    reach the event log are all representable.
  \<^item> A JavaScript object used as a dictionary (\<open>{ [id: string]: T }\<close>) is an association list in
    insertion order (\<open>'v dict\<close>): \<open>{ ...d, [k]: v }\<close> keeps the position of a key that is present
    and appends a new one, which is \<^const>\<open>AList.update\<close>; removing a key is \<^const>\<open>AList.delete\<close>;
    \<open>Object.values\<close> is \<open>dvals\<close>. (JavaScript moves integer-like keys to the front; the ids used
    as keys are never integer-like.)
  \<^item> \<open>null\<close> and \<open>undefined\<close> are both \<^const>\<open>None\<close> wherever the code treats them alike, which
    \<open>??\<close>, \<open>?.\<close> and truthiness tests do. A truthiness test on a string also rejects the empty
    string (\<open>truthy\<close>).
\<close>

named_theorems keyed_intros "preservation of the key discipline of dictionaries"
named_theorems record_frame "fields of a state that an operation leaves alone"

section \<open>Values\<close>

type_synonym number = rat

type_synonym 'v dict = "(string \<times> 'v) list"

datatype json =
    JNull
  | JBool bool
  | JNum number
  | JStr string
  | JArr "json list"
  | JObj "json dict"

text \<open>A field that may be absent, \<open>null\<close> or a value, where the code distinguishes the first two.\<close>

datatype 'a nullable = Undefined | Null | Val 'a

fun orNull :: "'a nullable \<Rightarrow> 'a option" where
  "orNull (Val x) = Some x"
| "orNull Null = None"
| "orNull Undefined = None"

section \<open>Dictionaries\<close>

abbreviation dget :: "'v dict \<Rightarrow> string \<Rightarrow> 'v option" where
  "dget d \<equiv> map_of d"

abbreviation dput :: "string \<Rightarrow> 'v \<Rightarrow> 'v dict \<Rightarrow> 'v dict" where
  "dput \<equiv> AList.update"

abbreviation ddel :: "string \<Rightarrow> 'v dict \<Rightarrow> 'v dict" where
  "ddel \<equiv> AList.delete"

abbreviation dkeys :: "'v dict \<Rightarrow> string list" where
  "dkeys d \<equiv> map fst d"

abbreviation dvals :: "'v dict \<Rightarrow> 'v list" where
  "dvals d \<equiv> map snd d"

text \<open>
  The key discipline of a record dictionary: keys are distinct and every entry is filed under the
  id it carries.
\<close>

definition keyed :: "('v \<Rightarrow> string) \<Rightarrow> 'v dict \<Rightarrow> bool" where
  "keyed f d \<longleftrightarrow> distinct (dkeys d) \<and> (\<forall>(k, v) \<in> set d. f v = k)"

lemma dget_dput [simp]: "dget (dput k v d) k' = (if k' = k then Some v else dget d k')"
  by (simp add: update_conv')

lemma dget_ddel [simp]: "dget (ddel k d) k' = (if k' = k then None else dget d k')"
  by (simp add: delete_conv')

lemma set_dput_subset: "set (dput k v d) \<subseteq> insert (k, v) (set d)"
  by (induction d) auto

lemma set_ddel_subset: "set (ddel k d) \<subseteq> set d"
  by (auto simp: AList.delete_eq)

lemma keyed_empty [simp, keyed_intros]: "keyed f []"
  by (simp add: keyed_def)

lemma keyed_dput [keyed_intros]: "keyed f d \<Longrightarrow> f v = k \<Longrightarrow> keyed f (dput k v d)"
  using set_dput_subset [of k v d] by (fastforce simp: keyed_def distinct_update)

lemma keyed_ddel [keyed_intros]: "keyed f d \<Longrightarrow> keyed f (ddel k d)"
  using set_ddel_subset [of k d] by (fastforce simp: keyed_def distinct_delete)

lemma keyed_filter [keyed_intros]: "keyed f d \<Longrightarrow> keyed f (filter P d)"
  by (auto simp: keyed_def distinct_map_filter)

lemma keyed_get: "keyed f d \<Longrightarrow> dget d k = Some v \<Longrightarrow> f v = k"
  by (auto simp: keyed_def dest: map_of_SomeD)

lemma keyed_val: "keyed f d \<Longrightarrow> v \<in> set (dvals d) \<Longrightarrow> dget d (f v) = Some v"
  by (fastforce simp: keyed_def)

lemma dget_val: "dget d k = Some v \<Longrightarrow> v \<in> set (dvals d)"
  by (force dest: map_of_SomeD)

lemma dget_filter_snd:
  "distinct (dkeys d) \<Longrightarrow>
   dget (filter (\<lambda>(k, v). P v) d) k
     = (case dget d k of None \<Rightarrow> None | Some v \<Rightarrow> if P v then Some v else None)"
  by (induction d) (auto simp: map_of_eq_None_iff split: option.splits)

section \<open>Strings\<close>

text \<open>\<open>s ? s : undefined\<close>: a string that passes a truthiness test.\<close>

definition truthy :: "string option \<Rightarrow> string option" where
  "truthy s = (case s of None \<Rightarrow> None | Some x \<Rightarrow> if x = '''' then None else Some x)"

lemma truthy_None [simp]: "truthy None = None"
  by (simp add: truthy_def)

lemma truthy_Some [simp]: "truthy (Some x) = (if x = '''' then None else Some x)"
  by (simp add: truthy_def)

lemma truthy_eq_Some: "truthy s = Some x \<longleftrightarrow> s = Some x \<and> x \<noteq> ''''"
  by (auto simp: truthy_def split: option.splits)

text \<open>\<open>a ?? b\<close> on optional values.\<close>

definition orElse :: "'a option \<Rightarrow> 'a option \<Rightarrow> 'a option" where
  "orElse a b = (case a of None \<Rightarrow> b | Some x \<Rightarrow> Some x)"

definition withDefault :: "'a option \<Rightarrow> 'a \<Rightarrow> 'a" where
  "withDefault a d = (case a of None \<Rightarrow> d | Some x \<Rightarrow> x)"

lemma orElse_simps [simp]: "orElse None b = b" "orElse (Some x) b = Some x"
  by (simp_all add: orElse_def)

lemma withDefault_simps [simp]: "withDefault None d = d" "withDefault (Some x) d = x"
  by (simp_all add: withDefault_def)

text \<open>\<open>s.startsWith(p)\<close>.\<close>

definition startsWith :: "string \<Rightarrow> string \<Rightarrow> bool" where
  "startsWith s p \<longleftrightarrow> take (length p) s = p"

lemma startsWith_append [simp]: "startsWith (p @ s) p"
  by (simp add: startsWith_def)

text \<open>A natural number in a template string: its decimal digits.\<close>

fun showNat :: "nat \<Rightarrow> string" where
  "showNat n = (if n < 10 then [''0123456789'' ! n]
                else showNat (n div 10) @ [''0123456789'' ! (n mod 10)])"

declare showNat.simps [simp del]

lemma digit_inj: "i < 10 \<Longrightarrow> j < 10 \<Longrightarrow> ''0123456789'' ! i = ''0123456789'' ! j \<Longrightarrow> i = j"
  by (auto simp: nth_eq_iff_index_eq)

lemma showNat_nonempty [simp]: "showNat n \<noteq> ''''"
  by (subst showNat.simps) simp

lemma showNat_digits: "set (showNat n) \<subseteq> set ''0123456789''"
proof (induction n rule: less_induct)
  case (less n)
  show ?case
  proof (cases "n < 10")
    case True
    then show ?thesis
      by (subst showNat.simps) (use nth_mem [of n "''0123456789''"] in auto)
  next
    case False
    with less.IH [of "n div 10"] have "set (showNat (n div 10)) \<subseteq> set ''0123456789''" by simp
    with False nth_mem [of "n mod 10" "''0123456789''"] show ?thesis
      by (subst showNat.simps) auto
  qed
qed

lemma showNat_inj: "showNat m = showNat n \<longleftrightarrow> m = n"
proof (induction m arbitrary: n rule: less_induct)
  case (less m)
  have len: "length (showNat k) = Suc 0 \<longleftrightarrow> k < 10" for k
    by (subst showNat.simps) auto
  show ?case
  proof
    assume eq: "showNat m = showNat n"
    then have small: "m < 10 \<longleftrightarrow> n < 10" using len by metis
    show "m = n"
    proof (cases "m < 10")
      case True
      with small eq show ?thesis by (auto simp: showNat.simps [of m] showNat.simps [of n] dest: digit_inj)
    next
      case False
      with small eq have "showNat (m div 10) = showNat (n div 10)"
        and "''0123456789'' ! (m mod 10) = ''0123456789'' ! (n mod 10)"
        by (simp_all add: showNat.simps [of m] showNat.simps [of n])
      then have "m div 10 = n div 10" "m mod 10 = n mod 10"
        using False less.IH [of "m div 10"] digit_inj [of "m mod 10" "n mod 10"] by simp_all
      then show ?thesis by (metis div_mult_mod_eq)
    qed
  qed simp
qed

section \<open>Payload fields\<close>

text \<open>\<open>payload[key]\<close> of a JSON object, \<open>?? null\<close> and the typed readers of the fold.\<close>

definition fieldOrNull :: "json dict \<Rightarrow> string \<Rightarrow> json" where
  "fieldOrNull p k = withDefault (dget p k) JNull"

definition readString :: "json dict \<Rightarrow> string \<Rightarrow> string option" where
  "readString p k = (case dget p k of Some (JStr s) \<Rightarrow> Some s | _ \<Rightarrow> None)"

definition readNumber :: "json dict \<Rightarrow> string \<Rightarrow> number option" where
  "readNumber p k = (case dget p k of Some (JNum n) \<Rightarrow> Some n | _ \<Rightarrow> None)"

text \<open>The fields of a JSON object; anything else has none.\<close>

definition asObject :: "json \<Rightarrow> json dict" where
  "asObject j = (case j of JObj fs \<Rightarrow> fs | _ \<Rightarrow> [])"

section \<open>Lists\<close>

text \<open>\<open>findIndex\<close> followed by \<open>splice(index, 1)\<close>: the first match and the list without it.\<close>

fun takeFirst :: "('a \<Rightarrow> bool) \<Rightarrow> 'a list \<Rightarrow> 'a option \<times> 'a list" where
  "takeFirst P [] = (None, [])"
| "takeFirst P (x # xs) =
     (if P x then (Some x, xs) else (let (r, ys) = takeFirst P xs in (r, x # ys)))"

lemma takeFirst_Some: "takeFirst P xs = (Some x, ys) \<Longrightarrow> x \<in> set xs \<and> P x \<and> set ys \<subseteq> set xs"
  by (induction xs arbitrary: ys) (auto split: if_splits prod.splits)

lemma takeFirst_None: "takeFirst P xs = (None, ys) \<Longrightarrow> ys = xs \<and> (\<forall>x \<in> set xs. \<not> P x)"
  by (induction xs arbitrary: ys) (auto split: if_splits prod.splits)

lemma takeFirst_rest: "takeFirst P xs = (r, ys) \<Longrightarrow> set ys \<subseteq> set xs"
  by (induction xs arbitrary: ys) (auto split: if_splits prod.splits)

lemma takeFirst_keeps: "takeFirst P xs = (r, ys) \<Longrightarrow> y \<in> set xs \<Longrightarrow> \<not> P y \<Longrightarrow> y \<in> set ys"
  by (induction xs arbitrary: ys) (auto split: if_splits prod.splits)

lemma takeFirst_distinct: "takeFirst P xs = (r, ys) \<Longrightarrow> distinct (map f xs) \<Longrightarrow> distinct (map f ys)"
proof (induction xs arbitrary: ys)
  case (Cons x xs)
  obtain r' zs where rec: "takeFirst P xs = (r', zs)" by fastforce
  with Cons takeFirst_rest [OF rec] show ?case by (fastforce split: if_splits)
qed simp

text \<open>\<open>Math.min(...xs)\<close> of a non-empty list, as the planners use it.\<close>

definition minOf :: "number list \<Rightarrow> number option" where
  "minOf xs = (case xs of [] \<Rightarrow> None | x # rest \<Rightarrow> Some (fold min rest x))"

lemma fold_min: "fold min xs (a :: number) \<in> insert a (set xs) \<and> (\<forall>x \<in> insert a (set xs). fold min xs a \<le> x)"
proof (induction xs arbitrary: a)
  case (Cons x xs)
  from Cons.IH [of "min x a"] show ?case
    by (auto simp: min_def split: if_splits)
qed simp

lemma minOf_None [simp]: "minOf xs = None \<longleftrightarrow> xs = []"
  by (simp add: minOf_def split: list.splits)

lemma minOf_Some: "minOf xs = Some m \<longleftrightarrow> m \<in> set xs \<and> (\<forall>x \<in> set xs. m \<le> x)"
proof (cases xs)
  case (Cons y ys)
  then show ?thesis using fold_min [of ys y] by (auto simp: minOf_def intro: antisym)
qed (simp add: minOf_def)

lemma foldl_invariant:
  "I s \<Longrightarrow> (\<And>s x. I s \<Longrightarrow> x \<in> set xs \<Longrightarrow> I (f s x)) \<Longrightarrow> I (foldl f s xs)"
  by (induction xs arbitrary: s) auto

end
