(* ===== verification/Envelope.thy ===== *)
theory Envelope
  imports Looms_Prelude
begin

text \<open>
  \<open>packages/core/src/envelope.ts\<close>: the events of a run log and the inputs they are made from. An
  optional field of an envelope that may also be \<open>null\<close> is an \<open>option\<close> (every reader of an
  envelope goes through \<open>??\<close> or a truthiness test); the fields of an \<open>event_input\<close> keep the
  difference (\<open>nullable\<close>), because admission does.

  The id and time of a created event come from \<open>createEventId\<close> and the clock. Both are drawn from
  a supply of \<open>stamps\<close>, numbered in the order the code creates the events.
\<close>

datatype event_origin =
    OriginThread string
  | OriginExternal "string option"
  | OriginSystem
  | OriginRun string

record envelope =
  ev_id :: string
  ev_runId :: string
  ev_seq :: nat
  ev_ts :: number
  ev_type :: string
  ev_payload :: json
  ev_threadId :: "string option"
  ev_parentThreadId :: "string option"
  ev_causationId :: "string option"
  ev_correlationId :: "string option"
  ev_effectId :: "string option"
  ev_origin :: event_origin
  ev_ephemeral :: bool
  ev_idempotencyKey :: "string option"

record event_input =
  in_type :: string
  in_payload :: json
  in_threadId :: "string nullable"
  in_parentThreadId :: "string nullable"
  in_causationId :: "string nullable"
  in_correlationId :: "string nullable"
  in_effectId :: "string nullable"
  in_origin :: "event_origin option"
  in_ephemeral :: "bool option"
  in_id :: "string option"
  in_ts :: "number option"
  in_idempotencyKey :: "string nullable"

type_synonym stamps = "nat \<Rightarrow> string \<times> number"

text \<open>An input with only the required fields, for the literals of the code.\<close>

definition eventInput :: "string \<Rightarrow> json \<Rightarrow> event_input" where
  "eventInput t p = \<lparr>in_type = t, in_payload = p, in_threadId = Undefined,
     in_parentThreadId = Undefined, in_causationId = Undefined, in_correlationId = Undefined,
     in_effectId = Undefined, in_origin = None, in_ephemeral = None, in_id = None, in_ts = None,
     in_idempotencyKey = Undefined\<rparr>"

definition withAssignedSeq :: "envelope \<Rightarrow> string \<Rightarrow> nat \<Rightarrow> envelope" where
  "withAssignedSeq partial runId seq = partial\<lparr>ev_runId := runId, ev_seq := seq\<rparr>"

definition createEvent :: "string \<times> number \<Rightarrow> string \<Rightarrow> event_input \<Rightarrow> nat \<Rightarrow> envelope" where
  "createEvent stamp runId input seq =
     \<lparr>ev_id = withDefault (in_id input) (fst stamp),
      ev_runId = runId,
      ev_seq = seq,
      ev_ts = withDefault (in_ts input) (snd stamp),
      ev_type = in_type input,
      ev_payload = in_payload input,
      ev_threadId = orNull (in_threadId input),
      ev_parentThreadId = orNull (in_parentThreadId input),
      ev_causationId = orNull (in_causationId input),
      ev_correlationId = orNull (in_correlationId input),
      ev_effectId = orNull (in_effectId input),
      ev_origin = withDefault (in_origin input) OriginSystem,
      ev_ephemeral = withDefault (in_ephemeral input) False,
      ev_idempotencyKey = orNull (in_idempotencyKey input)\<rparr>"

text \<open>\<open>inputs.map((input) => createEvent(runId, input))\<close>, from the \<open>n\<close>-th stamp on.\<close>

fun createEvents :: "stamps \<Rightarrow> nat \<Rightarrow> string \<Rightarrow> event_input list \<Rightarrow> envelope list" where
  "createEvents st n runId [] = []"
| "createEvents st n runId (i # is) = createEvent (st n) runId i 0 # createEvents st (Suc n) runId is"

lemma createEvent_simps [simp]:
  "ev_runId (createEvent s r i q) = r" "ev_seq (createEvent s r i q) = q"
  "ev_type (createEvent s r i q) = in_type i" "ev_payload (createEvent s r i q) = in_payload i"
  "ev_threadId (createEvent s r i q) = orNull (in_threadId i)"
  "ev_effectId (createEvent s r i q) = orNull (in_effectId i)"
  "ev_causationId (createEvent s r i q) = orNull (in_causationId i)"
  "ev_correlationId (createEvent s r i q) = orNull (in_correlationId i)"
  "ev_ephemeral (createEvent s r i q) = withDefault (in_ephemeral i) False"
  "ev_origin (createEvent s r i q) = withDefault (in_origin i) OriginSystem"
  "ev_idempotencyKey (createEvent s r i q) = orNull (in_idempotencyKey i)"
  by (simp_all add: createEvent_def)

lemma eventInput_simps [simp]:
  "in_type (eventInput t p) = t" "in_payload (eventInput t p) = p"
  "in_threadId (eventInput t p) = Undefined" "in_effectId (eventInput t p) = Undefined"
  "in_causationId (eventInput t p) = Undefined" "in_correlationId (eventInput t p) = Undefined"
  "in_ephemeral (eventInput t p) = None" "in_origin (eventInput t p) = None"
  "in_idempotencyKey (eventInput t p) = Undefined" "in_id (eventInput t p) = None"
  "in_ts (eventInput t p) = None" "in_parentThreadId (eventInput t p) = Undefined"
  by (simp_all add: eventInput_def)

lemma withAssignedSeq_simps [simp]:
  "ev_seq (withAssignedSeq e r q) = q" "ev_runId (withAssignedSeq e r q) = r"
  "ev_type (withAssignedSeq e r q) = ev_type e" "ev_payload (withAssignedSeq e r q) = ev_payload e"
  "ev_ephemeral (withAssignedSeq e r q) = ev_ephemeral e" "ev_id (withAssignedSeq e r q) = ev_id e"
  by (simp_all add: withAssignedSeq_def)

lemma length_createEvents [simp]: "length (createEvents st n r is) = length is"
  by (induction "is" arbitrary: n) auto

lemma createEvents_append:
  "createEvents st n r (is @ js) = createEvents st n r is @ createEvents st (n + length is) r js"
  by (induction "is" arbitrary: n) auto

lemma createEvents_map:
  "map ev_type (createEvents st n r is) = map in_type is"
  "map ev_payload (createEvents st n r is) = map in_payload is"
  by (induction "is" arbitrary: n) auto

lemma createEvents_member:
  "e \<in> set (createEvents st n r is) \<Longrightarrow> \<exists>i \<in> set is. \<exists>k. e = createEvent (st k) r i 0"
  by (induction "is" arbitrary: n) auto

lemma createEvents_mem:
  "i \<in> set is \<Longrightarrow> \<exists>k. createEvent (st k) r i 0 \<in> set (createEvents st n r is)"
  by (induction "is" arbitrary: n) auto

end
