(* ===== verification/Ids.thy ===== *)
theory Ids
  imports Looms_Prelude "HOL-Library.Word"
begin

text \<open>
  \<open>packages/core/src/ids.ts\<close>: effect and wait ids, and the deterministic thread and run ids that a
  replaying reducer derives from a hash. The hash is FNV-1a on 32-bit words: \<open>Math.imul\<close> keeps the
  low 32 bits of a product, which is multiplication of \<open>32 word\<close>, and \<open>>>> 0\<close> reads the word as
  an unsigned number. Random ids (\<open>createEventId\<close>, \<open>createRunId\<close>) draw on the clock and on
  \<open>crypto.randomUUID\<close>; they are arguments of the definitions that need them.
\<close>

unbundle bit_operations_syntax

section \<open>Effect and wait ids\<close>

definition createTaggedEffectId :: "string \<Rightarrow> string \<Rightarrow> string" where
  "createTaggedEffectId threadId tag = threadId @ '':'' @ tag"

definition createEffectId :: "string \<Rightarrow> nat \<Rightarrow> nat \<Rightarrow> string" where
  "createEffectId threadId causingSeq index =
     threadId @ '':'' @ showNat causingSeq @ '':'' @ showNat index"

definition createWaitId :: "string \<Rightarrow> string \<Rightarrow> string" where
  "createWaitId scope tag = ''wait_'' @ scope @ ''_'' @ tag"

section \<open>Hexadecimal text\<close>

abbreviation "hexDigits \<equiv> ''0123456789abcdef''"

fun showHex :: "nat \<Rightarrow> string" where
  "showHex n = (if n < 16 then [hexDigits ! n] else showHex (n div 16) @ [hexDigits ! (n mod 16)])"

declare showHex.simps [simp del]

definition padStart :: "nat \<Rightarrow> char \<Rightarrow> string \<Rightarrow> string" where
  "padStart n c s = replicate (n - length s) c @ s"

definition hexValue :: "char \<Rightarrow> nat" where
  "hexValue c = length (takeWhile (\<lambda>d. d \<noteq> c) hexDigits)"

text \<open>\<open>Number.parseInt(s, 16)\<close> of hexadecimal digits.\<close>

definition parseHex :: "string \<Rightarrow> nat" where
  "parseHex s = foldl (\<lambda>a c. 16 * a + hexValue c) 0 s"

definition slice :: "nat \<Rightarrow> nat \<Rightarrow> 'a list \<Rightarrow> 'a list" where
  "slice i j xs = take (j - i) (drop i xs)"

section \<open>The hash and the derived ids\<close>

definition fnv1a32_hash :: "string \<Rightarrow> 32 word \<Rightarrow> 32 word" where
  "fnv1a32_hash value seed = foldl (\<lambda>h c. (h XOR of_nat (of_char c)) * 0x01000193) seed value"

definition fnv1a32 :: "string \<Rightarrow> 32 word \<Rightarrow> string" where
  "fnv1a32 value seed = padStart 8 (CHR ''0'') (showHex (unat (fnv1a32_hash value seed)))"

fun joinWith :: "string \<Rightarrow> string list \<Rightarrow> string" where
  "joinWith sep [] = ''''"
| "joinWith sep [x] = x"
| "joinWith sep (x # y # zs) = x @ sep @ joinWith sep (y # zs)"

definition idHash :: "string \<Rightarrow> string" where
  "idHash source = fnv1a32 source 0x811c9dc5 @ fnv1a32 source 0x9e3779b9
     @ fnv1a32 (rev source) 0x85ebca6b @ fnv1a32 (rev source) 0xc2b2ae35"

definition deterministicThreadId :: "string list \<Rightarrow> string" where
  "deterministicThreadId parts =
     (let hex = idHash (joinWith '':'' parts)
      in slice 0 8 hex @ ''-'' @ slice 8 12 hex @ ''-5'' @ slice 13 16 hex @ ''-''
         @ padStart 2 (CHR ''0'') (showHex ((parseHex (slice 16 18 hex) AND 0x3f) OR 0x80))
         @ slice 18 20 hex @ ''-'' @ drop 20 hex)"

definition deterministicRunId :: "string list \<Rightarrow> string" where
  "deterministicRunId parts =
     ''run_'' @ filter (\<lambda>c. c \<noteq> CHR ''-'') (deterministicThreadId parts)"

section \<open>Facts about the hexadecimal text\<close>

lemma showHex_digits: "set (showHex n) \<subseteq> set hexDigits"
proof (induction n rule: less_induct)
  case (less n)
  show ?case
  proof (cases "n < 16")
    case True
    then show ?thesis by (subst showHex.simps) (use nth_mem [of n hexDigits] in auto)
  next
    case False
    with less.IH [of "n div 16"] have "set (showHex (n div 16)) \<subseteq> set hexDigits" by simp
    with False nth_mem [of "n mod 16" hexDigits] show ?thesis by (subst showHex.simps) auto
  qed
qed

lemma showHex_length: "n < 16 ^ Suc k \<Longrightarrow> length (showHex n) \<le> Suc k"
proof (induction k arbitrary: n)
  case 0
  then show ?case by (subst showHex.simps) simp
next
  case (Suc k)
  show ?case
  proof (cases "n < 16")
    case False
    have "n div 16 < 16 ^ Suc k" using Suc.prems by (simp add: less_mult_imp_div_less mult.commute)
    from Suc.IH [OF this] False show ?thesis by (subst showHex.simps) simp
  qed (subst showHex.simps, simp)
qed

lemma fnv1a32_length [simp]: "length (fnv1a32 v s) = 8"
proof -
  have "unat (fnv1a32_hash v s) < 16 ^ Suc 7" using unsigned_less [of "fnv1a32_hash v s", where ?'a = nat] by simp
  from showHex_length [OF this] show ?thesis by (simp add: fnv1a32_def padStart_def)
qed

lemma fnv1a32_digits: "set (fnv1a32 v s) \<subseteq> set hexDigits"
  using showHex_digits [of "unat (fnv1a32_hash v s)"] by (auto simp: fnv1a32_def padStart_def)

lemma idHash_length [simp]: "length (idHash s) = 32"
  by (simp add: idHash_def)

lemma idHash_digits: "set (idHash s) \<subseteq> set hexDigits"
  using fnv1a32_digits by (auto simp: idHash_def)

lemma slice_set: "set (slice i j xs) \<subseteq> set xs"
  by (auto simp: slice_def dest: in_set_takeD in_set_dropD)

lemma slice_length: "j \<le> length xs \<Longrightarrow> length (slice i j xs) = j - i"
  by (simp add: slice_def)

lemma slice_hex: "set xs \<subseteq> H \<Longrightarrow> set (slice i j xs) \<subseteq> H"
  by (rule subset_trans [OF slice_set])

lemma drop_hex: "set xs \<subseteq> H \<Longrightarrow> set (drop n xs) \<subseteq> H"
  by (rule subset_trans [OF set_drop_subset])

lemmas hex_set_simps = set_append list.set Un_subset_iff insert_subset empty_subsetI simp_thms

text \<open>The variant byte: the two top bits are forced to \<open>10\<close>.\<close>

lemma variant_byte: "\<exists>x < 64. (n AND 0x3f) OR 0x80 = x + (128 :: nat)"
proof -
  have "n AND 0x3f = n mod 64" using take_bit_eq_mask [of 6 n] by (simp add: take_bit_eq_mod mask_eq_exp_minus_1)
  moreover have "(n mod 64) OR 0x80 = n mod 64 + 128"
  proof -
    have low: "n mod 64 = take_bit 6 n" by (simp add: take_bit_eq_mod)
    have "bit (128 :: nat) k \<longleftrightarrow> k = 7" for k
      using bit_exp_iff [of 7 k, where ?'a = nat] by auto
    note b = this
    have "(n mod 64) AND 128 = 0"
      by (rule bit_eqI) (auto simp: low b bit_and_iff bit_take_bit_iff)
    then show ?thesis by (simp add: disjunctive_add_eq_or)
  qed
  ultimately show ?thesis by (metis mod_less_divisor zero_less_numeral)
qed

lemma variant_hex:
  assumes "x < 64"
  shows "showHex (x + 128) = [hexDigits ! (8 + x div 16), hexDigits ! (x mod 16)]"
proof -
  have "(x + 128) div 16 = 8 + x div 16" "(x + 128) mod 16 = x mod 16"
    using div_mult_self1 [of 16 x 8] mod_mult_self1 [of x 8 16] by simp_all
  moreover have "8 + x div 16 < 16" using assms by simp
  ultimately show ?thesis by (subst showHex.simps, subst showHex.simps) simp
qed

section \<open>Shape of the derived ids\<close>

text \<open>
  A derived thread id has the shape of a version-5 UUID whatever the parts are: groups of 8, 4,
  4, 4 and 12 lower-case hexadecimal digits, the version digit 5 and a variant digit 8, 9, a or b.
\<close>

theorem deterministicThreadId_uuid:
  "\<exists>a b c v d e. deterministicThreadId parts = a @ ''-'' @ b @ ''-5'' @ c @ ''-'' @ [v] @ d @ ''-'' @ e
     \<and> length a = 8 \<and> length b = 4 \<and> length c = 3 \<and> length d = 3 \<and> length e = 12
     \<and> v \<in> set ''89ab'' \<and> set (a @ b @ c @ d @ e) \<subseteq> set hexDigits"
proof -
  define hex where "hex = idHash (joinWith '':'' parts)"
  have len: "length hex = 32" and dig: "set hex \<subseteq> set hexDigits"
    unfolding hex_def using idHash_digits by auto
  obtain x where x: "x < 64" "(parseHex (slice 16 18 hex) AND 0x3f) OR 0x80 = x + (128 :: nat)"
    using variant_byte by blast
  define v where "v = hexDigits ! (8 + x div 16)"
  define w where "w = hexDigits ! (x mod 16)"
  have "x div 16 < 4" using x(1) by (simp add: less_mult_imp_div_less)
  then have "x div 16 \<in> {0, 1, 2, 3}" by auto
  then have v: "v \<in> set ''89ab''" unfolding v_def by (elim insertE) simp_all
  have w: "w \<in> set hexDigits" unfolding w_def by (rule nth_mem) simp
  have eq: "deterministicThreadId parts = slice 0 8 hex @ ''-'' @ slice 8 12 hex @ ''-5''
      @ slice 13 16 hex @ ''-'' @ [v] @ (w # slice 18 20 hex) @ ''-'' @ drop 20 hex"
    by (simp add: deterministicThreadId_def Let_def padStart_def x(2) variant_hex [OF x(1)]
        v_def w_def flip: hex_def)
  have hs: "set (slice 0 8 hex @ slice 8 12 hex @ slice 13 16 hex @ (w # slice 18 20 hex) @ drop 20 hex)
      \<subseteq> set hexDigits"
    using w slice_hex [OF dig] drop_hex [OF dig] by (simp only: hex_set_simps)
  show ?thesis
    by (rule exI [of _ "slice 0 8 hex"], rule exI [of _ "slice 8 12 hex"],
        rule exI [of _ "slice 13 16 hex"], rule exI [of _ v], rule exI [of _ "w # slice 18 20 hex"],
        rule exI [of _ "drop 20 hex"]) (intro conjI eq hs v, simp_all add: len slice_length)
qed

text \<open>
A derived run id is the prefix \<open>run_\<close> and 32 lower-case hexadecimal digits, so it never
  contains the separator \<open>:\<close> of an effect id.
\<close>

theorem deterministicRunId_shape:
  "\<exists>h. deterministicRunId parts = ''run_'' @ h \<and> length h = 32 \<and> set h \<subseteq> set hexDigits"
proof -
  define hex where "hex = idHash (joinWith '':'' parts)"
  have len: "length hex = 32" and dig: "set hex \<subseteq> set hexDigits"
    unfolding hex_def using idHash_digits by auto
  obtain x where x: "x < 64" "(parseHex (slice 16 18 hex) AND 0x3f) OR 0x80 = x + (128 :: nat)"
    using variant_byte by blast
  have dash: "filter (\<lambda>c. c \<noteq> CHR ''-'') s = s" if "set s \<subseteq> set hexDigits" for s
    using that by (auto simp: filter_id_conv)
  have byte: "set (showHex (x + 128)) \<subseteq> set hexDigits" "length (showHex (x + 128)) = 2"
    using showHex_digits [of "x + 128"] by (simp_all add: variant_hex [OF x(1)])
  have parts: "filter (\<lambda>c. c \<noteq> CHR ''-'') (slice i j hex) = slice i j hex" for i j
    using dig slice_set [of i j hex] by (intro dash) auto
  have rest: "filter (\<lambda>c. c \<noteq> CHR ''-'') (drop 20 hex) = drop 20 hex"
    using dig set_drop_subset [of 20 hex] by (intro dash) auto
  let ?h = "slice 0 8 hex @ slice 8 12 hex @ ''5'' @ slice 13 16 hex @ showHex (x + 128)
      @ slice 18 20 hex @ drop 20 hex"
  have "deterministicRunId parts = ''run_'' @ ?h"
    by (simp add: deterministicRunId_def deterministicThreadId_def Let_def padStart_def x(2) byte
        dash [OF byte(1)] parts rest flip: hex_def)
  moreover have "length ?h = 32" using len byte by (simp add: slice_length)
  moreover have "set ?h \<subseteq> set hexDigits"
  proof -
    have "set ''5'' \<subseteq> set hexDigits" by simp
    then show ?thesis using byte(1) slice_hex [OF dig] drop_hex [OF dig]
      by (simp only: set_append Un_subset_iff simp_thms)
  qed
  ultimately show ?thesis by blast
qed

end
