(* ===== verification/Effects.thy ===== *)
theory Effects
  imports Envelope Ids
begin

text \<open>
  \<open>packages/core/src/effects.ts\<close>: wait conditions, the effects a thread asks the host for, retry
  policies and effect definitions. The union \<open>RuntimeEffect\<close> is a datatype with one constructor per
  member; an \<open>InvokeEffect\<close> carries an arbitrary type string, so whether an effect is primitive is
  decided on that string, as in the code.
\<close>

section \<open>Types\<close>

datatype event_types = OneType string | AnyType "string list"

datatype wait_condition =
    WaitOnEvent event_types "json option"
  | WaitOnTimer number

datatype child_close = Terminate | WaitChildren

datatype runtime_effect =
    SpawnEffect string string string string json
    \<comment> \<open>child thread id, kind, definition name and version, input\<close>
  | WaitEffect string wait_condition "json option"
  | EmitEffect event_input "string option"
  | CompleteEffect json
  | FailEffect string
  | CancelEffect string "string option"
  | LaunchEffect string string string string json child_close "string option"
    \<comment> \<open>run id, kind, definition name and version, input, close policy, tag\<close>
  | CancelRunEffect string "string option"
  | InvokeEffect string json "string option" "number option"
    \<comment> \<open>type, input, tag, at\<close>

record retry_policy =
  rp_maxAttempts :: number
  rp_backoffMs :: "number option"
  rp_maxBackoffMs :: "number option"
  rp_backoffMultiplier :: "number option"
  rp_scheduleToStartTimeoutMs :: "number option"
  rp_startToCloseTimeoutMs :: "number option"
  rp_heartbeatTimeoutMs :: "number option"
  rp_cancellationTimeoutMs :: "number option"

datatype effect_placement = PlacedLocal | PlacedWorker

record effect_definition =
  ed_type :: string
  ed_placement :: effect_placement
  ed_retry :: "retry_policy option"
  ed_deterministic :: bool

section \<open>Classifying effects\<close>

definition effectType :: "runtime_effect \<Rightarrow> string" where
  "effectType e = (case e of
     SpawnEffect _ _ _ _ _ \<Rightarrow> ''runtime.spawn''
   | WaitEffect _ _ _ \<Rightarrow> ''runtime.wait''
   | EmitEffect _ _ \<Rightarrow> ''runtime.emit''
   | CompleteEffect _ \<Rightarrow> ''runtime.complete''
   | FailEffect _ \<Rightarrow> ''runtime.fail''
   | CancelEffect _ _ \<Rightarrow> ''runtime.cancel''
   | LaunchEffect _ _ _ _ _ _ _ \<Rightarrow> ''runtime.launch''
   | CancelRunEffect _ _ \<Rightarrow> ''runtime.cancelRun''
   | InvokeEffect t _ _ _ \<Rightarrow> t)"

definition isPrimitiveEffect :: "runtime_effect \<Rightarrow> bool" where
  "isPrimitiveEffect e \<longleftrightarrow> List.member
     [''runtime.spawn'', ''runtime.wait'', ''runtime.emit'', ''runtime.complete'', ''runtime.fail'',
      ''runtime.cancel'', ''runtime.launch'', ''runtime.cancelRun''] (effectType e)"

fun timerAt :: "wait_condition \<Rightarrow> number option" where
  "timerAt (WaitOnTimer t) = Some t"
| "timerAt (WaitOnEvent _ _) = None"

text \<open>When a deferred invoke becomes runnable.\<close>

definition deferredUntil :: "runtime_effect \<Rightarrow> number option" where
  "deferredUntil e = (case e of
     InvokeEffect _ _ _ due \<Rightarrow> if isPrimitiveEffect e then None else due
   | _ \<Rightarrow> None)"

definition withdrawnErrorPrefix :: string where
  "withdrawnErrorPrefix = ''withdrawn:''"

definition withdrawnError :: "string \<Rightarrow> string" where
  "withdrawnError siblingEffectId =
     withdrawnErrorPrefix @ '' sibling effect '' @ siblingEffectId @ '' failed''"

definition isWithdrawnError :: "string \<Rightarrow> bool" where
  "isWithdrawnError error = startsWith error withdrawnErrorPrefix"

lemma isWithdrawnError_withdrawnError [simp]: "isWithdrawnError (withdrawnError i)"
  by (simp add: isWithdrawnError_def withdrawnError_def)

section \<open>JSON form\<close>

text \<open>
  \<open>asJson(effect)\<close>: the JSON value of an effect, absent fields dropped. The fold compares effects
  through it.
\<close>

definition optField :: "string \<Rightarrow> ('a \<Rightarrow> json) \<Rightarrow> 'a option \<Rightarrow> json dict" where
  "optField k f v = (case v of None \<Rightarrow> [] | Some x \<Rightarrow> [(k, f x)])"

definition nullableField :: "string \<Rightarrow> string nullable \<Rightarrow> json dict" where
  "nullableField k v = (case v of Undefined \<Rightarrow> [] | Null \<Rightarrow> [(k, JNull)] | Val s \<Rightarrow> [(k, JStr s)])"

fun waitJson :: "wait_condition \<Rightarrow> json" where
  "waitJson (WaitOnTimer t) = JObj [(''timerAt'', JNum t)]"
| "waitJson (WaitOnEvent (OneType t) m) = JObj ((''type'', JStr t) # optField ''match'' id m)"
| "waitJson (WaitOnEvent (AnyType ts) m) =
     JObj ((''type'', JArr (map JStr ts)) # optField ''match'' id m)"

fun originJson :: "event_origin \<Rightarrow> json" where
  "originJson (OriginThread t) = JObj [(''type'', JStr ''thread''), (''threadId'', JStr t)]"
| "originJson (OriginExternal a) = JObj ((''type'', JStr ''external'') # optField ''actorId'' JStr a)"
| "originJson OriginSystem = JObj [(''type'', JStr ''system'')]"
| "originJson (OriginRun r) = JObj [(''type'', JStr ''run''), (''runId'', JStr r)]"

definition eventInputJson :: "event_input \<Rightarrow> json" where
  "eventInputJson i = JObj
     ([(''type'', JStr (in_type i)), (''payload'', in_payload i)]
      @ nullableField ''threadId'' (in_threadId i)
      @ nullableField ''parentThreadId'' (in_parentThreadId i)
      @ nullableField ''causationId'' (in_causationId i)
      @ nullableField ''correlationId'' (in_correlationId i)
      @ nullableField ''effectId'' (in_effectId i)
      @ optField ''origin'' originJson (in_origin i)
      @ optField ''ephemeral'' JBool (in_ephemeral i)
      @ optField ''id'' JStr (in_id i)
      @ optField ''ts'' JNum (in_ts i)
      @ nullableField ''idempotencyKey'' (in_idempotencyKey i))"

fun closeName :: "child_close \<Rightarrow> string" where
  "closeName Terminate = ''terminate''"
| "closeName WaitChildren = ''wait''"

definition effectFields :: "runtime_effect \<Rightarrow> json dict" where
  "effectFields e = (case e of
     SpawnEffect c k n v i \<Rightarrow>
       [(''childThreadId'', JStr c), (''kind'', JStr k), (''definitionName'', JStr n),
        (''definitionVersion'', JStr v), (''input'', i)]
   | WaitEffect w on tag \<Rightarrow>
       [(''waitId'', JStr w), (''on'', waitJson on)] @ optField ''tag'' id tag
   | EmitEffect ev tag \<Rightarrow> (''event'', eventInputJson ev) # optField ''tag'' JStr tag
   | CompleteEffect out \<Rightarrow> [(''output'', out)]
   | FailEffect err \<Rightarrow> [(''error'', JStr err)]
   | CancelEffect t tag \<Rightarrow> (''threadId'', JStr t) # optField ''tag'' JStr tag
   | LaunchEffect r k n v i c tag \<Rightarrow>
       [(''runId'', JStr r), (''kind'', JStr k), (''definitionName'', JStr n),
        (''definitionVersion'', JStr v), (''input'', i), (''close'', JStr (closeName c))]
       @ optField ''tag'' JStr tag
   | CancelRunEffect r tag \<Rightarrow> (''runId'', JStr r) # optField ''tag'' JStr tag
   | InvokeEffect _ i tag due \<Rightarrow>
       (''input'', i) # optField ''tag'' JStr tag @ optField ''at'' JNum due)"

definition effectJson :: "runtime_effect \<Rightarrow> json" where
  "effectJson e = JObj ((''type'', JStr (effectType e)) # effectFields e)"

section \<open>Decoding\<close>

text \<open>
  \<open>Schema.decodeUnknownOption(WaitConditionSchema)\<close>: the first member of the union that fits, with
  excess properties stripped.
\<close>

fun decodeStrings :: "json list \<Rightarrow> string list option" where
  "decodeStrings [] = Some []"
| "decodeStrings (JStr s # js) = map_option ((#) s) (decodeStrings js)"
| "decodeStrings (_ # js) = None"

definition decodeEventTypes :: "json \<Rightarrow> event_types option" where
  "decodeEventTypes j = (case j of
     JStr s \<Rightarrow> Some (OneType s)
   | JArr js \<Rightarrow> map_option AnyType (decodeStrings js)
   | _ \<Rightarrow> None)"

definition decodeWaitCondition :: "json dict \<Rightarrow> wait_condition option" where
  "decodeWaitCondition fs =
     (case Option.bind (dget fs ''type'') decodeEventTypes of
        Some ts \<Rightarrow> Some (WaitOnEvent ts (dget fs ''match''))
      | None \<Rightarrow> map_option WaitOnTimer (readNumber fs ''timerAt''))"

section \<open>The outcome of a satisfied wait\<close>

text \<open>
  Left is the failure message, right the result. A payload error wins over an error the waiter put
  on the tag; a \<open>null\<close> output falls through to the payload.
\<close>

definition waitOutcome :: "json option \<Rightarrow> json option \<Rightarrow> json option \<Rightarrow> string + json" where
  "waitOutcome satisfied tag fallback =
     (let satObj = (case satisfied of Some (JObj fs) \<Rightarrow> Some fs | _ \<Rightarrow> None);
          satPayload = Option.bind satObj (\<lambda>fs. dget fs ''payload'');
          payload = (case satPayload of Some (JObj ps) \<Rightarrow> ps | _ \<Rightarrow> []);
          tagError = (case tag of Some (JObj ts) \<Rightarrow> readString ts ''error'' | _ \<Rightarrow> None);
          error = orElse (readString payload ''error'') tagError
      in case error of
           Some e \<Rightarrow> Inl e
         | None \<Rightarrow>
             (case dget payload ''output'' of
                Some out \<Rightarrow>
                  if out \<noteq> JNull then Inr out
                  else Inr (withDefault (if satObj \<noteq> None then satPayload else fallback) JNull)
              | None \<Rightarrow>
                  Inr (withDefault (if satObj \<noteq> None then satPayload else fallback) JNull)))"

lemma decodeStrings_map [simp]: "decodeStrings (map JStr ts) = Some ts"
  by (induction ts) auto

text \<open>
  Decoding undoes encoding: a wait condition written to the log as JSON is read back unchanged,
  for both members of the union.
\<close>

theorem decodeWaitCondition_waitJson:
  "\<exists>fs. waitJson on = JObj fs \<and> decodeWaitCondition fs = Some on"
  by (cases on rule: waitJson.cases)
     (auto simp: decodeWaitCondition_def decodeEventTypes_def readNumber_def optField_def
       split: option.splits)

end
