(* ===== verification/Run_State.thy ===== *)
theory Run_State
  imports Effects "HOL-Library.While_Combinator"
begin

text \<open>
  \<open>packages/core/src/state.ts\<close>, \<open>thread.ts\<close> and the readers of \<open>launcher.ts\<close>, \<open>run-context.ts\<close> and
  \<open>trace.ts\<close>: the state a run folds to, the contract of a thread definition, and the queries on the
  state that the runtime makes.

  A thread definition is code of a module. It is a record of functions, an argument of everything
  that folds: nothing is assumed of it.
\<close>

section \<open>Threads\<close>

datatype thread_status = Running | Waiting | Completed | Failed | Cancelled

datatype run_status = RunRunning | RunCompleted | RunFailed | RunCancelled

definition isTerminalStatus :: "thread_status \<Rightarrow> bool" where
  "isTerminalStatus status \<longleftrightarrow> status = Completed \<or> status = Failed \<or> status = Cancelled"

lemma isTerminalStatus_simps [simp]:
  "isTerminalStatus Completed" "isTerminalStatus Failed" "isTerminalStatus Cancelled"
  "\<not> isTerminalStatus Running" "\<not> isTerminalStatus Waiting"
  by (simp_all add: isTerminalStatus_def)

record start_context =
  sc_runId :: string
  sc_threadId :: string
  sc_parentThreadId :: "string option"
  sc_definitionName :: string
  sc_definitionVersion :: string
  sc_input :: json

record thread_context =
  tc_runId :: string
  tc_threadId :: string
  tc_parentThreadId :: "string option"

record thread_definition =
  td_forgetsCompletedEffects :: bool
  td_initialState :: "start_context \<Rightarrow> json"
  td_step :: "json \<Rightarrow> envelope \<Rightarrow> thread_context \<Rightarrow> json"
  td_effects :: "json \<Rightarrow> thread_context \<Rightarrow> runtime_effect list"

text \<open>The composed registry: thread kinds and effect types (\<open>registry.threads\<close>, \<open>registry.effects\<close>).\<close>

record registry =
  rg_threads :: "thread_definition dict"
  rg_effects :: "effect_definition dict"

section \<open>Records of a run\<close>

record thread_record =
  thr_threadId :: string
  thr_kind :: string
  thr_definitionName :: string
  thr_definitionVersion :: string
  thr_parentThreadId :: "string option"
  thr_status :: thread_status
  thr_input :: json
  thr_output :: json
  thr_error :: "string option"
  thr_state :: json

record wait_record =
  wt_waitId :: string
  wt_threadId :: string
  wt_on :: wait_condition
  wt_tag :: "json option"

record outstanding_effect =
  oe_effectId :: string
  oe_threadId :: string
  oe_causingSeq :: nat
  oe_causingEventId :: string
  oe_effect :: runtime_effect

datatype execution_status =
    Queued | DispatchWait | Dispatched | Started | Heartbeat | RetryWait | CancelRequested
  | TimedOut | Ambiguous | RunningHere

record effect_execution =
  ex_effectId :: string
  ex_attempt :: number
  ex_status :: execution_status
  ex_nextAttemptAt :: "number option"
  ex_deadlineAt :: "number option"
  ex_startedAt :: "number option"
  ex_lastHeartbeatAt :: "number option"
  ex_heartbeatDetails :: json
  ex_lastError :: "string option"
  ex_dispatchTry :: number

record run_launch_source =
  ls_runId :: string
  ls_threadId :: string
  ls_effectId :: string
  ls_causationId :: string
  ls_causationSeq :: number

record trace_context =
  tr_traceparent :: string
  tr_tracestate :: "string option"

record run_start_identity =
  si_kind :: string
  si_definitionName :: string
  si_definitionVersion :: string
  si_input :: json
  si_requestedThreadId :: "string option"
  si_idempotencyKey :: "string option"
  si_rootThreadId :: string
  si_launchedBy :: "run_launch_source option"
  si_correlationId :: "string option"
  si_attributes :: "string dict"
  si_trace :: "trace_context option"

record launched_run =
  lr_runId :: string
  lr_close :: child_close

record run_state =
  rs_runId :: string
  rs_status :: run_status
  rs_rootThreadId :: "string option"
  rs_startIdentity :: "run_start_identity option"
  rs_forkedFrom :: "(string \<times> number) option"
  rs_attributes :: "string dict"
  rs_threads :: "thread_record dict"
  rs_waits :: "wait_record dict"
  rs_outstandingEffects :: "outstanding_effect list"
  rs_effectExecutions :: "effect_execution dict"
  rs_completedEffectIds :: "string list"
  rs_processedIdempotencyKeys :: "string list"
  rs_launchedRuns :: "launched_run list"
  rs_closeWaiting :: bool
  rs_childCloseSent :: bool

definition emptyRunState :: "string \<Rightarrow> run_state" where
  "emptyRunState runId =
     \<lparr>rs_runId = runId, rs_status = RunRunning, rs_rootThreadId = None, rs_startIdentity = None,
      rs_forkedFrom = None, rs_attributes = [], rs_threads = [], rs_waits = [],
      rs_outstandingEffects = [], rs_effectExecutions = [], rs_completedEffectIds = [],
      rs_processedIdempotencyKeys = [], rs_launchedRuns = [], rs_closeWaiting = False,
      rs_childCloseSent = False\<rparr>"

section \<open>Queries\<close>

definition isRunTerminal :: "run_state \<Rightarrow> bool" where
  "isRunTerminal s \<longleftrightarrow> rs_status s \<noteq> RunRunning"

text \<open>The status a \<open>runtime.run.completed\<close> payload ends the run with.\<close>

definition completedRunStatus :: "json \<Rightarrow> run_status" where
  "completedRunStatus payload =
     (case truthy (readString (asObject payload) ''error'') of
        Some _ \<Rightarrow> RunFailed | None \<Rightarrow> RunCompleted)"

definition isRunParked :: "run_state \<Rightarrow> bool" where
  "isRunParked s =
     (if isRunTerminal s then True
      else if rs_outstandingEffects s \<noteq> [] then False
      else if rs_threads s = [] then False
      else list_all (\<lambda>r. thr_status r = Waiting \<or> thr_status r = Completed
             \<or> thr_status r = Failed \<or> thr_status r = Cancelled) (dvals (rs_threads s)))"

text \<open>
  \<open>descendantThreadIds\<close> walks every record's chain of parents. The walk of one record is the
  \<open>while (parentThreadId)\<close> loop of the code, which does not return on a cycle of parents that does
  not meet the target: \<open>None\<close> is "does not return".
\<close>

partial_function (option) isDescendant ::
  "run_state \<Rightarrow> string \<Rightarrow> string option \<Rightarrow> bool option" where
  "isDescendant s target parent =
     (case truthy parent of
        None \<Rightarrow> Some False
      | Some p \<Rightarrow>
          if p = target then Some True
          else isDescendant s target
                 (case dget (rs_threads s) p of None \<Rightarrow> None | Some r \<Rightarrow> thr_parentThreadId r))"

fun descendantsAmong :: "run_state \<Rightarrow> string \<Rightarrow> thread_record list \<Rightarrow> string list option" where
  "descendantsAmong s target [] = Some []"
| "descendantsAmong s target (r # rs) =
     (case isDescendant s target (thr_parentThreadId r) of
        None \<Rightarrow> None
      | Some b \<Rightarrow> map_option (\<lambda>ids. if b then thr_threadId r # ids else ids)
                    (descendantsAmong s target rs))"

definition descendantThreadIds :: "run_state \<Rightarrow> string \<Rightarrow> string list option" where
  "descendantThreadIds s target = descendantsAmong s target (dvals (rs_threads s))"

section \<open>Reading records back from payloads\<close>

definition readRunLaunchSource :: "json option \<Rightarrow> run_launch_source option" where
  "readRunLaunchSource value =
     (case value of
        Some (JObj fs) \<Rightarrow>
          (case (readString fs ''runId'', readString fs ''threadId'', readString fs ''effectId'',
                 readString fs ''causationId'', readNumber fs ''causationSeq'') of
             (Some r, Some t, Some e, Some c, Some q) \<Rightarrow>
               Some \<lparr>ls_runId = r, ls_threadId = t, ls_effectId = e, ls_causationId = c,
                     ls_causationSeq = q\<rparr>
           | _ \<Rightarrow> None)
      | _ \<Rightarrow> None)"

fun decodeStringRecord :: "json dict \<Rightarrow> string dict option" where
  "decodeStringRecord [] = Some []"
| "decodeStringRecord ((k, JStr v) # fs) = map_option ((#) (k, v)) (decodeStringRecord fs)"
| "decodeStringRecord (_ # fs) = None"

definition readAttributes :: "json option \<Rightarrow> string dict" where
  "readAttributes value =
     (case value of
        Some (JObj fs) \<Rightarrow> withDefault (decodeStringRecord fs) []
      | _ \<Rightarrow> [])"

definition readStoredTrace :: "json option \<Rightarrow> trace_context option" where
  "readStoredTrace value =
     (case value of
        Some (JObj fs) \<Rightarrow>
          (case (readString fs ''traceparent'', dget fs ''tracestate'') of
             (Some p, None) \<Rightarrow> Some \<lparr>tr_traceparent = p, tr_tracestate = None\<rparr>
           | (Some p, Some (JStr st)) \<Rightarrow> Some \<lparr>tr_traceparent = p, tr_tracestate = Some st\<rparr>
           | _ \<Rightarrow> None)
      | _ \<Rightarrow> None)"

section \<open>Termination of the walk over parents\<close>

text \<open>
  The parents of the recorded threads form no cycle: every thread can be given a rank that its
  parent, when it is recorded, exceeds in no case.
\<close>

definition parentRanked :: "run_state \<Rightarrow> (string \<Rightarrow> nat) \<Rightarrow> bool" where
  "parentRanked s rank \<longleftrightarrow>
     (\<forall>t r p. dget (rs_threads s) t = Some r \<longrightarrow> thr_parentThreadId r = Some p \<longrightarrow> rank p < rank t)"

text \<open>The specification of the walk: the target is reached by following recorded parents.\<close>

inductive hasAncestor :: "run_state \<Rightarrow> string \<Rightarrow> string option \<Rightarrow> bool" for s target where
  here: "target \<noteq> '''' \<Longrightarrow> hasAncestor s target (Some target)"
| above: "p \<noteq> '''' \<Longrightarrow> dget (rs_threads s) p = Some r \<Longrightarrow> hasAncestor s target (thr_parentThreadId r)
    \<Longrightarrow> hasAncestor s target (Some p)"

lemma hasAncestor_unfold:
  "hasAncestor s target parent \<longleftrightarrow>
     (\<exists>p. truthy parent = Some p \<and> (p = target \<or>
        (\<exists>r. dget (rs_threads s) p = Some r \<and> hasAncestor s target (thr_parentThreadId r))))"
  by (subst hasAncestor.simps) (auto simp: truthy_eq_Some)

lemma hasAncestor_None [simp]: "\<not> hasAncestor s target None"
  by (subst hasAncestor_unfold) simp

lemma isDescendant_returns:
  assumes "parentRanked s rank"
  shows "isDescendant s target parent = Some (hasAncestor s target parent)"
proof (induction "case truthy parent of None \<Rightarrow> 0 | Some p \<Rightarrow> Suc (rank p)"
    arbitrary: parent rule: less_induct)
  case less
  show ?case
  proof (cases "truthy parent")
    case None
    then show ?thesis by (simp add: isDescendant.simps hasAncestor_unfold [of s target parent])
  next
    case (Some p)
    define up where
      "up = (case dget (rs_threads s) p of None \<Rightarrow> None | Some r \<Rightarrow> thr_parentThreadId r)"
    have "(case truthy up of None \<Rightarrow> 0 | Some q \<Rightarrow> Suc (rank q)) < Suc (rank p)"
      using assms by (auto simp: up_def parentRanked_def truthy_def split: option.splits)
    with less [of up] Some have "isDescendant s target up = Some (hasAncestor s target up)"
      by simp
    with Some show ?thesis
      by (simp add: isDescendant.simps [of s target parent] hasAncestor_unfold [of s target parent]
          up_def split: option.splits)
  qed
qed

lemma descendantsAmong_returns:
  "parentRanked s rank \<Longrightarrow> descendantsAmong s target rs =
     Some (map thr_threadId (filter (\<lambda>r. hasAncestor s target (thr_parentThreadId r)) rs))"
  by (induction rs) (simp_all add: isDescendant_returns)

text \<open>
  A thread recorded as its own parent makes the walk for another target diverge: the walk computes no
  value.
\<close>

lemma isDescendant_self_parent:
  assumes "isDescendant s target parent = Some b"
    and "dget (rs_threads s) t = Some r" "thr_parentThreadId r = Some t" "t \<noteq> ''''" "t \<noteq> target"
  shows "parent \<noteq> Some t"
proof -
  let ?P = "\<lambda>s target parent (b :: bool). dget (rs_threads s) t = Some r \<longrightarrow>
    thr_parentThreadId r = Some t \<longrightarrow> t \<noteq> '''' \<longrightarrow> t \<noteq> target \<longrightarrow> parent \<noteq> Some t"
  have "?P s target parent b"
  proof (rule isDescendant.raw_induct [of ?P, OF _ assms(1)])
    fix walk s target parent b
    assume "\<And>s target parent b. walk s target parent = Some b \<Longrightarrow> ?P s target parent b"
      and "(case truthy parent of None \<Rightarrow> Some False
            | Some p \<Rightarrow> if p = target then Some True
                else walk s target (case dget (rs_threads s) p of None \<Rightarrow> None
                       | Some r \<Rightarrow> thr_parentThreadId r)) = Some b"
    then show "?P s target parent b" by (auto split: option.splits if_splits) blast
  qed
  with assms show ?thesis by blast
qed

text \<open>
  The walk over parents returns for every thread when the parents of the run form no cycle, and
  lists exactly the recorded threads that reach the target by following their parents.
\<close>

theorem descendantThreadIds_returns:
  assumes "parentRanked s rank"
  shows "descendantThreadIds s target =
     Some (map thr_threadId
       (filter (\<lambda>r. hasAncestor s target (thr_parentThreadId r)) (dvals (rs_threads s))))"
  using assms by (simp add: descendantThreadIds_def descendantsAmong_returns)

definition sampleThread :: "string \<Rightarrow> string option \<Rightarrow> thread_record" where
  "sampleThread t p = \<lparr>thr_threadId = t, thr_kind = ''workflow'', thr_definitionName = ''d'',
     thr_definitionVersion = ''1'', thr_parentThreadId = p, thr_status = Running,
     thr_input = JNull, thr_output = JNull, thr_error = None, thr_state = JNull\<rparr>"

definition sampleTree :: run_state where
  "sampleTree = (emptyRunState ''r'')\<lparr>rs_threads :=
     [(''a'', sampleThread ''a'' None), (''b'', sampleThread ''b'' (Some ''a''))]\<rparr>"

lemma descendantThreadIds_returns_witness: "descendantThreadIds sampleTree ''a'' = Some [''b'']"
proof -
  have "parentRanked sampleTree (\<lambda>t. if t = ''b'' then 1 else 0)"
    by (auto simp: parentRanked_def sampleTree_def sampleThread_def split: if_splits)
  from descendantThreadIds_returns [OF this, of "''a''"] show ?thesis
    by (simp add: sampleTree_def sampleThread_def hasAncestor.here)
qed

end
