(* ===== verification/Match.thy ===== *)
theory Match
  imports Run_State
begin

text \<open>
  \<open>packages/core/src/match.ts\<close>: the structural pattern a wait compares payloads with, and the waits
  an event satisfies. The \<open>match === payload\<close> shortcut decides primitive values; on two references
  to one array or object it gives what the structural comparison gives (\<open>isSubset_refl\<close>).
\<close>

section \<open>Patterns\<close>

fun isSubset :: "json \<Rightarrow> json \<Rightarrow> bool"
  and isSubsetItems :: "json list \<Rightarrow> json list \<Rightarrow> bool"
  and isSubsetFields :: "json dict \<Rightarrow> json dict \<Rightarrow> bool" where
  "isSubset (JArr ms) p = (case p of JArr ps \<Rightarrow> isSubsetItems ms ps | _ \<Rightarrow> False)"
| "isSubset (JObj fs) p = (case p of JObj ps \<Rightarrow> isSubsetFields fs ps | _ \<Rightarrow> False)"
| "isSubset JNull p = (p = JNull)"
| "isSubset (JBool b) p = (p = JBool b)"
| "isSubset (JNum n) p = (p = JNum n)"
| "isSubset (JStr s) p = (p = JStr s)"
| "isSubsetItems [] ps = (ps = [])"
| "isSubsetItems (m # ms) ps = (case ps of [] \<Rightarrow> False | q # qs \<Rightarrow> isSubset m q \<and> isSubsetItems ms qs)"
| "isSubsetFields [] ps = True"
| "isSubsetFields ((k, expected) # fs) ps =
     (case dget ps k of
        None \<Rightarrow> False
      | Some actual \<Rightarrow> isSubset expected actual \<and> isSubsetFields fs ps)"

text \<open>An object value has each key once; every JSON value the host parses has this form.\<close>

fun wellFormed :: "json \<Rightarrow> bool"
  and wellFormedItems :: "json list \<Rightarrow> bool"
  and wellFormedFields :: "json dict \<Rightarrow> bool" where
  "wellFormed (JArr js) = wellFormedItems js"
| "wellFormed (JObj fs) = (distinct (dkeys fs) \<and> wellFormedFields fs)"
| "wellFormed JNull = True"
| "wellFormed (JBool _) = True"
| "wellFormed (JNum _) = True"
| "wellFormed (JStr _) = True"
| "wellFormedItems [] = True"
| "wellFormedItems (j # js) = (wellFormed j \<and> wellFormedItems js)"
| "wellFormedFields [] = True"
| "wellFormedFields ((k, j) # fs) = (wellFormed j \<and> wellFormedFields fs)"

lemma isSubsetFields_iff:
  "isSubsetFields fs ps \<longleftrightarrow>
     (\<forall>(k, m) \<in> set fs. \<exists>a. dget ps k = Some a \<and> isSubset m a)"
  by (induction fs) (auto split: option.splits)

lemma isSubset_refl: "wellFormed j \<Longrightarrow> isSubset j j"
proof (induction j rule: wellFormed_wellFormedItems_wellFormedFields.induct(1)
    [where Q = "\<lambda>js. wellFormedItems js \<longrightarrow> isSubsetItems js js"
      and R = "\<lambda>fs. wellFormedFields fs \<longrightarrow> (\<forall>(k, j) \<in> set fs. isSubset j j)"])
  case (2 fs)
  then show ?case by (fastforce simp: isSubsetFields_iff)
qed auto

lemma isSubset_trans_aux:
  "isSubset a b \<Longrightarrow> isSubset b c \<Longrightarrow> isSubset a c"
  "isSubsetItems as bs \<Longrightarrow> isSubsetItems bs cs \<Longrightarrow> isSubsetItems as cs"
  "isSubsetFields fs gs \<Longrightarrow> isSubsetFields gs hs \<Longrightarrow> isSubsetFields fs hs"
proof (induction a and as and fs arbitrary: b c and bs cs and gs hs
    rule: wellFormed_wellFormedItems_wellFormedFields.induct)
  case (10 k expected fs)
  from 10(3) obtain b where b: "dget gs k = Some b" "isSubset expected b" "isSubsetFields fs gs"
    by (auto split: option.splits)
  from 10(4) b(1) obtain c where c: "dget hs k = Some c" "isSubset b c"
    by (fastforce simp: isSubsetFields_iff dest: map_of_SomeD)
  from 10(1) [OF b(2) c(2)] 10(2) [OF b(3) 10(4)] c(1) show ?case by simp
qed (auto split: json.splits list.splits)

section \<open>Waits\<close>

fun eventTypesInclude :: "event_types \<Rightarrow> string \<Rightarrow> bool" where
  "eventTypesInclude (OneType t) type = (type = t)"
| "eventTypesInclude (AnyType ts) type = List.member ts type"

definition matchesWait :: "envelope \<Rightarrow> wait_condition \<Rightarrow> bool" where
  "matchesWait event on = (case on of
     WaitOnTimer _ \<Rightarrow> ev_type event = ''runtime.timer.fired''
   | WaitOnEvent ts m \<Rightarrow>
       if \<not> eventTypesInclude ts (ev_type event) then False
       else (case m of None \<Rightarrow> True | Some pat \<Rightarrow> isSubset pat (ev_payload event)))"

definition matchingWait :: "envelope \<Rightarrow> wait_record \<Rightarrow> bool" where
  "matchingWait event w = (case wt_on w of
     WaitOnTimer _ \<Rightarrow>
       ev_type event = ''runtime.timer.fired''
       \<and> readString (asObject (ev_payload event)) ''waitId'' = Some (wt_waitId w)
   | WaitOnEvent _ _ \<Rightarrow> matchesWait event (wt_on w))"

definition matchingWaits :: "envelope \<Rightarrow> wait_record list \<Rightarrow> wait_record list" where
  "matchingWaits event waits = filter (matchingWait event) waits"

text \<open>
  Patterns compose: what matches a payload that is itself used as a pattern matches everything
  the payload matches. A wait whose pattern is weakened therefore keeps every event it accepted.
\<close>

theorem matchesWait_weaker_pattern:
  assumes "matchesWait event (WaitOnEvent ts (Some strong))" and "isSubset weak strong"
  shows "matchesWait event (WaitOnEvent ts (Some weak))"
  using assms by (auto simp: matchesWait_def split: if_splits dest: isSubset_trans_aux(1))

lemma matchesWait_weaker_pattern_witness:
  "matchesWait (createEvent (''e'', 0) ''r'' (eventInput ''a''
       (JObj [(''x'', JNum 1), (''y'', JNum 2)])) 0)
     (WaitOnEvent (OneType ''a'') (Some (JObj [(''x'', JNum 1)])))"
  by (rule matchesWait_weaker_pattern [where strong = "JObj [(''y'', JNum 2), (''x'', JNum 1)]"])
     (simp_all add: matchesWait_def)

text \<open>
A timer event resumes the one wait it names and no other timer wait, whatever their due times:
  of the waits of a run, filed under their ids, the timer waits it matches all have the id in the
  payload.
\<close>

theorem matchingWaits_timer:
  assumes "keyed wt_waitId waits"
    and "w \<in> set (matchingWaits event (dvals waits))" and "wt_on w = WaitOnTimer due"
    and "w' \<in> set (matchingWaits event (dvals waits))" and "wt_on w' = WaitOnTimer due'"
  shows "w = w'"
proof -
  from assms have "wt_waitId w = wt_waitId w'"
    by (auto simp: matchingWaits_def matchingWait_def)
  moreover have "w \<in> set (dvals waits)" "w' \<in> set (dvals waits)"
    using assms(2,4) unfolding matchingWaits_def set_filter by blast+
  ultimately show ?thesis using keyed_val [OF assms(1)] by (metis option.inject)
qed

definition timerWait :: "string \<Rightarrow> wait_record" where
  "timerWait w = \<lparr>wt_waitId = w, wt_threadId = ''t'', wt_on = WaitOnTimer 5, wt_tag = None\<rparr>"

lemma matchingWaits_timer_witness:
  "\<exists>w. matchingWaits (createEvent (''e'', 0) ''r'' (eventInput ''runtime.timer.fired''
       (JObj [(''waitId'', JStr ''b'')])) 0) [timerWait ''a'', timerWait ''b''] = [w]
     \<and> w = timerWait ''b''"
proof -
  let ?e = "createEvent (''e'', 0) ''r'' (eventInput ''runtime.timer.fired''
    (JObj [(''waitId'', JStr ''b'')])) 0"
  let ?d = "[(''a'', timerWait ''a''), (''b'', timerWait ''b'')]"
  have m: "matchingWaits ?e (dvals ?d) = [timerWait ''b'']"
    by (simp add: matchingWaits_def matchingWait_def timerWait_def readString_def asObject_def)
  have "keyed wt_waitId ?d" by (simp add: keyed_def timerWait_def)
  from matchingWaits_timer [OF this, of "timerWait ''b''" ?e 5 "timerWait ''b''" 5] m
  show ?thesis by (simp add: timerWait_def)
qed

end
