(* ===== verification/Fold.thy ===== *)
theory Fold
  imports Match
begin

text \<open>
  \<open>packages/core/src/fold.ts\<close>: the reducer. \<open>foldEvent\<close> takes the state of a run and one event to
  the next state; a run is the fold of its log. Each branch of \<open>applyProtocol\<close> is a definition of
  its own, named after the event type; \<open>deliver\<close> runs the thread an event is for and reconciles
  its effects.
\<close>

section \<open>Payload and state helpers\<close>

definition payloadObject :: "envelope \<Rightarrow> json dict" where
  "payloadObject event = asObject (ev_payload event)"

definition defaultDefinitionVersion :: string where
  "defaultDefinitionVersion = ''v1''"

definition priorHeartbeatDetails :: "run_state \<Rightarrow> string \<Rightarrow> json" where
  "priorHeartbeatDetails s effectId =
     (case dget (rs_effectExecutions s) effectId of
        None \<Rightarrow> JNull | Some ex \<Rightarrow> ex_heartbeatDetails ex)"

definition nextHeartbeatDetails :: "run_state \<Rightarrow> string \<Rightarrow> envelope \<Rightarrow> json dict \<Rightarrow> json" where
  "nextHeartbeatDetails s effectId event payload =
     (if ev_type event = ''runtime.effect.heartbeat'' \<and> dget payload ''details'' \<noteq> None
      then fieldOrNull payload ''details''
      else priorHeartbeatDetails s effectId)"

definition completeEffect :: "run_state \<Rightarrow> string \<Rightarrow> run_state" where
  "completeEffect s effectId = s\<lparr>
     rs_outstandingEffects := filter (\<lambda>item. oe_effectId item \<noteq> effectId) (rs_outstandingEffects s),
     rs_effectExecutions := ddel effectId (rs_effectExecutions s),
     rs_completedEffectIds :=
       (if List.member (rs_completedEffectIds s) effectId then rs_completedEffectIds s
        else rs_completedEffectIds s @ [effectId])\<rparr>"

definition putThread :: "run_state \<Rightarrow> thread_record \<Rightarrow> run_state" where
  "putThread s r = s\<lparr>rs_threads := dput (thr_threadId r) r (rs_threads s)\<rparr>"

definition addWait :: "run_state \<Rightarrow> wait_record \<Rightarrow> run_state" where
  "addWait s w = s\<lparr>rs_waits := dput (wt_waitId w) w (rs_waits s)\<rparr>"

definition removeWait :: "run_state \<Rightarrow> string \<Rightarrow> run_state" where
  "removeWait s waitId = s\<lparr>rs_waits := ddel waitId (rs_waits s)\<rparr>"

definition threadWaits :: "run_state \<Rightarrow> string \<Rightarrow> wait_record list" where
  "threadWaits s threadId = filter (\<lambda>w. wt_threadId w = threadId) (dvals (rs_waits s))"

definition dropThreadWork :: "run_state \<Rightarrow> string \<Rightarrow> run_state" where
  "dropThreadWork s threadId = s\<lparr>
     rs_waits := filter (\<lambda>(k, w). wt_threadId w \<noteq> threadId) (rs_waits s),
     rs_outstandingEffects := filter (\<lambda>item. oe_threadId item \<noteq> threadId) (rs_outstandingEffects s)\<rparr>"

definition putExecution :: "run_state \<Rightarrow> effect_execution \<Rightarrow> run_state" where
  "putExecution s ex = s\<lparr>rs_effectExecutions := dput (ex_effectId ex) ex (rs_effectExecutions s)\<rparr>"

text \<open>\<open>readString(payload, 'threadId') ?? event.threadId\<close>, tested for truth.\<close>

definition payloadThreadId :: "envelope \<Rightarrow> string option" where
  "payloadThreadId event =
     truthy (orElse (readString (payloadObject event) ''threadId'') (ev_threadId event))"

definition payloadEffectId :: "envelope \<Rightarrow> string option" where
  "payloadEffectId event = truthy (readString (payloadObject event) ''effectId'')"

section \<open>Run events\<close>

definition runStarted :: "run_state \<Rightarrow> envelope \<Rightarrow> run_state" where
  "runStarted s event =
     (let payload = payloadObject event;
          rootThreadId = readString payload ''rootThreadId'';
          definitionVersion =
            withDefault (readString payload ''definitionVersion'') defaultDefinitionVersion;
          startIdentity =
            (case (truthy rootThreadId, truthy (readString payload ''kind''),
                   truthy (readString payload ''definitionName''), truthy (Some definitionVersion)) of
               (Some rootId, Some kind, Some name, Some version) \<Rightarrow>
                 Some \<lparr>si_kind = kind, si_definitionName = name, si_definitionVersion = version,
                   si_input = fieldOrNull payload ''input'',
                   si_requestedThreadId = readString payload ''requestedThreadId'',
                   si_idempotencyKey = ev_idempotencyKey event,
                   si_rootThreadId = rootId,
                   si_launchedBy = readRunLaunchSource (dget payload ''launchedBy''),
                   si_correlationId = ev_correlationId event,
                   si_attributes = readAttributes (dget payload ''attributes''),
                   si_trace = readStoredTrace (dget payload ''trace'')\<rparr>
             | _ \<Rightarrow> None)
      in s\<lparr>rs_runId := ev_runId event, rs_rootThreadId := rootThreadId,
           rs_startIdentity := startIdentity,
           rs_attributes := (case startIdentity of None \<Rightarrow> [] | Some i \<Rightarrow> si_attributes i),
           rs_status := RunRunning\<rparr>)"

definition runCompleted :: "run_state \<Rightarrow> envelope \<Rightarrow> run_state" where
  "runCompleted s event = s\<lparr>rs_status := completedRunStatus (JObj (payloadObject event))\<rparr>"

definition runCancelled :: "run_state \<Rightarrow> run_state" where
  "runCancelled s = s\<lparr>rs_status := RunCancelled\<rparr>"

definition runForked :: "run_state \<Rightarrow> envelope \<Rightarrow> run_state" where
  "runForked s event =
     (let payload = payloadObject event in
      case (truthy (readString payload ''sourceRunId''), readNumber payload ''sourceSeq'') of
        (Some r, Some q) \<Rightarrow> s\<lparr>rs_forkedFrom := Some (r, q), rs_effectExecutions := []\<rparr>
      | _ \<Rightarrow> s)"

definition runLaunched :: "run_state \<Rightarrow> envelope \<Rightarrow> run_state" where
  "runLaunched s event =
     (let payload = payloadObject event in
      case truthy (readString payload ''runId'') of
        None \<Rightarrow> s
      | Some child \<Rightarrow>
          if list_ex (\<lambda>r. lr_runId r = child) (rs_launchedRuns s) then s
          else let close = readString payload ''close'' in
            if close = Some ''terminate'' then
              s\<lparr>rs_launchedRuns := rs_launchedRuns s @ [\<lparr>lr_runId = child, lr_close = Terminate\<rparr>]\<rparr>
            else if close = Some ''wait'' then
              s\<lparr>rs_launchedRuns := rs_launchedRuns s @ [\<lparr>lr_runId = child, lr_close = WaitChildren\<rparr>]\<rparr>
            else s)"

definition childSettled :: "run_state \<Rightarrow> envelope \<Rightarrow> run_state" where
  "childSettled s event =
     (case truthy (readString (payloadObject event) ''runId'') of
        None \<Rightarrow> s
      | Some child \<Rightarrow>
          s\<lparr>rs_launchedRuns := filter (\<lambda>r. lr_runId r \<noteq> child) (rs_launchedRuns s)\<rparr>)"

definition childCloseRequested :: "run_state \<Rightarrow> envelope \<Rightarrow> run_state" where
  "childCloseRequested s event = s\<lparr>rs_childCloseSent := True,
     rs_closeWaiting :=
       (if readString (payloadObject event) ''policy'' = Some ''wait'' then True
        else rs_closeWaiting s)\<rparr>"

section \<open>Thread events\<close>

definition threadStarted :: "registry \<Rightarrow> run_state \<Rightarrow> envelope \<Rightarrow> run_state" where
  "threadStarted reg s event =
     (let payload = payloadObject event;
          definitionVersion =
            withDefault (readString payload ''definitionVersion'') defaultDefinitionVersion in
      case (payloadThreadId event, truthy (readString payload ''kind''),
            truthy (readString payload ''definitionName'')) of
        (Some threadId, Some kind, Some name) \<Rightarrow>
          (let parent = readString payload ''parentThreadId'';
               input = fieldOrNull payload ''input'';
               definition = dget (rg_threads reg) kind;
               record = \<lparr>thr_threadId = threadId, thr_kind = kind, thr_definitionName = name,
                 thr_definitionVersion = definitionVersion, thr_parentThreadId = parent,
                 thr_status = (if definition \<noteq> None then Running else Failed),
                 thr_input = input, thr_output = JNull,
                 thr_error = (if definition \<noteq> None then None
                              else Some (''Unsupported thread kind: '' @ kind)),
                 thr_state = (case definition of
                    None \<Rightarrow> JObj []
                  | Some d \<Rightarrow> td_initialState d
                      \<lparr>sc_runId = ev_runId event, sc_threadId = threadId, sc_parentThreadId = parent,
                       sc_definitionName = name, sc_definitionVersion = definitionVersion,
                       sc_input = input\<rparr>)\<rparr>;
               next_state = putThread s record
           in if truthy (rs_rootThreadId next_state) = None
              then next_state\<lparr>rs_rootThreadId := Some threadId\<rparr>
              else next_state)
      | _ \<Rightarrow> s)"

text \<open>The record a thread event is about: its payload thread, when that thread is recorded.\<close>

definition eventThread :: "run_state \<Rightarrow> envelope \<Rightarrow> thread_record option" where
  "eventThread s event = Option.bind (payloadThreadId event) (dget (rs_threads s))"

definition threadCompleted :: "run_state \<Rightarrow> envelope \<Rightarrow> run_state" where
  "threadCompleted s event =
     (case eventThread s event of
        None \<Rightarrow> s
      | Some r \<Rightarrow> putThread s (r\<lparr>thr_status := Completed,
          thr_output := fieldOrNull (payloadObject event) ''output'', thr_error := None\<rparr>))"

definition threadFailed :: "run_state \<Rightarrow> envelope \<Rightarrow> run_state" where
  "threadFailed s event =
     (case payloadThreadId event of
        None \<Rightarrow> s
      | Some threadId \<Rightarrow>
          (case dget (rs_threads s) threadId of
             None \<Rightarrow> s
           | Some r \<Rightarrow>
               dropThreadWork (putThread s (r\<lparr>thr_status := Failed,
                 thr_error := Some (withDefault (readString (payloadObject event) ''error'') ''failed'')\<rparr>))
                 threadId))"

definition threadCancelled :: "run_state \<Rightarrow> envelope \<Rightarrow> run_state" where
  "threadCancelled s event =
     (case payloadThreadId event of
        None \<Rightarrow> s
      | Some threadId \<Rightarrow>
          (case dget (rs_threads s) threadId of
             None \<Rightarrow> s
           | Some r \<Rightarrow>
               if isTerminalStatus (thr_status r) then s
               else dropThreadWork (putThread s (r\<lparr>thr_status := Cancelled,
                 thr_error := orElse (readString (payloadObject event) ''reason'') (thr_error r)\<rparr>))
                 threadId))"

section \<open>Effect executions\<close>

text \<open>The effect and attempt an execution event names, when both are present.\<close>

definition payloadAttempt :: "envelope \<Rightarrow> (string \<times> number) option" where
  "payloadAttempt event =
     (case (payloadEffectId event, readNumber (payloadObject event) ''attempt'') of
        (Some i, Some n) \<Rightarrow> Some (i, n) | _ \<Rightarrow> None)"

definition attemptStarted :: "run_state \<Rightarrow> envelope \<Rightarrow> run_state" where
  "attemptStarted s event =
     (case payloadAttempt event of
        None \<Rightarrow> s
      | Some (i, n) \<Rightarrow> putExecution s
          \<lparr>ex_effectId = i, ex_attempt = n, ex_status = RunningHere, ex_nextAttemptAt = None,
           ex_deadlineAt = None, ex_startedAt = Some (ev_ts event), ex_lastHeartbeatAt = None,
           ex_heartbeatDetails = priorHeartbeatDetails s i, ex_lastError = None,
           ex_dispatchTry = 0\<rparr>)"

definition executionStatusOf :: "string \<Rightarrow> execution_status" where
  "executionStatusOf t =
     (if t = ''runtime.effect.queued'' then Queued
      else if t = ''runtime.effect.dispatched'' then Dispatched
      else if t = ''runtime.effect.worker.started'' then Started
      else if t = ''runtime.effect.heartbeat'' then Heartbeat
      else if t = ''runtime.effect.cancel.requested'' then CancelRequested
      else if t = ''runtime.effect.timed_out'' then TimedOut
      else Ambiguous)"

definition executionProgress :: "run_state \<Rightarrow> envelope \<Rightarrow> run_state" where
  "executionProgress s event =
     (case payloadAttempt event of
        None \<Rightarrow> s
      | Some (i, n) \<Rightarrow>
          (let payload = payloadObject event;
               previous = dget (rs_effectExecutions s) i;
               sameAttempt = (case previous of None \<Rightarrow> None
                              | Some p \<Rightarrow> if ex_attempt p = n then Some p else None)
           in putExecution s
             \<lparr>ex_effectId = i, ex_attempt = n, ex_status = executionStatusOf (ev_type event),
              ex_nextAttemptAt = None,
              ex_deadlineAt = readNumber payload ''deadlineAt'',
              ex_startedAt = (if ev_type event = ''runtime.effect.worker.started'' then Some (ev_ts event)
                              else Option.bind sameAttempt ex_startedAt),
              ex_lastHeartbeatAt = (case readNumber payload ''heartbeatAt'' of
                                      Some h \<Rightarrow> Some h
                                    | None \<Rightarrow> Option.bind sameAttempt ex_lastHeartbeatAt),
              ex_heartbeatDetails = nextHeartbeatDetails s i event payload,
              ex_lastError = readString payload ''error'',
              ex_dispatchTry = (case sameAttempt of None \<Rightarrow> 0 | Some p \<Rightarrow> ex_dispatchTry p)\<rparr>))"

definition dispatchDeferred :: "run_state \<Rightarrow> envelope \<Rightarrow> run_state" where
  "dispatchDeferred s event =
     (let payload = payloadObject event in
      case (payloadAttempt event, readNumber payload ''retryAt'', readNumber payload ''try'') of
        (Some (i, n), Some retryAt, Some dispatchTry) \<Rightarrow> putExecution s
          \<lparr>ex_effectId = i, ex_attempt = n, ex_status = DispatchWait, ex_nextAttemptAt = Some retryAt,
           ex_deadlineAt = Some retryAt, ex_startedAt = None, ex_lastHeartbeatAt = None,
           ex_heartbeatDetails = priorHeartbeatDetails s i,
           ex_lastError = Some (withDefault (readString payload ''error'') ''worker dispatch deferred''),
           ex_dispatchTry = dispatchTry\<rparr>
      | _ \<Rightarrow> s)"

definition effectCancelled :: "run_state \<Rightarrow> envelope \<Rightarrow> run_state" where
  "effectCancelled s event =
     (case payloadEffectId event of None \<Rightarrow> s | Some i \<Rightarrow> completeEffect s i)"

definition retryScheduled :: "run_state \<Rightarrow> envelope \<Rightarrow> run_state" where
  "retryScheduled s event =
     (let payload = payloadObject event in
      case (payloadAttempt event, readNumber payload ''nextAttemptAt'') of
        (Some (i, n), Some t) \<Rightarrow> putExecution s
          \<lparr>ex_effectId = i, ex_attempt = n, ex_status = RetryWait, ex_nextAttemptAt = Some t,
           ex_deadlineAt = Some t, ex_startedAt = None, ex_lastHeartbeatAt = None,
           ex_heartbeatDetails = priorHeartbeatDetails s i,
           ex_lastError = Some (withDefault (readString payload ''error'') ''effect failed''),
           ex_dispatchTry = 0\<rparr>
      | _ \<Rightarrow> s)"

section \<open>Waits\<close>

definition waitRegistered :: "run_state \<Rightarrow> envelope \<Rightarrow> run_state" where
  "waitRegistered s event =
     (let payload = payloadObject event in
      case (truthy (readString payload ''waitId''), payloadThreadId event, dget payload ''on'') of
        (Some waitId, Some threadId, Some (JObj on)) \<Rightarrow>
          (case decodeWaitCondition on of
             None \<Rightarrow> s
           | Some condition \<Rightarrow>
               (let next_state = addWait s \<lparr>wt_waitId = waitId, wt_threadId = threadId,
                      wt_on = condition, wt_tag = dget payload ''tag''\<rparr>
                in case dget (rs_threads next_state) threadId of
                     None \<Rightarrow> next_state
                   | Some r \<Rightarrow>
                       if isTerminalStatus (thr_status r) then next_state
                       else putThread next_state (r\<lparr>thr_status := Waiting\<rparr>)))
      | _ \<Rightarrow> s)"

text \<open>The race a wait belongs to: the \<open>raceId\<close> of an object tag.\<close>

definition tagRace :: "wait_record \<Rightarrow> string option" where
  "tagRace w = (case wt_tag w of Some (JObj fs) \<Rightarrow> readString fs ''raceId'' | _ \<Rightarrow> None)"

definition removeRace :: "run_state \<Rightarrow> string \<Rightarrow> run_state" where
  "removeRace s raceId =
     foldl (\<lambda>n sibling. if tagRace sibling = Some raceId then removeWait n (wt_waitId sibling) else n)
       s (dvals (rs_waits s))"

definition waitSatisfied :: "run_state \<Rightarrow> envelope \<Rightarrow> run_state" where
  "waitSatisfied s event =
     (case truthy (readString (payloadObject event) ''waitId'') of
        None \<Rightarrow> s
      | Some waitId \<Rightarrow>
          (let existingWait = dget (rs_waits s) waitId;
               removed = removeWait s waitId;
               next_state = (case truthy (Option.bind existingWait tagRace) of
                               None \<Rightarrow> removed | Some raceId \<Rightarrow> removeRace removed raceId)
           in case truthy (orElse (map_option wt_threadId existingWait) (ev_threadId event)) of
                None \<Rightarrow> next_state
              | Some threadId \<Rightarrow>
                  (case dget (rs_threads next_state) threadId of
                     None \<Rightarrow> next_state
                   | Some r \<Rightarrow>
                       if thr_status r = Waiting \<and> threadWaits next_state threadId = []
                       then putThread next_state (r\<lparr>thr_status := Running\<rparr>)
                       else next_state)))"

section \<open>The protocol\<close>

definition progressTypes :: "string list" where
  "progressTypes =
     [''runtime.effect.queued'', ''runtime.effect.dispatched'', ''runtime.effect.worker.started'',
      ''runtime.effect.heartbeat'', ''runtime.effect.cancel.requested'', ''runtime.effect.timed_out'',
      ''runtime.effect.ambiguous'']"

text \<open>The \<open>switch\<close> on the event type; every other type leaves the state alone.\<close>

definition applyProtocol :: "registry \<Rightarrow> run_state \<Rightarrow> envelope \<Rightarrow> run_state" where
  "applyProtocol reg s event =
     (let t = ev_type event in
      if t = ''runtime.run.started'' then runStarted s event
      else if t = ''runtime.run.completed'' then runCompleted s event
      else if t = ''runtime.run.cancelled'' then runCancelled s
      else if t = ''runtime.run.forked'' then runForked s event
      else if t = ''runtime.thread.started'' then threadStarted reg s event
      else if t = ''runtime.thread.completed'' then threadCompleted s event
      else if t = ''runtime.thread.failed'' then threadFailed s event
      else if t = ''runtime.thread.cancelled'' then threadCancelled s event
      else if t = ''runtime.effect.attempt.started'' then attemptStarted s event
      else if List.member progressTypes t then executionProgress s event
      else if t = ''runtime.effect.dispatch.deferred'' then dispatchDeferred s event
      else if t = ''runtime.effect.cancelled'' then effectCancelled s event
      else if t = ''runtime.effect.retry.scheduled'' then retryScheduled s event
      else if t = ''runtime.wait.registered'' then waitRegistered s event
      else if t = ''runtime.wait.satisfied'' then waitSatisfied s event
      else if t = ''runtime.run.launched'' then runLaunched s event
      else if t = ''runtime.child.settled'' then childSettled s event
      else if t = ''runtime.child.close.requested'' then childCloseRequested s event
      else s)"

section \<open>Identity of effects\<close>

text \<open>The tag of an effect, when it is a string.\<close>

definition effectTag :: "runtime_effect \<Rightarrow> string option" where
  "effectTag e = (case e of
     WaitEffect _ _ (Some (JStr t)) \<Rightarrow> Some t
   | EmitEffect _ tag \<Rightarrow> tag
   | CancelEffect _ tag \<Rightarrow> tag
   | LaunchEffect _ _ _ _ _ _ tag \<Rightarrow> tag
   | CancelRunEffect _ tag \<Rightarrow> tag
   | InvokeEffect _ _ tag _ \<Rightarrow> tag
   | _ \<Rightarrow> None)"

text \<open>The id an effect keeps across folds when it names itself by tag, wait id or child thread.\<close>

definition stableEffectId :: "string \<Rightarrow> runtime_effect \<Rightarrow> string option" where
  "stableEffectId threadId e =
     (case effectTag e of
        Some tag \<Rightarrow> Some (createTaggedEffectId threadId tag)
      | None \<Rightarrow>
          (case e of
             WaitEffect waitId _ _ \<Rightarrow> Some (createTaggedEffectId threadId waitId)
           | SpawnEffect child _ _ _ _ \<Rightarrow> Some (createTaggedEffectId threadId (''spawn_'' @ child))
           | CancelEffect t _ \<Rightarrow> Some (createTaggedEffectId threadId (''cancel_'' @ t))
           | LaunchEffect r _ _ _ _ _ _ \<Rightarrow> Some (createTaggedEffectId threadId (''launch_'' @ r))
           | CancelRunEffect r _ \<Rightarrow> Some (createTaggedEffectId threadId (''cancel_'' @ r))
           | _ \<Rightarrow> None))"

fun jsonEquals :: "json \<Rightarrow> json \<Rightarrow> bool"
  and jsonEqualsItems :: "json list \<Rightarrow> json list \<Rightarrow> bool"
  and jsonEqualsFields :: "json dict \<Rightarrow> json dict \<Rightarrow> bool" where
  "jsonEquals (JArr ls) r = (case r of JArr rs \<Rightarrow> jsonEqualsItems ls rs | _ \<Rightarrow> False)"
| "jsonEquals (JObj ls) r =
     (case r of JObj rs \<Rightarrow> length ls = length rs \<and> jsonEqualsFields ls rs | _ \<Rightarrow> False)"
| "jsonEquals JNull r = (r = JNull)"
| "jsonEquals (JBool b) r = (r = JBool b)"
| "jsonEquals (JNum n) r = (r = JNum n)"
| "jsonEquals (JStr t) r = (r = JStr t)"
| "jsonEqualsItems [] rs = (rs = [])"
| "jsonEqualsItems (l # ls) rs =
     (case rs of [] \<Rightarrow> False | r # rs' \<Rightarrow> jsonEquals l r \<and> jsonEqualsItems ls rs')"
| "jsonEqualsFields [] rs = True"
| "jsonEqualsFields ((k, l) # ls) rs =
     (case dget rs k of None \<Rightarrow> False | Some r \<Rightarrow> jsonEquals l r \<and> jsonEqualsFields ls rs)"

text \<open>
  An untagged effect that \<open>runtime.effect.completed\<close> settles with no outcome; the thread asking for
  the same effect from that very event asks nothing new.
\<close>

definition settledWithoutOutcome :: "run_state \<Rightarrow> envelope \<Rightarrow> outstanding_effect option" where
  "settledWithoutOutcome s event =
     (case truthy (ev_effectId event) of
        None \<Rightarrow> None
      | Some i \<Rightarrow>
          if ev_type event \<noteq> ''runtime.effect.completed'' then None
          else (case find (\<lambda>item. oe_effectId item = i) (rs_outstandingEffects s) of
                  None \<Rightarrow> None
                | Some item \<Rightarrow>
                    if stableEffectId (oe_threadId item) (oe_effect item) = None then Some item
                    else None))"

section \<open>Reconciliation\<close>

text \<open>What an enabled effect is matched by among the remaining outstanding ones.\<close>

definition sameEffect :: "string option \<Rightarrow> runtime_effect \<Rightarrow> outstanding_effect \<Rightarrow> bool" where
  "sameEffect stableId e item =
     (case stableId of
        None \<Rightarrow> effectType (oe_effect item) = effectType e
      | Some i \<Rightarrow> oe_effectId item = i)"

definition asksNothingNew :: "string \<Rightarrow> outstanding_effect option \<Rightarrow> runtime_effect \<Rightarrow> bool" where
  "asksNothingNew threadId settled e =
     (case settled of
        None \<Rightarrow> False
      | Some x \<Rightarrow> oe_threadId x = threadId
                  \<and> jsonEquals (effectJson (oe_effect x)) (effectJson e))"

fun mapEnabled :: "string \<Rightarrow> envelope \<Rightarrow> outstanding_effect option \<Rightarrow> nat \<Rightarrow> runtime_effect list \<Rightarrow>
    outstanding_effect list \<Rightarrow> outstanding_effect list" where
  "mapEnabled threadId event settled index [] remaining = []"
| "mapEnabled threadId event settled index (e # es) remaining =
     (let stableId = stableEffectId threadId e;
          (existing, remaining') = takeFirst (sameEffect stableId e) remaining;
          rest = mapEnabled threadId event settled (Suc index) es remaining'
      in case existing of
           Some item \<Rightarrow> item # rest
         | None \<Rightarrow>
             if stableId = None \<and> asksNothingNew threadId settled e then rest
             else \<lparr>oe_effectId = withDefault stableId (createEffectId threadId (ev_seq event) index),
                   oe_threadId = threadId, oe_causingSeq = ev_seq event,
                   oe_causingEventId = ev_id event, oe_effect = e\<rparr> # rest)"

definition mapEffects :: "string \<Rightarrow> envelope \<Rightarrow> runtime_effect list \<Rightarrow> string list \<Rightarrow>
    outstanding_effect list \<Rightarrow> outstanding_effect option \<Rightarrow> outstanding_effect list" where
  "mapEffects threadId event effects completed existingForThread settled =
     filter (\<lambda>item. \<not> List.member completed (oe_effectId item))
       (mapEnabled threadId event settled 0 effects existingForThread)"

definition reconcileEffects :: "run_state \<Rightarrow> string \<Rightarrow> envelope \<Rightarrow> runtime_effect list \<Rightarrow>
    outstanding_effect option \<Rightarrow> run_state" where
  "reconcileEffects s threadId event effects settled =
     (let others = filter (\<lambda>item. oe_threadId item \<noteq> threadId) (rs_outstandingEffects s);
          existingForThread = filter (\<lambda>item. oe_threadId item = threadId) (rs_outstandingEffects s);
          terminal = (case dget (rs_threads s) threadId of
                        None \<Rightarrow> False | Some r \<Rightarrow> isTerminalStatus (thr_status r))
      in if terminal then s\<lparr>rs_outstandingEffects := others\<rparr>
         else s\<lparr>rs_outstandingEffects := others @
            mapEffects threadId event effects (rs_completedEffectIds s) existingForThread settled\<rparr>)"

definition enabledEffectIds :: "string \<Rightarrow> runtime_effect list \<Rightarrow> string list" where
  "enabledEffectIds threadId enabled = List.map_filter (stableEffectId threadId) enabled"

text \<open>Drop the completed effect ids a thread no longer returns from \<open>effects()\<close>.\<close>

definition forgetCompletedEffects :: "run_state \<Rightarrow> string \<Rightarrow> runtime_effect list \<Rightarrow> run_state" where
  "forgetCompletedEffects s threadId enabled = s\<lparr>rs_completedEffectIds :=
     filter (\<lambda>i. \<not> startsWith i (threadId @ '':'') \<or> List.member (enabledEffectIds threadId enabled) i)
       (rs_completedEffectIds s)\<rparr>"

section \<open>Delivery\<close>

text \<open>The thread an event is delivered to: its own, or the root thread for an external event.\<close>

definition targetThread :: "run_state \<Rightarrow> envelope \<Rightarrow> string option" where
  "targetThread s event =
     truthy (case ev_threadId event of
       Some t \<Rightarrow> Some t
     | None \<Rightarrow> (case ev_origin event of OriginExternal _ \<Rightarrow> rs_rootThreadId s | _ \<Rightarrow> None))"

definition deliver :: "registry \<Rightarrow> run_state \<Rightarrow> envelope \<Rightarrow> outstanding_effect option \<Rightarrow> run_state" where
  "deliver reg s event settled =
     (case targetThread s event of
        None \<Rightarrow> s
      | Some threadId \<Rightarrow>
          (case dget (rs_threads s) threadId of
             None \<Rightarrow> s
           | Some r \<Rightarrow>
               if isTerminalStatus (thr_status r) then s
               else (case dget (rg_threads reg) (thr_kind r) of
                       None \<Rightarrow> s
                     | Some d \<Rightarrow>
                         (let ctx = \<lparr>tc_runId = rs_runId s, tc_threadId = threadId,
                                tc_parentThreadId = thr_parentThreadId r\<rparr>;
                              nextState = td_step d (thr_state r) event ctx;
                              enabled = td_effects d nextState ctx;
                              reconciled = reconcileEffects (putThread s (r\<lparr>thr_state := nextState\<rparr>))
                                threadId event enabled settled
                          in if td_forgetsCompletedEffects d
                             then forgetCompletedEffects reconciled threadId enabled
                             else reconciled))))"

definition failUnhandledEffect :: "run_state \<Rightarrow> envelope \<Rightarrow> string list \<Rightarrow> run_state" where
  "failUnhandledEffect s event before =
     (if ev_type event \<noteq> ''runtime.effect.failed'' then s
      else let error = withDefault (readString (payloadObject event) ''error'') ''effect failed'' in
        if isWithdrawnError error then s
        else if list_ex (\<lambda>item. \<not> List.member before (oe_effectId item)) (rs_outstandingEffects s) then s
        else (case truthy (ev_threadId event) of
                None \<Rightarrow> s
              | Some threadId \<Rightarrow>
                  (case dget (rs_threads s) threadId of
                     None \<Rightarrow> s
                   | Some r \<Rightarrow>
                       if isTerminalStatus (thr_status r) then s
                       else dropThreadWork
                         (putThread s (r\<lparr>thr_status := Failed, thr_error := Some error\<rparr>)) threadId)))"

section \<open>The fold\<close>

definition adoptRunId :: "run_state \<Rightarrow> envelope \<Rightarrow> run_state" where
  "adoptRunId s event =
     (if ev_runId event \<noteq> '''' \<and> rs_runId s \<noteq> ev_runId event then s\<lparr>rs_runId := ev_runId event\<rparr> else s)"

definition settleEffect :: "run_state \<Rightarrow> envelope \<Rightarrow> run_state" where
  "settleEffect s event =
     (case truthy (ev_effectId event) of None \<Rightarrow> s | Some i \<Rightarrow> completeEffect s i)"

definition recordIdempotencyKey :: "run_state \<Rightarrow> envelope \<Rightarrow> run_state" where
  "recordIdempotencyKey s event =
     (case truthy (ev_idempotencyKey event) of
        None \<Rightarrow> s
      | Some k \<Rightarrow>
          if List.member (rs_processedIdempotencyKeys s) k then s
          else s\<lparr>rs_processedIdempotencyKeys := rs_processedIdempotencyKeys s @ [k]\<rparr>)"

definition outstandingIds :: "run_state \<Rightarrow> string list" where
  "outstandingIds s = map oe_effectId (rs_outstandingEffects s)"

definition foldEvent :: "registry \<Rightarrow> run_state \<Rightarrow> envelope \<Rightarrow> run_state" where
  "foldEvent reg s event =
     (if ev_ephemeral event then s
      else let adopted = adoptRunId s event;
               settled = settledWithoutOutcome adopted event;
               protocol = applyProtocol reg
                 (recordIdempotencyKey (settleEffect adopted event) event) event
           in failUnhandledEffect (deliver reg protocol event settled) event (outstandingIds protocol))"

definition foldRun :: "registry \<Rightarrow> run_state \<Rightarrow> envelope list \<Rightarrow> run_state" where
  "foldRun reg initial events = foldl (foldEvent reg) initial events"

lemma foldRun_append [simp]:
  "foldRun reg s (xs @ ys) = foldRun reg (foldRun reg s xs) ys"
  by (simp add: foldRun_def)

lemma foldRun_simps [simp]:
  "foldRun reg s [] = s" "foldRun reg s (e # es) = foldRun reg (foldEvent reg s e) es"
  by (simp_all add: foldRun_def)

lemma foldEvent_ephemeral [simp]: "ev_ephemeral e \<Longrightarrow> foldEvent reg s e = s"
  by (simp add: foldEvent_def)

end
