(* ===== verification/Fold_Invariants.thy ===== *)
theory Fold_Invariants
  imports Fold
begin

text \<open>
  What the fold keeps and promises. \<open>run_ok\<close> is the well-formedness of a run state: dictionaries
  filed under their ids, no id twice in a list of ids, and no effect both outstanding and completed.
  The locale \<open>run_fold\<close> is the contract between the reducer and everything that replays a log with
  it: an initial state and a step that keeps an invariant. It is interpreted on \<open>foldEvent\<close>.
\<close>

section \<open>Frames of the helpers\<close>

lemma putThread_simps [simp]:
  "rs_threads (putThread s r) = dput (thr_threadId r) r (rs_threads s)"
  "rs_waits (putThread s r) = rs_waits s"
  "rs_outstandingEffects (putThread s r) = rs_outstandingEffects s"
  "rs_effectExecutions (putThread s r) = rs_effectExecutions s"
  "rs_completedEffectIds (putThread s r) = rs_completedEffectIds s"
  "rs_processedIdempotencyKeys (putThread s r) = rs_processedIdempotencyKeys s"
  "rs_launchedRuns (putThread s r) = rs_launchedRuns s"
  "rs_status (putThread s r) = rs_status s"
  "rs_rootThreadId (putThread s r) = rs_rootThreadId s"
  "rs_runId (putThread s r) = rs_runId s"
  by (simp_all add: putThread_def)

lemma dropThreadWork_simps [simp]:
  "rs_threads (dropThreadWork s t) = rs_threads s"
  "rs_waits (dropThreadWork s t) = filter (\<lambda>(k, w). wt_threadId w \<noteq> t) (rs_waits s)"
  "rs_outstandingEffects (dropThreadWork s t)
     = filter (\<lambda>item. oe_threadId item \<noteq> t) (rs_outstandingEffects s)"
  "rs_effectExecutions (dropThreadWork s t) = rs_effectExecutions s"
  "rs_completedEffectIds (dropThreadWork s t) = rs_completedEffectIds s"
  "rs_processedIdempotencyKeys (dropThreadWork s t) = rs_processedIdempotencyKeys s"
  "rs_launchedRuns (dropThreadWork s t) = rs_launchedRuns s"
  "rs_status (dropThreadWork s t) = rs_status s"
  by (simp_all add: dropThreadWork_def)

lemma putExecution_simps [simp]:
  "rs_threads (putExecution s x) = rs_threads s"
  "rs_waits (putExecution s x) = rs_waits s"
  "rs_outstandingEffects (putExecution s x) = rs_outstandingEffects s"
  "rs_effectExecutions (putExecution s x) = dput (ex_effectId x) x (rs_effectExecutions s)"
  "rs_completedEffectIds (putExecution s x) = rs_completedEffectIds s"
  "rs_processedIdempotencyKeys (putExecution s x) = rs_processedIdempotencyKeys s"
  "rs_launchedRuns (putExecution s x) = rs_launchedRuns s"
  "rs_status (putExecution s x) = rs_status s"
  by (simp_all add: putExecution_def)

lemma wait_simps [simp]:
  "rs_waits (addWait s w) = dput (wt_waitId w) w (rs_waits s)"
  "rs_waits (removeWait s i) = ddel i (rs_waits s)"
  "rs_threads (addWait s w) = rs_threads s" "rs_threads (removeWait s i) = rs_threads s"
  "rs_outstandingEffects (addWait s w) = rs_outstandingEffects s"
  "rs_outstandingEffects (removeWait s i) = rs_outstandingEffects s"
  "rs_effectExecutions (addWait s w) = rs_effectExecutions s"
  "rs_effectExecutions (removeWait s i) = rs_effectExecutions s"
  "rs_completedEffectIds (addWait s w) = rs_completedEffectIds s"
  "rs_completedEffectIds (removeWait s i) = rs_completedEffectIds s"
  "rs_processedIdempotencyKeys (addWait s w) = rs_processedIdempotencyKeys s"
  "rs_processedIdempotencyKeys (removeWait s i) = rs_processedIdempotencyKeys s"
  "rs_launchedRuns (addWait s w) = rs_launchedRuns s"
  "rs_launchedRuns (removeWait s i) = rs_launchedRuns s"
  "rs_status (addWait s w) = rs_status s" "rs_status (removeWait s i) = rs_status s"
  by (simp_all add: addWait_def removeWait_def)

lemma completeEffect_simps [simp]:
  "rs_threads (completeEffect s i) = rs_threads s" "rs_waits (completeEffect s i) = rs_waits s"
  "rs_outstandingEffects (completeEffect s i)
     = filter (\<lambda>item. oe_effectId item \<noteq> i) (rs_outstandingEffects s)"
  "rs_effectExecutions (completeEffect s i) = ddel i (rs_effectExecutions s)"
  "rs_processedIdempotencyKeys (completeEffect s i) = rs_processedIdempotencyKeys s"
  "rs_launchedRuns (completeEffect s i) = rs_launchedRuns s"
  "rs_status (completeEffect s i) = rs_status s"
  "set (rs_completedEffectIds (completeEffect s i)) = insert i (set (rs_completedEffectIds s))"
  by (auto simp: completeEffect_def)

section \<open>Well-formed states\<close>

definition run_ok :: "run_state \<Rightarrow> bool" where
  "run_ok s \<longleftrightarrow>
     keyed thr_threadId (rs_threads s) \<and> keyed wt_waitId (rs_waits s)
     \<and> keyed ex_effectId (rs_effectExecutions s)
     \<and> distinct (rs_completedEffectIds s) \<and> distinct (rs_processedIdempotencyKeys s)
     \<and> distinct (map lr_runId (rs_launchedRuns s))
     \<and> set (outstandingIds s) \<inter> set (rs_completedEffectIds s) = {}"

lemma run_ok_empty [simp]: "run_ok (emptyRunState r)"
  by (simp add: run_ok_def emptyRunState_def outstandingIds_def)

lemma run_ok_keyed:
  "run_ok s \<Longrightarrow> keyed thr_threadId (rs_threads s)" "run_ok s \<Longrightarrow> keyed wt_waitId (rs_waits s)"
  "run_ok s \<Longrightarrow> keyed ex_effectId (rs_effectExecutions s)"
  by (simp_all add: run_ok_def)

text \<open>Every operation of the protocol is built from these.\<close>

named_theorems run_ok_intros "operations that keep a run state well-formed"

lemma run_ok_putThread [run_ok_intros]: "run_ok s \<Longrightarrow> run_ok (putThread s r)"
  by (auto simp: run_ok_def outstandingIds_def intro: keyed_intros)

lemma run_ok_dropThreadWork [run_ok_intros]: "run_ok s \<Longrightarrow> run_ok (dropThreadWork s t)"
  by (auto simp: run_ok_def outstandingIds_def intro: keyed_intros)

lemma run_ok_putExecution [run_ok_intros]: "run_ok s \<Longrightarrow> run_ok (putExecution s x)"
  by (auto simp: run_ok_def outstandingIds_def intro: keyed_intros)

lemma run_ok_addWait [run_ok_intros]: "run_ok s \<Longrightarrow> run_ok (addWait s w)"
  by (auto simp: run_ok_def outstandingIds_def intro: keyed_intros)

lemma run_ok_removeWait [run_ok_intros]: "run_ok s \<Longrightarrow> run_ok (removeWait s i)"
  by (auto simp: run_ok_def outstandingIds_def intro: keyed_intros)

lemma run_ok_completeEffect [run_ok_intros]: "run_ok s \<Longrightarrow> run_ok (completeEffect s i)"
  by (auto simp: run_ok_def outstandingIds_def completeEffect_def intro: keyed_intros)

lemma run_ok_removeRace [run_ok_intros]: "run_ok s \<Longrightarrow> run_ok (removeRace s raceId)"
  unfolding removeRace_def by (rule foldl_invariant) (auto intro: run_ok_intros)

lemma run_ok_scalars [simp]:
  "run_ok (s\<lparr>rs_runId := a\<rparr>) = run_ok s" "run_ok (s\<lparr>rs_rootThreadId := b\<rparr>) = run_ok s"
  "run_ok (s\<lparr>rs_status := c\<rparr>) = run_ok s" "run_ok (s\<lparr>rs_startIdentity := d\<rparr>) = run_ok s"
  "run_ok (s\<lparr>rs_attributes := e\<rparr>) = run_ok s" "run_ok (s\<lparr>rs_forkedFrom := f\<rparr>) = run_ok s"
  "run_ok (s\<lparr>rs_closeWaiting := g\<rparr>) = run_ok s" "run_ok (s\<lparr>rs_childCloseSent := h\<rparr>) = run_ok s"
  by (simp_all add: run_ok_def outstandingIds_def)

lemma run_ok_launched:
  "run_ok s \<Longrightarrow> distinct (map lr_runId ls) \<Longrightarrow> run_ok (s\<lparr>rs_launchedRuns := ls\<rparr>)"
  "run_ok s \<Longrightarrow> run_ok (s\<lparr>rs_effectExecutions := []\<rparr>)"
  by (simp_all add: run_ok_def outstandingIds_def)

lemma run_ok_runEvents [run_ok_intros]:
  "run_ok s \<Longrightarrow> run_ok (runStarted s e)" "run_ok s \<Longrightarrow> run_ok (runCompleted s e)"
  "run_ok s \<Longrightarrow> run_ok (runCancelled s)" "run_ok s \<Longrightarrow> run_ok (runForked s e)"
  "run_ok s \<Longrightarrow> run_ok (childCloseRequested s e)"
  by (simp_all add: runStarted_def runCompleted_def runCancelled_def runForked_def
      childCloseRequested_def Let_def run_ok_launched split: option.splits)

lemma run_ok_childEvents [run_ok_intros]:
  assumes "run_ok s"
  shows "run_ok (runLaunched s e)" "run_ok (childSettled s e)"
proof -
  have "distinct (map lr_runId (rs_launchedRuns s))" using assms by (simp add: run_ok_def)
  then show "run_ok (runLaunched s e)" "run_ok (childSettled s e)"
    using assms
    by (auto simp: runLaunched_def childSettled_def Let_def list_ex_iff distinct_map_filter
        intro!: run_ok_launched split: option.splits)
qed

lemma run_ok_threadEvents [run_ok_intros]:
  "run_ok s \<Longrightarrow> run_ok (threadStarted reg s e)" "run_ok s \<Longrightarrow> run_ok (threadCompleted s e)"
  "run_ok s \<Longrightarrow> run_ok (threadFailed s e)" "run_ok s \<Longrightarrow> run_ok (threadCancelled s e)"
  by (simp_all add: threadStarted_def threadCompleted_def threadFailed_def threadCancelled_def
      Let_def run_ok_intros split: option.splits)

lemma run_ok_effectEvents [run_ok_intros]:
  "run_ok s \<Longrightarrow> run_ok (attemptStarted s e)" "run_ok s \<Longrightarrow> run_ok (executionProgress s e)"
  "run_ok s \<Longrightarrow> run_ok (dispatchDeferred s e)" "run_ok s \<Longrightarrow> run_ok (effectCancelled s e)"
  "run_ok s \<Longrightarrow> run_ok (retryScheduled s e)"
  by (simp_all add: attemptStarted_def executionProgress_def dispatchDeferred_def effectCancelled_def
      retryScheduled_def Let_def run_ok_intros split: option.splits prod.splits)

lemma run_ok_waitEvents [run_ok_intros]:
  "run_ok s \<Longrightarrow> run_ok (waitRegistered s e)" "run_ok s \<Longrightarrow> run_ok (waitSatisfied s e)"
  by (simp_all add: waitRegistered_def waitSatisfied_def Let_def run_ok_intros
      split: option.splits json.splits)

lemma run_ok_applyProtocol [run_ok_intros]: "run_ok s \<Longrightarrow> run_ok (applyProtocol reg s e)"
  by (simp add: applyProtocol_def Let_def run_ok_intros)

section \<open>Delivery keeps the invariant\<close>

lemma mapEnabled_threads:
  "(\<And>x. x \<in> set remaining \<Longrightarrow> oe_threadId x = t) \<Longrightarrow>
   x \<in> set (mapEnabled t e settled n es remaining) \<Longrightarrow> oe_threadId x = t"
proof (induction es arbitrary: n remaining)
  case (Cons f es)
  obtain found rest where take: "takeFirst (sameEffect (stableEffectId t f) f) remaining = (found, rest)"
    by fastforce
  with Cons.prems(1) takeFirst_rest [OF take]
  have rest: "\<And>x. x \<in> set rest \<Longrightarrow> oe_threadId x = t" by blast
  from Cons.prems(2) consider "x \<in> set (mapEnabled t e settled (Suc n) es rest)"
    | "found = Some x" | "oe_threadId x = t"
    by (auto simp: take Let_def split: option.splits if_splits)
  then show ?case
  proof cases
    case 2
    with takeFirst_Some [of _ remaining x rest] take Cons.prems(1) show ?thesis by blast
  qed (use Cons.IH [OF rest] in blast)+
qed simp

lemma reconcileEffects_simps [simp]:
  "rs_threads (reconcileEffects s t e es x) = rs_threads s"
  "rs_waits (reconcileEffects s t e es x) = rs_waits s"
  "rs_effectExecutions (reconcileEffects s t e es x) = rs_effectExecutions s"
  "rs_completedEffectIds (reconcileEffects s t e es x) = rs_completedEffectIds s"
  "rs_processedIdempotencyKeys (reconcileEffects s t e es x) = rs_processedIdempotencyKeys s"
  "rs_launchedRuns (reconcileEffects s t e es x) = rs_launchedRuns s"
  "rs_status (reconcileEffects s t e es x) = rs_status s"
  by (simp_all add: reconcileEffects_def Let_def)

lemma forgetCompletedEffects_simps [simp]:
  "rs_threads (forgetCompletedEffects s t es) = rs_threads s"
  "rs_waits (forgetCompletedEffects s t es) = rs_waits s"
  "rs_outstandingEffects (forgetCompletedEffects s t es) = rs_outstandingEffects s"
  "rs_effectExecutions (forgetCompletedEffects s t es) = rs_effectExecutions s"
  "rs_processedIdempotencyKeys (forgetCompletedEffects s t es) = rs_processedIdempotencyKeys s"
  "rs_launchedRuns (forgetCompletedEffects s t es) = rs_launchedRuns s"
  "rs_status (forgetCompletedEffects s t es) = rs_status s"
  by (simp_all add: forgetCompletedEffects_def)

lemma forgetCompletedEffects_subset:
  "set (rs_completedEffectIds (forgetCompletedEffects s t es)) \<subseteq> set (rs_completedEffectIds s)"
  by (auto simp: forgetCompletedEffects_def)

text \<open>Reconciling never makes an effect outstanding that is completed.\<close>

lemma reconcileEffects_outstanding:
  "set (outstandingIds (reconcileEffects s t e es x))
     \<subseteq> set (outstandingIds s) \<union> - set (rs_completedEffectIds s)"
  by (auto simp: reconcileEffects_def Let_def outstandingIds_def mapEffects_def)

lemma run_ok_reconcileEffects [run_ok_intros]:
  "run_ok s \<Longrightarrow> run_ok (reconcileEffects s t e es x)"
  using reconcileEffects_outstanding [of s t e es x] by (auto simp: run_ok_def)

lemma run_ok_forgetCompletedEffects [run_ok_intros]:
  "run_ok s \<Longrightarrow> run_ok (forgetCompletedEffects s t es)"
  using forgetCompletedEffects_subset [of s t es]
  by (auto simp: run_ok_def outstandingIds_def forgetCompletedEffects_def)

lemma run_ok_deliver [run_ok_intros]: "run_ok s \<Longrightarrow> run_ok (deliver reg s e x)"
  by (simp add: deliver_def Let_def run_ok_intros split: option.splits)

lemma run_ok_failUnhandledEffect [run_ok_intros]:
  "run_ok s \<Longrightarrow> run_ok (failUnhandledEffect s e before)"
  by (simp add: failUnhandledEffect_def Let_def run_ok_intros split: option.splits)

lemma run_ok_envelope [run_ok_intros]:
  "run_ok s \<Longrightarrow> run_ok (adoptRunId s e)" "run_ok s \<Longrightarrow> run_ok (settleEffect s e)"
  "run_ok s \<Longrightarrow> run_ok (recordIdempotencyKey s e)"
  by (auto simp: adoptRunId_def settleEffect_def recordIdempotencyKey_def run_ok_def outstandingIds_def
      completeEffect_def split: option.splits intro: keyed_intros)

lemma run_ok_foldEvent: "run_ok s \<Longrightarrow> run_ok (foldEvent reg s e)"
  by (simp add: foldEvent_def Let_def run_ok_intros)

section \<open>The contract of the reducer\<close>

text \<open>
  A reducer with an initial state, and a property of states that the initial state has and each
  event keeps. Whatever folds a log with it may rely on the property at every prefix, and may fold a
  log in pieces.
\<close>

locale run_fold =
  fixes start :: "'s" and step :: "'s \<Rightarrow> 'e \<Rightarrow> 's" and inv :: "'s \<Rightarrow> bool"
  assumes inv_start: "inv start"
    and inv_step: "inv s \<Longrightarrow> inv (step s e)"
begin

definition reachable :: "'s \<Rightarrow> bool" where
  "reachable s \<longleftrightarrow> (\<exists>es. s = foldl step start es)"

lemma inv_from: "inv s \<Longrightarrow> inv (foldl step s es)"
  by (induction es arbitrary: s) (simp_all add: inv_step)

lemma inv_reachable: "reachable s \<Longrightarrow> inv s"
  using inv_start inv_from by (auto simp: reachable_def)

lemma reachable_step: "reachable s \<Longrightarrow> reachable (step s e)"
  unfolding reachable_def by (metis foldl_Cons foldl_Nil foldl_append)

lemma measure_grows:
  assumes "\<And>s e. inv s \<Longrightarrow> P s \<Longrightarrow> P (step s e)" "inv s" "P s"
  shows "P (foldl step s es)"
  using assms(2,3) by (induction es arbitrary: s) (simp_all add: assms(1) inv_step)

end

interpretation wellformed: run_fold "emptyRunState r" "foldEvent reg" run_ok for r reg
  by unfold_locales (simp_all add: run_ok_foldEvent)

text \<open>
  C2. Every log, whatever its events, folds to a well-formed state: threads, waits and executions are
  filed under their own ids, each id of a completed effect, an idempotency key or a launched child
  run is listed once, and no effect is both outstanding and completed.
\<close>

theorem foldRun_run_ok: "run_ok (foldRun reg (emptyRunState r) events)"
  unfolding foldRun_def by (rule wellformed.inv_from) simp

section \<open>Settled effects\<close>

lemma removeRace_frame [simp]:
  "rs_outstandingEffects (removeRace s r) = rs_outstandingEffects s"
  "rs_completedEffectIds (removeRace s r) = rs_completedEffectIds s"
  "rs_threads (removeRace s r) = rs_threads s"
  unfolding removeRace_def by (rule foldl_invariant; simp)+

lemma protocol_outstanding_frame [record_frame]:
  "rs_outstandingEffects (runStarted s e) = rs_outstandingEffects s"
  "rs_outstandingEffects (runCompleted s e) = rs_outstandingEffects s"
  "rs_outstandingEffects (runCancelled s) = rs_outstandingEffects s"
  "rs_outstandingEffects (runForked s e) = rs_outstandingEffects s"
  "rs_outstandingEffects (runLaunched s e) = rs_outstandingEffects s"
  "rs_outstandingEffects (childSettled s e) = rs_outstandingEffects s"
  "rs_outstandingEffects (childCloseRequested s e) = rs_outstandingEffects s"
  "rs_outstandingEffects (threadStarted reg s e) = rs_outstandingEffects s"
  "rs_outstandingEffects (threadCompleted s e) = rs_outstandingEffects s"
  "rs_outstandingEffects (attemptStarted s e) = rs_outstandingEffects s"
  "rs_outstandingEffects (executionProgress s e) = rs_outstandingEffects s"
  "rs_outstandingEffects (dispatchDeferred s e) = rs_outstandingEffects s"
  "rs_outstandingEffects (retryScheduled s e) = rs_outstandingEffects s"
  "rs_outstandingEffects (waitRegistered s e) = rs_outstandingEffects s"
  "rs_outstandingEffects (waitSatisfied s e) = rs_outstandingEffects s"
  by (simp_all add: runStarted_def runCompleted_def runCancelled_def runForked_def
      runLaunched_def childSettled_def childCloseRequested_def threadStarted_def threadCompleted_def
      attemptStarted_def executionProgress_def dispatchDeferred_def retryScheduled_def
      waitRegistered_def waitSatisfied_def Let_def split: option.split json.split prod.split)

lemma protocol_completed_frame [record_frame]:
  "rs_completedEffectIds (runStarted s e) = rs_completedEffectIds s"
  "rs_completedEffectIds (runCompleted s e) = rs_completedEffectIds s"
  "rs_completedEffectIds (runCancelled s) = rs_completedEffectIds s"
  "rs_completedEffectIds (runForked s e) = rs_completedEffectIds s"
  "rs_completedEffectIds (runLaunched s e) = rs_completedEffectIds s"
  "rs_completedEffectIds (childSettled s e) = rs_completedEffectIds s"
  "rs_completedEffectIds (childCloseRequested s e) = rs_completedEffectIds s"
  "rs_completedEffectIds (threadStarted reg s e) = rs_completedEffectIds s"
  "rs_completedEffectIds (threadCompleted s e) = rs_completedEffectIds s"
  "rs_completedEffectIds (threadFailed s e) = rs_completedEffectIds s"
  "rs_completedEffectIds (threadCancelled s e) = rs_completedEffectIds s"
  "rs_completedEffectIds (attemptStarted s e) = rs_completedEffectIds s"
  "rs_completedEffectIds (executionProgress s e) = rs_completedEffectIds s"
  "rs_completedEffectIds (dispatchDeferred s e) = rs_completedEffectIds s"
  "rs_completedEffectIds (retryScheduled s e) = rs_completedEffectIds s"
  "rs_completedEffectIds (waitRegistered s e) = rs_completedEffectIds s"
  "rs_completedEffectIds (waitSatisfied s e) = rs_completedEffectIds s"
  by (simp_all add: runStarted_def runCompleted_def runCancelled_def runForked_def
      runLaunched_def childSettled_def childCloseRequested_def threadStarted_def threadCompleted_def
      threadFailed_def threadCancelled_def attemptStarted_def executionProgress_def
      dispatchDeferred_def retryScheduled_def waitRegistered_def waitSatisfied_def Let_def
      split: option.split json.split prod.split)

lemma protocol_effects_subset:
  "set (rs_outstandingEffects (threadFailed s e)) \<subseteq> set (rs_outstandingEffects s)"
  "set (rs_outstandingEffects (threadCancelled s e)) \<subseteq> set (rs_outstandingEffects s)"
  "set (rs_outstandingEffects (effectCancelled s e)) \<subseteq> set (rs_outstandingEffects s)"
  "set (rs_completedEffectIds s) \<subseteq> set (rs_completedEffectIds (effectCancelled s e))"
  by (auto simp: threadFailed_def threadCancelled_def effectCancelled_def split: option.split)

lemma applyProtocol_effects:
  "set (rs_outstandingEffects (applyProtocol reg s e)) \<subseteq> set (rs_outstandingEffects s)"
  "set (rs_completedEffectIds s) \<subseteq> set (rs_completedEffectIds (applyProtocol reg s e))"
  by (simp_all add: applyProtocol_def Let_def record_frame protocol_effects_subset)

lemma deliver_outstanding:
  "set (outstandingIds (deliver reg s e x)) \<subseteq> set (outstandingIds s) \<union> - set (rs_completedEffectIds s)"
proof -
  have "set (outstandingIds (reconcileEffects (putThread s r) t e es x))
      \<subseteq> set (outstandingIds s) \<union> - set (rs_completedEffectIds s)" for r t es
    using reconcileEffects_outstanding [of "putThread s r" t e es x] by (simp add: outstandingIds_def)
  moreover have "outstandingIds (forgetCompletedEffects s' t es) = outstandingIds s'" for s' t es
    by (simp add: outstandingIds_def)
  ultimately show ?thesis by (auto simp: deliver_def Let_def split: option.splits)
qed

lemma failUnhandledEffect_outstanding:
  "set (outstandingIds (failUnhandledEffect s e before)) \<subseteq> set (outstandingIds s)"
  by (auto simp: failUnhandledEffect_def Let_def outstandingIds_def split: option.splits)

lemma settle_simps [simp]:
  "rs_outstandingEffects (recordIdempotencyKey s e) = rs_outstandingEffects s"
  "rs_completedEffectIds (recordIdempotencyKey s e) = rs_completedEffectIds s"
  "rs_threads (recordIdempotencyKey s e) = rs_threads s"
  "rs_waits (recordIdempotencyKey s e) = rs_waits s"
  "rs_rootThreadId (recordIdempotencyKey s e) = rs_rootThreadId s"
  "rs_outstandingEffects (adoptRunId s e) = rs_outstandingEffects s"
  "rs_completedEffectIds (adoptRunId s e) = rs_completedEffectIds s"
  "rs_threads (adoptRunId s e) = rs_threads s"
  "rs_waits (adoptRunId s e) = rs_waits s"
  "rs_threads (settleEffect s e) = rs_threads s"
  "rs_waits (settleEffect s e) = rs_waits s"
  "set (rs_completedEffectIds s) \<subseteq> set (rs_completedEffectIds (settleEffect s e))"
  by (auto simp: recordIdempotencyKey_def adoptRunId_def settleEffect_def split: option.splits)

lemma foldEvent_settles:
  assumes "\<not> ev_ephemeral e" and "ev_effectId e = Some i" and "i \<noteq> ''''"
  shows "i \<notin> set (outstandingIds (foldEvent reg s e))"
proof -
  define settled where "settled = recordIdempotencyKey (settleEffect (adoptRunId s e) e) e"
  define protocol where "protocol = applyProtocol reg settled e"
  have "i \<notin> set (outstandingIds settled)" "i \<in> set (rs_completedEffectIds settled)"
    using assms by (auto simp: settled_def settleEffect_def outstandingIds_def)
  then have "i \<notin> set (outstandingIds protocol)" "i \<in> set (rs_completedEffectIds protocol)"
    using applyProtocol_effects [where reg = reg and s = settled and e = e]
    by (auto simp: protocol_def outstandingIds_def)
  then have "i \<notin> set (outstandingIds (deliver reg protocol e x))" for x
    using deliver_outstanding [of reg protocol e x] by blast
  then show ?thesis
    using assms(1) failUnhandledEffect_outstanding
    by (fastforce simp: foldEvent_def Let_def protocol_def settled_def)
qed

text \<open>
  The event that settles an effect removes it for good from the pending work of that fold: whatever
  the thread asks for in response to the event, the settled effect is not outstanding afterwards.
\<close>

theorem settled_not_outstanding:
  assumes "\<not> ev_ephemeral e" and "ev_effectId e = Some i" and "i \<noteq> ''''"
  shows "i \<notin> set (outstandingIds (foldEvent reg s e))"
  using assms by (rule foldEvent_settles)

definition neverForgets :: "registry \<Rightarrow> bool" where
  "neverForgets reg \<longleftrightarrow> list_all (\<lambda>d. \<not> td_forgetsCompletedEffects d) (dvals (rg_threads reg))"

lemma foldEvent_completed_grows:
  assumes "neverForgets reg"
  shows "set (rs_completedEffectIds s) \<subseteq> set (rs_completedEffectIds (foldEvent reg s e))"
proof -
  have deliver: "rs_completedEffectIds (deliver reg s' e' x) = rs_completedEffectIds s'" for s' e' x
    using assms
    by (auto simp: deliver_def Let_def neverForgets_def list_all_iff split: option.splits
        dest!: dget_val)
  have fail: "rs_completedEffectIds (failUnhandledEffect s' e' b) = rs_completedEffectIds s'" for s' e' b
    by (simp add: failUnhandledEffect_def Let_def split: option.splits)
  define settled where "settled = recordIdempotencyKey (settleEffect (adoptRunId s e) e) e"
  have "set (rs_completedEffectIds s) \<subseteq> set (rs_completedEffectIds settled)"
    using settle_simps(12) [of "adoptRunId s e" e] by (simp add: settled_def)
  also have "\<dots> \<subseteq> set (rs_completedEffectIds (applyProtocol reg settled e))"
    by (rule applyProtocol_effects)
  finally show ?thesis by (simp add: foldEvent_def Let_def deliver fail settled_def)
qed

text \<open>
  C1. At-most-once settlement over a whole run: when no thread kind forgets completed effects, an
  effect that is completed at some prefix of the log stays completed and is never outstanding again,
  whatever events follow.
\<close>

theorem completed_never_reissued:
  assumes "neverForgets reg"
    and "i \<in> set (rs_completedEffectIds (foldRun reg (emptyRunState r) before))"
  shows "i \<in> set (rs_completedEffectIds (foldRun reg (emptyRunState r) (before @ after)))
     \<and> i \<notin> set (outstandingIds (foldRun reg (emptyRunState r) (before @ after)))"
proof -
  let ?s = "foldRun reg (emptyRunState r) before"
  have "run_ok ?s" unfolding foldRun_def by (rule wellformed.inv_from) simp
  with wellformed.measure_grows [where P = "\<lambda>s. i \<in> set (rs_completedEffectIds s)" and s = ?s and es = after and reg = reg]
  have "i \<in> set (rs_completedEffectIds (foldRun reg ?s after))"
    using assms foldEvent_completed_grows [OF assms(1)] by (auto simp: foldRun_def)
  moreover have "run_ok (foldRun reg ?s after)"
    using \<open>run_ok ?s\<close> unfolding foldRun_def by (rule wellformed.inv_from)
  ultimately show ?thesis by (auto simp: run_ok_def)
qed

end
