(* ===== verification/Fold_Properties.thy ===== *)
theory Fold_Properties
  imports Fold_Invariants
begin

text \<open>
  The functional behaviour of the fold (\<open>packages/core/src/fold.ts\<close>): reconciliation of tagged effects,
  finality of terminal threads, the work a failed thread leaves behind, races of waits, unhandled
  effect failures, and the invisibility of ephemeral events.
\<close>

section \<open>Reconciliation of tagged effects\<close>

definition allTagged :: "string \<Rightarrow> runtime_effect list \<Rightarrow> bool" where
  "allTagged threadId es \<longleftrightarrow> list_all (\<lambda>e. stableEffectId threadId e \<noteq> None) es"

lemma mapEnabled_tagged:
  "allTagged t es \<Longrightarrow>
   map oe_effectId (mapEnabled t e settled n es remaining) = enabledEffectIds t es"
proof (induction es arbitrary: n remaining)
  case (Cons f es)
  then obtain i where i: "stableEffectId t f = Some i" by (auto simp: allTagged_def)
  obtain found rest where take: "takeFirst (sameEffect (Some i) f) remaining = (found, rest)"
    by fastforce
  have "found = Some x \<Longrightarrow> oe_effectId x = i" for x
    using takeFirst_Some take by (fastforce simp: sameEffect_def)
  with Cons i take show ?case
    by (auto simp: allTagged_def enabledEffectIds_def List.map_filter_simps Let_def split: option.splits)
qed (simp add: enabledEffectIds_def List.map_filter_simps)

lemma mapEnabled_keeps:
  assumes "allTagged t es" and "i \<in> set (enabledEffectIds t es)"
    and "item \<in> set remaining" and "oe_effectId item = i" and "distinct (map oe_effectId remaining)"
  shows "item \<in> set (mapEnabled t e settled n es remaining)"
  using assms
proof (induction es arbitrary: n remaining)
  case (Cons f es)
  then obtain j where j: "stableEffectId t f = Some j" by (auto simp: allTagged_def)
  obtain found rest where take: "takeFirst (sameEffect (Some j) f) remaining = (found, rest)"
    by fastforce
  show ?case
  proof (cases "i = j")
    case True
    have "found \<noteq> None"
    proof
      assume "found = None"
      with take takeFirst_None [of "sameEffect (Some j) f" remaining rest] Cons.prems(3,4) True
      show False by (auto simp: sameEffect_def)
    qed
    then obtain x where x: "found = Some x" by blast
    with takeFirst_Some [of "sameEffect (Some j) f" remaining x rest] take
    have "x \<in> set remaining" "oe_effectId x = i" by (auto simp: sameEffect_def True)
    with Cons.prems(3,4,5) have "x = item" by (auto simp: distinct_map dest: inj_onD)
    with j take x show ?thesis by (simp add: Let_def)
  next
    case False
    have "item \<in> set rest"
      using takeFirst_keeps [OF take Cons.prems(3)] Cons.prems(4) False by (simp add: sameEffect_def)
    moreover have "distinct (map oe_effectId rest)"
      using takeFirst_distinct [OF take Cons.prems(5)] .
    moreover have "i \<in> set (enabledEffectIds t es)" "allTagged t es"
      using Cons.prems(1,2) False j
      by (simp_all add: enabledEffectIds_def List.map_filter_simps allTagged_def)
    ultimately have "item \<in> set (mapEnabled t e settled (Suc n) es rest)"
      using Cons.IH Cons.prems(4) by blast
    with j take show ?thesis by (auto simp: Let_def split: option.splits)
  qed
qed (simp add: enabledEffectIds_def List.map_filter_simps)

definition threadOutstanding :: "run_state \<Rightarrow> string \<Rightarrow> outstanding_effect list" where
  "threadOutstanding s t = filter (\<lambda>item. oe_threadId item = t) (rs_outstandingEffects s)"

lemma threadOutstanding_reconcile:
  assumes "dget (rs_threads s) t = Some r" "\<not> isTerminalStatus (thr_status r)"
  shows "threadOutstanding (reconcileEffects s t e es x) t
           = mapEffects t e es (rs_completedEffectIds s) (threadOutstanding s t) x"
proof -
  let ?new = "mapEffects t e es (rs_completedEffectIds s) (threadOutstanding s t) x"
  have "oe_threadId y = t" if "y \<in> set (mapEnabled t e x 0 es (threadOutstanding s t))" for y
    by (rule mapEnabled_threads [OF _ that]) (simp add: threadOutstanding_def)
  then have "\<forall>y \<in> set ?new. oe_threadId y = t" by (simp add: mapEffects_def)
  then have "filter (\<lambda>item. oe_threadId item = t) ?new = ?new" by (rule filter_True)
  moreover have "rs_outstandingEffects (reconcileEffects s t e es x)
      = filter (\<lambda>item. oe_threadId item \<noteq> t) (rs_outstandingEffects s) @ ?new"
    using assms unfolding reconcileEffects_def threadOutstanding_def Let_def by simp
  ultimately show ?thesis
    by (simp only: threadOutstanding_def filter_append filter_filter) simp
qed

text \<open>
  C4. Reconciliation computes the difference of what is enabled and what is completed: for a live
  thread whose enabled effects all name themselves, the ids outstanding for it afterwards are the
  enabled ids, in order, without the completed ones; and an effect that was outstanding and is still
  enabled keeps its record, so its causing event does not move.
\<close>

theorem reconcileEffects_tagged:
  assumes "dget (rs_threads s) t = Some r" and "\<not> isTerminalStatus (thr_status r)"
    and "allTagged t es"
  shows "map oe_effectId (threadOutstanding (reconcileEffects s t e es x) t)
           = filter (\<lambda>i. i \<notin> set (rs_completedEffectIds s)) (enabledEffectIds t es)
     \<and> (\<forall>item \<in> set (threadOutstanding s t).
          distinct (map oe_effectId (threadOutstanding s t))
          \<and> oe_effectId item \<in> set (enabledEffectIds t es) - set (rs_completedEffectIds s) \<longrightarrow>
          item \<in> set (threadOutstanding (reconcileEffects s t e es x) t))"
proof -
  have "map oe_effectId (mapEffects t e es (rs_completedEffectIds s) (threadOutstanding s t) x)
      = filter (\<lambda>i. i \<notin> set (rs_completedEffectIds s))
          (map oe_effectId (mapEnabled t e x 0 es (threadOutstanding s t)))"
    by (simp add: mapEffects_def filter_map o_def)
  then show ?thesis
    using assms mapEnabled_keeps [OF assms(3), of _ _ "threadOutstanding s t" e x 0]
    by (auto simp: threadOutstanding_reconcile mapEnabled_tagged mapEffects_def)
qed

text \<open>
  The record an untagged effect takes over is found by its type alone. When a tagged effect of that
  type is in flight, the untagged one is matched with the tagged record: the new work is not issued,
  and the tagged effect, finding its record gone, is issued a second time under the same id.
\<close>

lemma untagged_takes_tagged_record:
  assumes "stableEffectId t f = None" and "effectType f = effectType (oe_effect item)"
    and "stableEffectId t g = Some (oe_effectId item)"
  shows "\<exists>again. mapEnabled t e settled n [f, g] [item] = [item, again]
     \<and> oe_effectId again = oe_effectId item \<and> oe_effect again = g"
  using assms by (simp add: sameEffect_def Let_def)

section \<open>Terminal threads\<close>

definition finalThread :: "run_state \<Rightarrow> string \<Rightarrow> json \<Rightarrow> bool" where
  "finalThread s t st \<longleftrightarrow>
     (case dget (rs_threads s) t of
        None \<Rightarrow> False | Some r \<Rightarrow> isTerminalStatus (thr_status r) \<and> thr_state r = st)"

lemma protocol_threads_frame [record_frame]:
  "rs_threads (runStarted s e) = rs_threads s" "rs_threads (runCompleted s e) = rs_threads s"
  "rs_threads (runCancelled s) = rs_threads s" "rs_threads (runForked s e) = rs_threads s"
  "rs_threads (runLaunched s e) = rs_threads s" "rs_threads (childSettled s e) = rs_threads s"
  "rs_threads (childCloseRequested s e) = rs_threads s"
  "rs_threads (attemptStarted s e) = rs_threads s"
  "rs_threads (executionProgress s e) = rs_threads s"
  "rs_threads (dispatchDeferred s e) = rs_threads s"
  "rs_threads (effectCancelled s e) = rs_threads s"
  "rs_threads (retryScheduled s e) = rs_threads s"
  by (simp_all add: runStarted_def runCompleted_def runCancelled_def runForked_def
      runLaunched_def childSettled_def childCloseRequested_def attemptStarted_def
      executionProgress_def dispatchDeferred_def effectCancelled_def retryScheduled_def Let_def
      split: option.split json.split prod.split)

lemma run_ok_threadKey: "run_ok s \<Longrightarrow> dget (rs_threads s) k = Some r \<Longrightarrow> thr_threadId r = k"
  using run_ok_keyed(1) by (rule keyed_get)

lemma finalThread_putThread:
  assumes "finalThread s t st"
    and "thr_threadId r = t \<Longrightarrow> isTerminalStatus (thr_status r) \<and> thr_state r = st"
  shows "finalThread (putThread s r) t st"
  using assms by (auto simp: finalThread_def)

lemma finalThread_update:
  assumes "run_ok s" "finalThread s t st" "dget (rs_threads s) k = Some r"
  shows "finalThread (putThread s (r\<lparr>thr_status := Completed, thr_output := out, thr_error := err\<rparr>)) t st"
    "finalThread (putThread s (r\<lparr>thr_status := Failed, thr_error := err\<rparr>)) t st"
    "\<not> isTerminalStatus (thr_status r) \<Longrightarrow> thr_threadId q = thr_threadId r \<Longrightarrow>
       finalThread (putThread s q) t st"
  using run_ok_threadKey [OF assms(1,3)] assms(2,3)
  by (auto simp: finalThread_def)

lemma finalThread_frames [simp]:
  "finalThread (dropThreadWork s k) t st = finalThread s t st"
  "finalThread (addWait s w) t st = finalThread s t st"
  "finalThread (removeWait s i) t st = finalThread s t st"
  "finalThread (removeRace s i) t st = finalThread s t st"
  "finalThread (reconcileEffects s k e es x) t st = finalThread s t st"
  "finalThread (forgetCompletedEffects s k es) t st = finalThread s t st"
  by (simp_all add: finalThread_def)

lemma finalThread_threadEvents:
  assumes "run_ok s" "finalThread s t st"
  shows "finalThread (threadCompleted s e) t st" "finalThread (threadFailed s e) t st"
    "finalThread (threadCancelled s e) t st"
  using assms
  by (auto simp: threadCompleted_def threadFailed_def threadCancelled_def eventThread_def
      intro: finalThread_update split: option.split bind_split)

lemma finalThread_waitRegistered:
  assumes "run_ok s" "finalThread s t st"
  shows "finalThread (waitRegistered s e) t st"
proof -
  have "finalThread (putThread (addWait s w) (r\<lparr>thr_status := Waiting\<rparr>)) t st"
    if "dget (rs_threads s) k = Some r" "\<not> isTerminalStatus (thr_status r)" for w r k
    by (rule finalThread_update(3) [of _ _ _ k]) (use assms that in \<open>simp_all add: run_ok_intros\<close>)
  then show ?thesis using assms
    by (simp add: waitRegistered_def Let_def split: option.split json.split)
qed

lemma finalThread_waitSatisfied:
  assumes "run_ok s" "finalThread s t st"
  shows "finalThread (waitSatisfied s e) t st"
proof -
  have resume: "finalThread (putThread s' (r\<lparr>thr_status := Running\<rparr>)) t st"
    if "run_ok s'" "rs_threads s' = rs_threads s" "dget (rs_threads s) k = Some r"
       "thr_status r = Waiting" for s' r k
    by (rule finalThread_update(3) [of _ _ _ k])
       (use assms that in \<open>simp_all add: finalThread_def\<close>)
  show ?thesis using assms
    by (auto simp: waitSatisfied_def Let_def run_ok_intros intro!: resume split: option.split)
qed

lemma finalThread_protocol_frame:
  "finalThread (runStarted s e) t st = finalThread s t st"
  "finalThread (runCompleted s e) t st = finalThread s t st"
  "finalThread (runCancelled s) t st = finalThread s t st"
  "finalThread (runForked s e) t st = finalThread s t st"
  "finalThread (runLaunched s e) t st = finalThread s t st"
  "finalThread (childSettled s e) t st = finalThread s t st"
  "finalThread (childCloseRequested s e) t st = finalThread s t st"
  "finalThread (attemptStarted s e) t st = finalThread s t st"
  "finalThread (executionProgress s e) t st = finalThread s t st"
  "finalThread (dispatchDeferred s e) t st = finalThread s t st"
  "finalThread (effectCancelled s e) t st = finalThread s t st"
  "finalThread (retryScheduled s e) t st = finalThread s t st"
  "finalThread (adoptRunId s e) t st = finalThread s t st"
  "finalThread (settleEffect s e) t st = finalThread s t st"
  "finalThread (recordIdempotencyKey s e) t st = finalThread s t st"
  by (simp_all add: finalThread_def record_frame)

lemma finalThread_applyProtocol:
  "run_ok s \<Longrightarrow> finalThread s t st \<Longrightarrow> ev_type e \<noteq> ''runtime.thread.started'' \<Longrightarrow>
   finalThread (applyProtocol reg s e) t st"
  by (simp add: applyProtocol_def Let_def finalThread_threadEvents finalThread_waitRegistered
      finalThread_waitSatisfied finalThread_protocol_frame)

lemma finalThread_deliver:
  assumes "run_ok s" "finalThread s t st"
  shows "finalThread (deliver reg s e x) t st"
  using assms by (auto simp: deliver_def Let_def intro!: finalThread_update(3) split: option.split)

lemma finalThread_failUnhandledEffect:
  assumes "run_ok s" "finalThread s t st"
  shows "finalThread (failUnhandledEffect s e before) t st"
  using assms by (auto simp: failUnhandledEffect_def Let_def intro: finalThread_update split: option.split)

lemma finalThread_foldEvent:
  assumes "run_ok s" and "finalThread s t st" and "ev_type e \<noteq> ''runtime.thread.started''"
  shows "finalThread (foldEvent reg s e) t st"
proof (cases "ev_ephemeral e")
  case False
  define settled where "settled = recordIdempotencyKey (settleEffect (adoptRunId s e) e) e"
  define protocol where "protocol = applyProtocol reg settled e"
  have "run_ok settled" "finalThread settled t st"
    using assms by (simp_all add: settled_def run_ok_intros finalThread_protocol_frame)
  then have "run_ok protocol" "finalThread protocol t st"
    using assms(3) unfolding protocol_def
    by (simp_all add: run_ok_applyProtocol finalThread_applyProtocol)
  then have "run_ok (deliver reg protocol e x)" "finalThread (deliver reg protocol e x) t st" for x
    by (simp_all add: run_ok_deliver finalThread_deliver)
  then show ?thesis
    using False finalThread_failUnhandledEffect
    by (simp add: foldEvent_def Let_def settled_def protocol_def)
qed (use assms in simp)

text \<open>
  C3. Terminal threads are final: in a well-formed state, a thread that is completed, failed or
  cancelled stays so and its state is never stepped again, whatever event comes, unless the event
  starts a thread.
\<close>

theorem terminal_thread_final:
  assumes "run_ok s" and "finalThread s t st" and "ev_type e \<noteq> ''runtime.thread.started''"
  shows "finalThread (foldEvent reg s e) t st"
  using assms by (rule finalThread_foldEvent)

section \<open>Ephemeral events\<close>

text \<open>
Ephemeral events are invisible to the state: a log folds to what its durable events alone fold to.
\<close>

theorem foldRun_durable:
  "foldRun reg s events = foldRun reg s (filter (\<lambda>e. \<not> ev_ephemeral e) events)"
  by (induction events arbitrary: s) simp_all

section \<open>The work of failed threads\<close>

definition noWork :: "run_state \<Rightarrow> string \<Rightarrow> bool" where
  "noWork s t \<longleftrightarrow> threadOutstanding s t = [] \<and> threadWaits s t = []"

lemma noWork_drop [simp]: "noWork (dropThreadWork s t) t"
  by (auto simp: noWork_def threadOutstanding_def threadWaits_def filter_empty_conv)

lemma noWork_putThread [simp]: "noWork (putThread s r) t = noWork s t"
  by (simp add: noWork_def threadOutstanding_def threadWaits_def)

lemma noWork_dropOther: "noWork s t \<Longrightarrow> noWork (dropThreadWork s k) t"
  by (auto simp: noWork_def threadOutstanding_def threadWaits_def filter_empty_conv)

lemma noWork_deliver:
  assumes "noWork s t" and "finalThread s t st"
  shows "noWork (deliver reg s e x) t"
proof -
  have other: "threadOutstanding (reconcileEffects s' k e es x) t = []"
    if "k \<noteq> t" "threadOutstanding s' t = []" for s' k es
  proof -
    have foreign: "oe_threadId y = k"
      if "y \<in> set (mapEnabled k e x 0 es (threadOutstanding s' k))" for y
      by (rule mapEnabled_threads [OF _ that]) (simp add: threadOutstanding_def)
    have "set (rs_outstandingEffects (reconcileEffects s' k e es x))
        \<subseteq> set (rs_outstandingEffects s') \<union> set (mapEnabled k e x 0 es (threadOutstanding s' k))"
      by (auto simp: reconcileEffects_def Let_def mapEffects_def threadOutstanding_def)
    moreover have "\<forall>y \<in> set (rs_outstandingEffects s'). oe_threadId y \<noteq> t"
      using that(2) by (simp add: threadOutstanding_def filter_empty_conv)
    ultimately show ?thesis
      using foreign that(1) unfolding threadOutstanding_def filter_empty_conv by blast
  qed
  have "noWork (reconcileEffects (putThread s r) k e es x) t" if "k \<noteq> t" for r k es
    using other [OF that, of "putThread s r" es] assms(1)
    by (simp add: noWork_def threadWaits_def threadOutstanding_def)
  moreover have "noWork (forgetCompletedEffects s' k es) t = noWork s' t" for s' k es
    by (simp add: noWork_def threadWaits_def threadOutstanding_def)
  moreover have "k \<noteq> t" if "dget (rs_threads s) k = Some r" "\<not> isTerminalStatus (thr_status r)" for k r
    using assms(2) that by (auto simp: finalThread_def)
  ultimately show ?thesis
    using assms(1) by (auto simp: deliver_def Let_def split: option.split)
qed

lemma noWork_failUnhandledEffect: "noWork s t \<Longrightarrow> noWork (failUnhandledEffect s e before) t"
  by (simp add: failUnhandledEffect_def Let_def noWork_dropOther split: option.split)

text \<open>
  A thread that fails leaves nothing behind: after a \<open>runtime.thread.failed\<close> event for a recorded
  thread, the thread is failed with the event's error, and no effect and no wait of it is left, even
  when the same event is delivered to another thread that asks for new effects.
\<close>

theorem thread_failed_leaves_no_work:
  assumes "run_ok s" and "\<not> ev_ephemeral e" and "ev_type e = ''runtime.thread.failed''"
    and "payloadThreadId e = Some t" and "dget (rs_threads s) t = Some r"
  shows "noWork (foldEvent reg s e) t \<and> finalThread (foldEvent reg s e) t (thr_state r)"
proof -
  define settled where "settled = recordIdempotencyKey (settleEffect (adoptRunId s e) e) e"
  have settled: "run_ok settled" "rs_threads settled = rs_threads s"
    using assms(1) by (simp_all add: settled_def run_ok_intros)
  define protocol where "protocol = applyProtocol reg settled e"
  have protocol: "protocol = threadFailed settled e"
    by (simp add: protocol_def applyProtocol_def assms(3))
  have "noWork protocol t" "finalThread protocol t (thr_state r)"
    using assms(4,5) settled(2) run_ok_threadKey [OF assms(1,5)]
    by (simp_all add: protocol threadFailed_def finalThread_def)
  moreover have "run_ok protocol"
    using settled(1) by (simp add: protocol_def run_ok_applyProtocol)
  ultimately have "noWork (deliver reg protocol e x) t"
    "finalThread (deliver reg protocol e x) t (thr_state r)" "run_ok (deliver reg protocol e x)" for x
    by (simp_all add: noWork_deliver finalThread_deliver run_ok_deliver)
  then show ?thesis
    using assms(2) noWork_failUnhandledEffect finalThread_failUnhandledEffect
    by (simp add: foldEvent_def Let_def protocol_def settled_def)
qed

section \<open>Races\<close>

lemma ddel_filter: "ddel k d = filter (\<lambda>(k', _). k' \<noteq> k) d"
  by (auto simp: AList.delete_eq intro: filter_cong)

lemma removeRace_fold:
  "rs_waits (foldl (\<lambda>n w. if tagRace w = Some raceId then removeWait n (wt_waitId w) else n) s ws)
     = filter (\<lambda>(k, _). k \<notin> wt_waitId ` {w \<in> set ws. tagRace w = Some raceId}) (rs_waits s)"
proof (induction ws arbitrary: s)
  case (Cons w ws)
  then show ?case
    by (auto simp: ddel_filter case_prod_beta intro: filter_cong)
qed (simp add: case_prod_beta)

lemma removeRace_waits:
  assumes "keyed wt_waitId (rs_waits s)"
  shows "rs_waits (removeRace s raceId)
           = filter (\<lambda>(k, w). tagRace w \<noteq> Some raceId) (rs_waits s)"
proof -
  have "k \<in> wt_waitId ` {w \<in> set (dvals (rs_waits s)). tagRace w = Some raceId}
      \<longleftrightarrow> tagRace w = Some raceId" if "(k, w) \<in> set (rs_waits s)" for k w
  proof -
    from assms that have kw: "wt_waitId w = k" "dget (rs_waits s) k = Some w"
      by (auto simp: keyed_def)
    have "w' = w" if "w' \<in> set (dvals (rs_waits s))" "wt_waitId w' = k" for w'
      using keyed_val [OF assms that(1)] that(2) kw(2) by simp
    with kw \<open>(k, w) \<in> set (rs_waits s)\<close> show ?thesis by (force simp: image_iff)
  qed
  then show ?thesis
    unfolding removeRace_def removeRace_fold by (intro filter_cong) auto
qed

text \<open>
  Satisfying one wait of a race settles the whole race: exactly the satisfied wait and the waits
  tagged with its race are gone, every other wait is untouched, and a waiting thread with nothing left
  to wait for runs again.
\<close>

theorem waitSatisfied_race:
  assumes "run_ok s" and "truthy (readString (payloadObject e) ''waitId'') = Some i"
    and "dget (rs_waits s) i = Some w" and "truthy (tagRace w) = Some raceId"
    and "dget (rs_threads s) (wt_threadId w) = Some r" and "thr_status r = Waiting"
    and "wt_threadId w \<noteq> ''''"
  shows "rs_waits (waitSatisfied s e)
           = filter (\<lambda>(k, v). k \<noteq> i \<and> tagRace v \<noteq> Some raceId) (rs_waits s)
     \<and> map_option thr_status (dget (rs_threads (waitSatisfied s e)) (wt_threadId w))
         = Some (if threadWaits (waitSatisfied s e) (wt_threadId w) = [] then Running else Waiting)"
proof -
  have keyed: "keyed wt_waitId (rs_waits (removeWait s i))"
    using assms(1) by (auto simp: run_ok_def intro: keyed_intros)
  have r: "thr_threadId r = wt_threadId w" using run_ok_threadKey [OF assms(1,5)] .
  have waits: "rs_waits (removeRace (removeWait s i) raceId)
      = filter (\<lambda>(k, v). k \<noteq> i \<and> tagRace v \<noteq> Some raceId) (rs_waits s)"
    by (auto simp: removeRace_waits [OF keyed] ddel_filter intro: filter_cong)
  show ?thesis
    using assms(2-7) r by (simp add: waitSatisfied_def waits threadWaits_def Let_def)
qed

section \<open>Unhandled failures\<close>

text \<open>
  A failed effect nobody handles fails its thread: when the thread the failure is for enables
  nothing new in response, it ends failed with the error of the event and without any work; a
  failure that only withdraws the effect for a sibling's sake never does.
\<close>

theorem unhandled_effect_failure:
  assumes "run_ok s" and "\<not> ev_ephemeral e" and "ev_type e = ''runtime.effect.failed''"
    and "ev_threadId e = Some t" and "t \<noteq> ''''"
    and "dget (rs_threads s) t = Some r" and "\<not> isTerminalStatus (thr_status r)"
    and "readString (payloadObject e) ''error'' = Some msg"
    and "dget (rg_threads reg) (thr_kind r) = Some d"
    and "\<And>ctx. td_effects d (td_step d (thr_state r) e ctx) ctx = []"
  shows "(\<not> isWithdrawnError msg \<longrightarrow>
           noWork (foldEvent reg s e) t
           \<and> (\<exists>q. dget (rs_threads (foldEvent reg s e)) t = Some q
                \<and> thr_status q = Failed \<and> thr_error q = Some msg))
     \<and> (isWithdrawnError msg \<longrightarrow>
           (\<exists>q. dget (rs_threads (foldEvent reg s e)) t = Some q \<and> thr_status q = thr_status r))"
proof -
  define settled where "settled = recordIdempotencyKey (settleEffect (adoptRunId s e) e) e"
  have threads: "rs_threads settled = rs_threads s" by (simp add: settled_def)
  have protocol: "applyProtocol reg settled e = settled"
    by (simp add: applyProtocol_def assms(3) progressTypes_def)
  have key: "thr_threadId r = t" using run_ok_threadKey [OF assms(1,6)] .
  define q where "q x = deliver reg settled e x" for x
  have threads_q: "\<exists>st. dget (rs_threads (q x)) t = Some (r\<lparr>thr_state := st\<rparr>)" for x
    using assms(4-9) threads key by (auto simp: q_def deliver_def targetThread_def Let_def)
  have "set (rs_outstandingEffects (q x)) \<subseteq> set (rs_outstandingEffects settled)" for x
    using assms(4-10) threads key
    by (auto simp: q_def deliver_def targetThread_def Let_def reconcileEffects_def mapEffects_def)
  then have handled: "\<not> list_ex (\<lambda>item. \<not> List.member (outstandingIds settled) (oe_effectId item))
      (rs_outstandingEffects (q x))" for x
    by (auto simp: list_ex_iff outstandingIds_def)
  obtain x where fold: "foldEvent reg s e = failUnhandledEffect (q x) e (outstandingIds settled)"
    using assms(2) protocol by (simp add: foldEvent_def Let_def settled_def q_def)
  obtain st where st: "dget (rs_threads (q x)) t = Some (r\<lparr>thr_state := st\<rparr>)"
    using threads_q by blast
  show ?thesis
    using assms(3,4,5,7,8) handled [of x] st key by (simp add: fold failUnhandledEffect_def)
qed

section \<open>Witnesses\<close>

definition sampleDefinition :: thread_definition where
  "sampleDefinition = \<lparr>td_forgetsCompletedEffects = False, td_initialState = (\<lambda>_. JNull),
     td_step = (\<lambda>st _ _. st), td_effects = (\<lambda>_ _. [])\<rparr>"

definition sampleRegistry :: registry where
  "sampleRegistry = \<lparr>rg_threads = [(''workflow'', sampleDefinition)], rg_effects = []\<rparr>"

definition sampleItem :: "string \<Rightarrow> string \<Rightarrow> outstanding_effect" where
  "sampleItem t k = \<lparr>oe_effectId = t @ '':'' @ k, oe_threadId = t, oe_causingSeq = 3,
     oe_causingEventId = ''e3'', oe_effect = InvokeEffect ''x'' JNull (Some k) None\<rparr>"

definition sampleWait :: "string \<Rightarrow> json option \<Rightarrow> wait_record" where
  "sampleWait i tag = \<lparr>wt_waitId = i, wt_threadId = ''a'',
     wt_on = WaitOnEvent (OneType ''go'') None, wt_tag = tag\<rparr>"

definition sampleRun :: "thread_status \<Rightarrow> run_state" where
  "sampleRun status = (emptyRunState ''r'')\<lparr>
     rs_threads := [(''a'', (sampleThread ''a'' None)\<lparr>thr_status := status\<rparr>)],
     rs_outstandingEffects := [sampleItem ''a'' ''k'', sampleItem ''a'' ''m''],
     rs_waits := [(''w'', sampleWait ''w'' (Some (JObj [(''raceId'', JStr ''q'')]))),
       (''v'', sampleWait ''v'' (Some (JObj [(''raceId'', JStr ''q'')])))]\<rparr>"

definition sampleEvent :: "string \<Rightarrow> json dict \<Rightarrow> envelope" where
  "sampleEvent t p = createEvent (''ev'', 0) ''r''
     ((eventInput t (JObj p))\<lparr>in_threadId := Val ''a''\<rparr>) 7"

lemma sampleEvent_simps [simp]:
  "ev_type (sampleEvent t p) = t" "ev_threadId (sampleEvent t p) = Some ''a''"
  "\<not> ev_ephemeral (sampleEvent t p)" "payloadObject (sampleEvent t p) = p"
  "ev_effectId (sampleEvent t p) = None"
  by (simp_all add: sampleEvent_def payloadObject_def asObject_def)

lemma run_ok_sampleRun [simp]: "run_ok (sampleRun status)"
  by (simp add: run_ok_def sampleRun_def emptyRunState_def keyed_def sampleThread_def sampleItem_def
      sampleWait_def outstandingIds_def)

lemma sampleRun_thread [simp]:
  "dget (rs_threads (sampleRun status)) ''a'' = Some ((sampleThread ''a'' None)\<lparr>thr_status := status\<rparr>)"
  by (simp add: sampleRun_def)

lemma settled_not_outstanding_witness:
  "''a:k'' \<notin> set (outstandingIds (foldEvent sampleRegistry (sampleRun Running)
     ((sampleEvent ''done'' [])\<lparr>ev_effectId := Some ''a:k''\<rparr>)))"
  by (rule settled_not_outstanding) (simp_all add: sampleEvent_def)

lemma reconcileEffects_tagged_witness:
  "map oe_effectId (threadOutstanding (reconcileEffects (sampleRun Running) ''a'' (sampleEvent ''s'' [])
     [InvokeEffect ''y'' JNull (Some ''n'') None, InvokeEffect ''x'' JNull (Some ''k'') None] None) ''a'')
   = [''a:n'', ''a:k'']"
  using reconcileEffects_tagged [OF sampleRun_thread, of Running
      "[InvokeEffect ''y'' JNull (Some ''n'') None, InvokeEffect ''x'' JNull (Some ''k'') None]"
      "sampleEvent ''s'' []" None]
  by (simp add: sampleThread_def allTagged_def stableEffectId_def effectTag_def enabledEffectIds_def
      List.map_filter_simps createTaggedEffectId_def) (simp add: sampleRun_def emptyRunState_def)

lemma terminal_thread_final_witness:
  "finalThread (foldEvent sampleRegistry (sampleRun Cancelled) (sampleEvent ''runtime.thread.completed'' []))
     ''a'' JNull"
  by (rule terminal_thread_final)
     (simp_all add: finalThread_def, simp_all add: sampleThread_def)

lemma thread_failed_leaves_no_work_witness:
  "noWork (foldEvent sampleRegistry (sampleRun Running) (sampleEvent ''runtime.thread.failed'' [])) ''a''"
  using thread_failed_leaves_no_work [OF run_ok_sampleRun, of "sampleEvent ''runtime.thread.failed'' []"
      "''a''" Running "(sampleThread ''a'' None)\<lparr>thr_status := Running\<rparr>" sampleRegistry]
  by (simp add: payloadThreadId_def readString_def)

lemma waitSatisfied_race_witness:
  "rs_waits (waitSatisfied (sampleRun Waiting)
     (sampleEvent ''runtime.wait.satisfied'' [(''waitId'', JStr ''w'')])) = []"
proof -
  let ?e = "sampleEvent ''runtime.wait.satisfied'' [(''waitId'', JStr ''w'')]"
  have "rs_waits (waitSatisfied (sampleRun Waiting) ?e)
      = filter (\<lambda>(k, v). k \<noteq> ''w'' \<and> tagRace v \<noteq> Some ''q'') (rs_waits (sampleRun Waiting))"
    by (rule waitSatisfied_race [where w = "sampleWait ''w'' (Some (JObj [(''raceId'', JStr ''q'')]))"
        and r = "(sampleThread ''a'' None)\<lparr>thr_status := Waiting\<rparr>", THEN conjunct1])
       (simp_all add: sampleWait_def tagRace_def readString_def, simp_all add: sampleRun_def sampleWait_def)
  then show ?thesis by (simp add: sampleRun_def sampleWait_def tagRace_def readString_def)
qed

lemma unhandled_effect_failure_witness:
  "noWork (foldEvent sampleRegistry (sampleRun Running)
     (sampleEvent ''runtime.effect.failed'' [(''error'', JStr ''no'')])) ''a''"
  using unhandled_effect_failure [OF run_ok_sampleRun,
      of "sampleEvent ''runtime.effect.failed'' [(''error'', JStr ''no'')]" "''a''" Running "(sampleThread ''a'' None)\<lparr>thr_status := Running\<rparr>" "''no''"
         sampleRegistry sampleDefinition]
  by (simp add: readString_def sampleThread_def sampleRegistry_def sampleDefinition_def
      isWithdrawnError_def withdrawnErrorPrefix_def startsWith_def)

lemma completed_never_reissued_witness:
  "''a:k'' \<in> set (rs_completedEffectIds (foldRun sampleRegistry (emptyRunState ''r'')
      ([(sampleEvent ''done'' [])\<lparr>ev_effectId := Some ''a:k''\<rparr>] @ [sampleEvent ''later'' []])))"
  by (rule completed_never_reissued [THEN conjunct1])
     (simp_all add: neverForgets_def sampleRegistry_def sampleDefinition_def sampleEvent_def foldEvent_def
       Let_def settleEffect_def completeEffect_def adoptRunId_def emptyRunState_def
       recordIdempotencyKey_def applyProtocol_def progressTypes_def deliver_def targetThread_def
       failUnhandledEffect_def)

end
