(* ===== verification/Replay.thy ===== *)
theory Replay
  imports Fold_Properties
begin

text \<open>
  \<open>packages/core/src/cursor.ts\<close>, \<open>replay.ts\<close>, \<open>attempts.ts\<close> and the recovery of \<open>snapshots.ts\<close>: the
  readers of a run log that fold it in one way or another. The lemmas say that they agree with each
  other and with \<open>foldRun\<close>.
\<close>

section \<open>Cursors\<close>

record run_cursor =
  cu_state :: run_state
  cu_seq :: nat
  cu_durableSinceSnapshot :: nat

definition emptyCursor :: "string \<Rightarrow> run_cursor" where
  "emptyCursor runId = \<lparr>cu_state = emptyRunState runId, cu_seq = 0, cu_durableSinceSnapshot = 0\<rparr>"

definition advanceOne :: "registry \<Rightarrow> run_cursor \<Rightarrow> envelope \<Rightarrow> run_cursor" where
  "advanceOne reg c event =
     \<lparr>cu_state = foldEvent reg (cu_state c) event,
      cu_seq = (if cu_seq c < ev_seq event then ev_seq event else cu_seq c),
      cu_durableSinceSnapshot =
        (if ev_ephemeral event then cu_durableSinceSnapshot c
         else if ev_type event = ''runtime.snapshot.taken'' then 0
         else cu_durableSinceSnapshot c + 1)\<rparr>"

definition advanceCursor :: "run_cursor \<Rightarrow> envelope list \<Rightarrow> registry \<Rightarrow> run_cursor" where
  "advanceCursor c events reg = foldl (advanceOne reg) c events"

text \<open>\<open>assignSequences\<close>: Left is the length mismatch the code throws on.\<close>

definition assignSequences :: "envelope list \<Rightarrow> nat list \<Rightarrow> (nat \<times> nat) + envelope list" where
  "assignSequences batch sequences =
     (if length batch \<noteq> length sequences then Inl (length batch, length sequences)
      else Inr (map2 (\<lambda>partial q. withAssignedSeq partial (ev_runId partial) q) batch sequences))"

lemma advanceCursor_append:
  "advanceCursor c (xs @ ys) reg = advanceCursor (advanceCursor c xs reg) ys reg"
  by (simp add: advanceCursor_def)

lemma advanceCursor_simps [simp]:
  "advanceCursor c [] reg = c"
  "advanceCursor c (e # es) reg = advanceCursor (advanceOne reg c e) es reg"
  by (simp_all add: advanceCursor_def)

lemma cu_state_advance [simp]:
  "cu_state (advanceCursor c events reg) = foldRun reg (cu_state c) events"
  by (induction events arbitrary: c) (simp_all add: advanceOne_def)

lemma cu_seq_advance:
  "cu_seq (advanceCursor c events reg) = fold max (map ev_seq events) (cu_seq c)"
  by (induction events arbitrary: c) (simp_all add: advanceOne_def max_def)

lemma fold_max_upt: "fold max [Suc n..<Suc (n + k)] n = n + (k :: nat)"
  by (induction k) auto

section \<open>Replay\<close>

record replay_step =
  st_seq :: nat
  st_event :: envelope
  st_before :: run_state
  st_after :: run_state
  st_effects :: "runtime_effect list"

text \<open>The effects that a step made outstanding.\<close>

definition newEffects :: "run_state \<Rightarrow> run_state \<Rightarrow> runtime_effect list" where
  "newEffects before after =
     map oe_effect (filter (\<lambda>item. \<not> List.member (outstandingIds before) (oe_effectId item))
       (rs_outstandingEffects after))"

definition replayStep :: "registry \<Rightarrow> run_state \<Rightarrow> envelope \<Rightarrow> replay_step" where
  "replayStep reg before event =
     (let after = foldEvent reg before event in
      \<lparr>st_seq = ev_seq event, st_event = event, st_before = before, st_after = after,
       st_effects = newEffects before after\<rparr>)"

definition replayTo :: "envelope list \<Rightarrow> registry \<Rightarrow> nat \<Rightarrow> replay_step option" where
  "replayTo events reg seq =
     (case find (\<lambda>e. ev_seq e = seq \<and> \<not> ev_ephemeral e) events of
        None \<Rightarrow> None
      | Some target \<Rightarrow>
          (let prior = filter (\<lambda>e. ev_seq e < seq) events;
               before = foldRun reg (emptyRunState (ev_runId target)) prior;
               after = foldEvent reg before target
           in Some \<lparr>st_seq = seq, st_event = target, st_before = before, st_after = after,
                    st_effects = newEffects before after\<rparr>))"

fun replayFrom :: "registry \<Rightarrow> run_state \<Rightarrow> envelope list \<Rightarrow> replay_step list" where
  "replayFrom reg s [] = []"
| "replayFrom reg s (e # es) =
     (if ev_ephemeral e then replayFrom reg s es
      else let step = replayStep reg s e in step # replayFrom reg (st_after step) es)"

definition replayAll :: "envelope list \<Rightarrow> registry \<Rightarrow> replay_step list" where
  "replayAll events reg = replayFrom reg
     (emptyRunState (case events of [] \<Rightarrow> ''unknown'' | e # _ \<Rightarrow> ev_runId e)) events"

lemma replayFrom_find:
  assumes "sorted_wrt (<) (map ev_seq events)"
  shows "find (\<lambda>step. st_seq step = seq) (replayFrom reg s events)
     = map_option (replayStep reg (foldRun reg s (filter (\<lambda>e. ev_seq e < seq) events)))
         (find (\<lambda>e. ev_seq e = seq \<and> \<not> ev_ephemeral e) events)"
  using assms
proof (induction events arbitrary: s)
  case (Cons e es)
  then have later: "\<forall>x \<in> set es. ev_seq e < ev_seq x" by auto
  show ?case
  proof (cases "ev_seq e = seq")
    case True
    with later have "filter (\<lambda>x. ev_seq x < seq) es = []" "find (\<lambda>x. ev_seq x = seq \<and> \<not> ev_ephemeral x) es = None"
      by (auto simp: filter_empty_conv find_None_iff)
    with True Cons show ?thesis by (simp add: replayStep_def Let_def)
  next
    case False
    have "find (\<lambda>x. ev_seq x = seq \<and> \<not> ev_ephemeral x) es = None" if "\<not> ev_seq e < seq"
      using later that by (auto simp: find_None_iff)
    with False Cons show ?thesis
      by (cases "ev_seq e < seq") (auto simp: replayStep_def Let_def)
  qed
qed simp

text \<open>
  Jumping to a sequence number and stepping through the log agree: on a log in sequence order, all
  of one run, \<open>replayTo\<close> returns exactly the step that \<open>replayAll\<close> records for that number, and
  nothing when it records none.
\<close>

theorem replayTo_replayAll:
  assumes "sorted_wrt (<) (map ev_seq events)" and "\<forall>e \<in> set events. ev_runId e = r"
  shows "replayTo events reg seq = find (\<lambda>step. st_seq step = seq) (replayAll events reg)"
proof (cases "find (\<lambda>e. ev_seq e = seq \<and> \<not> ev_ephemeral e) events")
  case None
  then show ?thesis by (simp add: replayTo_def replayAll_def replayFrom_find [OF assms(1)])
next
  case (Some target)
  then have "target \<in> set events" "ev_seq target = seq" by (auto simp: find_Some_iff)
  moreover from this assms(2) have "(case events of [] \<Rightarrow> ''unknown'' | e # _ \<Rightarrow> ev_runId e) = ev_runId target"
    by (cases events) auto
  ultimately show ?thesis
    using Some by (simp add: replayTo_def replayAll_def replayFrom_find [OF assms(1)] replayStep_def Let_def)
qed

definition tick :: "nat \<Rightarrow> envelope" where
  "tick q = (sampleEvent ''tick'' [])\<lparr>ev_seq := q\<rparr>"

lemma replayTo_replayAll_witness:
  "replayTo [tick 1, tick 2] sampleRegistry 2
     = find (\<lambda>step. st_seq step = 2) (replayAll [tick 1, tick 2] sampleRegistry)"
  by (rule replayTo_replayAll [where r = "''r''"]) (simp_all add: tick_def sampleEvent_def)

section \<open>Superseded attempts\<close>

text \<open>The effect a retry event retries; the payload must be a well-formed retry payload.\<close>

definition retriedEffectId :: "envelope \<Rightarrow> string option" where
  "retriedEffectId e =
     (let p = payloadObject e in
      if ev_type e = ''runtime.effect.retry.scheduled''
         \<and> readNumber p ''attempt'' \<noteq> None \<and> readNumber p ''nextAttemptAt'' \<noteq> None
         \<and> readString p ''error'' \<noteq> None
      then readString p ''effectId'' else None)"

text \<open>The map from an effect to the index of its last retry.\<close>

fun lastRetries :: "nat \<Rightarrow> envelope list \<Rightarrow> nat dict \<Rightarrow> nat dict" where
  "lastRetries n [] m = m"
| "lastRetries n (e # es) m =
     lastRetries (Suc n) es (case retriedEffectId e of None \<Rightarrow> m | Some i \<Rightarrow> dput i n m)"

definition currentAttempt :: "nat dict \<Rightarrow> nat \<Rightarrow> envelope \<Rightarrow> bool" where
  "currentAttempt m index e \<longleftrightarrow>
     \<not> ev_ephemeral e
     \<or> (case truthy (ev_effectId e) of
          None \<Rightarrow> True
        | Some i \<Rightarrow> (case dget m i of None \<Rightarrow> True | Some retryIndex \<Rightarrow> retryIndex < index))"

definition dropSupersededAttempts :: "envelope list \<Rightarrow> envelope list" where
  "dropSupersededAttempts events =
     (let m = lastRetries 0 events [] in
      if m = [] then events
      else map snd (filter (\<lambda>(index, e). currentAttempt m index e) (List.enumerate 0 events)))"

lemma lastRetries_get:
  "dget (lastRetries n es m) i =
     (if \<exists>j < length es. retriedEffectId (es ! j) = Some i
      then Some (n + (GREATEST j. j < length es \<and> retriedEffectId (es ! j) = Some i))
      else dget m i)"
proof (induction es arbitrary: n m rule: rev_induct)
  case (snoc e es)
  have app: "lastRetries n (es @ [e]) m =
      (case retriedEffectId e of None \<Rightarrow> lastRetries n es m
       | Some k \<Rightarrow> dput k (n + length es) (lastRetries n es m))" for n m
    by (induction es arbitrary: n m) (simp_all split: option.split)
  let ?P = "\<lambda>j. j < length (es @ [e]) \<and> retriedEffectId ((es @ [e]) ! j) = Some i"
  show ?case
  proof (cases "retriedEffectId e = Some i")
    case True
    then have "(GREATEST j. ?P j) = length es" by (intro Greatest_equality) auto
    moreover have "?P (length es)" using True by simp
    ultimately show ?thesis using True by (auto simp: app)
  next
    case False
    then have P: "?P = (\<lambda>j. j < length es \<and> retriedEffectId (es ! j) = Some i)"
      by (auto simp: nth_append less_Suc_eq fun_eq_iff)
    have ex: "(\<exists>j < length (es @ [e]). retriedEffectId ((es @ [e]) ! j) = Some i)
        \<longleftrightarrow> (\<exists>j < length es. retriedEffectId (es ! j) = Some i)"
      using P by (metis (mono_tags, lifting))
    from False have "dget (lastRetries n (es @ [e]) m) i = dget (lastRetries n es m) i"
      by (simp add: app split: option.split)
    then show ?thesis unfolding ex P snoc.IH by simp
  qed
qed simp

text \<open>What is superseded: an ephemeral event of an effect that is retried at or after its position.\<close>

definition superseded :: "envelope list \<Rightarrow> nat \<Rightarrow> bool" where
  "superseded events n \<longleftrightarrow>
     ev_ephemeral (events ! n)
     \<and> (\<exists>i. truthy (ev_effectId (events ! n)) = Some i
          \<and> list_ex (\<lambda>e. retriedEffectId e = Some i) (drop n events))"

lemma list_ex_drop: "list_ex P (drop n xs) \<longleftrightarrow> (\<exists>j \<ge> n. j < length xs \<and> P (xs ! j))"
proof
  assume "list_ex P (drop n xs)"
  then obtain k where "k < length xs - n" "P (xs ! (n + k))" by (auto simp: list_ex_length)
  then show "\<exists>j \<ge> n. j < length xs \<and> P (xs ! j)" by (intro exI [of _ "n + k"]) simp
next
  assume "\<exists>j \<ge> n. j < length xs \<and> P (xs ! j)"
  then obtain j where "n \<le> j" "j < length xs" "P (xs ! j)" by blast
  then show "list_ex P (drop n xs)" by (auto simp: list_ex_length intro!: exI [of _ "j - n"])
qed

lemma currentAttempt_superseded:
  assumes "n < length events"
  shows "currentAttempt (lastRetries 0 events []) n (events ! n) \<longleftrightarrow> \<not> superseded events n"
proof (cases "truthy (ev_effectId (events ! n))")
  case (Some i)
  let ?P = "\<lambda>j. j < length events \<and> retriedEffectId (events ! j) = Some i"
  have later: "list_ex (\<lambda>e. retriedEffectId e = Some i) (drop n events) \<longleftrightarrow> (\<exists>j \<ge> n. ?P j)"
    by (auto simp: list_ex_drop)
  have "(\<exists>j \<ge> n. ?P j) \<longleftrightarrow> n \<le> (GREATEST j. ?P j)" if "\<exists>j. ?P j"
  proof -
    from that obtain j where "?P j" by blast
    have bound: "\<And>k. ?P k \<Longrightarrow> k \<le> length events" by simp
    from GreatestI_nat [of ?P, OF \<open>?P j\<close> bound] have "?P (GREATEST j. ?P j)" .
    moreover have "\<And>k. ?P k \<Longrightarrow> k \<le> (GREATEST j. ?P j)"
      using Greatest_le_nat [of ?P, OF _ bound] .
    ultimately show ?thesis by (meson order_trans)
  qed
  then have "list_ex (\<lambda>e. retriedEffectId e = Some i) (drop n events)
      \<longleftrightarrow> (\<exists>j. ?P j) \<and> n \<le> (GREATEST j. ?P j)"
    unfolding later by blast
  then show ?thesis
    using Some by (simp add: currentAttempt_def superseded_def lastRetries_get not_le) blast
qed (simp add: currentAttempt_def superseded_def)

text \<open>
  Dropping superseded attempts drops exactly those: the result is the log without the ephemeral
  events of an effect that the log retries later, in the same order, and it folds to the same state
  as the whole log.
\<close>

theorem dropSupersededAttempts_spec:
  "dropSupersededAttempts events
     = map (nth events) (filter (\<lambda>n. \<not> superseded events n) [0..<length events])
   \<and> foldRun reg s (dropSupersededAttempts events) = foldRun reg s events"
proof
  have enum: "List.enumerate 0 events = map (\<lambda>n. (n, events ! n)) [0..<length events]"
    by (rule nth_equalityI) (simp_all add: nth_enumerate_eq)
  have filtered: "map snd (filter (\<lambda>(n, e). currentAttempt (lastRetries 0 events []) n e)
        (List.enumerate 0 events))
      = map (nth events) (filter (\<lambda>n. \<not> superseded events n) [0..<length events])"
    by (simp add: enum filter_map o_def)
      (rule arg_cong [where f = "map (nth events)"], rule filter_cong, simp_all add: currentAttempt_superseded)
  have none: "\<not> superseded events n" if "lastRetries 0 events [] = []" "n < length events" for n
    using currentAttempt_superseded [OF that(2)] that(1)
    by (auto simp: currentAttempt_def split: option.splits)
  show "dropSupersededAttempts events
      = map (nth events) (filter (\<lambda>n. \<not> superseded events n) [0..<length events])"
  proof (cases "lastRetries 0 events [] = []")
    case True
    with none have "filter (\<lambda>n. \<not> superseded events n) [0..<length events] = [0..<length events]"
      by (intro filter_True) simp
    with True show ?thesis by (simp add: dropSupersededAttempts_def map_nth)
  qed (simp add: dropSupersededAttempts_def Let_def filtered)
  have "filter (\<lambda>e. \<not> ev_ephemeral e) (dropSupersededAttempts events)
      = filter (\<lambda>e. \<not> ev_ephemeral e) events"
  proof (cases "lastRetries 0 events [] = []")
    case False
    let ?l = "List.enumerate 0 events" and ?m = "lastRetries 0 events []"
    have "filter (\<lambda>e. \<not> ev_ephemeral e) (dropSupersededAttempts events)
        = map snd (filter (\<lambda>x. (case x of (n, e) \<Rightarrow> currentAttempt ?m n e) \<and> \<not> ev_ephemeral (snd x)) ?l)"
      using False by (simp add: dropSupersededAttempts_def Let_def filter_map o_def)
    also have "filter (\<lambda>x. (case x of (n, e) \<Rightarrow> currentAttempt ?m n e) \<and> \<not> ev_ephemeral (snd x)) ?l
        = filter (\<lambda>x. \<not> ev_ephemeral (snd x)) ?l"
      by (rule filter_cong) (auto simp: currentAttempt_def)
    also have "map snd \<dots> = filter (\<lambda>e. \<not> ev_ephemeral e) (map snd ?l)"
      by (simp only: filter_map o_def)
    finally show ?thesis by simp
  qed (simp add: dropSupersededAttempts_def)
  then show "foldRun reg s (dropSupersededAttempts events) = foldRun reg s events"
    using foldRun_durable by metis
qed

section \<open>Snapshots\<close>

definition isSnapshot :: "envelope \<Rightarrow> bool" where
  "isSnapshot e \<longleftrightarrow> ev_type e = ''runtime.snapshot.taken''"

definition shouldTakeSnapshot :: "envelope list \<Rightarrow> nat \<Rightarrow> bool" where
  "shouldTakeSnapshot events every =
     (let durable = filter (\<lambda>e. \<not> ev_ephemeral e \<and> \<not> isSnapshot e) events in
      if durable = [] then False
      else (case find isSnapshot (rev events) of
              None \<Rightarrow> every \<le> length durable
            | Some lastSnap \<Rightarrow>
                every \<le> length (filter (\<lambda>e. ev_seq lastSnap < ev_seq e) durable)))"

text \<open>
  Recovery from the last snapshot. \<open>decode\<close> stands for the schema library's decoding of a snapshot
  payload: the covered sequence number and the inlined state, when there is one.
\<close>

definition foldFromSnapshots ::
  "(json \<Rightarrow> number \<times> run_state option) \<Rightarrow> registry \<Rightarrow> string option \<Rightarrow> envelope list \<Rightarrow> run_state" where
  "foldFromSnapshots decode reg runId events =
     (let r = withDefault runId (case events of [] \<Rightarrow> ''unknown'' | e # _ \<Rightarrow> ev_runId e) in
      case find isSnapshot (rev events) of
        None \<Rightarrow> foldRun reg (emptyRunState r) events
      | Some snap \<Rightarrow>
          (case decode (ev_payload snap) of
             (q, Some state) \<Rightarrow>
               (let trailing = filter (\<lambda>e. q < of_nat (ev_seq e)) events in
                if trailing = [] then state else foldRun reg state trailing)
           | (q, None) \<Rightarrow> foldRun reg (emptyRunState r) events))"

lemma find_rev_Some: "find P (rev xs) = Some x \<Longrightarrow> x \<in> set xs \<and> P x"
  by (metis find_Some_iff nth_mem set_rev)

text \<open>
  Recovery from a snapshot is replay: when every inlined snapshot state is what the log folds to
  up to the sequence number it covers, folding on from the last snapshot gives the state of the whole
  log.
\<close>

theorem foldFromSnapshots_replay:
  assumes "sorted_wrt (<) (map ev_seq events)"
    and "\<And>snap q state. snap \<in> set events \<Longrightarrow> isSnapshot snap \<Longrightarrow>
           decode (ev_payload snap) = (q, Some state) \<Longrightarrow>
           state = foldRun reg (emptyRunState r) (filter (\<lambda>e. of_nat (ev_seq e) \<le> q) events)"
  shows "foldFromSnapshots decode reg (Some r) events = foldRun reg (emptyRunState r) events"
proof -
  have split: "filter (\<lambda>e. of_nat (ev_seq e) \<le> q) events @ filter (\<lambda>e. q < of_nat (ev_seq e)) events
      = events" for q :: number
    using assms(1)
  proof (induction events)
    case (Cons e es)
    show ?case
    proof (cases "of_nat (ev_seq e) \<le> q")
      case False
      with Cons.prems have "filter (\<lambda>e. of_nat (ev_seq e) \<le> q) es = []"
        by (fastforce simp: filter_empty_conv)
      with Cons False show ?thesis by (simp add: not_le)
    qed (use Cons in simp)
  qed simp
  have recover: "foldRun reg state (filter (\<lambda>e. q < of_nat (ev_seq e)) events)
      = foldRun reg (emptyRunState r) events"
    if "snap \<in> set events" "isSnapshot snap" "decode (ev_payload snap) = (q, Some state)"
    for snap q state
    unfolding assms(2) [OF that] foldRun_append [symmetric] split ..
  show ?thesis
  proof (cases "find isSnapshot (rev events)")
    case (Some snap)
    then have snap: "snap \<in> set events" "isSnapshot snap" using find_rev_Some by metis+
    obtain q found where decode: "decode (ev_payload snap) = (q, found)" by fastforce
    show ?thesis
    proof (cases found)
      case (Some state)
      from recover [OF snap] decode Some
      have "foldRun reg state (filter (\<lambda>e. q < of_nat (ev_seq e)) events)
          = foldRun reg (emptyRunState r) events" by simp
      then show ?thesis
        using decode Some \<open>find isSnapshot (rev events) = Some snap\<close>
        by (auto simp: foldFromSnapshots_def Let_def)
    qed (simp add: foldFromSnapshots_def \<open>find isSnapshot (rev events) = Some snap\<close> decode)
  qed (simp add: foldFromSnapshots_def)
qed

text \<open>A log with a snapshot of the state it had after its first event.\<close>

definition snapshotLog :: "envelope list" where
  "snapshotLog = [tick 1, (sampleEvent ''runtime.snapshot.taken'' [])\<lparr>ev_seq := 2\<rparr>, tick 3]"

lemma foldFromSnapshots_replay_witness:
  "foldFromSnapshots (\<lambda>_. (1, Some (foldRun sampleRegistry (emptyRunState ''r'') [tick 1])))
     sampleRegistry (Some ''r'') snapshotLog
   = foldRun sampleRegistry (emptyRunState ''r'') snapshotLog"
  by (rule foldFromSnapshots_replay)
     (auto simp: snapshotLog_def tick_def sampleEvent_def)

end
