(* ===== verification/Event_Store.thy ===== *)
theory Event_Store
  imports Replay
begin

text \<open>
  \<open>packages/core/src/store.ts\<close> and \<open>limits.ts\<close>: the event store. The first section is the memory
  store, operation by operation; every \<open>Ref.update\<close> of the code is one step here. The array of
  waiters of a rlog is shared by reference between the versions of the rlog; a waiter is an index into
  the queues of the store with the sequence number its subscription starts from. The second section
  is the interface \<open>event_log\<close> that the repository relies on, and the memory store as an instance.

  The byte size of a serialized event (\<open>utf8JsonBytes\<close>) depends on how the platform prints numbers;
  it is an argument, \<open>bytes\<close>, of the operations that check it.
\<close>

section \<open>The memory store\<close>

datatype store_error =
    PayloadTooLarge string string nat
  | IdempotencyReused string
  | Conflict string nat nat
  | Fenced string string

record command =
  cm_fingerprint :: "string option"
  cm_committedTail :: nat

record run_log =
  lg_events :: "envelope list"
  lg_waiters :: "(nat \<times> nat) list"
  lg_head :: nat
  lg_tail :: nat
  lg_fenceToken :: "string option"
  lg_commands :: "command dict"

record memory_store =
  ms_logs :: "run_log dict"
  ms_queues :: "nat \<Rightarrow> envelope list"
  ms_nextQueue :: nat

record append_options =
  ao_expectedTail :: "nat option"
  ao_idempotency :: "(string \<times> string option) option"
  ao_fence :: "string option"
  ao_fencingToken :: "string option"

record append_result =
  ar_sequences :: "nat list"
  ar_tail :: nat
  ar_deduplicated :: bool

definition noOptions :: append_options where
  "noOptions = \<lparr>ao_expectedTail = None, ao_idempotency = None, ao_fence = None, ao_fencingToken = None\<rparr>"

definition emptyStore :: memory_store where
  "emptyStore = \<lparr>ms_logs = [], ms_queues = (\<lambda>_. []), ms_nextQueue = 0\<rparr>"

definition emptyLog :: run_log where
  "emptyLog = \<lparr>lg_events = [], lg_waiters = [], lg_head = 1, lg_tail = 0, lg_fenceToken = None,
     lg_commands = []\<rparr>"

definition getOrCreate :: "memory_store \<Rightarrow> string \<Rightarrow> run_log" where
  "getOrCreate st runId = withDefault (dget (ms_logs st) runId) emptyLog"

definition maxEventBytes :: nat where
  "maxEventBytes = 1024 * 1024"

text \<open>\<open>assertEventByteLimits\<close>: the first event over the limit, if there is one.\<close>

definition assertEventByteLimits ::
  "(envelope \<Rightarrow> nat) \<Rightarrow> string \<Rightarrow> envelope list \<Rightarrow> store_error option" where
  "assertEventByteLimits bytes runId events =
     (case find (\<lambda>e. maxEventBytes < bytes (e\<lparr>ev_runId := runId\<rparr>)) events of
        None \<Rightarrow> None
      | Some e \<Rightarrow> Some (PayloadTooLarge runId (ev_type e) (bytes (e\<lparr>ev_runId := runId\<rparr>))))"

text \<open>Evaluation compares sizes as integers.\<close>

lemma assertEventByteLimits_code [code]:
  "assertEventByteLimits bytes runId events =
     (case find (\<lambda>e. 1048576 < int (bytes (e\<lparr>ev_runId := runId\<rparr>))) events of
        None \<Rightarrow> None
      | Some e \<Rightarrow> Some (PayloadTooLarge runId (ev_type e) (bytes (e\<lparr>ev_runId := runId\<rparr>))))"
proof -
  have "(maxEventBytes < n) = (1048576 < int n)" for n by (simp add: maxEventBytes_def)
  then show ?thesis by (simp add: assertEventByteLimits_def)
qed

text \<open>The appended events, numbered from the sequence number after \<open>tail\<close>.\<close>

fun numberEvents :: "string \<Rightarrow> nat \<Rightarrow> envelope list \<Rightarrow> envelope list" where
  "numberEvents runId tail [] = []"
| "numberEvents runId tail (e # es) =
     withAssignedSeq e runId (Suc tail) # numberEvents runId (Suc tail) es"

text \<open>Each appended event is offered to each waiter, in order.\<close>

definition offer :: "(nat \<times> nat) list \<Rightarrow> (nat \<Rightarrow> envelope list) \<Rightarrow> envelope \<Rightarrow> (nat \<Rightarrow> envelope list)" where
  "offer waiters queues event =
     foldl (\<lambda>qs (i, fromSeq). if fromSeq \<le> ev_seq event then qs(i := qs i @ [event]) else qs)
       queues waiters"

definition appendLog ::
  "memory_store \<Rightarrow> string \<Rightarrow> envelope list \<Rightarrow> append_options \<Rightarrow> nat list \<times> memory_store" where
  "appendLog st runId events opts =
     (let rlog = getOrCreate st runId;
          base = (if ao_fence opts \<noteq> None then lg_tail rlog + 1 else lg_tail rlog);
          fenceToken = (case ao_fence opts of None \<Rightarrow> lg_fenceToken rlog | Some f \<Rightarrow> truthy (Some f));
          appended = numberEvents runId base events;
          nextTail = base + length appended;
          commands = (case ao_idempotency opts of
                        None \<Rightarrow> lg_commands rlog
                      | Some (key, fp) \<Rightarrow>
                          dput key \<lparr>cm_fingerprint = fp, cm_committedTail = nextTail\<rparr> (lg_commands rlog));
          updated = rlog\<lparr>lg_events := lg_events rlog @ appended, lg_tail := nextTail,
                        lg_fenceToken := fenceToken, lg_commands := commands\<rparr>
      in (map ev_seq appended,
          st\<lparr>ms_logs := dput runId updated (ms_logs st),
             ms_queues := foldl (offer (lg_waiters rlog)) (ms_queues st) appended\<rparr>))"

definition tailOf :: "memory_store \<Rightarrow> string \<Rightarrow> nat" where
  "tailOf st runId = (case dget (ms_logs st) runId of None \<Rightarrow> 0 | Some rlog \<Rightarrow> lg_tail rlog)"

text \<open>The guards of \<open>append\<close>, in the order of the code: Left fails, Right is a deduplicated command.\<close>

definition fencingGuard :: "run_log \<Rightarrow> string \<Rightarrow> append_options \<Rightarrow> store_error + bool" where
  "fencingGuard rlog runId opts =
     (case ao_fencingToken opts of
        None \<Rightarrow> Inr False
      | Some token \<Rightarrow>
          if lg_fenceToken rlog \<noteq> Some token then Inl (Fenced runId token) else Inr False)"

definition appendGuard ::
  "memory_store \<Rightarrow> string \<Rightarrow> append_options \<Rightarrow> store_error + bool" where
  "appendGuard st runId opts =
     (let rlog = getOrCreate st runId;
          command = Option.bind (ao_idempotency opts) (\<lambda>(key, _). dget (lg_commands rlog) key)
      in case command of
           Some c \<Rightarrow>
             (case (ao_idempotency opts, cm_fingerprint c) of
                (Some (key, Some fp), Some committed) \<Rightarrow>
                  if committed \<noteq> fp then Inl (IdempotencyReused key) else Inr True
              | _ \<Rightarrow> Inr True)
         | None \<Rightarrow>
             (case ao_expectedTail opts of
                None \<Rightarrow> fencingGuard rlog runId opts
              | Some expected \<Rightarrow>
                  if lg_tail rlog \<noteq> expected then Inl (Conflict runId expected (lg_tail rlog))
                  else fencingGuard rlog runId opts))"

definition append_events ::
  "(envelope \<Rightarrow> nat) \<Rightarrow> memory_store \<Rightarrow> string \<Rightarrow> envelope list \<Rightarrow> append_options \<Rightarrow>
   store_error + append_result \<times> memory_store" where
  "append_events bytes st runId events opts =
     (case assertEventByteLimits bytes runId events of
        Some err \<Rightarrow> Inl err
      | None \<Rightarrow>
          (case appendGuard st runId opts of
             Inl err \<Rightarrow> Inl err
           | Inr True \<Rightarrow>
               Inr (\<lparr>ar_sequences = [], ar_tail = tailOf st runId, ar_deduplicated = True\<rparr>, st)
           | Inr False \<Rightarrow>
               (let (sequences, st') = appendLog st runId events opts
                in Inr (\<lparr>ar_sequences = sequences, ar_tail = tailOf st' runId,
                         ar_deduplicated = False\<rparr>, st'))))"

definition readFrom :: "memory_store \<Rightarrow> string \<Rightarrow> nat option \<Rightarrow> nat option \<Rightarrow> envelope list" where
  "readFrom st runId fromSeq limit =
     (case dget (ms_logs st) runId of
        None \<Rightarrow> []
      | Some rlog \<Rightarrow>
          (let start = max (withDefault fromSeq 1) (lg_head rlog);
               sliced = filter (\<lambda>e. start \<le> ev_seq e) (lg_events rlog)
           in case limit of None \<Rightarrow> sliced | Some n \<Rightarrow> take n sliced))"

definition boundsOf :: "memory_store \<Rightarrow> string \<Rightarrow> nat \<times> nat" where
  "boundsOf st runId =
     (case dget (ms_logs st) runId of None \<Rightarrow> (1, 0) | Some rlog \<Rightarrow> (lg_head rlog, lg_tail rlog))"

definition trimLog :: "memory_store \<Rightarrow> string \<Rightarrow> nat \<Rightarrow> memory_store" where
  "trimLog st runId beforeSeq =
     (case dget (ms_logs st) runId of
        None \<Rightarrow> st
      | Some rlog \<Rightarrow>
          st\<lparr>ms_logs := dput runId
               (rlog\<lparr>lg_events := filter (\<lambda>e. beforeSeq \<le> ev_seq e) (lg_events rlog),
                    lg_head := max (lg_head rlog) beforeSeq\<rparr>) (ms_logs st)\<rparr>)"

text \<open>A subscription: its queue gets the recorded events at once and the later ones as they come.\<close>

definition subscribe :: "memory_store \<Rightarrow> string \<Rightarrow> nat option \<Rightarrow> nat \<times> memory_store" where
  "subscribe st runId fromSeq =
     (let start = withDefault fromSeq 1; rlog = getOrCreate st runId; i = ms_nextQueue st in
      (i, st\<lparr>ms_logs := dput runId (rlog\<lparr>lg_waiters := lg_waiters rlog @ [(i, start)]\<rparr>) (ms_logs st),
             ms_queues := (ms_queues st)(i := filter (\<lambda>e. start \<le> ev_seq e) (lg_events rlog)),
             ms_nextQueue := Suc i\<rparr>))"

text \<open>The finalizer of a subscription.\<close>

definition unsubscribe :: "memory_store \<Rightarrow> string \<Rightarrow> nat \<Rightarrow> memory_store" where
  "unsubscribe st runId i =
     (case dget (ms_logs st) runId of
        None \<Rightarrow> st
      | Some rlog \<Rightarrow>
          st\<lparr>ms_logs := dput runId
               (rlog\<lparr>lg_waiters := snd (takeFirst (\<lambda>(j, _). j = i) (lg_waiters rlog))\<rparr>) (ms_logs st)\<rparr>)"

definition listRuns :: "memory_store \<Rightarrow> string list" where
  "listRuns st = dkeys (ms_logs st)"

section \<open>Safe trimming\<close>

datatype trim_coverage =
    ArchiveCursor int
  | ProjectorCursors "string list" "int dict"

text \<open>\<open>trimEventStoreSafely\<close>; Left is the refusal. \<open>canTrim\<close> is whether the store implements \<open>trim\<close>.\<close>

definition trimEventStoreSafely ::
  "bool \<Rightarrow> memory_store \<Rightarrow> string \<Rightarrow> nat \<Rightarrow> trim_coverage \<Rightarrow> (string \<times> nat) + memory_store" where
  "trimEventStoreSafely canTrim st runId beforeSeq coverage =
     (let trimThrough = beforeSeq - 1;
          covered = (case coverage of
                       ArchiveCursor c \<Rightarrow> int trimThrough \<le> c
                     | ProjectorCursors required cursors \<Rightarrow>
                         required \<noteq> []
                         \<and> list_all (\<lambda>p. int trimThrough \<le> withDefault (dget cursors p) (- 1)) required)
      in if \<not> canTrim \<or> \<not> covered then Inl (runId, trimThrough) else Inr (trimLog st runId beforeSeq))"

section \<open>The invariant of the store\<close>

text \<open>
  The log of a run: its retained events are in strictly increasing order, between its head and its
  tail, and carry its id. Every live subscription has received exactly the retained events from its
  starting point on, in order, and no queue serves two subscriptions.
\<close>

definition log_ok :: "string \<Rightarrow> run_log \<Rightarrow> bool" where
  "log_ok r l \<longleftrightarrow>
     1 \<le> lg_head l \<and> lg_head l \<le> lg_tail l + 1 \<and> sorted_wrt (<) (map ev_seq (lg_events l))
     \<and> (\<forall>e \<in> set (lg_events l). lg_head l \<le> ev_seq e \<and> ev_seq e \<le> lg_tail l \<and> ev_runId e = r)"

definition waiters_ok :: "memory_store \<Rightarrow> run_log \<Rightarrow> bool" where
  "waiters_ok st l \<longleftrightarrow>
     distinct (map fst (lg_waiters l))
     \<and> (\<forall>(i, q) \<in> set (lg_waiters l). i < ms_nextQueue st
          \<and> filter (\<lambda>e. lg_head l \<le> ev_seq e) (ms_queues st i) = filter (\<lambda>e. q \<le> ev_seq e) (lg_events l))"

definition queues_disjoint :: "memory_store \<Rightarrow> bool" where
  "queues_disjoint st \<longleftrightarrow>
     (\<forall>r r' l l'. dget (ms_logs st) r = Some l \<longrightarrow> dget (ms_logs st) r' = Some l' \<longrightarrow> r \<noteq> r' \<longrightarrow>
        fst ` set (lg_waiters l) \<inter> fst ` set (lg_waiters l') = {})"

definition store_ok :: "memory_store \<Rightarrow> bool" where
  "store_ok st \<longleftrightarrow>
     (\<forall>r l. dget (ms_logs st) r = Some l \<longrightarrow> log_ok r l \<and> waiters_ok st l) \<and> queues_disjoint st"

lemma store_ok_empty [simp]: "store_ok emptyStore"
  by (simp add: store_ok_def emptyStore_def queues_disjoint_def)

lemma log_ok_empty [simp]: "log_ok r emptyLog"
  by (simp add: log_ok_def emptyLog_def)

lemma getOrCreate_ok:
  assumes "store_ok st"
  shows "log_ok r (getOrCreate st r)" "waiters_ok st (getOrCreate st r)"
  using assms by (cases "dget (ms_logs st) r";
    simp add: getOrCreate_def store_ok_def emptyLog_def log_ok_def waiters_ok_def)+

lemma getOrCreate_disjoint:
  assumes "store_ok st" "dget (ms_logs st) r' = Some l'" "r' \<noteq> r"
  shows "fst ` set (lg_waiters (getOrCreate st r)) \<inter> fst ` set (lg_waiters l') = {}"
  using assms by (cases "dget (ms_logs st) r")
    (auto simp: getOrCreate_def emptyLog_def store_ok_def queues_disjoint_def)

lemma numberEvents_seqs: "map ev_seq (numberEvents r n es) = [Suc n..<Suc (n + length es)]"
  by (induction es arbitrary: n) (simp_all add: upt_rec)

lemma length_numberEvents [simp]: "length (numberEvents r n es) = length es"
  by (induction es arbitrary: n) simp_all

lemma numberEvents_mem:
  "e \<in> set (numberEvents r n es) \<Longrightarrow> n < ev_seq e \<and> ev_seq e \<le> n + length es \<and> ev_runId e = r"
  by (induction es arbitrary: n) fastforce+

lemma offer_queue:
  "distinct (map fst ws) \<Longrightarrow>
   offer ws qs e i = (case map_of ws i of
     None \<Rightarrow> qs i | Some q \<Rightarrow> if q \<le> ev_seq e then qs i @ [e] else qs i)"
proof (induction ws arbitrary: qs)
  case (Cons w ws)
  obtain j q where w: "w = (j, q)" by fastforce
  with Cons have "map_of ws j = None" by (auto simp: map_of_eq_None_iff)
  with Cons w show ?case by (auto simp: offer_def split: option.splits)
qed (simp add: offer_def)

lemma offer_all:
  "distinct (map fst ws) \<Longrightarrow>
   foldl (offer ws) qs es i = (case map_of ws i of
     None \<Rightarrow> qs i | Some q \<Rightarrow> qs i @ filter (\<lambda>e. q \<le> ev_seq e) es)"
proof (induction es arbitrary: qs)
  case (Cons e es)
  then show ?case by (simp add: offer_queue split: option.split)
qed (simp split: option.split)

text \<open>Replacing one log, and only queues that no other log uses.\<close>

lemma store_ok_replace:
  assumes "store_ok st" and "ms_nextQueue st \<le> ms_nextQueue st'"
    and "ms_logs st' = dput r l (ms_logs st)"
    and "log_ok r l" and "waiters_ok st' l"
    and "\<And>r' l'. dget (ms_logs st) r' = Some l' \<Longrightarrow> r' \<noteq> r \<Longrightarrow>
           fst ` set (lg_waiters l) \<inter> fst ` set (lg_waiters l') = {}"
    and "\<And>r' l' i. dget (ms_logs st) r' = Some l' \<Longrightarrow> r' \<noteq> r \<Longrightarrow> i \<in> fst ` set (lg_waiters l') \<Longrightarrow>
           ms_queues st' i = ms_queues st i"
  shows "store_ok st'"
proof -
  have "waiters_ok st' l'" if "dget (ms_logs st) r' = Some l'" "r' \<noteq> r" for r' l'
    using assms(1,2) assms(7) [OF that] that by (fastforce simp: store_ok_def waiters_ok_def)
  moreover have "queues_disjoint st'"
    using assms(1,3,6) by (auto simp: queues_disjoint_def store_ok_def Int_commute)
  ultimately show ?thesis
    using assms(1,3,4,5) by (auto simp: store_ok_def)
qed

lemma appendLog_ok:
  assumes "store_ok st"
  shows "store_ok (snd (appendLog st r es opts))"
proof -
  let ?l = "getOrCreate st r" and ?st = "snd (appendLog st r es opts)"
  define base where "base = (if ao_fence opts \<noteq> None then lg_tail ?l + 1 else lg_tail ?l)"
  define new where "new = numberEvents r base es"
  obtain l where l: "ms_logs ?st = dput r l (ms_logs st)" "lg_events l = lg_events ?l @ new"
      "lg_tail l = base + length es" "lg_head l = lg_head ?l" "lg_waiters l = lg_waiters ?l"
    by (simp add: appendLog_def Let_def base_def new_def)
  have queues: "ms_queues ?st = foldl (offer (lg_waiters ?l)) (ms_queues st) new"
    by (simp add: appendLog_def Let_def base_def new_def)
  have next_queue: "ms_nextQueue ?st = ms_nextQueue st" by (simp add: appendLog_def Let_def)
  note old = getOrCreate_ok [OF assms, of r]
  have base: "lg_tail ?l \<le> base" by (simp add: base_def)
  have new: "\<And>e. e \<in> set new \<Longrightarrow> base < ev_seq e \<and> ev_seq e \<le> base + length es \<and> ev_runId e = r"
    unfolding new_def by (rule numberEvents_mem)
  have distinct: "distinct (map fst (lg_waiters ?l))" using old(2) by (simp add: waiters_ok_def)
  show ?thesis
  proof (rule store_ok_replace [OF assms _ l(1)])
    have "sorted_wrt (<) (map ev_seq new)" by (simp add: new_def numberEvents_seqs del: upt_Suc)
    then show "log_ok r l"
      using old(1) base by (fastforce simp: log_ok_def l sorted_wrt_append dest: new)
    have all: "filter (\<lambda>e. lg_head ?l \<le> ev_seq e) new = new"
      using old(1) base by (intro filter_True) (fastforce simp: log_ok_def dest: new)
    have kept: "filter (\<lambda>e. lg_head ?l \<le> ev_seq e) (filter (\<lambda>e. q \<le> ev_seq e) new)
        = filter (\<lambda>e. q \<le> ev_seq e) new" for q
      by (subst (2) all [symmetric]) (simp add: conj_commute)
    show "waiters_ok ?st l" unfolding waiters_ok_def l next_queue
    proof (intro conjI ballI)
      show "distinct (map fst (lg_waiters ?l))" by (rule distinct)
      fix w assume w: "w \<in> set (lg_waiters ?l)"
      obtain i q where iq: "w = (i, q)" by fastforce
      with w distinct have "map_of (lg_waiters ?l) i = Some q" by simp
      then have "ms_queues ?st i = ms_queues st i @ filter (\<lambda>e. q \<le> ev_seq e) new"
        by (simp add: queues offer_all [OF distinct])
      with w iq old(2) kept show "case w of (i, q) \<Rightarrow> i < ms_nextQueue st
          \<and> filter (\<lambda>e. lg_head ?l \<le> ev_seq e) (ms_queues ?st i)
            = filter (\<lambda>e. q \<le> ev_seq e) (lg_events ?l @ new)"
        by (auto simp: waiters_ok_def simp del: filter_filter)
    qed
    fix r' l' i assume other: "dget (ms_logs st) r' = Some l'" "r' \<noteq> r"
    show "fst ` set (lg_waiters l) \<inter> fst ` set (lg_waiters l') = {}"
      using getOrCreate_disjoint [OF assms other] by (simp add: l)
    assume "i \<in> fst ` set (lg_waiters l')"
    then have "i \<notin> fst ` set (lg_waiters ?l)" using getOrCreate_disjoint [OF assms other] by blast
    then have "map_of (lg_waiters ?l) i = None" by (simp add: map_of_eq_None_iff)
    then show "ms_queues ?st i = ms_queues st i" by (simp add: queues offer_all [OF distinct])
  qed (simp add: next_queue)
qed

lemma append_events_ok:
  assumes "store_ok st" "append_events bytes st r es opts = Inr (res, st')"
  shows "store_ok st'"
  using assms appendLog_ok [OF assms(1), of r es opts]
  by (auto simp: append_events_def Let_def split: option.splits sum.splits bool.splits prod.splits)

lemma trimLog_ok:
  assumes "store_ok st" "n \<le> tailOf st r + 1"
  shows "store_ok (trimLog st r n)"
proof (cases "dget (ms_logs st) r")
  case (Some l)
  let ?l = "l\<lparr>lg_events := filter (\<lambda>e. n \<le> ev_seq e) (lg_events l), lg_head := max (lg_head l) n\<rparr>"
  have old: "log_ok r l" "waiters_ok st l" using assms(1) Some by (simp_all add: store_ok_def)
  have get: "getOrCreate st r = l" using Some by (simp add: getOrCreate_def)
  show ?thesis
  proof (rule store_ok_replace [OF assms(1)])
    show "ms_logs (trimLog st r n) = dput r ?l (ms_logs st)" by (simp add: trimLog_def Some)
    have "sorted_wrt (<) (map ev_seq (filter (\<lambda>e. n \<le> ev_seq e) (lg_events l)))"
      using old(1) by (simp add: log_ok_def sorted_wrt_map sorted_wrt_filter)
    then show "log_ok r ?l"
      using old(1) assms(2) Some by (auto simp: log_ok_def tailOf_def)
    have "filter (\<lambda>e. max (lg_head l) n \<le> ev_seq e) (ms_queues st i)
        = filter (\<lambda>e. q \<le> ev_seq e) (filter (\<lambda>e. n \<le> ev_seq e) (lg_events l))"
      if "(i, q) \<in> set (lg_waiters l)" for i q
    proof -
      have "filter (\<lambda>e. max (lg_head l) n \<le> ev_seq e) (ms_queues st i)
          = filter (\<lambda>e. n \<le> ev_seq e) (filter (\<lambda>e. lg_head l \<le> ev_seq e) (ms_queues st i))"
        by simp
      also have "\<dots> = filter (\<lambda>e. n \<le> ev_seq e) (filter (\<lambda>e. q \<le> ev_seq e) (lg_events l))"
        using old(2) that by (auto simp: waiters_ok_def simp del: filter_filter)
      finally show ?thesis by (simp add: conj_commute)
    qed
    then show "waiters_ok (trimLog st r n) ?l"
      using old(2) by (auto simp: waiters_ok_def trimLog_def Some simp del: filter_filter)
    show "fst ` set (lg_waiters ?l) \<inter> fst ` set (lg_waiters l') = {}"
      if "dget (ms_logs st) r' = Some l'" "r' \<noteq> r" for r' l'
      using getOrCreate_disjoint [OF assms(1) that] get by simp
  qed (simp_all add: trimLog_def Some)
qed (use assms in \<open>simp add: trimLog_def\<close>)

lemma subscribe_ok:
  assumes "store_ok st" "subscribe st r from = (i, st')"
  shows "store_ok st'"
proof -
  let ?l = "getOrCreate st r" and ?q = "withDefault from 1"
  have i: "i = ms_nextQueue st" and st': "ms_nextQueue st' = Suc i"
      "ms_logs st' = dput r (?l\<lparr>lg_waiters := lg_waiters ?l @ [(i, ?q)]\<rparr>) (ms_logs st)"
      "ms_queues st' = (ms_queues st)(i := filter (\<lambda>e. ?q \<le> ev_seq e) (lg_events ?l))"
    using assms(2) by (auto simp: subscribe_def Let_def)
  note old = getOrCreate_ok [OF assms(1), of r]
  have fresh: "j < i" if "j \<in> fst ` set (lg_waiters l')" "waiters_ok st l'" for j l'
    using that by (auto simp: waiters_ok_def i)
  have every: "filter (\<lambda>e. lg_head ?l \<le> ev_seq e) (lg_events ?l) = lg_events ?l"
    using old(1) by (intro filter_True) (simp add: log_ok_def)
  have kept: "filter (\<lambda>e. lg_head ?l \<le> ev_seq e) (filter (\<lambda>e. ?q \<le> ev_seq e) (lg_events ?l))
      = filter (\<lambda>e. ?q \<le> ev_seq e) (lg_events ?l)"
    by (subst (2) every [symmetric]) (simp add: conj_commute)
  show ?thesis
  proof (rule store_ok_replace [OF assms(1) _ st'(2)])
    show "log_ok r (?l\<lparr>lg_waiters := lg_waiters ?l @ [(i, ?q)]\<rparr>)"
      using old(1) by (simp add: log_ok_def)
    have "i \<notin> fst ` set (lg_waiters ?l)" using fresh [OF _ old(2)] by blast
    then have others: "ms_queues st' j = ms_queues st j \<and> j < Suc i"
      if "(j, q) \<in> set (lg_waiters ?l)" for j q
      using that old(2) by (force simp: st' i waiters_ok_def)
    show "waiters_ok st' (?l\<lparr>lg_waiters := lg_waiters ?l @ [(i, ?q)]\<rparr>)" unfolding waiters_ok_def
    proof (intro conjI ballI)
      show "distinct (map fst (lg_waiters (?l\<lparr>lg_waiters := lg_waiters ?l @ [(i, ?q)]\<rparr>)))"
        using \<open>i \<notin> _\<close> old(2) by (simp add: waiters_ok_def)
      fix w assume "w \<in> set (lg_waiters (?l\<lparr>lg_waiters := lg_waiters ?l @ [(i, ?q)]\<rparr>))"
      then have "w = (i, ?q) \<or> w \<in> set (lg_waiters ?l)" by (simp add: disj_commute)
      then consider "w = (i, ?q)" | j q where "w = (j, q)" "(j, q) \<in> set (lg_waiters ?l)"
        by (metis surj_pair)
      then show "case w of (j, q) \<Rightarrow> j < ms_nextQueue st'
          \<and> filter (\<lambda>e. lg_head (?l\<lparr>lg_waiters := lg_waiters ?l @ [(i, ?q)]\<rparr>) \<le> ev_seq e)
              (ms_queues st' j)
            = filter (\<lambda>e. q \<le> ev_seq e) (lg_events (?l\<lparr>lg_waiters := lg_waiters ?l @ [(i, ?q)]\<rparr>))"
      proof cases
        case 1
        then show ?thesis using kept by (simp add: st' del: filter_filter)
      next
        case 2
        with others [OF 2(2)] old(2) show ?thesis by (auto simp: waiters_ok_def st'(1))
      qed
    qed
    fix r' l' assume other: "dget (ms_logs st) r' = Some l'" "r' \<noteq> r"
    then have "waiters_ok st l'" using assms(1) by (simp add: store_ok_def)
    then have "i \<notin> fst ` set (lg_waiters l')" using fresh by blast
    then show "fst ` set (lg_waiters (?l\<lparr>lg_waiters := lg_waiters ?l @ [(i, ?q)]\<rparr>))
        \<inter> fst ` set (lg_waiters l') = {}"
      using getOrCreate_disjoint [OF assms(1) other] by auto
    show "ms_queues st' j = ms_queues st j" if "j \<in> fst ` set (lg_waiters l')" for j
      using fresh [OF that \<open>waiters_ok st l'\<close>] by (simp add: st')
  qed (simp add: st' i)
qed

lemma unsubscribe_ok:
  assumes "store_ok st"
  shows "store_ok (unsubscribe st r i)"
proof (cases "dget (ms_logs st) r")
  case (Some l)
  obtain found rest where take: "takeFirst (\<lambda>(j, _). j = i) (lg_waiters l) = (found, rest)" by fastforce
  have old: "log_ok r l" "waiters_ok st l" using assms Some by (simp_all add: store_ok_def)
  have get: "getOrCreate st r = l" using Some by (simp add: getOrCreate_def)
  have sub: "set rest \<subseteq> set (lg_waiters l)" using takeFirst_rest [OF take] .
  show ?thesis
  proof (rule store_ok_replace [OF assms])
    show "ms_logs (unsubscribe st r i) = dput r (l\<lparr>lg_waiters := rest\<rparr>) (ms_logs st)"
      by (simp add: unsubscribe_def Some take)
    show "log_ok r (l\<lparr>lg_waiters := rest\<rparr>)" using old(1) by (simp add: log_ok_def)
    show "waiters_ok (unsubscribe st r i) (l\<lparr>lg_waiters := rest\<rparr>)"
      using old(2) sub takeFirst_distinct [OF take, of fst]
      unfolding waiters_ok_def unsubscribe_def Some by auto
    show "fst ` set (lg_waiters (l\<lparr>lg_waiters := rest\<rparr>)) \<inter> fst ` set (lg_waiters l') = {}"
      if "dget (ms_logs st) r' = Some l'" "r' \<noteq> r" for r' l'
      using getOrCreate_disjoint [OF assms that] sub get by auto
  qed (simp_all add: unsubscribe_def Some)
qed (use assms in \<open>simp add: unsubscribe_def\<close>)

end
