(* ===== verification/Event_Log.thy ===== *)
theory Event_Log
  imports Event_Store
begin

text \<open>
  What the store of \<open>packages/core/src/store.ts\<close> promises. First its behaviour over every sequence of
  operations (\<open>store_reachable\<close>): logs stay ordered between head and tail, subscriptions miss nothing.
  Then appends: numbering, isolation of runs, optimistic concurrency, deduplication of commands,
  fencing, trimming. Last the interface \<open>event_log\<close> that the repository is a client of, with the
  client's lemma that a cursor advanced by the events it appended is the cursor a reload gives, and
  its interpretation on the memory store.
\<close>

declare upt_Suc [simp del]

section \<open>Reachable stores\<close>

inductive store_step :: "(envelope \<Rightarrow> nat) \<Rightarrow> memory_store \<Rightarrow> memory_store \<Rightarrow> bool" for bytes where
  append_step: "append_events bytes st r es opts = Inr (res, st') \<Longrightarrow> store_step bytes st st'"
| trim_step: "n \<le> tailOf st r + 1 \<Longrightarrow> store_step bytes st (trimLog st r n)"
| subscribe_step: "subscribe st r from = (i, st') \<Longrightarrow> store_step bytes st st'"
| unsubscribe_step: "store_step bytes st (unsubscribe st r i)"

inductive store_reachable :: "(envelope \<Rightarrow> nat) \<Rightarrow> memory_store \<Rightarrow> bool" for bytes where
  initial: "store_reachable bytes emptyStore"
| next_store: "store_reachable bytes st \<Longrightarrow> store_step bytes st st' \<Longrightarrow> store_reachable bytes st'"

lemma store_step_ok: "store_step bytes st st' \<Longrightarrow> store_ok st \<Longrightarrow> store_ok st'"
  by (induction rule: store_step.induct)
     (auto intro: append_events_ok trimLog_ok subscribe_ok unsubscribe_ok)

lemma store_reachable_ok: "store_reachable bytes st \<Longrightarrow> store_ok st"
  by (induction rule: store_reachable.induct) (auto dest: store_step_ok)

text \<open>
  In every store reached by appends, subscriptions, their ends, and trims up to the tail, the log of
  each run is in strictly increasing order between its head and its tail, its head is at most one past
  its tail, and every event carries the id of the run.
\<close>

theorem store_log_ordered:
  assumes "store_reachable bytes st" and "boundsOf st r = (hd_seq, tl_seq)"
  shows "1 \<le> hd_seq \<and> hd_seq \<le> tl_seq + 1
     \<and> sorted_wrt (<) (map ev_seq (readFrom st r None None))
     \<and> (\<forall>e \<in> set (readFrom st r None None). hd_seq \<le> ev_seq e \<and> ev_seq e \<le> tl_seq \<and> ev_runId e = r)"
proof (cases "dget (ms_logs st) r")
  case (Some l)
  then have "log_ok r l" using store_reachable_ok [OF assms(1)] by (simp add: store_ok_def)
  then show ?thesis
    using Some assms(2)
    by (auto simp: boundsOf_def readFrom_def log_ok_def sorted_wrt_map sorted_wrt_filter)
qed (use assms in \<open>simp add: boundsOf_def readFrom_def\<close>)

lemma readFrom_events:
  assumes "store_ok st" "dget (ms_logs st) r = Some l"
  shows "readFrom st r (Some q) None = filter (\<lambda>e. q \<le> ev_seq e) (lg_events l)"
proof -
  have "log_ok r l" using assms by (simp add: store_ok_def)
  then show ?thesis
    using assms(2) by (auto simp: readFrom_def log_ok_def intro!: filter_cong)
qed

text \<open>
  C6. A subscription misses nothing and repeats nothing: in every reachable store, a live subscription
  from sequence number q has received, of the events that are still retained, exactly those that
  reading the log from q returns, in that order.
\<close>

theorem subscription_complete:
  assumes "store_reachable bytes st" and "dget (ms_logs st) r = Some l"
    and "(i, q) \<in> set (lg_waiters l)"
  shows "filter (\<lambda>e. lg_head l \<le> ev_seq e) (ms_queues st i) = readFrom st r (Some q) None"
proof -
  have ok: "store_ok st" using store_reachable_ok [OF assms(1)] .
  then have "waiters_ok st l" using assms(2) by (simp add: store_ok_def)
  then show ?thesis using assms(3) readFrom_events [OF ok assms(2)] by (auto simp: waiters_ok_def)
qed

section \<open>Appending\<close>

lemma noOptions_simps [simp]:
  "ao_expectedTail noOptions = None" "ao_idempotency noOptions = None"
  "ao_fence noOptions = None" "ao_fencingToken noOptions = None"
  by (simp_all add: noOptions_def)

lemma append_events_success:
  "append_events bytes st r es opts = Inr (res, st') \<Longrightarrow> \<not> ar_deduplicated res \<Longrightarrow>
   appendGuard st r opts = Inr False \<and> assertEventByteLimits bytes r es = None
   \<and> (ar_sequences res, st') = appendLog st r es opts \<and> ar_tail res = tailOf st' r"
  by (auto simp: append_events_def Let_def split: option.splits sum.splits bool.splits prod.splits)

lemma getOrCreate_tail [simp]: "lg_tail (getOrCreate st r) = tailOf st r"
  by (simp add: getOrCreate_def tailOf_def emptyLog_def split: option.split)

lemma readFrom_getOrCreate:
  "store_ok st \<Longrightarrow> readFrom st r (Some q) None = filter (\<lambda>e. q \<le> ev_seq e) (lg_events (getOrCreate st r))"
  by (cases "dget (ms_logs st) r")
     (auto simp: getOrCreate_def emptyLog_def readFrom_events, simp add: readFrom_def)

lemma appendLog_read:
  assumes "store_ok st" "(qs, st') = appendLog st r es opts"
  shows "readFrom st' r (Some q) None = readFrom st r (Some q) None
      @ filter (\<lambda>e. q \<le> ev_seq e)
          (numberEvents r (if ao_fence opts \<noteq> None then tailOf st r + 1 else tailOf st r) es)"
proof -
  have st': "st' = snd (appendLog st r es opts)" using assms(2) by (metis snd_conv)
  have ok: "store_ok st'" unfolding st' by (rule appendLog_ok [OF assms(1)])
  have "getOrCreate st' r = (getOrCreate st r)\<lparr>lg_events := lg_events (getOrCreate st r)
        @ numberEvents r (if ao_fence opts \<noteq> None then tailOf st r + 1 else tailOf st r) es,
      lg_tail := lg_tail (getOrCreate st' r), lg_fenceToken := lg_fenceToken (getOrCreate st' r),
      lg_commands := lg_commands (getOrCreate st' r)\<rparr>"
    by (simp add: st' appendLog_def Let_def getOrCreate_def [of "_\<lparr>ms_logs := _, ms_queues := _\<rparr>"])
  then have "lg_events (getOrCreate st' r) = lg_events (getOrCreate st r)
        @ numberEvents r (if ao_fence opts \<noteq> None then tailOf st r + 1 else tailOf st r) es"
    by (metis (no_types, lifting) run_log.select_convs(1) run_log.surjective run_log.update_convs(1,4,5,6))
  then show ?thesis by (simp add: readFrom_getOrCreate [OF assms(1)] readFrom_getOrCreate [OF ok])
qed

lemma append_at_tail:
  assumes "append_events bytes st r es (noOptions\<lparr>ao_expectedTail := Some t\<rparr>) = Inr (res, st')"
  shows "t = tailOf st r \<and> ar_sequences res = [Suc t..<Suc (t + length es)] \<and> ar_tail res = tailOf st' r
     \<and> (ar_sequences res, st') = appendLog st r es (noOptions\<lparr>ao_expectedTail := Some t\<rparr>)
     \<and> (\<exists>l. ms_logs st' = dput r l (ms_logs st) \<and> lg_head l = lg_head (getOrCreate st r)
          \<and> lg_events l = lg_events (getOrCreate st r) @ numberEvents r t es
          \<and> lg_tail l = t + length es)"
proof -
  let ?o = "noOptions\<lparr>ao_expectedTail := Some t\<rparr>"
  have guard: "appendGuard st r ?o = Inr False \<and> t = tailOf st r"
    using assms unfolding append_events_def
    by (auto simp: appendGuard_def Let_def fencingGuard_def
        split: option.splits sum.splits if_splits)
  then have "\<not> ar_deduplicated res"
    using assms by (auto simp: append_events_def Let_def split: option.splits prod.splits)
  from append_events_success [OF assms this]
  have append: "(ar_sequences res, st') = appendLog st r es ?o" "ar_tail res = tailOf st' r" by simp_all
  then have "dput r ((getOrCreate st r)\<lparr>lg_events := lg_events (getOrCreate st r) @ numberEvents r t es,
      lg_tail := t + length es\<rparr>) (ms_logs st) = ms_logs st'"
    using guard by (simp add: appendLog_def Let_def)
  then have "\<exists>l. ms_logs st' = dput r l (ms_logs st) \<and> lg_head l = lg_head (getOrCreate st r)
      \<and> lg_events l = lg_events (getOrCreate st r) @ numberEvents r t es \<and> lg_tail l = t + length es"
    by (metis run_log.select_convs(1,3,4) run_log.simps(8,11) run_log.surjective)
  with append show ?thesis
    using guard numberEvents_seqs [of r t es] by (simp add: appendLog_def Let_def)
qed

text \<open>
  C5. A plain append at the tail it expects: it succeeds only when the log is at that tail, numbers
  the batch from the next sequence number without gaps, returns the new tail, and afterwards reading
  from any point gives what it gave before followed by the numbered batch. The logs of other runs are
  untouched.
\<close>

theorem append_events_spec:
  assumes "store_ok st" and "append_events bytes st r es (noOptions\<lparr>ao_expectedTail := Some t\<rparr>) = Inr (res, st')"
  shows "t = tailOf st r \<and> ar_sequences res = [Suc t..<Suc (t + length es)]
     \<and> ar_tail res = t + length es \<and> tailOf st' r = t + length es
     \<and> readFrom st' r (Some q) None
         = readFrom st r (Some q) None @ filter (\<lambda>e. q \<le> ev_seq e) (numberEvents r t es)
     \<and> (\<forall>r' from n. r' \<noteq> r \<longrightarrow> readFrom st' r' from n = readFrom st r' from n)"
proof -
  let ?o = "noOptions\<lparr>ao_expectedTail := Some t\<rparr>"
  note spec = append_at_tail [OF assms(2)]
  then obtain l where l: "ms_logs st' = dput r l (ms_logs st)" "lg_tail l = t + length es" by blast
  then have "tailOf st' r = t + length es" by (simp add: tailOf_def)
  moreover have "readFrom st' r' from n = readFrom st r' from n" if "r' \<noteq> r" for r' "from" n
    using l(1) that by (simp add: readFrom_def)
  moreover have "readFrom st' r (Some q) None
      = readFrom st r (Some q) None @ filter (\<lambda>e. q \<le> ev_seq e) (numberEvents r t es)"
    using appendLog_read [OF assms(1), of "ar_sequences res" st' r es ?o q] spec by force
  ultimately show ?thesis using spec by simp
qed

lemma appendLog_log:
  assumes "(qs, st') = appendLog st r es opts"
  shows "\<exists>l. dget (ms_logs st') r = Some l
    \<and> lg_tail l = (if ao_fence opts \<noteq> None then tailOf st r + 1 else tailOf st r) + length es
    \<and> lg_commands l = (case ao_idempotency opts of
        None \<Rightarrow> lg_commands (getOrCreate st r)
      | Some (key, fp) \<Rightarrow> dput key \<lparr>cm_fingerprint = fp, cm_committedTail = lg_tail l\<rparr>
          (lg_commands (getOrCreate st r)))
    \<and> lg_fenceToken l = (case ao_fence opts of
        None \<Rightarrow> lg_fenceToken (getOrCreate st r) | Some f \<Rightarrow> truthy (Some f))"
  using assms by (simp add: appendLog_def Let_def split: option.split prod.split)

lemma appendLog_get:
  assumes "(qs, st') = appendLog st r es opts"
  shows "lg_commands (getOrCreate st' r) = (case ao_idempotency opts of
      None \<Rightarrow> lg_commands (getOrCreate st r)
    | Some (key, fp) \<Rightarrow> dput key \<lparr>cm_fingerprint = fp, cm_committedTail = tailOf st' r\<rparr>
        (lg_commands (getOrCreate st r)))"
    "lg_fenceToken (getOrCreate st' r) = (case ao_fence opts of
      None \<Rightarrow> lg_fenceToken (getOrCreate st r) | Some f \<Rightarrow> truthy (Some f))"
    "tailOf st' r = (if ao_fence opts \<noteq> None then tailOf st r + 1 else tailOf st r) + length es"
proof -
  obtain l where "dget (ms_logs st') r = Some l" using appendLog_log [OF assms] by blast
  moreover from this have "getOrCreate st' r = l" "tailOf st' r = lg_tail l"
    by (simp_all add: getOrCreate_def tailOf_def)
  moreover note appendLog_log [OF assms]
  ultimately show
    "lg_commands (getOrCreate st' r) = (case ao_idempotency opts of
      None \<Rightarrow> lg_commands (getOrCreate st r)
    | Some (key, fp) \<Rightarrow> dput key \<lparr>cm_fingerprint = fp, cm_committedTail = tailOf st' r\<rparr>
        (lg_commands (getOrCreate st r)))"
    "lg_fenceToken (getOrCreate st' r) = (case ao_fence opts of
      None \<Rightarrow> lg_fenceToken (getOrCreate st r) | Some f \<Rightarrow> truthy (Some f))"
    "tailOf st' r = (if ao_fence opts \<noteq> None then tailOf st r + 1 else tailOf st r) + length es"
    by (auto split: option.split prod.split)
qed


text \<open>
  Optimistic concurrency: of two writers that planned against the same tail, the second one fails
  with a conflict that names the tail the first one left, unless it claims a command that is
  already committed.
\<close>

theorem append_conflict:
  assumes "append_events bytes st r es opts = Inr (res, st')" and "\<not> ar_deduplicated res"
    and "es \<noteq> []" and "ao_expectedTail opts = Some t" and "ao_expectedTail opts' = Some t"
    and "ao_idempotency opts' = None" and "assertEventByteLimits bytes r es' = None"
  shows "append_events bytes st' r es' opts' = Inl (Conflict r t (tailOf st' r))"
proof -
  have guard: "appendGuard st r opts = Inr False"
    and append: "(ar_sequences res, st') = appendLog st r es opts"
    using append_events_success [OF assms(1,2)] by simp_all
  from guard assms(4) have "tailOf st r = t"
    by (auto simp: appendGuard_def Let_def split: option.splits if_splits prod.splits)
  with appendLog_get(3) [OF append] assms(3) have "tailOf st' r \<noteq> t" by auto
  then show ?thesis using assms(5-7) by (simp add: append_events_def appendGuard_def Let_def)
qed

text \<open>
  Fencing: after an append that sets a fencing token, an append that presents another token, the
  previous owner's, fails as fenced, and one that presents the new token at the current tail goes
  through.
\<close>

theorem append_fenced:
  assumes "append_events bytes st r es opts = Inr (res, st')" and "\<not> ar_deduplicated res"
    and "ao_fence opts = Some token" and "token \<noteq> ''''"
    and "ao_fencingToken opts' = Some presented" and "ao_expectedTail opts' = Some (tailOf st' r)"
    and "ao_idempotency opts' = None" and "assertEventByteLimits bytes r es' = None"
  shows "if presented = token
     then \<exists>res' st''. append_events bytes st' r es' opts' = Inr (res', st'')
            \<and> tailOf st'' r = tailOf st' r + length es' + (if ao_fence opts' = None then 0 else 1)
     else append_events bytes st' r es' opts' = Inl (Fenced r presented)"
proof -
  have append: "(ar_sequences res, st') = appendLog st r es opts"
    using append_events_success [OF assms(1,2)] by simp
  from appendLog_get(2) [OF this] assms(3,4) have token: "lg_fenceToken (getOrCreate st' r) = Some token"
    by simp
  then have guard: "appendGuard st' r opts' =
      (if token \<noteq> presented then Inl (Fenced r presented) else Inr False)"
    using assms(5-7) by (simp add: appendGuard_def Let_def fencingGuard_def)
  obtain qs st'' where new: "(qs, st'') = appendLog st' r es' opts'" by (metis surj_pair)
  show ?thesis
    using guard assms(8) appendLog_get(3) [OF new]
    by (auto simp: append_events_def new [symmetric])
qed

section \<open>Trimming\<close>

definition coveredBy :: "trim_coverage \<Rightarrow> int \<Rightarrow> bool" where
  "coveredBy coverage n =
     (case coverage of
        ArchiveCursor c \<Rightarrow> n \<le> c
      | ProjectorCursors required cursors \<Rightarrow>
          required \<noteq> [] \<and> (\<forall>p \<in> set required. \<exists>c. dget cursors p = Some c \<and> n \<le> c))"

lemma coveredBy_mono: "coveredBy cov m \<Longrightarrow> n \<le> m \<Longrightarrow> coveredBy cov n"
  by (fastforce simp: coveredBy_def split: trim_coverage.splits)

text \<open>
  C25. Safe trimming loses nothing that is not covered: when the guarded trim goes through, every event
  that can no longer be read is covered by the archive, or by the checkpoint of every required
  projector, of which there is at least one.
\<close>

theorem trimEventStoreSafely_covered:
  assumes "store_ok st" and "trimEventStoreSafely canTrim st r n coverage = Inr st'"
    and "e \<in> set (readFrom st r None None)" and "e \<notin> set (readFrom st' r None None)"
  shows "ev_seq e < n \<and> coveredBy coverage (int (ev_seq e))"
proof -
  have st': "st' = trimLog st r n" and cov: "(case coverage of
                       ArchiveCursor c \<Rightarrow> int (n - 1) \<le> c
                     | ProjectorCursors required cursors \<Rightarrow>
                         required \<noteq> []
                         \<and> list_all (\<lambda>p. int (n - 1) \<le> withDefault (dget cursors p) (- 1)) required)"
    using assms(2) unfolding trimEventStoreSafely_def Let_def by (metis Inl_Inr_False Inr_inject)+
  from cov have covered: "coveredBy coverage (int (n - 1))"
    by (fastforce simp: coveredBy_def list_all_iff withDefault_def split: trim_coverage.splits option.splits)
  obtain l where l: "dget (ms_logs st) r = Some l"
    using assms(3) by (cases "dget (ms_logs st) r") (auto simp: readFrom_def)
  have "ev_seq e < n"
    using assms(3,4) l by (auto simp: readFrom_def st' trimLog_def)
  then have "ev_seq e < n" "int (ev_seq e) \<le> int (n - 1)" by simp_all
  with covered show ?thesis using coveredBy_mono by blast
qed

text \<open>
  A trim past the end of the log leaves the head beyond the next sequence number. Events appended
  afterwards get numbers below the head: the append succeeds and no read ever returns them.
\<close>

lemma trim_past_tail_hides_appends:
  assumes "store_ok st" and "dget (ms_logs st) r = Some l" and "tailOf st r + length es < n"
    and "assertEventByteLimits bytes r es = None"
  shows "\<exists>res st'. append_events bytes (trimLog st r n) r es noOptions = Inr (res, st')
     \<and> length (ar_sequences res) = length es \<and> fst (boundsOf st' r) = n \<and> snd (boundsOf st' r) < n
     \<and> readFrom st' r None None = []"
proof -
  have l: "log_ok r l" using assms(1,2) by (simp add: store_ok_def)
  let ?st = "trimLog st r n"
  obtain qs st' where append: "(qs, st') = appendLog ?st r es noOptions" by (metis surj_pair)
  have result: "append_events bytes ?st r es noOptions
      = Inr (\<lparr>ar_sequences = qs, ar_tail = tailOf st' r, ar_deduplicated = False\<rparr>, st')"
    using assms(4) by (simp add: append_events_def appendGuard_def fencingGuard_def append [symmetric])
  let ?l = "l\<lparr>lg_events := filter (\<lambda>e. n \<le> ev_seq e) (lg_events l), lg_head := max (lg_head l) n\<rparr>"
  have log: "getOrCreate ?st r = ?l" using assms(2) by (simp add: trimLog_def getOrCreate_def)
  have head: "max (lg_head l) n = n" using l assms(2,3) by (simp add: log_ok_def tailOf_def)
  have none: "filter (\<lambda>e. n \<le> ev_seq e) (lg_events l) = []"
    using l assms(2,3) by (fastforce simp: log_ok_def tailOf_def filter_empty_conv)
  have hidden: "filter (\<lambda>e. n \<le> ev_seq e) (numberEvents r (lg_tail l) es) = []"
    using assms(2,3) by (fastforce simp: filter_empty_conv tailOf_def dest: numberEvents_mem)
  have qs: "qs = map ev_seq (numberEvents r (lg_tail l) es)"
    using append by (simp add: appendLog_def Let_def log del: getOrCreate_tail)
  have "boundsOf st' r = (n, lg_tail l + length es)" "readFrom st' r None None = []"
    using append assms(2,3) hidden
    by (simp_all add: appendLog_def Let_def log boundsOf_def readFrom_def head none tailOf_def
        del: getOrCreate_tail)
  with result assms(2,3) show ?thesis by (simp add: qs tailOf_def)
qed

section \<open>The interface of the repository\<close>

text \<open>
  What the repository uses of a store: a compare-and-append on the tail, and reading from a sequence
  number on. The laws are those of a log nothing else is written to with a fence and nothing was
  trimmed from: its sequence numbers have no gap.
\<close>

locale event_log =
  fixes append_at :: "'st \<Rightarrow> string \<Rightarrow> envelope list \<Rightarrow> nat \<Rightarrow> (nat list \<times> 'st) option"
    and read_from :: "'st \<Rightarrow> string \<Rightarrow> nat \<Rightarrow> envelope list"
    and tail_of :: "'st \<Rightarrow> string \<Rightarrow> nat"
    and sound :: "'st \<Rightarrow> bool"
  assumes read_seqs: "sound st \<Longrightarrow> map ev_seq (read_from st r 1) = [1..<Suc (tail_of st r)]"
    and read_suffix: "sound st \<Longrightarrow> read_from st r q = filter (\<lambda>e. q \<le> ev_seq e) (read_from st r 1)"
    and append_sound: "sound st \<Longrightarrow> append_at st r es t = Some (qs, st') \<Longrightarrow> sound st'"
    and append_tail: "sound st \<Longrightarrow> append_at st r es t = Some (qs, st') \<Longrightarrow>
          t = tail_of st r \<and> qs = [Suc t..<Suc (t + length es)]"
    and append_read: "sound st \<Longrightarrow> append_at st r es t = Some (qs, st') \<Longrightarrow>
          read_from st' r 1 = read_from st r 1 @ numberEvents r t es"
begin

text \<open>The cursor of a run: the whole log folded.\<close>

definition loaded :: "registry \<Rightarrow> 'st \<Rightarrow> string \<Rightarrow> run_cursor" where
  "loaded reg st r = advanceCursor (emptyCursor r) (read_from st r 1) reg"

lemma loaded_seq: "sound st \<Longrightarrow> cu_seq (loaded reg st r) = tail_of st r"
  using fold_max_upt [of 0 "tail_of st r"]
  by (simp add: loaded_def cu_seq_advance read_seqs emptyCursor_def del: One_nat_def)
     (simp add: One_nat_def)

text \<open>Reading on from the cursor and folding what is read reloads the run.\<close>

lemma catch_up:
  assumes "sound st" "sound st'" "read_from st' r 1 = read_from st r 1 @ later"
  shows "advanceCursor (loaded reg st r) (read_from st' r (Suc (cu_seq (loaded reg st r)))) reg
           = loaded reg st' r"
proof -
  have len: "length (read_from st r 1) = tail_of st r"
    using arg_cong [OF read_seqs [OF assms(1)], of length r] by simp
  have old: "ev_seq e \<le> tail_of st r"
    if "e \<in> set (read_from st r 1)" for e
  proof -
    have "ev_seq e \<in> set (map ev_seq (read_from st r 1))" using that by simp
    then show ?thesis unfolding read_seqs [OF assms(1)] by simp
  qed
  have "map ev_seq later = drop (tail_of st r) [1..<Suc (tail_of st' r)]"
    using read_seqs [OF assms(2), of r] assms(3) len
    by (metis append_eq_conv_conj length_map map_append)
  then have "ev_seq ` set later \<subseteq> set [Suc (tail_of st r)..<Suc (tail_of st' r)]"
    by (metis drop_upt list.set_map add.commute plus_1_eq_Suc order_refl)
  then have "\<forall>e \<in> set later. Suc (tail_of st r) \<le> ev_seq e" by fastforce
  then have "filter (\<lambda>e. Suc (tail_of st r) \<le> ev_seq e) later = later" by (intro filter_True)
  moreover have "filter (\<lambda>e. Suc (tail_of st r) \<le> ev_seq e) (read_from st r 1) = []"
    using old by (fastforce simp: filter_empty_conv)
  ultimately have "read_from st' r (Suc (tail_of st r)) = later"
    unfolding read_suffix [OF assms(2), of r "Suc (tail_of st r)"] assms(3) filter_append by simp
  then show ?thesis
    unfolding loaded_seq [OF assms(1)] by (simp only: loaded_def assms(3) advanceCursor_append)
qed

text \<open>The events a writer appended, with the sequence numbers it got back, are what it would read.\<close>

lemma numberEvents_assigned:
  "\<forall>e \<in> set es. ev_runId e = r \<Longrightarrow>
   map2 (\<lambda>partial q. withAssignedSeq partial (ev_runId partial) q) es [Suc t..<Suc (t + length es)]
     = numberEvents r t es"
proof (induction es arbitrary: t)
  case (Cons e es)
  have "[Suc t..<Suc (t + length (e # es))] = Suc t # [Suc (Suc t)..<Suc (Suc t + length es)]"
    by (simp add: upt_rec)
  with Cons.IH [of "Suc t"] Cons.prems show ?case by simp
qed simp

lemma append_echo:
  assumes "sound st" "append_at st r es (cu_seq (loaded reg st r)) = Some (qs, st')"
    and "\<forall>e \<in> set es. ev_runId e = r"
  shows "\<exists>echo. assignSequences es qs = Inr echo
     \<and> advanceCursor (loaded reg st r) echo reg = loaded reg st' r"
proof -
  let ?t = "tail_of st r"
  have append: "append_at st r es ?t = Some (qs, st')"
    using assms(2) by (simp add: loaded_seq [OF assms(1)])
  have "assignSequences es qs = Inr (numberEvents r ?t es)"
    using append_tail [OF assms(1) append] numberEvents_assigned [OF assms(3)]
    by (simp add: assignSequences_def del: upt_Suc)
  moreover have "advanceCursor (loaded reg st r) (numberEvents r ?t es) reg = loaded reg st' r"
    unfolding loaded_def append_read [OF assms(1) append] advanceCursor_append ..
  ultimately show ?thesis by blast
qed

end

text \<open>The memory store as such a log.\<close>

definition plainStore :: "memory_store \<Rightarrow> bool" where
  "plainStore st \<longleftrightarrow> store_ok st
     \<and> (\<forall>r l. dget (ms_logs st) r = Some l \<longrightarrow>
          lg_head l = 1 \<and> map ev_seq (lg_events l) = [1..<Suc (lg_tail l)])"

definition memoryAppend ::
  "(envelope \<Rightarrow> nat) \<Rightarrow> memory_store \<Rightarrow> string \<Rightarrow> envelope list \<Rightarrow> nat \<Rightarrow> (nat list \<times> memory_store) option" where
  "memoryAppend bytes st r es t =
     (case append_events bytes st r es (noOptions\<lparr>ao_expectedTail := Some t\<rparr>) of
        Inl _ \<Rightarrow> None | Inr (res, st') \<Rightarrow> Some (ar_sequences res, st'))"

definition memoryRead :: "memory_store \<Rightarrow> string \<Rightarrow> nat \<Rightarrow> envelope list" where
  "memoryRead st r q = readFrom st r (Some q) None"

lemma plainStore_empty [simp]: "plainStore emptyStore"
  by (simp add: plainStore_def) (simp add: emptyStore_def)

lemma plainStore_read:
  assumes "plainStore st"
  shows "memoryRead st r q = filter (\<lambda>e. q \<le> ev_seq e) (memoryRead st r 1)"
    and "map ev_seq (memoryRead st r 1) = [1..<Suc (tailOf st r)]"
proof -
  have ok: "store_ok st" using assms by (simp add: plainStore_def)
  have seqs: "map ev_seq (lg_events (getOrCreate st r)) = [1..<Suc (tailOf st r)]"
    using assms by (simp add: plainStore_def getOrCreate_def tailOf_def emptyLog_def split: option.split)
  then have "set (map ev_seq (lg_events (getOrCreate st r))) = {1..<Suc (tailOf st r)}" by simp
  then have "\<forall>e \<in> set (lg_events (getOrCreate st r)). 1 \<le> ev_seq e" by fastforce
  then have all: "filter (\<lambda>e. 1 \<le> ev_seq e) (lg_events (getOrCreate st r)) = lg_events (getOrCreate st r)"
    by (rule filter_True)
  show "memoryRead st r q = filter (\<lambda>e. q \<le> ev_seq e) (memoryRead st r 1)"
    unfolding memoryRead_def readFrom_getOrCreate [OF ok] all ..
  show "map ev_seq (memoryRead st r 1) = [1..<Suc (tailOf st r)]"
    unfolding memoryRead_def readFrom_getOrCreate [OF ok] all by (rule seqs)
qed

lemma memoryAppend_spec:
  assumes "plainStore st" "memoryAppend bytes st r es t = Some (qs, st')"
  shows "t = tailOf st r \<and> qs = [Suc t..<Suc (t + length es)]"
    and "memoryRead st' r 1 = memoryRead st r 1 @ numberEvents r t es"
    and "plainStore st'"
proof -
  obtain res where append: "append_events bytes st r es (noOptions\<lparr>ao_expectedTail := Some t\<rparr>) = Inr (res, st')"
      and qs: "qs = ar_sequences res"
    using assms(2) by (auto simp: memoryAppend_def split: sum.splits)
  have ok: "store_ok st" using assms(1) by (simp add: plainStore_def)
  note spec = append_at_tail [OF append]
  then obtain l where l: "ms_logs st' = dput r l (ms_logs st)" "lg_head l = lg_head (getOrCreate st r)"
      "lg_events l = lg_events (getOrCreate st r) @ numberEvents r t es" "lg_tail l = t + length es"
    by blast
  show t: "t = tailOf st r \<and> qs = [Suc t..<Suc (t + length es)]" using spec qs by simp
  have "filter (\<lambda>e. 1 \<le> ev_seq e) (numberEvents r t es) = numberEvents r t es"
    by (intro filter_True) (use numberEvents_mem in fastforce)
  then show "memoryRead st' r 1 = memoryRead st r 1 @ numberEvents r t es"
    using appendLog_read [OF ok, of "ar_sequences res" st' r es _ 1] spec
    by (fastforce simp: memoryRead_def)
  have old: "lg_head (getOrCreate st r) = 1
      \<and> map ev_seq (lg_events (getOrCreate st r)) = [1..<Suc (tailOf st r)]"
    using assms(1) by (simp add: plainStore_def getOrCreate_def tailOf_def emptyLog_def split: option.split)
  have "map ev_seq (lg_events l) = [1..<Suc t] @ [Suc t..<Suc t + length es]"
    using old t by (simp add: l(3) numberEvents_seqs del: upt_Suc)
  also have "\<dots> = [1..<Suc (lg_tail l)]"
    using upt_add_eq_append [of 1 "Suc t" "length es"] by (simp add: l(4) del: upt_Suc)
  finally have "lg_head l = 1 \<and> map ev_seq (lg_events l) = [1..<Suc (lg_tail l)]"
    using old l(2) by simp
  then show "plainStore st'"
    using append_events_ok [OF ok append] assms(1) by (auto simp: plainStore_def l(1) simp del: upt_Suc)
qed

interpretation memory_log: event_log "memoryAppend bytes" memoryRead tailOf plainStore for bytes
proof unfold_locales
  fix st r assume sound: "plainStore st"
  show "map ev_seq (memoryRead st r 1) = [1..<Suc (tailOf st r)]" by (rule plainStore_read(2) [OF sound])
  show "memoryRead st r q = filter (\<lambda>e. q \<le> ev_seq e) (memoryRead st r 1)" for q
    by (rule plainStore_read(1) [OF sound])
  fix es t qs st' assume append: "memoryAppend bytes st r es t = Some (qs, st')"
  note spec = memoryAppend_spec [OF sound append]
  show "plainStore st'" by (rule spec(3))
  show "t = tailOf st r \<and> qs = [Suc t..<Suc (t + length es)]" by (rule spec(1))
  show "memoryRead st' r 1 = memoryRead st r 1 @ numberEvents r t es" by (rule spec(2))
qed

section \<open>Witnesses\<close>

definition noBytes :: "envelope \<Rightarrow> nat" where
  "noBytes e = 0"

lemma noBytes_fit [simp]: "assertEventByteLimits noBytes r es = None"
proof -
  have "find (\<lambda>e. False) es = None" by (simp add: find_None_iff)
  then show ?thesis by (simp add: assertEventByteLimits_def noBytes_def)
qed

definition sampleOptions :: append_options where
  "sampleOptions = \<lparr>ao_expectedTail = Some 0, ao_idempotency = Some (''k'', Some ''f''),
     ao_fence = Some ''token'', ao_fencingToken = None\<rparr>"

definition sampleStore :: memory_store where
  "sampleStore = snd (appendLog emptyStore ''r'' [tick 0] sampleOptions)"

lemma getOrCreate_emptyStore [simp]: "getOrCreate emptyStore r = emptyLog"
  by (simp add: getOrCreate_def emptyStore_def)

lemma emptyLog_simps [simp]:
  "lg_events emptyLog = []" "lg_waiters emptyLog = []" "lg_head emptyLog = 1"
  "lg_fenceToken emptyLog = None" "lg_commands emptyLog = []" "lg_tail emptyLog = 0"
  by (simp_all add: emptyLog_def)

lemma sampleStore_tail [simp]: "tailOf sampleStore ''r'' = 2"
  by (simp add: sampleStore_def appendLog_def Let_def sampleOptions_def tailOf_def emptyStore_def
      getOrCreate_def)

lemma sampleStore_append:
  "append_events noBytes emptyStore ''r'' [tick 0] sampleOptions
     = Inr (\<lparr>ar_sequences = [2], ar_tail = 2, ar_deduplicated = False\<rparr>, sampleStore)"
proof -
  have "appendLog emptyStore ''r'' [tick 0] sampleOptions = ([2], sampleStore)"
    by (simp add: sampleStore_def appendLog_def Let_def sampleOptions_def tailOf_def emptyStore_def
        getOrCreate_def)
  then show ?thesis
    by (simp add: append_events_def appendGuard_def fencingGuard_def sampleOptions_def Let_def
        del: getOrCreate_tail)
qed

lemma sampleStore_reachable: "store_reachable noBytes sampleStore"
  by (rule next_store [OF initial append_step [OF sampleStore_append]])

lemma sampleStore_log:
  "dget (ms_logs sampleStore) ''r'' = Some \<lparr>lg_events = [withAssignedSeq (tick 0) ''r'' 2],
     lg_waiters = [], lg_head = 1, lg_tail = 2, lg_fenceToken = Some ''token'',
     lg_commands = [(''k'', \<lparr>cm_fingerprint = Some ''f'', cm_committedTail = 2\<rparr>)]\<rparr>"
  by (simp add: sampleStore_def appendLog_def Let_def sampleOptions_def emptyStore_def
      getOrCreate_def emptyLog_def numeral_2_eq_2)

lemma store_log_ordered_witness:
  "sorted_wrt (<) (map ev_seq (readFrom sampleStore ''r'' None None))"
  using store_log_ordered [OF sampleStore_reachable, of "''r''" 1 2]
  by (simp add: boundsOf_def sampleStore_log)

lemma subscription_complete_witness:
  "map ev_seq (readFrom (snd (subscribe sampleStore ''r'' (Some 2))) ''r'' (Some 2) None) = [2]"
proof -
  let ?st = "snd (subscribe sampleStore ''r'' (Some 2))"
  have next_queue: "ms_nextQueue sampleStore = 0"
    by (simp add: sampleStore_def appendLog_def Let_def emptyStore_def)
  have reach: "store_reachable noBytes ?st"
    by (rule next_store [OF sampleStore_reachable
          subscribe_step [OF prod.collapse [symmetric], of noBytes sampleStore "''r''" "Some 2"]])
  let ?l = "\<lparr>lg_events = [withAssignedSeq (tick 0) ''r'' 2],
     lg_waiters = [(0, 2)], lg_head = 1, lg_tail = 2, lg_fenceToken = Some ''token'',
     lg_commands = [(''k'', \<lparr>cm_fingerprint = Some ''f'', cm_committedTail = 2\<rparr>)]\<rparr>"
  have l: "dget (ms_logs ?st) ''r'' = Some ?l"
    by (simp add: subscribe_def Let_def next_queue getOrCreate_def sampleStore_log)
  have "filter (\<lambda>e. lg_head ?l \<le> ev_seq e) (ms_queues ?st 0) = readFrom ?st ''r'' (Some 2) None"
    by (rule subscription_complete [OF reach l]) simp
  then have "readFrom ?st ''r'' (Some 2) None = filter (\<lambda>e. lg_head ?l \<le> ev_seq e) (ms_queues ?st 0)" ..
  also have "\<dots> = [withAssignedSeq (tick 0) ''r'' 2]"
    by (simp add: subscribe_def Let_def next_queue getOrCreate_def sampleStore_log)
  finally show ?thesis by simp
qed

lemma append_events_spec_witness:
  "\<exists>res st'. append_events noBytes sampleStore ''r'' [tick 0, tick 0] (noOptions\<lparr>ao_expectedTail := Some 2\<rparr>)
       = Inr (res, st') \<and> ar_sequences res = [3, 4] \<and> tailOf st' ''r'' = 4"
proof -
  have ok: "store_ok sampleStore" by (rule store_reachable_ok [OF sampleStore_reachable])
  obtain res st' where append: "append_events noBytes sampleStore ''r'' [tick 0, tick 0]
      (noOptions\<lparr>ao_expectedTail := Some 2\<rparr>) = Inr (res, st')"
    by (cases "appendLog sampleStore ''r'' [tick 0, tick 0] (noOptions\<lparr>ao_expectedTail := Some 2\<rparr>)")
       (simp add: append_events_def appendGuard_def fencingGuard_def)
  from append_events_spec [OF ok append, of 1] append show ?thesis by (simp add: upt_rec)
qed


lemma append_conflict_witness:
  "append_events noBytes sampleStore ''r'' [tick 5] (noOptions\<lparr>ao_expectedTail := Some 0\<rparr>)
     = Inl (Conflict ''r'' 0 2)"
  using append_conflict [OF sampleStore_append, of 0 "noOptions\<lparr>ao_expectedTail := Some 0\<rparr>" "[tick 5]"]
  by (simp add: sampleOptions_def)

lemma append_fenced_witness:
  "append_events noBytes sampleStore ''r'' [tick 5]
       (noOptions\<lparr>ao_expectedTail := Some 2, ao_fencingToken := Some ''old''\<rparr>)
     = Inl (Fenced ''r'' ''old'')"
  using append_fenced [OF sampleStore_append, of "''token''"
      "noOptions\<lparr>ao_expectedTail := Some 2, ao_fencingToken := Some ''old''\<rparr>" "''old''" "[tick 5]"]
  by (simp add: sampleOptions_def)

lemma trimEventStoreSafely_covered_witness:
  "coveredBy (ProjectorCursors [''p''] [(''p'', 2)]) 2"
proof -
  have ok: "store_ok sampleStore" by (rule store_reachable_ok [OF sampleStore_reachable])
  let ?cov = "ProjectorCursors [''p''] [(''p'', 2)]"
  have trim: "trimEventStoreSafely True sampleStore ''r'' 3 ?cov = Inr (trimLog sampleStore ''r'' 3)"
    by (simp add: trimEventStoreSafely_def)
  from trimEventStoreSafely_covered [OF ok trim, of "withAssignedSeq (tick 0) ''r'' 2"]
  show ?thesis by (simp add: readFrom_def trimLog_def sampleStore_log)
qed

end
