(* ===== verification/Runtime_Helpers.thy ===== *)
theory Runtime_Helpers
  imports Event_Log
begin

text \<open>
  \<open>packages/runtime/src/helpers.ts\<close> and \<open>retry-policy.ts\<close>: the events the runtime derives from a state
  and the events it has just written (satisfied waits, synthesized failures, cascaded
  cancellations), the admission of external events, the cache of cursors, and what follows a failed
  attempt. A function that creates an event takes the stamp of that event as its first argument.
\<close>

section \<open>Satisfied waits\<close>

definition satisfiedInput :: "envelope \<Rightarrow> wait_record \<Rightarrow> event_input" where
  "satisfiedInput event w =
     (eventInput ''runtime.wait.satisfied'' (JObj
        [(''waitId'', JStr (wt_waitId w)),
         (''tag'', withDefault (wt_tag w) JNull),
         (''event'', JObj [(''id'', JStr (ev_id event)), (''type'', JStr (ev_type event)),
                           (''payload'', ev_payload event)])]))
     \<lparr>in_threadId := Val (wt_threadId w), in_causationId := Val (ev_id event)\<rparr>"

definition mayNotSatisfy :: "envelope \<Rightarrow> bool" where
  "mayNotSatisfy event \<longleftrightarrow> ev_ephemeral event \<or> ev_type event = ''runtime.wait.satisfied''"

fun waitSatisfiedFrom :: "wait_record dict \<Rightarrow> envelope list \<Rightarrow> event_input list" where
  "waitSatisfiedFrom remaining [] = []"
| "waitSatisfiedFrom remaining (event # events) =
     (if mayNotSatisfy event then waitSatisfiedFrom remaining events
      else let matches = matchingWaits event (dvals remaining) in
        map (satisfiedInput event) matches
        @ waitSatisfiedFrom (foldl (\<lambda>d w. ddel (wt_waitId w) d) remaining matches) events)"

definition waitSatisfiedEvents :: "run_state \<Rightarrow> envelope list \<Rightarrow> event_input list" where
  "waitSatisfiedEvents s events = waitSatisfiedFrom (rs_waits s) events"

section \<open>Synthesized failures and cascaded cancellations\<close>

definition writtenFailure :: "string \<Rightarrow> envelope \<Rightarrow> bool" where
  "writtenFailure threadId event \<longleftrightarrow>
     ev_type event = ''runtime.thread.failed''
     \<and> (ev_threadId event = Some threadId
        \<or> readString (payloadObject event) ''threadId'' = Some threadId)"

definition failedAt :: "run_state \<Rightarrow> string \<Rightarrow> bool" where
  "failedAt s threadId \<longleftrightarrow>
     (case dget (rs_threads s) threadId of None \<Rightarrow> False | Some r \<Rightarrow> thr_status r = Failed)"

definition synthesizedThreadFailed ::
  "run_state \<Rightarrow> run_state \<Rightarrow> envelope list \<Rightarrow> event_input list" where
  "synthesizedThreadFailed before after written =
     map (\<lambda>(threadId, r).
            (eventInput ''runtime.thread.failed'' (JObj
               [(''threadId'', JStr threadId),
                (''error'', JStr (withDefault (thr_error r) ''failed''))]))
            \<lparr>in_threadId := Val threadId\<rparr>)
       (filter (\<lambda>(threadId, r). thr_status r = Failed \<and> \<not> failedAt before threadId
                  \<and> \<not> list_ex (writtenFailure threadId) written)
          (rs_threads after))"

definition cancelledThread :: "envelope \<Rightarrow> string option" where
  "cancelledThread event =
     (if ev_type event \<noteq> ''runtime.thread.cancelled'' then None
      else truthy (orElse (readString (payloadObject event) ''threadId'') (ev_threadId event)))"

definition isLive :: "run_state \<Rightarrow> string \<Rightarrow> bool" where
  "isLive s threadId \<longleftrightarrow>
     (case dget (rs_threads s) threadId of None \<Rightarrow> False | Some r \<Rightarrow> \<not> isTerminalStatus (thr_status r))"

text \<open>\<open>flatMap\<close> of the walks; \<open>None\<close> when one of them does not return.\<close>

fun allDescendants :: "run_state \<Rightarrow> string list \<Rightarrow> string list option" where
  "allDescendants s [] = Some []"
| "allDescendants s (t # ts) =
     (case (descendantThreadIds s t, allDescendants s ts) of
        (Some ds, Some rest) \<Rightarrow> Some (ds @ rest) | _ \<Rightarrow> None)"

text \<open>A JavaScript \<open>Set\<close> of the elements, in order of first insertion.\<close>

definition insertionSet :: "'a list \<Rightarrow> 'a list" where
  "insertionSet xs = rev (remdups (rev xs))"

definition cancelInput :: "string \<Rightarrow> event_input" where
  "cancelInput threadId =
     (eventInput ''runtime.thread.cancelled''
        (JObj [(''threadId'', JStr threadId), (''reason'', JStr ''cancelled'')]))
     \<lparr>in_threadId := Val threadId\<rparr>"

definition cascadedCancellations :: "run_state \<Rightarrow> envelope list \<Rightarrow> event_input list option" where
  "cascadedCancellations s written =
     map_option (\<lambda>ds. map cancelInput (rev (insertionSet (filter (isLive s) ds))))
       (allDescendants s (List.map_filter cancelledThread written))"

section \<open>Effect outcomes\<close>

definition createEffectFailedEvent ::
  "string \<times> number \<Rightarrow> string \<Rightarrow> outstanding_effect \<Rightarrow> string \<Rightarrow> bool \<Rightarrow> envelope" where
  "createEffectFailedEvent stamp runId item error nonRetryable =
     createEvent stamp runId
       ((eventInput ''runtime.effect.failed'' (JObj
           ([(''effectId'', JStr (oe_effectId item)), (''error'', JStr error)]
            @ (if nonRetryable then [(''nonRetryable'', JBool True)] else []))))
        \<lparr>in_threadId := Val (oe_threadId item), in_effectId := Val (oe_effectId item),
         in_causationId := Val (oe_causingEventId item), in_origin := Some OriginSystem\<rparr>) 0"

text \<open>\<open>x ?? y\<close> on a field of an event input.\<close>

fun nullish :: "string nullable \<Rightarrow> string \<Rightarrow> string nullable" where
  "nullish (Val x) y = Val x"
| "nullish _ y = Val y"

text \<open>
  The event of an outcome a handler produced. \<open>validate\<close> is the validation of an input against the
  module catalogs; Left is the message of an \<open>InvalidEventError\<close>.
\<close>

definition materializeEffectOutcome ::
  "(event_input \<Rightarrow> string + event_input) \<Rightarrow> string \<times> number \<Rightarrow> string \<Rightarrow> outstanding_effect \<Rightarrow>
   event_input \<Rightarrow> envelope" where
  "materializeEffectOutcome validate stamp runId item input =
     (case validate input of
        Inl message \<Rightarrow> createEffectFailedEvent stamp runId item message False
      | Inr v \<Rightarrow> createEvent stamp runId
          (v\<lparr>in_effectId := nullish (in_effectId v) (oe_effectId item),
             in_causationId := nullish (in_causationId v) (oe_causingEventId item),
             in_threadId := nullish (in_threadId v) (oe_threadId item),
             in_origin := Some (withDefault (in_origin v) (OriginThread (oe_threadId item)))\<rparr>) 0)"

section \<open>Admission of external events\<close>

definition externalRuntimeEventTypes :: "string list" where
  "externalRuntimeEventTypes = [''runtime.signal.received'', ''runtime.thread.cancel.requested'']"

definition admitExternalEvent :: "event_input \<Rightarrow> string + event_input" where
  "admitExternalEvent input =
     (if startsWith (in_type input) ''runtime.''
         \<and> \<not> List.member externalRuntimeEventTypes (in_type input)
      then Inl (in_type input)
      else Inr (input\<lparr>in_effectId := Null,
        in_origin := (case in_origin input of
                        Some (OriginExternal a) \<Rightarrow> Some (OriginExternal a)
                      | _ \<Rightarrow> Some (OriginExternal None))\<rparr>))"

fun admitExternalEvents :: "event_input list \<Rightarrow> string + event_input list" where
  "admitExternalEvents [] = Inr []"
| "admitExternalEvents (input # inputs) =
     (case admitExternalEvent input of
        Inl t \<Rightarrow> Inl t
      | Inr i \<Rightarrow> (case admitExternalEvents inputs of Inl t \<Rightarrow> Inl t | Inr is \<Rightarrow> Inr (i # is)))"

section \<open>Grouping and caching\<close>

fun groupFrom :: "string list \<Rightarrow> (string \<times> nat) list \<Rightarrow> string list" where
  "groupFrom seen [] = []"
| "groupFrom seen ((threadId, causingSeq) # items) =
     (let key = threadId @ '':'' @ showNat causingSeq in
      if List.member seen key then groupFrom seen items
      else key # groupFrom (key # seen) items)"

definition groupOutstanding :: "outstanding_effect list \<Rightarrow> string list" where
  "groupOutstanding items = groupFrom [] (map (\<lambda>i. (oe_threadId i, oe_causingSeq i)) items)"

text \<open>\<open>RunCursorCache\<close>: a map in insertion order, the most recently used entry last.\<close>

definition cacheGet :: "string \<Rightarrow> 'v dict \<Rightarrow> 'v option \<times> 'v dict" where
  "cacheGet runId m =
     (case dget m runId of
        None \<Rightarrow> (None, m) | Some v \<Rightarrow> (Some v, dput runId v (ddel runId m)))"

fun evict :: "int \<Rightarrow> 'v dict \<Rightarrow> 'v dict" where
  "evict limit m =
     (case m of
        [] \<Rightarrow> []
      | (oldest, _) # rest \<Rightarrow> if int (length m) > limit then evict limit rest else m)"

declare evict.simps [simp del]

definition cacheSet :: "int \<Rightarrow> string \<Rightarrow> 'v \<Rightarrow> 'v dict \<Rightarrow> 'v dict" where
  "cacheSet limit runId v m =
     (if limit \<le> 0 then m else evict limit (dput runId v (ddel runId m)))"

definition cacheDelete :: "string \<Rightarrow> 'v dict \<Rightarrow> 'v dict" where
  "cacheDelete runId m = ddel runId m"

section \<open>Retries\<close>

definition maxSafeInteger :: number where
  "maxSafeInteger = 9007199254740991"

text \<open>
  \<open>multiplier ** Math.max(0, attempt - 1)\<close>: attempts are whole numbers, so the exponent is the natural
  number below the difference.
\<close>

definition retryBackoff :: "retry_policy \<Rightarrow> number \<Rightarrow> number" where
  "retryBackoff retry attempt =
     (let base = max 1 (withDefault (rp_backoffMs retry) 100);
          multiplier = max 1 (withDefault (rp_backoffMultiplier retry) 2)
      in min (base * multiplier ^ nat \<lfloor>max 0 (attempt - 1)\<rfloor>)
           (withDefault (rp_maxBackoffMs retry) maxSafeInteger))"

definition retryDelay :: "retry_policy \<Rightarrow> number \<Rightarrow> number option \<Rightarrow> number" where
  "retryDelay retry attempt retryAfterMs =
     (let backoff = retryBackoff retry attempt in
      case retryAfterMs of
        None \<Rightarrow> backoff
      | Some wait \<Rightarrow> if wait < 0 then backoff else max backoff wait)"

text \<open>The event of a failed attempt, and whether it is a retry.\<close>

definition planAttemptFailure ::
  "string \<times> number \<Rightarrow> string \<Rightarrow> outstanding_effect \<Rightarrow> number \<Rightarrow> string \<Rightarrow> number \<Rightarrow> retry_policy option \<Rightarrow>
   event_origin \<Rightarrow> bool \<Rightarrow> number option \<Rightarrow> envelope \<times> bool" where
  "planAttemptFailure stamp runId item attempt error now retry origin nonRetryable retryAfterMs =
     (case retry of
        None \<Rightarrow> (createEffectFailedEvent stamp runId item error nonRetryable, False)
      | Some policy \<Rightarrow>
          if nonRetryable \<or> rp_maxAttempts policy \<le> attempt
          then (createEffectFailedEvent stamp runId item error nonRetryable, False)
          else (createEvent stamp runId
                  ((eventInput ''runtime.effect.retry.scheduled'' (JObj
                      [(''effectId'', JStr (oe_effectId item)),
                       (''attempt'', JNum attempt),
                       (''nextAttemptAt'', JNum (now + retryDelay policy attempt retryAfterMs)),
                       (''error'', JStr error)]))
                   \<lparr>in_threadId := Val (oe_threadId item),
                    in_causationId := Val (oe_causingEventId item), in_origin := Some origin\<rparr>) 0,
                True))"

end
