(* ===== verification/Runtime_Properties.thy ===== *)
theory Runtime_Properties
  imports Runtime_Helpers
begin

text \<open>
  Correctness of the helpers of \<open>packages/runtime/src/helpers.ts\<close> and \<open>retry-policy.ts\<close>: satisfied
  waits, admission of external events, cascaded cancellations, the cursor cache and retries.
\<close>

section \<open>Satisfied waits\<close>

lemma ddel_all:
  "foldl (\<lambda>d w. ddel (wt_waitId w) d) d ws = filter (\<lambda>(k, _). k \<notin> wt_waitId ` set ws) d"
proof (induction ws arbitrary: d)
  case (Cons w ws)
  show ?case unfolding foldl_Cons Cons unfolding ddel_filter by (auto intro: filter_cong)
qed (simp add: case_prod_beta)

lemma keyed_unique:
  assumes "keyed f d" "(k, w) \<in> set d" "w' \<in> snd ` set d" "f w' = k"
  shows "w' = w"
proof -
  have "f w = k" using assms(1,2) by (auto simp: keyed_def)
  moreover have "w \<in> set (dvals d)" "w' \<in> set (dvals d)" using assms(2,3) by (force, simp)
  ultimately show ?thesis using keyed_val [OF assms(1)] assms(4) by (metis option.inject)
qed

lemma remaining_waits:
  assumes "keyed wt_waitId d"
  shows "foldl (\<lambda>d w. ddel (wt_waitId w) d) d (matchingWaits e (dvals d))
           = filter (\<lambda>(k, w). \<not> matchingWait e w) d"
proof -
  have "(k \<in> wt_waitId ` set (matchingWaits e (dvals d))) = matchingWait e w"
    if "(k, w) \<in> set d" for k w
  proof
    assume "k \<in> wt_waitId ` set (matchingWaits e (dvals d))"
    then obtain w' where "w' \<in> snd ` set d" "matchingWait e w'" "wt_waitId w' = k"
      by (auto simp: matchingWaits_def)
    with keyed_unique [OF assms that] show "matchingWait e w" by blast
  next
    assume "matchingWait e w"
    with that assms show "k \<in> wt_waitId ` set (matchingWaits e (dvals d))"
      by (force simp: matchingWaits_def keyed_def)
  qed
  then show ?thesis unfolding ddel_all by (intro filter_cong) auto
qed

definition satisfiedId :: "event_input \<Rightarrow> string option" where
  "satisfiedId i = readString (asObject (in_payload i)) ''waitId''"

lemma satisfiedId_satisfiedInput [simp]: "satisfiedId (satisfiedInput e w) = Some (wt_waitId w)"
  by (simp add: satisfiedId_def satisfiedInput_def asObject_def readString_def)

lemma keyed_distinct_ids: "keyed f d \<Longrightarrow> distinct (map f (filter P (dvals d)))"
proof (induction d)
  case (Cons a d)
  then show ?case
    by (cases a) (force simp: keyed_def)
qed simp

definition satisfiable :: "envelope list \<Rightarrow> wait_record \<Rightarrow> bool" where
  "satisfiable events w \<longleftrightarrow> list_ex (\<lambda>e. \<not> mayNotSatisfy e \<and> matchingWait e w) events"

lemma waitSatisfiedFrom_spec:
  assumes "keyed wt_waitId d"
  shows "set (map satisfiedId (waitSatisfiedFrom d events))
           = Some ` wt_waitId ` set (filter (satisfiable events) (dvals d))
       \<and> distinct (map satisfiedId (waitSatisfiedFrom d events))"
  using assms
proof (induction events arbitrary: d)
  case (Cons e es)
  show ?case
  proof (cases "mayNotSatisfy e")
    case True
    with Cons show ?thesis by (simp add: satisfiable_def)
  next
    case False
    let ?rest = "filter (\<lambda>(k, w). \<not> matchingWait e w) d"
    have rest: "keyed wt_waitId ?rest" using Cons.prems by (rule keyed_filter)
    have ids: "map satisfiedId (waitSatisfiedFrom d (e # es))
        = map (Some \<circ> wt_waitId) (matchingWaits e (dvals d)) @ map satisfiedId (waitSatisfiedFrom ?rest es)"
      using False by (simp add: Let_def remaining_waits [OF Cons.prems] o_def)
    have split: "set (dvals d) = set (matchingWaits e (dvals d)) \<union> set (dvals ?rest)"
      by (force simp: matchingWaits_def)
    have disjoint: "wt_waitId ` set (matchingWaits e (dvals d)) \<inter> wt_waitId ` set (dvals ?rest) = {}"
    proof -
      have "w = w'" if "w \<in> set (dvals d)" "w' \<in> set (dvals d)" "wt_waitId w = wt_waitId w'" for w w'
        using that keyed_val [OF Cons.prems] by (metis option.inject)
      then show ?thesis by (fastforce simp: matchingWaits_def)
    qed
    have "distinct (map wt_waitId (matchingWaits e (dvals d)))"
      using keyed_distinct_ids [OF Cons.prems] by (simp add: matchingWaits_def)
    then have first: "distinct (map (Some \<circ> wt_waitId) (matchingWaits e (dvals d)))"
      by (simp add: distinct_map inj_on_def)
    have produced: "set (filter (satisfiable (e # es)) (dvals d))
        = set (matchingWaits e (dvals d)) \<union> set (filter (satisfiable es) (dvals ?rest))"
      using False by (force simp: satisfiable_def matchingWaits_def)
    show ?thesis
      unfolding ids produced map_append set_append distinct_append
      using Cons.IH [OF rest] first disjoint by (auto simp: image_Un image_image)
  qed
qed (simp add: satisfiable_def)

text \<open>
  The waits an append satisfies: for waits filed under their ids, exactly the waits that some
  durable event of the batch matches are satisfied, and each of them once, however many events match
  it.
\<close>

theorem waitSatisfiedEvents_spec:
  assumes "keyed wt_waitId (rs_waits s)"
  shows "set (map satisfiedId (waitSatisfiedEvents s events))
           = Some ` wt_waitId ` set (filter (satisfiable events) (dvals (rs_waits s)))
       \<and> distinct (map satisfiedId (waitSatisfiedEvents s events))"
  unfolding waitSatisfiedEvents_def using assms by (rule waitSatisfiedFrom_spec)

lemma waitSatisfiedEvents_spec_witness:
  "map satisfiedId (waitSatisfiedEvents (sampleRun Waiting) [sampleEvent ''go'' [], sampleEvent ''go'' []])
     = [Some ''w'', Some ''v'']
   \<and> distinct (map satisfiedId (waitSatisfiedEvents (sampleRun Waiting)
       [sampleEvent ''go'' [], sampleEvent ''go'' []]))"
proof
  show "map satisfiedId (waitSatisfiedEvents (sampleRun Waiting) [sampleEvent ''go'' [], sampleEvent ''go'' []])
      = [Some ''w'', Some ''v'']"
    by (simp add: waitSatisfiedEvents_def sampleRun_def mayNotSatisfy_def matchingWaits_def
        matchingWait_def matchesWait_def sampleWait_def)
  have "keyed wt_waitId (rs_waits (sampleRun Waiting))" by (simp add: run_ok_keyed)
  from waitSatisfiedEvents_spec [OF this]
  show "distinct (map satisfiedId (waitSatisfiedEvents (sampleRun Waiting)
      [sampleEvent ''go'' [], sampleEvent ''go'' []]))" by blast
qed

section \<open>External events\<close>

definition externalType :: "string \<Rightarrow> bool" where
  "externalType t \<longleftrightarrow> \<not> startsWith t ''runtime.'' \<or> List.member externalRuntimeEventTypes t"

lemma external_event_delivered:
  assumes "ev_effectId e = None" and "externalType (ev_type e)" and "\<not> ev_ephemeral e"
  shows "foldEvent reg s e = deliver reg (recordIdempotencyKey (adoptRunId s e) e) e None"
proof -
  have prefix: "ev_type e \<noteq> ''runtime.'' @ x" if "x \<noteq> ''signal.received''" "x \<noteq> ''thread.cancel.requested''" for x
    using assms(2) that startsWith_append [of "''runtime.''" x] 
    by (auto simp: externalType_def externalRuntimeEventTypes_def)
  note other = prefix [of "''run.started''"] prefix [of "''run.completed''"] prefix [of "''run.cancelled''"]
    prefix [of "''run.forked''"] prefix [of "''thread.started''"] prefix [of "''thread.completed''"]
    prefix [of "''thread.failed''"] prefix [of "''thread.cancelled''"]
    prefix [of "''effect.attempt.started''"] prefix [of "''effect.queued''"]
    prefix [of "''effect.dispatched''"] prefix [of "''effect.worker.started''"]
    prefix [of "''effect.heartbeat''"] prefix [of "''effect.cancel.requested''"]
    prefix [of "''effect.timed_out''"] prefix [of "''effect.ambiguous''"]
    prefix [of "''effect.dispatch.deferred''"] prefix [of "''effect.cancelled''"]
    prefix [of "''effect.retry.scheduled''"] prefix [of "''wait.registered''"]
    prefix [of "''wait.satisfied''"] prefix [of "''run.launched''"] prefix [of "''child.settled''"]
    prefix [of "''child.close.requested''"] prefix [of "''effect.failed''"]
  have "applyProtocol reg s' e = s'" for s'
    using other by (simp add: applyProtocol_def progressTypes_def)
  moreover have "failUnhandledEffect s' e b = s'" for s' b
    using other by (simp add: failUnhandledEffect_def)
  ultimately show ?thesis
    using assms(1,3) by (simp add: foldEvent_def settleEffect_def settledWithoutOutcome_def)
qed

text \<open>
  External events cannot drive the protocol: an event made from an admitted input claims no effect
  and comes from outside, and folding it does nothing but deliver it to its thread. No thread, wait,
  run or execution record is written by the protocol, nothing is settled, and no failure is imposed.
\<close>

theorem admitted_event_only_delivered:
  assumes "admitExternalEvent input = Inr admitted"
    and "e = createEvent stamp r admitted q" and "\<not> ev_ephemeral e"
  shows "ev_effectId e = None \<and> (\<exists>a. ev_origin e = OriginExternal a)
     \<and> foldEvent reg s e = deliver reg (recordIdempotencyKey (adoptRunId s e) e) e None"
proof -
  have "in_effectId admitted = Null" "externalType (in_type admitted)" "\<exists>a. in_origin admitted = Some (OriginExternal a)"
    using assms(1) by (auto simp: admitExternalEvent_def externalType_def split: if_splits option.splits event_origin.splits)
  then show ?thesis using external_event_delivered [of e] assms(2,3) by auto
qed

lemma admitted_event_only_delivered_witness:
  "ev_effectId (createEvent (''e'', 0) ''r''
     ((eventInput ''done'' JNull)\<lparr>in_effectId := Null, in_origin := Some (OriginExternal None)\<rparr>) 0) = None"
  by (rule admitted_event_only_delivered [where input = "(eventInput ''done'' JNull)\<lparr>in_effectId := Val ''x''\<rparr>"
        and reg = sampleRegistry and s = "sampleRun Running", THEN conjunct1])
     (simp_all add: admitExternalEvent_def startsWith_def)

section \<open>The cursor cache\<close>

lemma dput_new: "k \<notin> set (dkeys d) \<Longrightarrow> dput k v d = d @ [(k, v)]"
  by (induction d) auto

lemma evict_drop: "0 \<le> limit \<Longrightarrow> evict limit m = drop (length m - nat limit) m"
proof (induction m)
  case (Cons a m)
  then show ?case
    by (subst evict.simps) (auto simp: Suc_diff_le split: prod.splits)
qed (simp add: evict.simps)

text \<open>
  The cursor cache is bounded and never stale: setting an entry keeps the cache within its limit,
  the entry is found afterwards with its new value, and any other entry is either still what it was
  or gone.
\<close>

theorem cacheSet_bounded:
  assumes "0 < limit" and "int (length m) \<le> limit" and "distinct (dkeys m)"
  shows "int (length (cacheSet limit r v m)) \<le> limit \<and> distinct (dkeys (cacheSet limit r v m))
     \<and> dget (cacheSet limit r v m) r = Some v
     \<and> (k \<noteq> r \<longrightarrow> dget (cacheSet limit r v m) k \<in> {dget m k, None})"
proof -
  have r: "r \<notin> set (dkeys (ddel r m))" by (simp add: AList.delete_keys)
  let ?m = "ddel r m @ [(r, v)]"
  have set: "cacheSet limit r v m = drop (length ?m - nat limit) ?m"
    using assms(1) by (simp add: cacheSet_def dput_new [OF r] evict_drop)
  have d: "distinct (dkeys ?m)" using assms(3) r distinct_delete [of m r] by simp
  have len: "length (ddel r m) - (nat limit - 1) \<le> length (ddel r m)" by simp
  let ?n = "length ?m - nat limit"
  have n: "?n \<le> length (ddel r m)" using assms(1) by simp
  then have dropped: "drop ?n ?m = drop ?n (ddel r m) @ [(r, v)]" by simp
  have "r \<notin> set (dkeys (drop ?n (ddel r m)))" using r by (metis drop_map in_set_dropD)
  then have "dget (drop ?n ?m) r = Some v"
    unfolding dropped by (simp add: map_add_def) (simp add: map_of_eq_None_iff [symmetric] split: option.split)
  moreover have "dget (drop ?n ?m) k \<in> {dget m k, None}" if "k \<noteq> r"
  proof -
    have "dget ?m k = dget m k" using that by (simp add: map_add_def split: option.split)
    moreover have "dget (drop ?n ?m) k \<in> {dget ?m k, None}"
    proof (cases "dget (drop ?n ?m) k")
      case (Some x)
      then have "(k, x) \<in> set ?m" by (meson in_set_dropD map_of_SomeD)
      with d Some show ?thesis by (simp only: map_of_is_SomeI) simp
    qed simp
    ultimately show ?thesis by simp
  qed
  moreover have "int (length (drop ?n ?m)) \<le> limit" using assms(1) by simp
  moreover have "distinct (dkeys (drop ?n ?m))" using d by (simp only: drop_map distinct_drop flip: drop_map)
  ultimately show ?thesis unfolding set by blast
qed

lemma cacheSet_bounded_witness:
  "dget (cacheSet 2 ''c'' (3 :: nat) [(''a'', 1), (''b'', 2)]) ''c'' = Some 3
   \<and> int (length (cacheSet 2 ''c'' (3 :: nat) [(''a'', 1), (''b'', 2)])) \<le> 2"
  using cacheSet_bounded [of 2 "[(''a'', 1), (''b'', 2 :: nat)]" "''c''" 3 "''c''"] by simp

section \<open>Retries\<close>

lemma one_le_power_of_max: "1 \<le> max 1 (m :: number) ^ k"
  by (rule one_le_power) simp

lemma retryBackoff_mono:
  assumes "m \<le> n"
  shows "retryBackoff policy m \<le> retryBackoff policy n"
proof -
  have "nat \<lfloor>max 0 (m - 1)\<rfloor> \<le> nat \<lfloor>max 0 (n - 1)\<rfloor>"
    using assms by (intro nat_mono floor_mono) linarith
  then have "max 1 b ^ nat \<lfloor>max 0 (m - 1)\<rfloor> \<le> max 1 b ^ nat \<lfloor>max 0 (n - 1)\<rfloor>" for b :: number
    by (intro power_increasing) simp_all
  then show ?thesis
    unfolding retryBackoff_def Let_def by (intro min.mono mult_left_mono) simp_all
qed

text \<open>
  Backoff is bounded, grows and is never cut short: the delay before a retry does not decrease with
  the attempt, the policy's backoff stays at or below its cap, and the delay is at least the backoff
  and at least what the failed attempt asked for. With a cap of at least one millisecond the delay is
  positive.
\<close>

theorem retryDelay_bounds:
  assumes "m \<le> n"
  shows "retryBackoff policy m \<le> retryBackoff policy n
     \<and> retryBackoff policy n \<le> withDefault (rp_maxBackoffMs policy) maxSafeInteger
     \<and> retryBackoff policy n \<le> retryDelay policy n after
     \<and> (\<forall>w. after = Some w \<longrightarrow> 0 \<le> w \<longrightarrow> w \<le> retryDelay policy n after)
     \<and> (1 \<le> withDefault (rp_maxBackoffMs policy) maxSafeInteger \<longrightarrow> 1 \<le> retryDelay policy n after)"
proof -
  have "1 \<le> max 1 a * max 1 b ^ k" for a b :: number and k
    using mult_mono [of 1 "max 1 a" 1 "max 1 b ^ k"] one_le_power_of_max [of b k] by simp
  then have positive: "1 \<le> withDefault (rp_maxBackoffMs policy) maxSafeInteger \<Longrightarrow> 1 \<le> retryBackoff policy n"
    by (simp add: retryBackoff_def Let_def)
  have "retryBackoff policy n \<le> withDefault (rp_maxBackoffMs policy) maxSafeInteger"
    by (simp add: retryBackoff_def Let_def)
  moreover have delay: "retryBackoff policy n \<le> retryDelay policy n after"
    by (simp add: retryDelay_def Let_def split: option.split)
  moreover have "\<forall>w. after = Some w \<longrightarrow> 0 \<le> w \<longrightarrow> w \<le> retryDelay policy n after"
    by (auto simp: retryDelay_def Let_def)
  ultimately show ?thesis
    using retryBackoff_mono [OF assms, of policy] positive by fastforce
qed

definition samplePolicy :: retry_policy where
  "samplePolicy = \<lparr>rp_maxAttempts = 3, rp_backoffMs = Some 100, rp_maxBackoffMs = Some 250,
     rp_backoffMultiplier = Some 2, rp_scheduleToStartTimeoutMs = None,
     rp_startToCloseTimeoutMs = None, rp_heartbeatTimeoutMs = None, rp_cancellationTimeoutMs = None\<rparr>"

lemma retryDelay_bounds_witness:
  "retryBackoff samplePolicy 1 \<le> retryBackoff samplePolicy 3 \<and> 1 \<le> retryDelay samplePolicy 3 (Some 400)"
  using retryDelay_bounds [of 1 3 samplePolicy "Some 400"] by (simp add: samplePolicy_def)

section \<open>Failed attempts\<close>

lemma executions_of_delivery [simp]:
  "rs_effectExecutions (deliver reg s e x) = rs_effectExecutions s"
  "rs_effectExecutions (failUnhandledEffect s e b) = rs_effectExecutions s"
  "rs_effectExecutions (recordIdempotencyKey s e) = rs_effectExecutions s"
  "rs_effectExecutions (adoptRunId s e) = rs_effectExecutions s"
  by (simp_all add: deliver_def failUnhandledEffect_def recordIdempotencyKey_def adoptRunId_def Let_def
      split: option.split)

lemma priorHeartbeatDetails_frame [simp]:
  "priorHeartbeatDetails (recordIdempotencyKey s e) i = priorHeartbeatDetails s i"
  "priorHeartbeatDetails (adoptRunId s e) i = priorHeartbeatDetails s i"
  by (simp_all add: priorHeartbeatDetails_def)

text \<open>
  A failed attempt is retried exactly when the policy allows it: there is a policy, attempts remain
  and the failure is retryable. Folding the planned event then parks the effect in a retry wait until
  the time the policy gives, with the progress of earlier attempts kept; otherwise it settles the
  effect.
\<close>

theorem planAttemptFailure_folds:
  assumes "oe_effectId item \<noteq> ''''"
    and "planAttemptFailure stamp r item attempt error now retry origin nonRetryable after = (e, retrying)"
  shows "(retrying \<longleftrightarrow> \<not> nonRetryable \<and> (\<exists>policy. retry = Some policy \<and> attempt < rp_maxAttempts policy))
     \<and> (retrying \<longrightarrow> (\<exists>policy ex. retry = Some policy
          \<and> dget (rs_effectExecutions (foldEvent reg s e)) (oe_effectId item) = Some ex
          \<and> ex_status ex = RetryWait \<and> ex_attempt ex = attempt
          \<and> ex_nextAttemptAt ex = Some (now + retryDelay policy attempt after)
          \<and> ex_heartbeatDetails ex = priorHeartbeatDetails s (oe_effectId item)))
     \<and> (\<not> retrying \<longrightarrow> oe_effectId item \<notin> set (outstandingIds (foldEvent reg s e)))"
proof (cases retrying)
  case True
  then obtain policy where policy: "retry = Some policy" "\<not> nonRetryable" "attempt < rp_maxAttempts policy"
    and e: "e = createEvent stamp r
      ((eventInput ''runtime.effect.retry.scheduled'' (JObj
          [(''effectId'', JStr (oe_effectId item)), (''attempt'', JNum attempt),
           (''nextAttemptAt'', JNum (now + retryDelay policy attempt after)), (''error'', JStr error)]))
       \<lparr>in_threadId := Val (oe_threadId item), in_causationId := Val (oe_causingEventId item),
        in_origin := Some origin\<rparr>) 0"
    using assms(2) by (auto simp: planAttemptFailure_def split: option.splits if_splits)
  have fields: "payloadAttempt e = Some (oe_effectId item, attempt)"
    "readNumber (payloadObject e) ''nextAttemptAt'' = Some (now + retryDelay policy attempt after)"
    using assms(1)
    by (simp_all add: e payloadAttempt_def payloadEffectId_def payloadObject_def asObject_def
        readString_def readNumber_def)
  have "rs_effectExecutions (foldEvent reg s e)
      = rs_effectExecutions (retryScheduled (recordIdempotencyKey (adoptRunId s e) e) e)"
    by (simp add: foldEvent_def Let_def e settleEffect_def applyProtocol_def progressTypes_def)
  then show ?thesis
    using True policy fields by (simp add: retryScheduled_def)
next
  case False
  then have e: "e = createEffectFailedEvent stamp r item error nonRetryable"
    and "\<not> (\<not> nonRetryable \<and> (\<exists>policy. retry = Some policy \<and> attempt < rp_maxAttempts policy))"
    using assms(2) by (auto simp: planAttemptFailure_def split: option.splits if_splits)
  moreover have "oe_effectId item \<notin> set (outstandingIds (foldEvent reg s e))"
    by (rule foldEvent_settles) (use assms(1) in \<open>simp_all add: e createEffectFailedEvent_def\<close>)
  ultimately show ?thesis using False by simp
qed

lemma planAttemptFailure_folds_witness:
  "\<exists>e. planAttemptFailure (''e'', 0) ''r'' (sampleItem ''a'' ''k'') 1 ''oops'' 1000 (Some samplePolicy)
         OriginSystem False None = (e, True)
     \<and> (\<exists>ex. dget (rs_effectExecutions (foldEvent sampleRegistry (sampleRun Running) e)) ''a:k'' = Some ex
          \<and> ex_status ex = RetryWait)"
proof -
  obtain e where e: "planAttemptFailure (''e'', 0) ''r'' (sampleItem ''a'' ''k'') 1 ''oops'' 1000
      (Some samplePolicy) OriginSystem False None = (e, True)"
    by (simp add: planAttemptFailure_def samplePolicy_def)
  have id: "oe_effectId (sampleItem ''a'' ''k'') = ''a:k''" by (simp add: sampleItem_def)
  from planAttemptFailure_folds [OF _ e, of sampleRegistry "sampleRun Running"] e id
  show ?thesis by fastforce
qed

section \<open>Cascaded cancellations\<close>

text \<open>No recorded thread stands before its parent.\<close>

definition parentsFirst :: "run_state \<Rightarrow> bool" where
  "parentsFirst s \<longleftrightarrow>
     sorted_wrt (\<lambda>a b. thr_parentThreadId a \<noteq> Some (thr_threadId b)) (dvals (rs_threads s))"

lemma insertionSet_distinct: "distinct xs \<Longrightarrow> insertionSet xs = xs"
  by (simp add: insertionSet_def distinct_remdups_id)

text \<open>
  Cancelling a thread cancels what is alive below it: the cascade names exactly the threads that are
  not terminal and reach the cancelled thread by following parents, each once, and never a thread
  before its own child.
\<close>

theorem cascadedCancellations_spec:
  assumes "run_ok s" and "parentRanked s rank" and "parentsFirst s"
    and "List.map_filter cancelledThread written = [t]"
  shows "\<exists>ids. cascadedCancellations s written = Some (map cancelInput ids) \<and> distinct ids
     \<and> set ids = {c. \<exists>r. dget (rs_threads s) c = Some r \<and> \<not> isTerminalStatus (thr_status r)
                       \<and> hasAncestor s t (thr_parentThreadId r)}
     \<and> sorted_wrt (\<lambda>a b. \<forall>r. dget (rs_threads s) b = Some r \<longrightarrow> thr_parentThreadId r \<noteq> Some a) ids"
proof -
  have keyed: "keyed thr_threadId (rs_threads s)" using run_ok_keyed(1) [OF assms(1)] .
  let ?rs = "filter (\<lambda>r. isLive s (thr_threadId r) \<and> hasAncestor s t (thr_parentThreadId r)) (dvals (rs_threads s))"
  let ?ids = "map thr_threadId ?rs"
  have get: "dget (rs_threads s) (thr_threadId r) = Some r" if "r \<in> set (dvals (rs_threads s))" for r
    using keyed_val [OF keyed that] .
  have "filter (isLive s) (map thr_threadId
      (filter (\<lambda>r. hasAncestor s t (thr_parentThreadId r)) (dvals (rs_threads s)))) = ?ids"
    by (simp add: filter_map o_def conj_commute)
  then have "cascadedCancellations s written = Some (map cancelInput (rev (insertionSet ?ids)))"
    using assms(4) by (simp add: cascadedCancellations_def descendantThreadIds_def
        descendantsAmong_returns [OF assms(2)])
  moreover have distinct: "distinct ?ids" by (rule keyed_distinct_ids [OF keyed])
  moreover have "set ?ids = {c. \<exists>r. dget (rs_threads s) c = Some r \<and> \<not> isTerminalStatus (thr_status r)
      \<and> hasAncestor s t (thr_parentThreadId r)}"
  proof (intro set_eqI iffI)
    fix c assume "c \<in> set ?ids"
    then obtain r where "c = thr_threadId r" "r \<in> set ?rs" unfolding set_map [of thr_threadId] by blast
    then have "r \<in> set (dvals (rs_threads s))" "c = thr_threadId r" "isLive s c"
        "hasAncestor s t (thr_parentThreadId r)"
      unfolding set_filter by blast+
    with get show "c \<in> {c. \<exists>r. dget (rs_threads s) c = Some r \<and> \<not> isTerminalStatus (thr_status r)
        \<and> hasAncestor s t (thr_parentThreadId r)}"
      by (auto simp: isLive_def)
  next
    fix c assume "c \<in> {c. \<exists>r. dget (rs_threads s) c = Some r \<and> \<not> isTerminalStatus (thr_status r)
        \<and> hasAncestor s t (thr_parentThreadId r)}"
    then obtain r where r: "dget (rs_threads s) c = Some r" "\<not> isTerminalStatus (thr_status r)"
        "hasAncestor s t (thr_parentThreadId r)" by blast
    then have "r \<in> set (dvals (rs_threads s))" "thr_threadId r = c"
      by (auto dest: dget_val run_ok_threadKey [OF assms(1)])
    with r have "r \<in> set ?rs" by (auto simp: isLive_def)
    with \<open>thr_threadId r = c\<close> show "c \<in> set ?ids" by force
  qed
  moreover have "sorted_wrt (\<lambda>b a. \<forall>r. dget (rs_threads s) b = Some r \<longrightarrow> thr_parentThreadId r \<noteq> Some a) ?ids"
    unfolding sorted_wrt_map
  proof (rule sorted_wrt_mono_rel [OF _ sorted_wrt_filter])
    show "sorted_wrt (\<lambda>a b. thr_parentThreadId a \<noteq> Some (thr_threadId b)) (dvals (rs_threads s))"
      using assms(3) by (simp add: parentsFirst_def)
    fix a b assume "a \<in> set ?rs" "thr_parentThreadId a \<noteq> Some (thr_threadId b)"
    then show "\<forall>r. dget (rs_threads s) (thr_threadId a) = Some r \<longrightarrow> thr_parentThreadId r \<noteq> Some (thr_threadId b)"
      using get [of a] by auto
  qed
  ultimately show ?thesis
    by (intro exI [of _ "rev ?ids"]) (simp add: insertionSet_distinct sorted_wrt_rev del: set_map)
qed

lemma cascadedCancellations_spec_witness:
  "cascadedCancellations sampleTree [sampleEvent ''runtime.thread.cancelled'' []] = Some [cancelInput ''b'']"
proof -
  have ok: "run_ok sampleTree"
    by (simp add: run_ok_def sampleTree_def emptyRunState_def keyed_def sampleThread_def outstandingIds_def)
  have rank: "parentRanked sampleTree (\<lambda>t. if t = ''b'' then 1 else 0)"
    by (auto simp: parentRanked_def sampleTree_def sampleThread_def split: if_splits)
  have first: "parentsFirst sampleTree" by (simp add: parentsFirst_def sampleTree_def sampleThread_def)
  have written: "List.map_filter cancelledThread [sampleEvent ''runtime.thread.cancelled'' []] = [''a'']"
    by (simp add: List.map_filter_simps cancelledThread_def readString_def)
  obtain ids where ids: "cascadedCancellations sampleTree [sampleEvent ''runtime.thread.cancelled'' []]
        = Some (map cancelInput ids)" "distinct ids"
      "set ids = {c. \<exists>r. dget (rs_threads sampleTree) c = Some r \<and> \<not> isTerminalStatus (thr_status r)
                       \<and> hasAncestor sampleTree ''a'' (thr_parentThreadId r)}"
    using cascadedCancellations_spec [OF ok rank first written] by blast
  have "set ids = {''b''}"
    unfolding ids(3) by (auto simp: sampleTree_def sampleThread_def intro: hasAncestor.here split: if_splits)
  then have "ids = [''b'']"
    using ids(2) by (metis distinct_card card_1_singleton_iff length_0_conv length_Suc_conv
        list.set_intros(1) singletonD One_nat_def is_singletonI is_singleton_def card.empty card_insert_disjoint finite.emptyI empty_iff)
  with ids(1) show ?thesis by simp
qed

end
