(* ===== verification/Deadlines.thy ===== *)
theory Deadlines
  imports Runtime_Properties
begin

text \<open>
  \<open>packages/runtime/src/deadline-transition-planner.ts\<close>: what a wake-up does about time. Due timers fire
  and satisfy their waits, worker attempts past their deadline time out and are retried or failed, a
  terminal run gives up on cancellations nobody acknowledged, and the next deadline says when to wake
  again. \<open>st\<close> is the supply of event ids and times, used in the order the code creates events.
\<close>

section \<open>Definitions\<close>

datatype timeout_kind = ScheduleToStart | HeartbeatTimeout | StartToClose

fun timeoutName :: "timeout_kind \<Rightarrow> string" where
  "timeoutName ScheduleToStart = ''schedule-to-start''"
| "timeoutName HeartbeatTimeout = ''heartbeat''"
| "timeoutName StartToClose = ''start-to-close''"

record deadline_plan =
  dp_events :: "envelope list"
  dp_timerNotices :: "(string \<times> number) list"
  dp_timeoutNotices :: "(string \<times> number \<times> timeout_kind) list"

definition emptyPlan :: deadline_plan where
  "emptyPlan = \<lparr>dp_events = [], dp_timerNotices = [], dp_timeoutNotices = []\<rparr>"

definition isDueTimer :: "number \<Rightarrow> wait_record \<Rightarrow> bool" where
  "isDueTimer now w = (case timerAt (wt_on w) of None \<Rightarrow> False | Some due \<Rightarrow> due \<le> now + 5)"

definition timerFiredInput :: "wait_record \<Rightarrow> event_input" where
  "timerFiredInput w =
     (eventInput ''runtime.timer.fired''
        (JObj [(''timerId'', JStr (wt_waitId w)), (''waitId'', JStr (wt_waitId w))]))
     \<lparr>in_threadId := Val (wt_threadId w), in_origin := Some OriginSystem\<rparr>"

definition planDueTimers ::
  "stamps \<Rightarrow> string \<Rightarrow> run_state \<Rightarrow> registry \<Rightarrow> number \<Rightarrow> deadline_plan" where
  "planDueTimers st runId s reg now =
     (let due = filter (isDueTimer now) (dvals (rs_waits s)) in
      if due = [] then emptyPlan
      else let fired = createEvents st 0 runId (map timerFiredInput due);
               stateAfterFired = foldRun reg s fired;
               satisfied = createEvents st (length fired) runId (waitSatisfiedEvents stateAfterFired fired)
           in \<lparr>dp_events = fired @ satisfied,
               dp_timerNotices = map (\<lambda>w. (wt_waitId w, max 0 (now - withDefault (timerAt (wt_on w)) 0))) due,
               dp_timeoutNotices = []\<rparr>)"

definition timeoutKind :: "effect_execution \<Rightarrow> retry_policy option \<Rightarrow> number \<Rightarrow> timeout_kind" where
  "timeoutKind ex retry now =
     (if ex_status ex = Dispatched then ScheduleToStart
      else let limit = Option.bind retry rp_startToCloseTimeoutMs;
               startToCloseAt =
                 (case (ex_startedAt ex, limit) of
                    (Some started, Some ms) \<Rightarrow> if ms \<noteq> 0 then Some (started + ms) else None
                  | _ \<Rightarrow> None)
           in if ex_lastHeartbeatAt ex \<noteq> None
                 \<and> (case startToCloseAt of None \<Rightarrow> True | Some t \<Rightarrow> now < t)
              then HeartbeatTimeout else StartToClose)"

definition cancellationAmbiguous :: "string \<times> number \<Rightarrow> string \<Rightarrow> string \<Rightarrow> number \<Rightarrow> envelope" where
  "cancellationAmbiguous stamp runId effectId attempt =
     createEvent stamp runId
       ((eventInput ''runtime.effect.ambiguous'' (JObj
           [(''effectId'', JStr effectId), (''attempt'', JNum attempt),
            (''error'', JStr ''worker did not acknowledge cancellation'')]))
        \<lparr>in_threadId := Null, in_origin := Some OriginSystem\<rparr>) 0"

definition isExpired :: "number \<Rightarrow> effect_execution \<Rightarrow> bool" where
  "isExpired now ex \<longleftrightarrow>
     List.member [Dispatched, Started, Heartbeat, CancelRequested] (ex_status ex)
     \<and> (case ex_deadlineAt ex of None \<Rightarrow> False | Some d \<Rightarrow> d \<le> now)"

definition timedOutEvent ::
  "string \<times> number \<Rightarrow> string \<Rightarrow> outstanding_effect \<Rightarrow> number \<Rightarrow> timeout_kind \<Rightarrow> envelope" where
  "timedOutEvent stamp runId item attempt kind =
     createEvent stamp runId
       ((eventInput ''runtime.effect.timed_out'' (JObj
           [(''effectId'', JStr (oe_effectId item)), (''attempt'', JNum attempt),
            (''timeout'', JStr (timeoutName kind))]))
        \<lparr>in_threadId := Val (oe_threadId item), in_causationId := Val (oe_causingEventId item),
         in_origin := Some OriginSystem\<rparr>) 0"

definition effectRetryPolicy :: "registry \<Rightarrow> runtime_effect \<Rightarrow> retry_policy option" where
  "effectRetryPolicy reg e = Option.bind (dget (rg_effects reg) (effectType e)) ed_retry"

text \<open>The loop over the expired executions; \<open>n\<close> is the next stamp.\<close>

fun planExpiredFrom ::
  "stamps \<Rightarrow> nat \<Rightarrow> string \<Rightarrow> run_state \<Rightarrow> registry \<Rightarrow> number \<Rightarrow> effect_execution list \<Rightarrow>
   envelope list \<times> (string \<times> number \<times> timeout_kind) list" where
  "planExpiredFrom st n runId s reg now [] = ([], [])"
| "planExpiredFrom st n runId s reg now (ex # exs) =
     (case find (\<lambda>item. oe_effectId item = ex_effectId ex) (rs_outstandingEffects s) of
        None \<Rightarrow>
          if ex_status ex = CancelRequested then
            (let (events, notices) = planExpiredFrom st (Suc n) runId s reg now exs
             in (cancellationAmbiguous (st n) runId (ex_effectId ex) (ex_attempt ex) # events, notices))
          else planExpiredFrom st n runId s reg now exs
      | Some item \<Rightarrow>
          (let retry = effectRetryPolicy reg (oe_effect item);
               kind = timeoutKind ex retry now;
               failure = fst (planAttemptFailure (st (Suc n)) runId item (ex_attempt ex)
                 (timeoutName kind @ '' timeout'') now retry OriginSystem False None);
               (events, notices) = planExpiredFrom st (Suc (Suc n)) runId s reg now exs
           in (timedOutEvent (st n) runId item (ex_attempt ex) kind # failure # events,
               (oe_effectId item, ex_attempt ex, kind) # notices)))"

definition planExpiredExecutions ::
  "stamps \<Rightarrow> string \<Rightarrow> run_state \<Rightarrow> registry \<Rightarrow> number \<Rightarrow> deadline_plan" where
  "planExpiredExecutions st runId s reg now =
     (let expired = filter (isExpired now) (dvals (rs_effectExecutions s)) in
      if expired = [] then emptyPlan
      else let (events, notices) = planExpiredFrom st 0 runId s reg now expired
           in \<lparr>dp_events = events, dp_timerNotices = [], dp_timeoutNotices = notices\<rparr>)"

definition planDeadlineTransitions ::
  "stamps \<Rightarrow> string \<Rightarrow> run_state \<Rightarrow> registry \<Rightarrow> number \<Rightarrow> deadline_plan" where
  "planDeadlineTransitions st runId s reg now =
     (let timerPlan = planDueTimers st runId s reg now in
      if dp_events timerPlan \<noteq> [] then timerPlan else planExpiredExecutions st runId s reg now)"

text \<open>\<open>planTerminalCancellationTransitions\<close>: the events for the executions, from the \<open>n\<close>-th stamp on.\<close>

fun ambiguousFrom :: "stamps \<Rightarrow> nat \<Rightarrow> string \<Rightarrow> effect_execution list \<Rightarrow> envelope list" where
  "ambiguousFrom st n runId [] = []"
| "ambiguousFrom st n runId (ex # exs) =
     cancellationAmbiguous (st n) runId (ex_effectId ex) (ex_attempt ex)
     # ambiguousFrom st (Suc n) runId exs"

definition planTerminalCancellationTransitions ::
  "stamps \<Rightarrow> string \<Rightarrow> run_state \<Rightarrow> number \<Rightarrow> envelope list" where
  "planTerminalCancellationTransitions st runId s now =
     (if \<not> isRunTerminal s then []
      else ambiguousFrom st 0 runId
        (filter (\<lambda>ex. ex_status ex = CancelRequested
           \<and> (case ex_deadlineAt ex of None \<Rightarrow> False | Some d \<Rightarrow> d \<le> now)) (dvals (rs_effectExecutions s))))"

text \<open>\<open>after\<close> is \<open>None\<close> for \<open>Number.NEGATIVE_INFINITY\<close>.\<close>

definition laterThan :: "number option \<Rightarrow> number \<Rightarrow> bool" where
  "laterThan after t = (case after of None \<Rightarrow> True | Some a \<Rightarrow> a < t)"

definition runtimeDeadlines :: "run_state \<Rightarrow> number list" where
  "runtimeDeadlines s =
     (let terminal = isRunTerminal s in
      (if terminal then [] else List.map_filter (\<lambda>w. timerAt (wt_on w)) (dvals (rs_waits s)))
      @ List.map_filter (\<lambda>ex. if \<not> terminal \<or> ex_status ex = CancelRequested then ex_deadlineAt ex else None)
          (dvals (rs_effectExecutions s))
      @ (if terminal then []
         else List.map_filter (\<lambda>item. if dget (rs_effectExecutions s) (oe_effectId item) \<noteq> None then None
                                 else deferredUntil (oe_effect item)) (rs_outstandingEffects s)))"

definition nextRuntimeDeadline :: "run_state \<Rightarrow> number option \<Rightarrow> number option" where
  "nextRuntimeDeadline s after = minOf (filter (laterThan after) (runtimeDeadlines s))"

section \<open>Executions under the fold\<close>

text \<open>
  Only the protocol writes executions: what delivery does to threads and effects does not matter to
  them.
\<close>

lemma foldEvent_executions:
  "\<not> ev_ephemeral e \<Longrightarrow> rs_effectExecutions (foldEvent reg s e)
     = rs_effectExecutions (applyProtocol reg (recordIdempotencyKey (settleEffect (adoptRunId s e) e) e) e)"
  by (simp add: foldEvent_def Let_def)

lemma settleEffect_executions:
  "rs_effectExecutions (settleEffect s e) = (case truthy (ev_effectId e) of
     None \<Rightarrow> rs_effectExecutions s | Some i \<Rightarrow> ddel i (rs_effectExecutions s))"
  by (simp add: settleEffect_def split: option.split)

lemma attempt_fields:
  assumes "i \<noteq> ''''"
    and "payloadObject e = (''effectId'', JStr i) # (''attempt'', JNum n) # rest"
  shows "payloadAttempt e = Some (i, n)"
  using assms by (simp add: payloadAttempt_def payloadEffectId_def readString_def readNumber_def)

lemma executionProgress_put:
  assumes "payloadAttempt e = Some (i, n)"
  shows "\<exists>ex. ex_status ex = executionStatusOf (ev_type e) \<and> ex_attempt ex = n
    \<and> rs_effectExecutions (executionProgress s e) = dput i ex (rs_effectExecutions s)"
proof -
  have "\<exists>ex. executionProgress s e = putExecution s ex
      \<and> ex_effectId ex = i \<and> ex_attempt ex = n \<and> ex_status ex = executionStatusOf (ev_type e)"
    unfolding executionProgress_def assms Let_def option.case prod.case
    by (rule exI, rule conjI, rule refl) simp
  then show ?thesis by auto
qed

lemma progress_executions:
  assumes "payloadAttempt e = Some (i, n)" and "\<not> ev_ephemeral e" and "ev_effectId e = None"
    and "List.member progressTypes (ev_type e)"
  shows "\<exists>ex. ex_status ex = executionStatusOf (ev_type e) \<and> ex_attempt ex = n
    \<and> rs_effectExecutions (foldEvent reg s e) = dput i ex (rs_effectExecutions s)"
proof -
  let ?s = "recordIdempotencyKey (adoptRunId s e) e"
  have "rs_effectExecutions (foldEvent reg s e) = rs_effectExecutions (executionProgress ?s e)"
    using assms(2-4) by (auto simp: foldEvent_executions settleEffect_def applyProtocol_def progressTypes_def)
  then show ?thesis using executionProgress_put [OF assms(1), of ?s] by simp
qed

lemma timedOut_executions:
  assumes "oe_effectId item \<noteq> ''''"
  shows "\<exists>ex. ex_status ex = TimedOut
    \<and> rs_effectExecutions (foldEvent reg s (timedOutEvent stamp r item n kind))
        = dput (oe_effectId item) ex (rs_effectExecutions s)"
proof -
  let ?e = "timedOutEvent stamp r item n kind"
  have "payloadAttempt ?e = Some (oe_effectId item, n)"
    using assms by (intro attempt_fields) (simp_all add: timedOutEvent_def payloadObject_def asObject_def)
  from progress_executions [OF this, of reg s] show ?thesis
    by (auto simp: timedOutEvent_def progressTypes_def executionStatusOf_def)
qed

lemma ambiguous_executions:
  assumes "i \<noteq> ''''"
  shows "\<exists>ex. ex_status ex = Ambiguous
    \<and> rs_effectExecutions (foldEvent reg s (cancellationAmbiguous stamp r i n))
        = dput i ex (rs_effectExecutions s)"
proof -
  let ?e = "cancellationAmbiguous stamp r i n"
  have "payloadAttempt ?e = Some (i, n)"
    using assms by (intro attempt_fields) (simp_all add: cancellationAmbiguous_def payloadObject_def asObject_def)
  from progress_executions [OF this, of reg s] show ?thesis
    by (auto simp: cancellationAmbiguous_def progressTypes_def executionStatusOf_def)
qed

text \<open>A failed attempt leaves a retry wait or no execution, and touches no other effect.\<close>

lemma failure_executions:
  assumes "oe_effectId item \<noteq> ''''"
  shows "\<exists>new. (new = None \<or> (\<exists>ex. new = Some ex \<and> ex_status ex = RetryWait))
    \<and> dget (rs_effectExecutions (foldEvent reg s
        (fst (planAttemptFailure stamp r item n err now retry origin nonRetryable after))))
      = (dget (rs_effectExecutions s))(oe_effectId item := new)"
proof -
  obtain e retrying where plan:
    "planAttemptFailure stamp r item n err now retry origin nonRetryable after = (e, retrying)"
    by fastforce
  show ?thesis
  proof (cases retrying)
    case True
    then obtain policy where e: "e = createEvent stamp r
      ((eventInput ''runtime.effect.retry.scheduled'' (JObj
          [(''effectId'', JStr (oe_effectId item)), (''attempt'', JNum n),
           (''nextAttemptAt'', JNum (now + retryDelay policy n after)), (''error'', JStr err)]))
       \<lparr>in_threadId := Val (oe_threadId item), in_causationId := Val (oe_causingEventId item),
        in_origin := Some origin\<rparr>) 0"
      using plan by (auto simp: planAttemptFailure_def split: option.splits if_splits)
    have attempt: "payloadAttempt e = Some (oe_effectId item, n)"
      using assms by (intro attempt_fields) (simp_all add: e payloadObject_def asObject_def)
    have at_time: "readNumber (payloadObject e) ''nextAttemptAt'' = Some (now + retryDelay policy n after)"
      by (simp add: e payloadObject_def asObject_def readNumber_def)
    have "rs_effectExecutions (foldEvent reg s e)
        = rs_effectExecutions (retryScheduled (recordIdempotencyKey (adoptRunId s e) e) e)"
      by (simp add: foldEvent_executions e settleEffect_def applyProtocol_def progressTypes_def Let_def)
    then show ?thesis
      by (auto simp: plan retryScheduled_def attempt at_time fun_eq_iff)
  next
    case False
    then have e: "e = createEffectFailedEvent stamp r item err nonRetryable"
      using plan by (auto simp: planAttemptFailure_def split: option.splits if_splits)
    have "rs_effectExecutions (foldEvent reg s e) = ddel (oe_effectId item) (rs_effectExecutions s)"
      using assms by (simp add: foldEvent_executions e createEffectFailedEvent_def applyProtocol_def
          progressTypes_def settleEffect_executions Let_def)
    then show ?thesis by (auto simp: plan fun_eq_iff)
  qed
qed

section \<open>Expired attempts\<close>

definition atRest :: "effect_execution option \<Rightarrow> bool" where
  "atRest ex \<longleftrightarrow> (case ex of None \<Rightarrow> True | Some x \<Rightarrow> ex_status x = RetryWait \<or> ex_status x = Ambiguous)"

text \<open>An execution nobody will settle: its effect is not outstanding and it is not being cancelled.\<close>

definition orphaned :: "run_state \<Rightarrow> effect_execution \<Rightarrow> bool" where
  "orphaned s ex \<longleftrightarrow>
     \<not> List.member (outstandingIds s) (ex_effectId ex) \<and> ex_status ex \<noteq> CancelRequested"

lemma planExpiredFrom_folds:
  assumes "distinct (map ex_effectId exs)" and "\<forall>ex \<in> set exs. ex_effectId ex \<noteq> ''''"
  shows "(\<forall>ex \<in> set exs. orphaned s ex \<or> atRest (dget (rs_effectExecutions
            (foldRun reg s' (fst (planExpiredFrom st n r s reg now exs)))) (ex_effectId ex)))
     \<and> (\<forall>k. k \<notin> ex_effectId ` set exs \<longrightarrow> dget (rs_effectExecutions
            (foldRun reg s' (fst (planExpiredFrom st n r s reg now exs)))) k = dget (rs_effectExecutions s') k)"
  using assms
proof (induction exs arbitrary: n s')
  case (Cons ex exs)
  let ?i = "ex_effectId ex"
  let ?from = "\<lambda>n s'. foldRun reg s' (fst (planExpiredFrom st n r s reg now exs))"
  have fresh: "?i \<notin> ex_effectId ` set exs" "?i \<noteq> ''''" using Cons.prems by auto
  have IH: "(\<forall>ex \<in> set exs. orphaned s ex \<or> atRest (dget (rs_effectExecutions (?from n s')) (ex_effectId ex)))
     \<and> (\<forall>k. k \<notin> ex_effectId ` set exs \<longrightarrow>
          dget (rs_effectExecutions (?from n s')) k = dget (rs_effectExecutions s') k)" for n s'
    using Cons.IH [where n = n and s' = s'] Cons.prems by simp
  show ?case
  proof (cases "find (\<lambda>item. oe_effectId item = ?i) (rs_outstandingEffects s)")
    case None
    then have gone: "\<not> List.member (outstandingIds s) ?i"
      by (auto simp: find_None_iff outstandingIds_def)
    show ?thesis
    proof (cases "ex_status ex = CancelRequested")
      case True
      let ?s = "foldEvent reg s' (cancellationAmbiguous (st n) r ?i (ex_attempt ex))"
      obtain x where x: "ex_status x = Ambiguous" "rs_effectExecutions ?s = dput ?i x (rs_effectExecutions s')"
        using ambiguous_executions [OF fresh(2)] by blast
      have run: "foldRun reg s' (fst (planExpiredFrom st n r s reg now (ex # exs))) = ?from (Suc n) ?s"
        using None True by (simp add: split_beta)
      have "atRest (dget (rs_effectExecutions (?from (Suc n) ?s)) ?i)"
        using IH [where n = "Suc n" and s' = ?s] fresh(1) x by (simp add: atRest_def)
      then show ?thesis using IH [where n = "Suc n" and s' = ?s] x(2) unfolding run by auto
    next
      case False
      then have run: "foldRun reg s' (fst (planExpiredFrom st n r s reg now (ex # exs))) = ?from n s'"
        using None by simp
      have "orphaned s ex" using gone False by (simp add: orphaned_def)
      then show ?thesis using IH [where n = n and s' = s'] unfolding run by auto
    qed
  next
    case (Some item)
    then have item: "oe_effectId item = ?i" by (auto simp: find_Some_iff)
    define retry where "retry = effectRetryPolicy reg (oe_effect item)"
    define kind where "kind = timeoutKind ex retry now"
    let ?s1 = "foldEvent reg s' (timedOutEvent (st n) r item (ex_attempt ex) kind)"
    let ?s2 = "foldEvent reg ?s1 (fst (planAttemptFailure (st (Suc n)) r item (ex_attempt ex)
      (timeoutName kind @ '' timeout'') now retry OriginSystem False None))"
    have run: "foldRun reg s' (fst (planExpiredFrom st n r s reg now (ex # exs))) = ?from (Suc (Suc n)) ?s2"
      using Some by (simp add: split_beta Let_def retry_def kind_def)
    obtain x where x: "rs_effectExecutions ?s1 = dput ?i x (rs_effectExecutions s')"
      using timedOut_executions [of item] fresh(2) item by metis
    obtain new where new: "new = None \<or> (\<exists>y. new = Some y \<and> ex_status y = RetryWait)"
        "dget (rs_effectExecutions ?s2) = (dget (rs_effectExecutions ?s1))(?i := new)"
      using failure_executions [of item] fresh(2) item by metis
    have "atRest (dget (rs_effectExecutions (?from (Suc (Suc n)) ?s2)) ?i)"
      using IH [where n = "Suc (Suc n)" and s' = ?s2] fresh(1) new by (auto simp: atRest_def)
    then show ?thesis using IH [where n = "Suc (Suc n)" and s' = ?s2] x new(2) unfolding run by auto
  qed
qed simp

text \<open>
  C32. Expired attempts come to rest: folding what the planner plans for a well-formed state leaves every
  worker attempt that was past its deadline settled, waiting for a retry or reported ambiguous, unless
  it was orphaned before; in particular no attempt of an outstanding effect is still expired, and
  executions that were not expired are untouched.
\<close>

theorem planExpiredExecutions_rests:
  assumes "run_ok s" and "\<forall>ex \<in> set (dvals (rs_effectExecutions s)). ex_effectId ex \<noteq> ''''"
    and "s' = foldRun reg s (dp_events (planExpiredExecutions st r s reg now))"
    and "dget (rs_effectExecutions s) i = Some ex"
  shows "(isExpired now ex \<and> \<not> orphaned s ex \<longrightarrow> atRest (dget (rs_effectExecutions s') i))
     \<and> (\<not> isExpired now ex \<longrightarrow> dget (rs_effectExecutions s') i = Some ex)"
proof -
  have keyed: "keyed ex_effectId (rs_effectExecutions s)" using run_ok_keyed(3) [OF assms(1)] .
  have i: "ex_effectId ex = i" using keyed_get [OF keyed assms(4)] .
  have mem: "ex \<in> set (dvals (rs_effectExecutions s))" using dget_val [OF assms(4)] .
  let ?expired = "filter (isExpired now) (dvals (rs_effectExecutions s))"
  have s': "s' = foldRun reg s (fst (planExpiredFrom st 0 r s reg now ?expired))"
    using assms(3) by (simp add: planExpiredExecutions_def emptyPlan_def Let_def split_beta)
  have distinct: "distinct (map ex_effectId ?expired)" by (rule keyed_distinct_ids [OF keyed])
  have named: "\<forall>ex \<in> set ?expired. ex_effectId ex \<noteq> ''''" using assms(2) by (simp only: set_filter) blast
  note folds = planExpiredFrom_folds [OF distinct named, of s reg s st 0 r now]
  show ?thesis
  proof (cases "isExpired now ex")
    case True
    then have "ex \<in> set ?expired" using mem by simp
    with folds i True show ?thesis unfolding s' by blast
  next
    case False
    have "i \<notin> ex_effectId ` set ?expired"
    proof
      assume "i \<in> ex_effectId ` set ?expired"
      then obtain y where "y \<in> set (dvals (rs_effectExecutions s))" "isExpired now y" "ex_effectId y = i"
        unfolding set_filter by blast
      with keyed_val [OF keyed, of y] assms(4) False show False by simp
    qed
    with folds assms(4) False show ?thesis unfolding s' by simp
  qed
qed

definition sampleExecution :: "string \<Rightarrow> execution_status \<Rightarrow> number option \<Rightarrow> effect_execution" where
  "sampleExecution i status deadline = \<lparr>ex_effectId = i, ex_attempt = 1, ex_status = status,
     ex_nextAttemptAt = deadline, ex_deadlineAt = deadline, ex_startedAt = Some 0,
     ex_lastHeartbeatAt = None, ex_heartbeatDetails = JNull, ex_lastError = None, ex_dispatchTry = 0\<rparr>"

definition sampleWorking :: "execution_status \<Rightarrow> run_state" where
  "sampleWorking status = (sampleRun Waiting)\<lparr>
     rs_effectExecutions := [(''a:k'', sampleExecution ''a:k'' status (Some 5))]\<rparr>"

lemma run_ok_sampleWorking [simp]: "run_ok (sampleWorking status)"
  using run_ok_sampleRun [of Waiting]
  by (simp add: run_ok_def sampleWorking_def sampleExecution_def keyed_def outstandingIds_def)

lemma planExpiredExecutions_rests_witness:
  "atRest (dget (rs_effectExecutions (foldRun sampleRegistry (sampleWorking Started)
     (dp_events (planExpiredExecutions (\<lambda>n. (''e'', 0)) ''r'' (sampleWorking Started) sampleRegistry 9)))) ''a:k'')"
proof -
  let ?ex = "sampleExecution ''a:k'' Started (Some 5)"
  have "isExpired 9 ?ex" by (simp add: isExpired_def sampleExecution_def)
  moreover have "\<not> orphaned (sampleWorking Started) ?ex"
    by (simp add: orphaned_def sampleWorking_def sampleRun_def sampleItem_def sampleExecution_def outstandingIds_def)
  moreover have "dget (rs_effectExecutions (sampleWorking Started)) ''a:k'' = Some ?ex"
    by (simp add: sampleWorking_def)
  moreover have "\<forall>ex \<in> set (dvals (rs_effectExecutions (sampleWorking Started))). ex_effectId ex \<noteq> ''''"
    by (simp add: sampleWorking_def sampleExecution_def)
  ultimately show ?thesis
    using planExpiredExecutions_rests [OF run_ok_sampleWorking _ refl] by blast
qed

section \<open>Due timers\<close>

lemma deliver_waits [simp]: "rs_waits (deliver reg s e x) = rs_waits s"
  by (simp add: deliver_def Let_def split: option.split)

lemma failUnhandledEffect_other [simp]:
  "ev_type e \<noteq> ''runtime.effect.failed'' \<Longrightarrow> failUnhandledEffect s e b = s"
  by (simp add: failUnhandledEffect_def)

lemma fired_waits:
  assumes "ev_type e = ''runtime.timer.fired''" and "ev_effectId e = None"
  shows "rs_waits (foldEvent reg s e) = rs_waits s"
  using assms by (simp add: foldEvent_def Let_def applyProtocol_def progressTypes_def)

lemma foldRun_fired_waits:
  assumes "\<forall>e \<in> set es. ev_type e = ''runtime.timer.fired'' \<and> ev_effectId e = None"
  shows "rs_waits (foldRun reg s es) = rs_waits s"
  using assms by (induction es arbitrary: s) (simp_all add: fired_waits)

lemma removeRace_subset: "set (rs_waits (removeRace s raceId)) \<subseteq> set (rs_waits s)"
proof -
  have "set (rs_waits (foldl (\<lambda>n w. if tagRace w = Some raceId then removeWait n (wt_waitId w) else n) s ws))
      \<subseteq> set (rs_waits s)" for ws
  proof (rule foldl_invariant [where I = "\<lambda>x. set (rs_waits x) \<subseteq> set (rs_waits s)"])
    fix x :: run_state and w assume "set (rs_waits x) \<subseteq> set (rs_waits s)"
    then show "set (rs_waits (if tagRace w = Some raceId then removeWait x (wt_waitId w) else x))
        \<subseteq> set (rs_waits s)"
      using set_ddel_subset [of "wt_waitId w" "rs_waits x"] by auto
  qed simp
  then show ?thesis by (simp add: removeRace_def)
qed

lemma satisfied_waits:
  assumes "ev_type e = ''runtime.wait.satisfied''" and "ev_effectId e = None" and "\<not> ev_ephemeral e"
    and "readString (payloadObject e) ''waitId'' = Some i" and "i \<noteq> ''''"
  shows "set (rs_waits (foldEvent reg s e)) \<subseteq> set (rs_waits s)
     \<and> i \<notin> set (dkeys (rs_waits (foldEvent reg s e)))"
proof -
  let ?s = "recordIdempotencyKey (adoptRunId s e) e"
  have fold: "rs_waits (foldEvent reg s e) = rs_waits (waitSatisfied ?s e)"
    using assms(1-3) by (simp add: foldEvent_def Let_def applyProtocol_def progressTypes_def settleEffect_def)
  define n where "n = (case truthy (Option.bind (dget (rs_waits ?s) i) tagRace) of
    None \<Rightarrow> removeWait ?s i | Some q \<Rightarrow> removeRace (removeWait ?s i) q)"
  have n: "rs_waits (waitSatisfied ?s e) = rs_waits n"
    using assms(4,5) by (simp add: waitSatisfied_def Let_def n_def split: option.split)
  have "set (rs_waits n) \<subseteq> set (ddel i (rs_waits s))"
    using removeRace_subset [of "removeWait ?s i"] by (simp add: n_def split: option.split)
  moreover have "i \<notin> set (dkeys (ddel i (rs_waits s)))" by (simp add: delete_keys)
  ultimately have "set (rs_waits n) \<subseteq> set (rs_waits s)" "i \<notin> set (dkeys (rs_waits n))"
    using set_ddel_subset [of i "rs_waits s"] by auto
  then show ?thesis by (simp add: fold n)
qed

definition waitOf :: "envelope \<Rightarrow> string option" where
  "waitOf e = readString (payloadObject e) ''waitId''"

definition satisfiesOnly :: "envelope \<Rightarrow> bool" where
  "satisfiesOnly e \<longleftrightarrow> ev_type e = ''runtime.wait.satisfied'' \<and> ev_effectId e = None \<and> \<not> ev_ephemeral e"

lemma foldRun_satisfied_waits:
  assumes "\<forall>e \<in> set es. satisfiesOnly e"
  shows "set (rs_waits (foldRun reg s es)) \<subseteq> set (rs_waits s)
     \<and> (\<forall>e \<in> set es. \<forall>i. waitOf e = Some i \<longrightarrow> i \<noteq> '''' \<longrightarrow> i \<notin> set (dkeys (rs_waits (foldRun reg s es))))"
  using assms
proof (induction es arbitrary: s)
  case (Cons e es)
  let ?s = "foldEvent reg s e"
  have e: "ev_type e = ''runtime.wait.satisfied''" "ev_effectId e = None" "\<not> ev_ephemeral e"
    using Cons.prems by (simp_all add: satisfiesOnly_def)
  have rest: "set (rs_waits (foldRun reg ?s es)) \<subseteq> set (rs_waits ?s)"
      "\<forall>e \<in> set es. \<forall>i. waitOf e = Some i \<longrightarrow> i \<noteq> '''' \<longrightarrow> i \<notin> set (dkeys (rs_waits (foldRun reg ?s es)))"
    using Cons.IH [of ?s] Cons.prems by simp_all
  have "set (rs_waits ?s) \<subseteq> set (rs_waits s)"
  proof (cases "truthy (waitOf e)")
    case None
    then show ?thesis
      using e by (simp add: foldEvent_def Let_def applyProtocol_def progressTypes_def settleEffect_def
          waitSatisfied_def waitOf_def)
  next
    case (Some i)
    then show ?thesis using satisfied_waits [OF e, where i = i and s = s] by (auto simp: waitOf_def truthy_eq_Some)
  qed
  moreover have "i \<notin> set (dkeys (rs_waits (foldRun reg ?s es)))" if "waitOf e = Some i" "i \<noteq> ''''" for i
    using satisfied_waits [OF e, where i = i and s = s] that rest(1) by (auto simp: waitOf_def)
  ultimately show ?case using rest by auto
qed simp

lemma satisfiable_timer:
  assumes "w \<in> set ws" and "timerAt (wt_on w) = Some due"
  shows "satisfiable (createEvents st n r (map timerFiredInput ws)) w"
proof -
  obtain k where "createEvent (st k) r (timerFiredInput w) 0 \<in> set (createEvents st n r (map timerFiredInput ws))"
    using createEvents_mem [of "timerFiredInput w"] assms(1) by (metis image_eqI set_map)
  moreover have "wt_on w = WaitOnTimer due" using assms(2) by (cases "wt_on w") auto
  then have "\<not> mayNotSatisfy (createEvent (st k) r (timerFiredInput w) 0)
      \<and> matchingWait (createEvent (st k) r (timerFiredInput w) 0) w"
    by (simp add: mayNotSatisfy_def matchingWait_def timerFiredInput_def readString_def asObject_def)
  ultimately show ?thesis unfolding satisfiable_def list_ex_iff by blast
qed

lemma waitSatisfiedFrom_inputs:
  "i \<in> set (waitSatisfiedFrom d es) \<Longrightarrow> \<exists>e w. i = satisfiedInput e w"
  by (induction es arbitrary: d) (auto simp: Let_def split: if_splits)

text \<open>
  Due timers fire: for a well-formed state, folding what the planner plans removes every timer wait
  that was due, adds no wait, and leaves no timer due at the same moment, so planning again fires
  nothing twice.
\<close>

theorem planDueTimers_fires:
  assumes "run_ok s" and "\<forall>w \<in> set (dvals (rs_waits s)). wt_waitId w \<noteq> ''''"
    and "s' = foldRun reg s (dp_events (planDueTimers st r s reg now))"
  shows "(\<forall>w \<in> set (dvals (rs_waits s)). isDueTimer now w \<longrightarrow> dget (rs_waits s') (wt_waitId w) = None)
     \<and> set (rs_waits s') \<subseteq> set (rs_waits s)
     \<and> planDueTimers st' r s' reg now = emptyPlan"
proof (cases "filter (isDueTimer now) (dvals (rs_waits s)) = []")
  case True
  then have "s' = s" using assms(3) by (simp add: planDueTimers_def emptyPlan_def)
  with True show ?thesis by (simp add: planDueTimers_def filter_empty_conv)
next
  case False
  let ?due = "filter (isDueTimer now) (dvals (rs_waits s))"
  define fired where "fired = createEvents st 0 r (map timerFiredInput ?due)"
  define satisfied where "satisfied = waitSatisfiedEvents (foldRun reg s fired) fired"
  let ?sat = "createEvents st (length fired) r satisfied"
  have keyed: "keyed wt_waitId (rs_waits s)" using run_ok_keyed(2) [OF assms(1)] .
  have s': "s' = foldRun reg (foldRun reg s fired) ?sat"
    using False assms(3) by (simp add: planDueTimers_def Let_def fired_def satisfied_def)
  have quiet: "\<forall>e \<in> set fired. ev_type e = ''runtime.timer.fired'' \<and> ev_effectId e = None"
    unfolding fired_def by (auto dest!: createEvents_member simp: timerFiredInput_def)
  have waits: "rs_waits (foldRun reg s fired) = rs_waits s" by (rule foldRun_fired_waits [OF quiet])
  have only: "satisfiesOnly e" if "e \<in> set ?sat" for e
    using createEvents_member [OF that] waitSatisfiedFrom_inputs
    by (fastforce simp: satisfiesOnly_def satisfied_def waitSatisfiedEvents_def satisfiedInput_def)
  note folds = foldRun_satisfied_waits [of ?sat reg "foldRun reg s fired", folded s', unfolded waits]
  have gone: "dget (rs_waits s') (wt_waitId w) = None" if w: "w \<in> set (dvals (rs_waits s))" "isDueTimer now w" for w
  proof -
    have "w \<in> set ?due" using w by simp
    moreover obtain due where "timerAt (wt_on w) = Some due"
      using w(2) by (auto simp: isDueTimer_def split: option.splits)
    ultimately have "satisfiable fired w" unfolding fired_def by (rule satisfiable_timer)
    then have "Some (wt_waitId w) \<in> set (map satisfiedId satisfied)"
      using waitSatisfiedFrom_spec [OF keyed, of fired] w(1)
      by (simp add: satisfied_def waitSatisfiedEvents_def waits)
    then obtain i where i: "i \<in> set satisfied" "satisfiedId i = Some (wt_waitId w)" by auto
    obtain k where "createEvent (st k) r i 0 \<in> set ?sat" using createEvents_mem [OF i(1)] by blast
    moreover have "waitOf (createEvent (st k) r i 0) = Some (wt_waitId w)"
      using i(2) by (simp add: waitOf_def satisfiedId_def payloadObject_def)
    ultimately have "wt_waitId w \<notin> set (dkeys (rs_waits s'))"
      using folds only w(1) assms(2) by blast
    then show ?thesis by (simp add: map_of_eq_None_iff)
  qed
  have subset: "set (rs_waits s') \<subseteq> set (rs_waits s)" using folds only by blast
  have "\<not> isDueTimer now w" if w: "w \<in> set (dvals (rs_waits s'))" for w
  proof
    assume due: "isDueTimer now w"
    obtain k where k: "(k, w) \<in> set (rs_waits s')" using w by force
    then have "(k, w) \<in> set (rs_waits s)" using subset by blast
    moreover from this have "w \<in> set (dvals (rs_waits s))" by (metis image_eqI set_map snd_conv)
    ultimately have "wt_waitId w = k" using keyed by (auto simp: keyed_def)
    moreover have "dget (rs_waits s') (wt_waitId w) = None"
      using gone due \<open>w \<in> set (dvals (rs_waits s))\<close> by blast
    ultimately have "k \<notin> fst ` set (rs_waits s')" by (simp add: map_of_eq_None_iff)
    with k show False by (metis image_eqI fst_conv)
  qed
  then have "planDueTimers st' r s' reg now = emptyPlan" by (simp add: planDueTimers_def filter_empty_conv)
  with gone subset show ?thesis by blast
qed

definition sampleSleep :: run_state where
  "sampleSleep = (sampleRun Waiting)\<lparr>rs_waits := [(''t'', timerWait ''t'')]\<rparr>"

lemma planDueTimers_fires_witness:
  "dget (rs_waits (foldRun sampleRegistry sampleSleep
     (dp_events (planDueTimers (\<lambda>n. (''e'', 0)) ''r'' sampleSleep sampleRegistry 9)))) ''t'' = None"
proof -
  have "run_ok sampleSleep"
    using run_ok_sampleRun [of Waiting] by (simp add: run_ok_def sampleSleep_def timerWait_def keyed_def outstandingIds_def)
  moreover have "\<forall>w \<in> set (dvals (rs_waits sampleSleep)). wt_waitId w \<noteq> ''''"
    by (simp add: sampleSleep_def timerWait_def)
  moreover have "isDueTimer 9 (timerWait ''t'')" by (simp add: isDueTimer_def timerWait_def)
  ultimately show ?thesis
    using planDueTimers_fires [OF _ _ refl, of sampleSleep] by (fastforce simp: sampleSleep_def timerWait_def)
qed

section \<open>The next deadline\<close>

lemma map_filter_mem: "x \<in> set xs \<Longrightarrow> f x = Some y \<Longrightarrow> y \<in> set (List.map_filter f xs)"
  by (induction xs) (auto split: option.splits)

text \<open>
  A run is woken in time: the deadline the runtime sleeps until is the earliest of the run's, so
  whenever the planner has something to do at \<open>now\<close> for a run that is not terminal, a run asleep until
  its next deadline has been woken by then, within the five milliseconds a timer may fire early. The
  deadline after a given moment is later than that moment.
\<close>

theorem nextRuntimeDeadline_in_time:
  assumes "\<not> isRunTerminal s" and "dp_events (planDeadlineTransitions st r s reg now) \<noteq> []"
  shows "(\<exists>t. nextRuntimeDeadline s None = Some t \<and> t \<le> now + 5)
     \<and> (\<forall>after t. nextRuntimeDeadline s (Some after) = Some t \<longrightarrow> after < t \<and> t \<in> set (runtimeDeadlines s))"
proof -
  have "\<exists>t \<in> set (runtimeDeadlines s). t \<le> now + 5"
  proof (cases "filter (isDueTimer now) (dvals (rs_waits s)) = []")
    case False
    then obtain w due where "w \<in> set (dvals (rs_waits s))" "timerAt (wt_on w) = Some due" "due \<le> now + 5"
      unfolding filter_empty_conv by (auto simp: isDueTimer_def split: option.splits)
    moreover from this have "due \<in> set (List.map_filter (\<lambda>w. timerAt (wt_on w)) (dvals (rs_waits s)))"
      by (intro map_filter_mem)
    ultimately show ?thesis using assms(1) unfolding runtimeDeadlines_def Let_def by auto
  next
    case True
    then have "filter (isExpired now) (dvals (rs_effectExecutions s)) \<noteq> []"
      using assms(2) by (auto simp: planDeadlineTransitions_def planDueTimers_def planExpiredExecutions_def
          emptyPlan_def)
    then obtain ex d where "ex \<in> set (dvals (rs_effectExecutions s))" "ex_deadlineAt ex = Some d" "d \<le> now"
      unfolding filter_empty_conv by (auto simp: isExpired_def split: option.splits)
    moreover from this have "d \<in> set (List.map_filter (\<lambda>ex. if \<not> isRunTerminal s \<or> ex_status ex = CancelRequested
        then ex_deadlineAt ex else None) (dvals (rs_effectExecutions s)))"
      using assms(1) by (intro map_filter_mem) simp_all
    ultimately show ?thesis unfolding runtimeDeadlines_def Let_def by (intro bexI [of _ d]) simp_all
  qed
  then obtain t where t: "t \<in> set (runtimeDeadlines s)" "t \<le> now + 5" by blast
  then obtain m where "minOf (runtimeDeadlines s) = Some m" by fastforce
  then have "nextRuntimeDeadline s None = Some m \<and> m \<le> now + 5"
    using t by (auto simp: nextRuntimeDeadline_def laterThan_def minOf_Some)
  then show ?thesis by (auto simp: nextRuntimeDeadline_def laterThan_def minOf_Some)
qed

lemma nextRuntimeDeadline_in_time_witness:
  "\<exists>t. nextRuntimeDeadline sampleSleep None = Some t \<and> t \<le> 0 + 5"
proof -
  have "\<not> isRunTerminal sampleSleep"
    by (simp add: isRunTerminal_def sampleSleep_def sampleRun_def emptyRunState_def)
  moreover have "dp_events (planDeadlineTransitions (\<lambda>n. (''e'', 0)) ''r'' sampleSleep sampleRegistry 0) \<noteq> []"
    by (simp add: planDeadlineTransitions_def planDueTimers_def Let_def sampleSleep_def timerWait_def isDueTimer_def)
  ultimately show ?thesis using nextRuntimeDeadline_in_time [where now = 0] by blast
qed

end
