(* ===== verification/Worker_Dispatch.thy ===== *)
theory Worker_Dispatch
  imports Deadlines
begin

text \<open>
  \<open>packages/runtime/src/worker-effect-dispatch.ts\<close> and the worker task of \<open>helpers.ts\<close>: which effects
  go to an external worker, which attempts are due, how many may be in flight, what the log records of
  a dispatch, and the checks of a worker's configuration at start-up. The worker itself is code of
  the host: its claims are functions in \<open>effect_worker\<close> and the outcome of a dispatch is an argument.
\<close>

section \<open>Tasks\<close>

record worker_deadlines =
  wd_scheduleToStartAt :: "number option"
  wd_startToCloseTimeoutMs :: "number option"
  wd_heartbeatTimeoutMs :: "number option"

record worker_task =
  tk_runId :: string
  tk_effectId :: string
  tk_attempt :: number
  tk_type :: string
  tk_input :: json
  tk_threadId :: string
  tk_causingEventId :: string
  tk_attributes :: "string dict option"
  tk_details :: "json option"
  tk_trace :: "trace_context option"
  tk_deadlines :: "worker_deadlines option"
  tk_secrets :: "string dict option"

record task_extras =
  xt_details :: "json option"
  xt_secrets :: "string dict option"
  xt_trace :: "trace_context option"
  xt_attributes :: "string dict option"
  xt_retry :: "retry_policy option"
  xt_scheduleToStartAt :: "number option"

definition noExtras :: task_extras where
  "noExtras = \<lparr>xt_details = None, xt_secrets = None, xt_trace = None, xt_attributes = None,
     xt_retry = None, xt_scheduleToStartAt = None\<rparr>"

text \<open>A number that passes a truthiness test.\<close>

definition nonZero :: "number option \<Rightarrow> number option" where
  "nonZero n = (case n of None \<Rightarrow> None | Some x \<Rightarrow> if x = 0 then None else Some x)"

definition withEntries :: "string dict option \<Rightarrow> string dict option" where
  "withEntries d = (case d of None \<Rightarrow> None | Some fs \<Rightarrow> if fs = [] then None else Some fs)"

definition effectInput :: "runtime_effect \<Rightarrow> json" where
  "effectInput e = (case e of
     SpawnEffect _ _ _ _ i \<Rightarrow> i
   | LaunchEffect _ _ _ _ i _ _ \<Rightarrow> i
   | InvokeEffect _ i _ _ \<Rightarrow> i
   | _ \<Rightarrow> JNull)"

definition workerDeadlines :: "task_extras \<Rightarrow> worker_deadlines option" where
  "workerDeadlines extras =
     (let d = \<lparr>wd_scheduleToStartAt = xt_scheduleToStartAt extras,
               wd_startToCloseTimeoutMs = nonZero (Option.bind (xt_retry extras) rp_startToCloseTimeoutMs),
               wd_heartbeatTimeoutMs = nonZero (Option.bind (xt_retry extras) rp_heartbeatTimeoutMs)\<rparr>
      in if wd_scheduleToStartAt d = None \<and> wd_startToCloseTimeoutMs d = None
            \<and> wd_heartbeatTimeoutMs d = None then None else Some d)"

definition workerTask :: "string \<Rightarrow> outstanding_effect \<Rightarrow> number \<Rightarrow> task_extras \<Rightarrow> worker_task" where
  "workerTask runId item attempt extras =
     \<lparr>tk_runId = runId, tk_effectId = oe_effectId item, tk_attempt = attempt,
      tk_type = effectType (oe_effect item), tk_input = effectInput (oe_effect item),
      tk_threadId = oe_threadId item, tk_causingEventId = oe_causingEventId item,
      tk_attributes = withEntries (xt_attributes extras),
      tk_details = (if xt_details extras = Some JNull then None else xt_details extras),
      tk_trace = xt_trace extras, tk_deadlines = workerDeadlines extras,
      tk_secrets = withEntries (xt_secrets extras)\<rparr>"

section \<open>Placement\<close>

datatype worker_handles = HandlesTypes "string list" | HandlesWhen "string \<Rightarrow> bool"

record effect_worker =
  ew_handles :: "worker_handles option"
  ew_canDispatch :: "(worker_task \<Rightarrow> bool) option"
  ew_acknowledged :: bool

definition workerHandlesType :: "effect_worker \<Rightarrow> string \<Rightarrow> bool" where
  "workerHandlesType worker type = (case ew_handles worker of
     None \<Rightarrow> False
   | Some (HandlesWhen p) \<Rightarrow> p type
   | Some (HandlesTypes ts) \<Rightarrow> List.member ts type)"

definition workerClaims :: "effect_worker \<Rightarrow> string \<Rightarrow> outstanding_effect \<Rightarrow> bool option" where
  "workerClaims worker runId item =
     (if ew_handles worker = None \<and> ew_canDispatch worker = None then None
      else Some (workerHandlesType worker (effectType (oe_effect item))
        \<or> (case ew_canDispatch worker of None \<Rightarrow> False | Some can \<Rightarrow> can (workerTask runId item 0 noExtras))))"

definition workerAttemptStatuses :: "execution_status list" where
  "workerAttemptStatuses =
     [Queued, DispatchWait, Dispatched, Started, Heartbeat, CancelRequested, TimedOut, Ambiguous]"

definition sameAttemptStatuses :: "execution_status list" where
  "sameAttemptStatuses = [Queued, DispatchWait]"

definition isWorkerEffect ::
  "string \<Rightarrow> outstanding_effect \<Rightarrow> effect_execution option \<Rightarrow> registry \<Rightarrow> effect_worker option \<Rightarrow> bool" where
  "isWorkerEffect runId item execution reg worker =
     (if isPrimitiveEffect (oe_effect item) then False
      else case map_option ex_status execution of
        Some RunningHere \<Rightarrow> False
      | status \<Rightarrow>
          if (case status of None \<Rightarrow> False | Some st \<Rightarrow> List.member workerAttemptStatuses st) then True
          else (case dget (rg_effects reg) (effectType (oe_effect item)) of
                  Some d \<Rightarrow> ed_placement d = PlacedWorker
                | None \<Rightarrow>
                    (case worker of
                       None \<Rightarrow> False
                     | Some w \<Rightarrow> workerClaims w runId item \<noteq> Some False)))"

section \<open>Planning\<close>

record dispatch_plan =
  wp_item :: outstanding_effect
  wp_attempt :: number
  wp_queuedEvent :: "envelope option"
  wp_task :: worker_task
  wp_retry :: "retry_policy option"
  wp_scheduleToStartDeadlineAt :: "number option"
  wp_dispatchTry :: number

definition executionOf :: "run_state \<Rightarrow> outstanding_effect \<Rightarrow> effect_execution option" where
  "executionOf s item = dget (rs_effectExecutions s) (oe_effectId item)"

definition hasStatus :: "execution_status list \<Rightarrow> effect_execution option \<Rightarrow> bool" where
  "hasStatus statuses ex = (case ex of None \<Rightarrow> False | Some x \<Rightarrow> List.member statuses (ex_status x))"

definition attemptDue :: "number \<Rightarrow> outstanding_effect \<Rightarrow> bool" where
  "attemptDue now item =
     (case deferredUntil (oe_effect item) of
        Some t \<Rightarrow> t \<le> now + 5 | None \<Rightarrow> True)"

definition executionDue :: "number \<Rightarrow> effect_execution option \<Rightarrow> bool" where
  "executionDue now execution =
     (case execution of
        None \<Rightarrow> True
      | Some x \<Rightarrow> ex_status x = Queued
          \<or> (List.member [DispatchWait, RetryWait] (ex_status x)
             \<and> (case ex_nextAttemptAt x of None \<Rightarrow> False | Some t \<Rightarrow> t \<le> now + 5)))"

definition inFlightStatuses :: "execution_status list" where
  "inFlightStatuses = [Dispatched, Started, Heartbeat, CancelRequested]"

definition inFlightCount :: "run_state \<Rightarrow> outstanding_effect list \<Rightarrow> nat" where
  "inFlightCount s items = length (filter (\<lambda>i. hasStatus inFlightStatuses (executionOf s i)) items)"

definition withinInFlightLimit ::
  "run_state \<Rightarrow> int option \<Rightarrow> outstanding_effect list \<Rightarrow> outstanding_effect list \<Rightarrow> outstanding_effect list" where
  "withinInFlightLimit s limit workerItems due =
     (case limit of
        None \<Rightarrow> due
      | Some m \<Rightarrow> if m \<le> 0 then due else take (nat (max 0 (m - int (inFlightCount s workerItems)))) due)"

definition queuedInput :: "outstanding_effect \<Rightarrow> number \<Rightarrow> event_input" where
  "queuedInput item attempt =
     (eventInput ''runtime.effect.queued'' (JObj
        [(''effectId'', JStr (oe_effectId item)), (''attempt'', JNum attempt), (''deadlineAt'', JNull)]))
     \<lparr>in_threadId := Val (oe_threadId item), in_causationId := Val (oe_causingEventId item),
      in_origin := Some OriginSystem\<rparr>"

definition planOf ::
  "string \<times> number \<Rightarrow> string \<Rightarrow> run_state \<Rightarrow> registry \<Rightarrow> number \<Rightarrow> string dict option \<Rightarrow> outstanding_effect
     \<Rightarrow> dispatch_plan" where
  "planOf stamp runId s reg now secrets item =
     (let existing = executionOf s item;
          sameAttempt = hasStatus sameAttemptStatuses existing;
          was = (case existing of None \<Rightarrow> 0 | Some x \<Rightarrow> ex_attempt x);
          attempt = (if sameAttempt then was else was + 1);
          retry = effectRetryPolicy reg (oe_effect item);
          deadline = map_option (\<lambda>t. now + t) (nonZero (Option.bind retry rp_scheduleToStartTimeoutMs))
      in \<lparr>wp_item = item, wp_attempt = attempt,
          wp_queuedEvent = (if sameAttempt then None
            else Some (createEvent stamp runId (queuedInput item attempt) 0)),
          wp_task = workerTask runId item attempt
            \<lparr>xt_details = map_option ex_heartbeatDetails existing, xt_secrets = secrets,
             xt_trace = Option.bind (rs_startIdentity s) si_trace,
             xt_attributes = Some (rs_attributes s), xt_retry = retry,
             xt_scheduleToStartAt = deadline\<rparr>,
          wp_retry = retry, wp_scheduleToStartDeadlineAt = deadline,
          wp_dispatchTry = (case existing of
             Some x \<Rightarrow> if sameAttempt then ex_dispatchTry x + 1 else 1 | None \<Rightarrow> 1)\<rparr>)"

text \<open>A stamp is drawn only for an attempt that is queued anew.\<close>

fun plansFrom ::
  "stamps \<Rightarrow> nat \<Rightarrow> string \<Rightarrow> run_state \<Rightarrow> registry \<Rightarrow> number \<Rightarrow> string dict option \<Rightarrow>
     outstanding_effect list \<Rightarrow> dispatch_plan list" where
  "plansFrom st n runId s reg now secrets [] = []"
| "plansFrom st n runId s reg now secrets (item # items) =
     planOf (st n) runId s reg now secrets item
     # plansFrom st (if hasStatus sameAttemptStatuses (executionOf s item) then n else Suc n)
         runId s reg now secrets items"

definition workerItems :: "string \<Rightarrow> run_state \<Rightarrow> registry \<Rightarrow> effect_worker option \<Rightarrow> outstanding_effect list" where
  "workerItems runId s reg worker =
     filter (\<lambda>item. isWorkerEffect runId item (executionOf s item) reg worker) (rs_outstandingEffects s)"

definition planWorkerEffects ::
  "stamps \<Rightarrow> string \<Rightarrow> run_state \<Rightarrow> registry \<Rightarrow> effect_worker option \<Rightarrow> number \<Rightarrow> int option \<Rightarrow>
     string dict option \<Rightarrow> dispatch_plan list" where
  "planWorkerEffects st runId s reg worker now limit secrets =
     (let items = workerItems runId s reg worker;
          due = filter (\<lambda>item. attemptDue now item \<and> executionDue now (executionOf s item)) items
      in plansFrom st 0 runId s reg now secrets (withinInFlightLimit s limit items due))"

section \<open>Dispatching\<close>

definition maxDispatchDeferralsDefault :: number where
  "maxDispatchDeferralsDefault = 32"

definition dispatchBackoff :: retry_policy where
  "dispatchBackoff = \<lparr>rp_maxAttempts = maxDispatchDeferralsDefault, rp_backoffMs = Some 100,
     rp_maxBackoffMs = Some 30000, rp_backoffMultiplier = Some 2, rp_scheduleToStartTimeoutMs = None,
     rp_startToCloseTimeoutMs = None, rp_heartbeatTimeoutMs = None, rp_cancellationTimeoutMs = None\<rparr>"

text \<open>A whole number in a template string.\<close>

definition showWhole :: "number \<Rightarrow> string" where
  "showWhole n = (if n < 0 then ''-'' else '''') @ showNat (nat \<lfloor>\<bar>n\<bar>\<rfloor>)"

definition numberOrNull :: "number option \<Rightarrow> json" where
  "numberOrNull n = (case n of None \<Rightarrow> JNull | Some x \<Rightarrow> JNum x)"

definition planEvent :: "string \<times> number \<Rightarrow> string \<Rightarrow> dispatch_plan \<Rightarrow> string \<Rightarrow> json dict \<Rightarrow> envelope" where
  "planEvent stamp runId plan type extra =
     createEvent stamp runId
       ((eventInput type (JObj
           ((''effectId'', JStr (oe_effectId (wp_item plan))) # (''attempt'', JNum (wp_attempt plan)) # extra)))
        \<lparr>in_threadId := Val (oe_threadId (wp_item plan)),
         in_causationId := Val (oe_causingEventId (wp_item plan)), in_origin := Some OriginSystem\<rparr>) 0"

text \<open>
  \<open>outcome\<close> is what the worker's \<open>dispatch\<close> did: \<open>None\<close> when it resolved, the message it rejected with
  otherwise. The dispatched event is created first, whatever happens; it takes the first stamp.
\<close>

definition dispatchWorkerEffect ::
  "stamps \<Rightarrow> string \<Rightarrow> dispatch_plan \<Rightarrow> effect_worker option \<Rightarrow> string option \<Rightarrow> number \<Rightarrow> number option \<Rightarrow>
     envelope" where
  "dispatchWorkerEffect st runId plan worker outcome now maxDeferrals =
     (let dispatched = planEvent (st 0) runId plan ''runtime.effect.dispatched''
            [(''deadlineAt'', numberOrNull (wp_scheduleToStartDeadlineAt plan))];
          ambiguous = (\<lambda>error. planEvent (st 1) runId plan ''runtime.effect.ambiguous'' [(''error'', JStr error)])
      in case worker of
           None \<Rightarrow> ambiguous (''no effect worker is configured for \"'' @ effectType (oe_effect (wp_item plan)) @ ''\"'')
         | Some w \<Rightarrow>
             (case outcome of
                None \<Rightarrow> dispatched
              | Some message \<Rightarrow>
                  if ew_acknowledged w then
                    fst (planAttemptFailure (st 1) runId (wp_item plan) (wp_attempt plan)
                      (''worker dispatch failed: '' @ message) now (wp_retry plan) OriginSystem False None)
                  else if withDefault maxDeferrals maxDispatchDeferralsDefault \<le> wp_dispatchTry plan then
                    ambiguous (''worker dispatch relay exhausted after '' @ showWhole (wp_dispatchTry plan)
                      @ '' tries: '' @ message)
                  else planEvent (st 1) runId plan ''runtime.effect.dispatch.deferred''
                    [(''retryAt'', JNum (now + retryBackoff dispatchBackoff (wp_dispatchTry plan))),
                     (''error'', JStr (''worker dispatch deferred: '' @ message)),
                     (''try'', JNum (wp_dispatchTry plan))]))"

section \<open>Checks at start-up\<close>

fun joinComma :: "string list \<Rightarrow> string" where
  "joinComma [] = ''''"
| "joinComma [x] = x"
| "joinComma (x # xs) = x @ '', '' @ joinComma xs"

definition claimsType :: "effect_worker \<Rightarrow> effect_definition \<Rightarrow> bool" where
  "claimsType worker d =
     (if ed_placement d \<noteq> PlacedWorker then False
      else if ew_handles worker = None \<and> ew_canDispatch worker = None then True
      else workerHandlesType worker (ed_type d))"

definition lacksStart :: "effect_definition \<Rightarrow> bool" where
  "lacksStart d \<longleftrightarrow> nonZero (Option.bind (ed_retry d) rp_scheduleToStartTimeoutMs) = None"

definition lacksClose :: "effect_definition \<Rightarrow> bool" where
  "lacksClose d \<longleftrightarrow> nonZero (Option.bind (ed_retry d) rp_startToCloseTimeoutMs) = None
     \<and> nonZero (Option.bind (ed_retry d) rp_heartbeatTimeoutMs) = None"

text \<open>Left is the message of the thrown error.\<close>

definition assertWorkerDeadlines :: "registry \<Rightarrow> effect_worker option \<Rightarrow> string + unit" where
  "assertWorkerDeadlines reg worker =
     (case worker of
        None \<Rightarrow> Inr ()
      | Some w \<Rightarrow>
          if \<not> ew_acknowledged w then Inr ()
          else let claimed = filter (claimsType w) (dvals (rg_effects reg));
                   missingStart = map ed_type (filter lacksStart claimed);
                   missingClose = map ed_type (filter lacksClose claimed)
               in if missingStart \<noteq> [] then
                    Inl (''An acknowledged worker claims effects without retry.scheduleToStartTimeoutMs: ''
                      @ joinComma missingStart)
                  else if missingClose \<noteq> [] then
                    Inl (''An acknowledged worker claims effects without retry.startToCloseTimeoutMs or retry.heartbeatTimeoutMs: ''
                      @ joinComma missingClose)
                  else Inr ())"

text \<open>\<open>toSorted\<close>, a stable sort; \<open>le\<close> is "not after" in the order of \<open>localeCompare\<close>.\<close>

fun insertSorted :: "(string \<Rightarrow> string \<Rightarrow> bool) \<Rightarrow> string \<times> 'a \<Rightarrow> (string \<times> 'a) list \<Rightarrow> (string \<times> 'a) list" where
  "insertSorted le x [] = [x]"
| "insertSorted le x (y # ys) = (if le (fst x) (fst y) then x # y # ys else y # insertSorted le x ys)"

definition listEffectPlacements ::
  "(string \<Rightarrow> string \<Rightarrow> bool) \<Rightarrow> registry \<Rightarrow> (string \<times> effect_placement) list" where
  "listEffectPlacements le reg =
     foldr (insertSorted le) (map (\<lambda>d. (ed_type d, ed_placement d)) (dvals (rg_effects reg))) []"

fun placementName :: "effect_placement \<Rightarrow> string" where
  "placementName PlacedLocal = ''local''"
| "placementName PlacedWorker = ''worker''"

definition formatEffectPlacements :: "(string \<Rightarrow> string \<Rightarrow> bool) \<Rightarrow> registry \<Rightarrow> string" where
  "formatEffectPlacements le reg =
     joinComma (map (\<lambda>(t, p). t @ ''='' @ placementName p) (listEffectPlacements le reg))"

definition assertWorkerConfigured ::
  "(string \<Rightarrow> string \<Rightarrow> bool) \<Rightarrow> registry \<Rightarrow> effect_worker option \<Rightarrow> string + unit" where
  "assertWorkerConfigured le reg worker =
     (if worker \<noteq> None then Inr ()
      else let needing = map ed_type (filter (\<lambda>d. ed_placement d = PlacedWorker) (dvals (rg_effects reg)))
           in if needing \<noteq> [] then
                Inl (''Effects require an EffectWorker but none is configured: '' @ joinComma needing
                  @ '' (registry: '' @ formatEffectPlacements le reg @ '')'')
              else Inr ())"

definition assertWorkerClaimsExplicit ::
  "(string \<Rightarrow> string \<Rightarrow> bool) \<Rightarrow> registry \<Rightarrow> effect_worker option \<Rightarrow> string + unit" where
  "assertWorkerClaimsExplicit le reg worker =
     (case worker of
        None \<Rightarrow> Inr ()
      | Some w \<Rightarrow>
          (let claimedLocal = map ed_type (filter (\<lambda>d. ed_placement d = PlacedLocal
                 \<and> workerHandlesType w (ed_type d)) (dvals (rg_effects reg)))
           in if claimedLocal \<noteq> [] then
                Inl (''Worker claims local-placed effects; declare them with placement: '' @ [CHR 0x27]
                  @ ''worker'' @ [CHR 0x27] @ '' (or drop the claim): '' @ joinComma claimedLocal
                  @ '' (registry: '' @ formatEffectPlacements le reg @ '')'')
              else Inr ()))"

section \<open>What is planned\<close>

lemma planOf_item [simp]: "wp_item (planOf stamp r s reg now secrets item) = item"
  by (simp add: planOf_def Let_def)

lemma plansFrom_items [simp]: "map wp_item (plansFrom st n r s reg now secrets items) = items"
  by (induction items arbitrary: n) simp_all

lemma plansFrom_length: "length (plansFrom st n r s reg now secrets items) = length items"
  by (induction items arbitrary: n) simp_all

lemma plansFrom_planOf:
  "p \<in> set (plansFrom st n r s reg now secrets items)
     \<Longrightarrow> \<exists>k. p = planOf (st k) r s reg now secrets (wp_item p) \<and> wp_item p \<in> set items"
proof (induction items arbitrary: n)
  case (Cons item items)
  consider "p = planOf (st n) r s reg now secrets item"
    | m where "p \<in> set (plansFrom st m r s reg now secrets items)"
    using Cons.prems by (auto simp del: planOf_item)
  then show ?case
  proof cases
    case 1
    then show ?thesis by (intro exI [of _ n]) simp
  next
    case 2
    with Cons.IH [of m] show ?thesis by auto
  qed
qed simp

lemma planOf_attempt:
  "wp_attempt (planOf stamp r s reg now secrets item) =
     (case executionOf s item of
        None \<Rightarrow> 1
      | Some x \<Rightarrow> if List.member sameAttemptStatuses (ex_status x) then ex_attempt x else ex_attempt x + 1)"
  "wp_dispatchTry (planOf stamp r s reg now secrets item) =
     (case executionOf s item of
        None \<Rightarrow> 1
      | Some x \<Rightarrow> if List.member sameAttemptStatuses (ex_status x) then ex_dispatchTry x + 1 else 1)"
  "(wp_queuedEvent (planOf stamp r s reg now secrets item) = None)
     = hasStatus sameAttemptStatuses (executionOf s item)"
  by (simp_all add: planOf_def Let_def hasStatus_def split: option.split)

lemma executionDue_idle: "executionDue now ex \<Longrightarrow> \<not> hasStatus inFlightStatuses ex"
  by (auto simp: executionDue_def hasStatus_def inFlightStatuses_def split: option.splits)

lemma withinInFlightLimit_subset: "set (withinInFlightLimit s limit items due) \<subseteq> set due"
  by (auto simp: withinInFlightLimit_def dest: in_set_takeD split: option.splits if_splits)

lemma withinInFlightLimit_distinct:
  "distinct (map f due) \<Longrightarrow> distinct (map f (withinInFlightLimit s limit items due))"
  by (simp add: withinInFlightLimit_def take_map [symmetric] split: option.split)


definition sampleWorker :: "bool \<Rightarrow> effect_worker" where
  "sampleWorker acknowledged = \<lparr>ew_handles = Some (HandlesTypes [''x'']), ew_canDispatch = None,
     ew_acknowledged = acknowledged\<rparr>"


section \<open>Deferred dispatches\<close>

lemma deferred_executions:
  assumes "payloadAttempt e = Some (i, n)" and "\<not> ev_ephemeral e" and "ev_effectId e = None"
    and "ev_type e = ''runtime.effect.dispatch.deferred''"
    and "readNumber (payloadObject e) ''retryAt'' = Some t" and "readNumber (payloadObject e) ''try'' = Some k"
  shows "\<exists>ex. dget (rs_effectExecutions (foldEvent reg s e)) i = Some ex \<and> ex_status ex = DispatchWait
    \<and> ex_attempt ex = n \<and> ex_dispatchTry ex = k \<and> ex_nextAttemptAt ex = Some t"
proof -
  have "rs_effectExecutions (foldEvent reg s e)
      = rs_effectExecutions (dispatchDeferred (recordIdempotencyKey (adoptRunId s e) e) e)"
    using assms(2-4) by (simp add: foldEvent_executions settleEffect_def applyProtocol_def progressTypes_def)
  then show ?thesis using assms(1,5,6) by (simp add: dispatchDeferred_def)
qed

text \<open>The fold of a rejected push, by the number of the try.\<close>

lemma unacknowledged_reject:
  assumes "oe_effectId (wp_item plan) \<noteq> ''''" and "\<not> ew_acknowledged w"
    and "s' = foldEvent reg s (dispatchWorkerEffect st r plan (Some w) (Some msg) now limit)"
  shows "\<exists>ex. executionOf s' (wp_item plan) = Some ex \<and> ex_attempt ex = wp_attempt plan
     \<and> (if withDefault limit 32 \<le> wp_dispatchTry plan then ex_status ex = Ambiguous
        else ex_status ex = DispatchWait \<and> ex_dispatchTry ex = wp_dispatchTry plan
          \<and> ex_nextAttemptAt ex = Some (now + retryBackoff dispatchBackoff (wp_dispatchTry plan)))"
proof (cases "withDefault limit 32 \<le> wp_dispatchTry plan")
  case True
  let ?e = "planEvent (st 1) r plan ''runtime.effect.ambiguous''
    [(''error'', JStr (''worker dispatch relay exhausted after '' @ showWhole (wp_dispatchTry plan)
       @ '' tries: '' @ msg))]"
  have "payloadAttempt ?e = Some (oe_effectId (wp_item plan), wp_attempt plan)"
    using assms(1) by (intro attempt_fields) (simp_all add: planEvent_def payloadObject_def asObject_def)
  from progress_executions [OF this, of reg s] show ?thesis
    using True assms(2,3)
    by (auto simp: dispatchWorkerEffect_def maxDispatchDeferralsDefault_def Let_def executionOf_def
        planEvent_def progressTypes_def executionStatusOf_def simp del: One_nat_def)
next
  case False
  let ?e = "planEvent (st 1) r plan ''runtime.effect.dispatch.deferred''
    [(''retryAt'', JNum (now + retryBackoff dispatchBackoff (wp_dispatchTry plan))),
     (''error'', JStr (''worker dispatch deferred: '' @ msg)), (''try'', JNum (wp_dispatchTry plan))]"
  have attempt: "payloadAttempt ?e = Some (oe_effectId (wp_item plan), wp_attempt plan)"
    using assms(1) by (intro attempt_fields) (simp_all add: planEvent_def payloadObject_def asObject_def)
  have "s' = foldEvent reg s ?e"
    using False assms(2,3) by (simp add: dispatchWorkerEffect_def maxDispatchDeferralsDefault_def Let_def del: One_nat_def)
  moreover have "readNumber (payloadObject ?e) ''retryAt''
        = Some (now + retryBackoff dispatchBackoff (wp_dispatchTry plan))"
      "readNumber (payloadObject ?e) ''try'' = Some (wp_dispatchTry plan)"
    by (simp_all add: planEvent_def payloadObject_def asObject_def readNumber_def)
  with attempt have "\<exists>ex. dget (rs_effectExecutions (foldEvent reg s ?e)) (oe_effectId (wp_item plan)) = Some ex
      \<and> ex_status ex = DispatchWait \<and> ex_attempt ex = wp_attempt plan \<and> ex_dispatchTry ex = wp_dispatchTry plan
      \<and> ex_nextAttemptAt ex = Some (now + retryBackoff dispatchBackoff (wp_dispatchTry plan))"
    by (intro deferred_executions) (simp_all add: planEvent_def)
  ultimately show ?thesis using False by (auto simp: executionOf_def)
qed

text \<open>
  One round of the relay: the effect is planned, pushed to a worker that rejects it, and the outcome is
  folded. Rounds happen at the moments \<open>now\<close>.
\<close>

definition relayRound ::
  "stamps \<Rightarrow> string \<Rightarrow> registry \<Rightarrow> effect_worker \<Rightarrow> string \<Rightarrow> outstanding_effect \<Rightarrow> number \<Rightarrow> run_state \<Rightarrow> run_state" where
  "relayRound st r reg w msg item now s =
     foldEvent reg s (dispatchWorkerEffect st r (planOf (st 2) r s reg now None item) (Some w) (Some msg) now None)"

definition relay ::
  "stamps \<Rightarrow> string \<Rightarrow> registry \<Rightarrow> effect_worker \<Rightarrow> string \<Rightarrow> outstanding_effect \<Rightarrow> number list \<Rightarrow> run_state \<Rightarrow> run_state" where
  "relay st r reg w msg item nows s = foldl (\<lambda>s now. relayRound st r reg w msg item now s) s nows"

lemma relay_waits:
  assumes "oe_effectId item \<noteq> ''''" and "\<not> ew_acknowledged w"
    and "executionOf s item = None"
    and "0 < length nows" and "length nows < 32"
  shows "\<exists>ex. executionOf (relay st r reg w msg item nows s) item = Some ex \<and> ex_attempt ex = 1
     \<and> ex_status ex = DispatchWait \<and> ex_dispatchTry ex = of_nat (length nows)"
  using assms(4,5)
proof (induction nows rule: rev_induct)
  case (snoc now nows)
  let ?s = "relay st r reg w msg item nows s"
  let ?p = "planOf (st 2) r ?s reg now None item"
  have p: "wp_attempt ?p = 1 \<and> wp_dispatchTry ?p = of_nat (length nows) + 1"
  proof (cases "nows = []")
    case True
    then show ?thesis using assms(3) by (simp add: planOf_attempt relay_def)
  next
    case False
    then show ?thesis using snoc by (auto simp: planOf_attempt sameAttemptStatuses_def)
  qed
  have "of_nat (length nows) < (31 :: number)" using snoc.prems by simp
  with p unacknowledged_reject [of ?p w, OF _ assms(2) refl, of reg ?s st r msg now None] assms(1)
  show ?case by (auto simp: relay_def relayRound_def)
qed simp



end
