(* ===== verification/Worker_Callbacks.thy ===== *)
theory Worker_Callbacks
  imports Worker_Dispatch
begin

text \<open>
  \<open>packages/runtime/src/worker-callbacks.ts\<close> and \<open>core/src/worker-callback.ts\<close>: what a worker reports
  about an attempt, turned into events against the durable state. A callback is planned against the
  state and appended by the repository's commit; only the plan is modelled here.
\<close>

section \<open>Definitions\<close>

datatype callback_kind =
    CallbackStarted
  | CallbackCancelled
  | CallbackHeartbeat "json option"
  | CallbackComplete "event_input list"
  | CallbackFail string bool "number option"
    \<comment> \<open>error, nonRetryable, retryAfterMs\<close>

record worker_callback =
  cb_effectId :: string
  cb_attempt :: number
  cb_kind :: callback_kind

datatype callback_status = CallbackAccepted | CallbackStale | CallbackStopped

record observation =
  ob_type :: string
  ob_runId :: string
  ob_at :: number
  ob_effectId :: string
  ob_attempt :: number
  ob_detail :: "string option"

record callback_plan =
  cp_events :: "envelope list"
  cp_notices :: "observation list"
  cp_status :: callback_status
  cp_cancelRequested :: bool

definition stalePlan :: callback_plan where
  "stalePlan = \<lparr>cp_events = [], cp_notices = [], cp_status = CallbackStale, cp_cancelRequested = False\<rparr>"

definition cancelledPlan :: callback_plan where
  "cancelledPlan = \<lparr>cp_events = [], cp_notices = [], cp_status = CallbackStopped, cp_cancelRequested = True\<rparr>"

definition acceptedPlan :: "envelope list \<Rightarrow> observation list \<Rightarrow> bool \<Rightarrow> callback_plan" where
  "acceptedPlan events notices cancelRequested =
     \<lparr>cp_events = events, cp_notices = notices, cp_status = CallbackAccepted,
      cp_cancelRequested = cancelRequested\<rparr>"

definition workerOrigin :: event_origin where
  "workerOrigin = OriginExternal (Some ''worker'')"

text \<open>The earliest of the start-to-close cap and the next heartbeat deadline.\<close>

definition workerDeadline :: "retry_policy option \<Rightarrow> number \<Rightarrow> number \<Rightarrow> number option" where
  "workerDeadline retry startedAt now =
     minOf (List.map_filter id
       [map_option (\<lambda>t. startedAt + t) (nonZero (Option.bind retry rp_startToCloseTimeoutMs)),
        map_option (\<lambda>t. now + t) (nonZero (Option.bind retry rp_heartbeatTimeoutMs))])"

definition workerStartedEvent ::
  "string \<times> number \<Rightarrow> string \<Rightarrow> outstanding_effect \<Rightarrow> number \<Rightarrow> retry_policy option \<Rightarrow> number \<Rightarrow> envelope" where
  "workerStartedEvent stamp runId item attempt retry now =
     createEvent stamp runId
       ((eventInput ''runtime.effect.worker.started'' (JObj
           [(''effectId'', JStr (oe_effectId item)), (''attempt'', JNum attempt),
            (''deadlineAt'', numberOrNull (workerDeadline retry now now))]))
        \<lparr>in_threadId := Val (oe_threadId item), in_origin := Some workerOrigin\<rparr>) 0"

definition heartbeatEvent ::
  "string \<times> number \<Rightarrow> string \<Rightarrow> outstanding_effect \<Rightarrow> number \<Rightarrow> number \<Rightarrow> number option \<Rightarrow> json option \<Rightarrow>
     envelope" where
  "heartbeatEvent stamp runId item attempt now deadline details =
     createEvent stamp runId
       ((eventInput ''runtime.effect.heartbeat'' (JObj
           ([(''effectId'', JStr (oe_effectId item)), (''attempt'', JNum attempt),
             (''heartbeatAt'', JNum now), (''deadlineAt'', numberOrNull deadline)]
            @ optField ''details'' id details)))
        \<lparr>in_threadId := Val (oe_threadId item), in_origin := Some workerOrigin\<rparr>) 0"

definition workerCompletedEvent ::
  "string \<times> number \<Rightarrow> string \<Rightarrow> outstanding_effect \<Rightarrow> number \<Rightarrow> envelope" where
  "workerCompletedEvent stamp runId item attempt =
     createEvent stamp runId
       ((eventInput ''runtime.effect.completed'' (JObj
           [(''effectId'', JStr (oe_effectId item)), (''attempt'', JNum attempt)]))
        \<lparr>in_threadId := Val (oe_threadId item), in_effectId := Val (oe_effectId item),
         in_causationId := Val (oe_causingEventId item), in_origin := Some workerOrigin\<rparr>) 0"

definition workerCancelledEvent ::
  "string \<times> number \<Rightarrow> string \<Rightarrow> outstanding_effect option \<Rightarrow> string \<Rightarrow> number \<Rightarrow> envelope" where
  "workerCancelledEvent stamp runId item effectId attempt =
     createEvent stamp runId
       ((eventInput ''runtime.effect.cancelled'' (JObj
           [(''effectId'', JStr effectId), (''attempt'', JNum attempt)]))
        \<lparr>in_threadId := (case item of None \<Rightarrow> Null | Some i \<Rightarrow> Val (oe_threadId i)),
         in_effectId := Val effectId, in_origin := Some workerOrigin\<rparr>) 0"

fun outcomeEvents ::
  "(event_input \<Rightarrow> string + event_input) \<Rightarrow> stamps \<Rightarrow> nat \<Rightarrow> string \<Rightarrow> outstanding_effect \<Rightarrow>
     event_input list \<Rightarrow> envelope list" where
  "outcomeEvents validate st n runId item [] = []"
| "outcomeEvents validate st n runId item (i # is) =
     materializeEffectOutcome validate (st n) runId item i
     # outcomeEvents validate st (Suc n) runId item is"

text \<open>
  The branch of a live attempt, by the kind of the callback. \<open>item\<close> is the outstanding effect, absent
  only when a cancellation is acknowledged after its thread was dropped.
\<close>

definition acceptCallback ::
  "(event_input \<Rightarrow> string + event_input) \<Rightarrow> stamps \<Rightarrow> string \<Rightarrow> registry \<Rightarrow> number \<Rightarrow> worker_callback \<Rightarrow>
     effect_execution \<Rightarrow> outstanding_effect option \<Rightarrow> callback_plan" where
  "acceptCallback validate st runId reg now cb execution item =
     (let retry = Option.bind item (\<lambda>i. effectRetryPolicy reg (oe_effect i));
          attempt = cb_attempt cb;
          notice = (\<lambda>t. \<lparr>ob_type = t, ob_runId = runId, ob_at = now, ob_effectId = cb_effectId cb,
                        ob_attempt = attempt, ob_detail = None\<rparr>);
          unstarted = List.member [Dispatched, DispatchWait] (ex_status execution)
      in case cb_kind cb of
           CallbackStarted \<Rightarrow>
             (case item of
                None \<Rightarrow> stalePlan
              | Some i \<Rightarrow> if unstarted then acceptedPlan [workerStartedEvent (st 0) runId i attempt retry now] [] False
                          else stalePlan)
         | CallbackHeartbeat details \<Rightarrow>
             (case item of
                None \<Rightarrow> stalePlan
              | Some i \<Rightarrow>
                  if \<not> unstarted \<and> ex_status execution \<noteq> Started \<and> ex_status execution \<noteq> Heartbeat then stalePlan
                  else let deadline = workerDeadline retry (withDefault (ex_startedAt execution) now) now in
                    acceptedPlan
                      (if unstarted
                       then [workerStartedEvent (st 0) runId i attempt retry now,
                             heartbeatEvent (st 1) runId i attempt now deadline details]
                       else [heartbeatEvent (st 0) runId i attempt now deadline details])
                      [notice ''effect.heartbeat''] False)
         | CallbackComplete events \<Rightarrow>
             (case item of
                None \<Rightarrow> stalePlan
              | Some i \<Rightarrow> acceptedPlan
                  (outcomeEvents validate st 0 runId i events
                   @ [workerCompletedEvent (st (length events)) runId i attempt]) [] False)
         | CallbackFail error nonRetryable after \<Rightarrow>
             (case item of
                None \<Rightarrow> stalePlan
              | Some i \<Rightarrow>
                  (let (event, retrying) = planAttemptFailure (st 0) runId i attempt error now retry
                         workerOrigin nonRetryable after
                   in acceptedPlan [event]
                        (if retrying
                         then [\<lparr>ob_type = ''effect.retry'', ob_runId = runId, ob_at = now,
                                ob_effectId = oe_effectId i, ob_attempt = attempt, ob_detail = Some error\<rparr>]
                         else []) False))
         | CallbackCancelled \<Rightarrow>
             acceptedPlan [workerCancelledEvent (st 0) runId item (cb_effectId cb) attempt]
               [notice ''effect.cancellation''] True)"

definition settledStatuses :: "execution_status list" where
  "settledStatuses = [RunningHere, RetryWait, TimedOut, Ambiguous]"

definition stopRequested :: "worker_callback \<Rightarrow> effect_execution \<Rightarrow> bool" where
  "stopRequested cb ex \<longleftrightarrow> ex_attempt ex = cb_attempt cb \<and> ex_status ex = CancelRequested"

definition acknowledgesStop :: "worker_callback \<Rightarrow> effect_execution \<Rightarrow> bool" where
  "acknowledgesStop cb ex \<longleftrightarrow> cb_kind cb = CallbackCancelled \<and> stopRequested cb ex"

definition staleFor ::
  "run_state \<Rightarrow> worker_callback \<Rightarrow> effect_execution \<Rightarrow> outstanding_effect option \<Rightarrow> bool" where
  "staleFor s cb ex item \<longleftrightarrow>
     ex_attempt ex \<noteq> cb_attempt cb
     \<or> isRunTerminal s \<and> \<not> acknowledgesStop cb ex
     \<or> item = None \<and> \<not> acknowledgesStop cb ex
     \<or> List.member settledStatuses (ex_status ex)
     \<or> cb_kind cb = CallbackCancelled \<and> \<not> acknowledgesStop cb ex"

definition planWorkerCallback ::
  "(event_input \<Rightarrow> string + event_input) \<Rightarrow> stamps \<Rightarrow> string \<Rightarrow> run_state \<Rightarrow> worker_callback \<Rightarrow> registry \<Rightarrow>
     number \<Rightarrow> callback_plan" where
  "planWorkerCallback validate st runId s cb reg now =
     (let item = find (\<lambda>i. oe_effectId i = cb_effectId cb) (rs_outstandingEffects s) in
      case dget (rs_effectExecutions s) (cb_effectId cb) of
        None \<Rightarrow> stalePlan
      | Some ex \<Rightarrow>
          if stopRequested cb ex \<and> cb_kind cb \<noteq> CallbackCancelled then cancelledPlan
          else if staleFor s cb ex item then stalePlan
          else acceptCallback validate st runId reg now cb ex item)"

datatype secrets_result = SecretsAccepted "string dict" | SecretsStale | SecretsCancelled

text \<open>\<open>workerSecrets\<close>: \<open>secrets\<close> is what the store holds for the run, \<open>None\<close> when it holds no secrets.\<close>

definition workerSecrets :: "run_state \<Rightarrow> string \<Rightarrow> number \<Rightarrow> string dict option \<Rightarrow> secrets_result" where
  "workerSecrets s effectId attempt secrets =
     (case dget (rs_effectExecutions s) effectId of
        None \<Rightarrow> SecretsStale
      | Some ex \<Rightarrow>
          if ex_attempt ex \<noteq> attempt \<or> isRunTerminal s then SecretsStale
          else if ex_status ex = CancelRequested then SecretsCancelled
          else if ex_status ex \<noteq> Started \<and> ex_status ex \<noteq> Heartbeat then SecretsStale
          else SecretsAccepted (withDefault secrets []))"

section \<open>Callbacks of attempts that are over\<close>

definition liveAttempt :: "run_state \<Rightarrow> worker_callback \<Rightarrow> bool" where
  "liveAttempt s cb \<longleftrightarrow>
     (case dget (rs_effectExecutions s) (cb_effectId cb) of
        None \<Rightarrow> False
      | Some ex \<Rightarrow> ex_attempt ex = cb_attempt cb
          \<and> List.member [Queued, DispatchWait, Dispatched, Started, Heartbeat, CancelRequested] (ex_status ex))"

lemma not_live_stale:
  assumes "\<not> liveAttempt s cb"
  shows "planWorkerCallback validate st r s cb reg now = stalePlan"
proof (cases "dget (rs_effectExecutions s) (cb_effectId cb)")
  case (Some ex)
  have "\<not> stopRequested cb ex \<and> staleFor s cb ex item" for item
    using assms Some
    by (cases "ex_status ex") (auto simp: liveAttempt_def settledStatuses_def stopRequested_def staleFor_def)
  then show ?thesis using Some by (simp add: planWorkerCallback_def Let_def)
qed (simp add: planWorkerCallback_def)

lemma planWorkerCallback_accepted:
  assumes "cp_status (planWorkerCallback validate st r s cb reg now) = CallbackAccepted"
  shows "\<exists>ex. dget (rs_effectExecutions s) (cb_effectId cb) = Some ex
     \<and> planWorkerCallback validate st r s cb reg now = acceptCallback validate st r reg now cb ex
          (find (\<lambda>i. oe_effectId i = cb_effectId cb) (rs_outstandingEffects s))
     \<and> (cb_kind cb \<noteq> CallbackCancelled \<longrightarrow> \<not> isRunTerminal s \<and> ex_status ex \<noteq> CancelRequested
          \<and> find (\<lambda>i. oe_effectId i = cb_effectId cb) (rs_outstandingEffects s) \<noteq> None)
     \<and> (cb_kind cb = CallbackCancelled \<longrightarrow> ex_status ex = CancelRequested)
     \<and> ex_attempt ex = cb_attempt cb"
proof (cases "dget (rs_effectExecutions s) (cb_effectId cb)")
  case None
  then show ?thesis using assms by (simp add: planWorkerCallback_def stalePlan_def)
next
  case (Some ex)
  let ?item = "find (\<lambda>i. oe_effectId i = cb_effectId cb) (rs_outstandingEffects s)"
  have run: "\<not> (stopRequested cb ex \<and> cb_kind cb \<noteq> CallbackCancelled)"
    and live: "\<not> staleFor s cb ex ?item"
    using assms Some by (auto simp: planWorkerCallback_def Let_def cancelledPlan_def stalePlan_def split: if_splits)
  then have "planWorkerCallback validate st r s cb reg now = acceptCallback validate st r reg now cb ex ?item"
    using Some by (auto simp: planWorkerCallback_def Let_def)
  moreover have "(cb_kind cb \<noteq> CallbackCancelled \<longrightarrow> \<not> isRunTerminal s \<and> ex_status ex \<noteq> CancelRequested \<and> ?item \<noteq> None)
     \<and> (cb_kind cb = CallbackCancelled \<longrightarrow> ex_status ex = CancelRequested) \<and> ex_attempt ex = cb_attempt cb"
    using run live unfolding staleFor_def stopRequested_def acknowledgesStop_def by metis
  ultimately show ?thesis using Some by blast
qed

text \<open>An event that settles its effect leaves no execution of it.\<close>

lemma settles_executions:
  assumes "\<not> ev_ephemeral e" and "ev_effectId e = Some i" and "i \<noteq> ''''"
    and "List.member [''runtime.effect.completed'', ''runtime.effect.cancelled'', ''runtime.effect.failed''] (ev_type e)"
  shows "dget (rs_effectExecutions (foldEvent reg s e)) i = None"
proof -
  have "dget (rs_effectExecutions (settleEffect (adoptRunId s e) e)) i = None"
    using assms(2,3) by (simp add: settleEffect_executions)
  then have gone: "dget (rs_effectExecutions (recordIdempotencyKey (settleEffect (adoptRunId s e) e) e)) i = None"
    by simp
  consider "ev_type e = ''runtime.effect.completed''" | "ev_type e = ''runtime.effect.cancelled''"
    | "ev_type e = ''runtime.effect.failed''" using assms(4) by auto
  then show ?thesis
  proof cases
    case 2
    with gone have "dget (rs_effectExecutions (effectCancelled (recordIdempotencyKey (settleEffect (adoptRunId s e) e) e) e)) i = None"
      by (simp add: effectCancelled_def split: option.split)
    with 2 assms(1) show ?thesis by (simp add: foldEvent_executions applyProtocol_def progressTypes_def)
  qed (use gone assms(1) in \<open>simp_all add: foldEvent_executions applyProtocol_def progressTypes_def\<close>)
qed

definition settlingKind :: "callback_kind \<Rightarrow> bool" where
  "settlingKind k \<longleftrightarrow> (case k of CallbackComplete _ \<Rightarrow> True | CallbackFail _ _ _ \<Rightarrow> True | CallbackCancelled \<Rightarrow> True | _ \<Rightarrow> False)"

text \<open>
  C28. Delivering a callback again does no harm: once a callback that completes, fails or acknowledges
  the cancellation of an attempt was accepted and its events folded, every callback for that attempt,
  the same one included, is stale and produces no event.
\<close>

theorem settling_callback_once:
  assumes "settlingKind (cb_kind cb)" and "cb_effectId cb \<noteq> ''''"
    and "cp_status (planWorkerCallback validate st r s cb reg now) = CallbackAccepted"
    and "s' = foldRun reg s (cp_events (planWorkerCallback validate st r s cb reg now))"
    and "cb_effectId cb' = cb_effectId cb" and "cb_attempt cb' = cb_attempt cb"
  shows "planWorkerCallback validate' st' r s' cb' reg now' = stalePlan"
proof -
  let ?i = "cb_effectId cb"
  let ?item = "find (\<lambda>i. oe_effectId i = ?i) (rs_outstandingEffects s)"
  obtain ex where plan: "planWorkerCallback validate st r s cb reg now = acceptCallback validate st r reg now cb ex ?item"
    and live: "cb_kind cb \<noteq> CallbackCancelled \<longrightarrow> ?item \<noteq> None"
    using planWorkerCallback_accepted [OF assms(3)] by blast
  have item: "oe_effectId item = ?i" if "?item = Some item" for item
    using that by (auto simp: find_Some_iff)
  have "dget (rs_effectExecutions s') ?i = None
      \<or> (\<exists>x. dget (rs_effectExecutions s') ?i = Some x \<and> ex_status x = RetryWait)"
  proof (cases "cb_kind cb")
    case (CallbackComplete inputs)
    then obtain i where i: "?item = Some i" using live by auto
    let ?e = "workerCompletedEvent (st (length inputs)) r i (cb_attempt cb)"
    have "\<exists>es. cp_events (planWorkerCallback validate st r s cb reg now) = es @ [?e]"
      using CallbackComplete i by (simp add: plan acceptCallback_def acceptedPlan_def Let_def)
    moreover have "dget (rs_effectExecutions (foldEvent reg s0 ?e)) ?i = None" for s0
      using item [OF i] assms(2) by (intro settles_executions) (simp_all add: workerCompletedEvent_def)
    ultimately show ?thesis using assms(4) by auto
  next
    case (CallbackFail error nonRetryable after)
    then obtain i where i: "?item = Some i" using live by auto
    define retry where "retry = effectRetryPolicy reg (oe_effect i)"
    have "cp_events (planWorkerCallback validate st r s cb reg now)
        = [fst (planAttemptFailure (st 0) r i (cb_attempt cb) error now retry workerOrigin nonRetryable after)]"
      using CallbackFail i by (simp add: plan acceptCallback_def acceptedPlan_def Let_def retry_def split_beta)
    then show ?thesis
      using failure_executions [of i reg s "st 0" r "cb_attempt cb" error now retry workerOrigin nonRetryable after]
        item [OF i] assms(2,4) by auto
  next
    case CallbackCancelled
    have "dget (rs_effectExecutions (foldEvent reg s (workerCancelledEvent (st 0) r ?item ?i (cb_attempt cb)))) ?i = None"
      using assms(2) by (intro settles_executions) (simp_all add: workerCancelledEvent_def)
    then show ?thesis
      using CallbackCancelled assms(4) by (simp add: plan acceptCallback_def acceptedPlan_def Let_def)
  qed (use assms(1) in \<open>simp_all add: settlingKind_def\<close>)
  then have "\<not> liveAttempt s' cb'" using assms(5) by (auto simp: liveAttempt_def)
  then show ?thesis by (rule not_live_stale)
qed

definition sampleCallback :: "callback_kind \<Rightarrow> worker_callback" where
  "sampleCallback k = \<lparr>cb_effectId = ''a:k'', cb_attempt = 1, cb_kind = k\<rparr>"

lemma settling_callback_once_witness:
  "planWorkerCallback Inr (\<lambda>n. (''e'', 0)) ''r''
     (foldRun sampleRegistry (sampleWorking Started)
       (cp_events (planWorkerCallback Inr (\<lambda>n. (''e'', 0)) ''r'' (sampleWorking Started)
          (sampleCallback (CallbackComplete [])) sampleRegistry 3)))
     (sampleCallback (CallbackComplete [])) sampleRegistry 4 = stalePlan"
proof (rule settling_callback_once [OF _ _ _ refl])
  show "cp_status (planWorkerCallback Inr (\<lambda>n. (''e'', 0)) ''r'' (sampleWorking Started)
      (sampleCallback (CallbackComplete [])) sampleRegistry 3) = CallbackAccepted"
    by (simp add: planWorkerCallback_def Let_def sampleWorking_def sampleRun_def sampleItem_def sampleCallback_def
        stopRequested_def staleFor_def settledStatuses_def isRunTerminal_def emptyRunState_def
        acceptCallback_def acceptedPlan_def sampleExecution_def)
qed (simp_all add: settlingKind_def sampleCallback_def)

text \<open>
  What a callback may change: nothing, unless the attempt it reports is the recorded one and still
  live. A request to stop an attempt lets no other report through than its acknowledgement, and a
  terminal run accepts nothing else either; a secret is released only to an attempt that has started
  and is not being stopped.
\<close>

theorem callback_admission:
  "(cp_events (planWorkerCallback validate st r s cb reg now) \<noteq> [] \<longrightarrow>
       liveAttempt s cb
       \<and> (\<forall>ex. dget (rs_effectExecutions s) (cb_effectId cb) = Some ex \<longrightarrow>
            (cb_kind cb = CallbackCancelled \<longleftrightarrow> ex_status ex = CancelRequested))
       \<and> (isRunTerminal s \<longrightarrow> cb_kind cb = CallbackCancelled))
   \<and> (workerSecrets s (cb_effectId cb) (cb_attempt cb) secrets = SecretsAccepted held \<longrightarrow>
       held = withDefault secrets [] \<and> \<not> isRunTerminal s
       \<and> (\<exists>ex. dget (rs_effectExecutions s) (cb_effectId cb) = Some ex \<and> ex_attempt ex = cb_attempt cb
            \<and> (ex_status ex = Started \<or> ex_status ex = Heartbeat)))"
proof (intro conjI impI)
  assume events: "cp_events (planWorkerCallback validate st r s cb reg now) \<noteq> []"
  show "liveAttempt s cb" using events not_live_stale by (fastforce simp: stalePlan_def)
  have accepted: "cp_status (planWorkerCallback validate st r s cb reg now) = CallbackAccepted"
  proof -
    have "cp_status p = CallbackAccepted" if "p \<in> {stalePlan, cancelledPlan, acceptCallback validate st r reg now cb ex item}"
        "cp_events p \<noteq> []" for p ex item
      using that by (auto simp: stalePlan_def cancelledPlan_def acceptCallback_def acceptedPlan_def Let_def
          split: callback_kind.splits option.splits if_splits prod.splits)
    moreover have "\<exists>ex item. planWorkerCallback validate st r s cb reg now
        \<in> {stalePlan, cancelledPlan, acceptCallback validate st r reg now cb ex item}"
      by (auto simp: planWorkerCallback_def Let_def split: option.splits)
    ultimately show ?thesis using events by metis
  qed
  note plan = planWorkerCallback_accepted [OF accepted]
  then show "\<forall>ex. dget (rs_effectExecutions s) (cb_effectId cb) = Some ex \<longrightarrow>
      (cb_kind cb = CallbackCancelled \<longleftrightarrow> ex_status ex = CancelRequested)" by auto
  show "cb_kind cb = CallbackCancelled" if "isRunTerminal s" using plan that by blast
qed (auto simp: workerSecrets_def split: option.splits if_splits)

lemma callback_admission_witness:
  "cp_events (planWorkerCallback Inr (\<lambda>n. (''e'', 0)) ''r'' (sampleWorking TimedOut)
     (sampleCallback CallbackStarted) sampleRegistry 3) = []
   \<and> workerSecrets (sampleWorking TimedOut) ''a:k'' 1 None \<noteq> SecretsAccepted []"
proof -
  have "\<not> liveAttempt (sampleWorking TimedOut) (sampleCallback CallbackStarted)"
    by (simp add: liveAttempt_def sampleWorking_def sampleCallback_def sampleExecution_def)
  then show ?thesis
    using callback_admission [of Inr "\<lambda>n. (''e'', 0)" "''r''" "sampleWorking TimedOut"
        "sampleCallback CallbackStarted" sampleRegistry 3 None "[]"]
    by (auto simp: sampleWorking_def sampleCallback_def sampleExecution_def)
qed

section \<open>Deadlines of an acknowledged worker\<close>

lemma progress_deadline:
  assumes "payloadAttempt e = Some (i, n)" and "\<not> ev_ephemeral e" and "ev_effectId e = None"
    and "List.member progressTypes (ev_type e)"
  shows "\<exists>ex. dget (rs_effectExecutions (foldEvent reg s e)) i = Some ex
    \<and> ex_status ex = executionStatusOf (ev_type e) \<and> ex_deadlineAt ex = readNumber (payloadObject e) ''deadlineAt''"
proof -
  let ?s = "recordIdempotencyKey (adoptRunId s e) e"
  have "rs_effectExecutions (foldEvent reg s e) = rs_effectExecutions (executionProgress ?s e)"
    using assms(2-4) by (auto simp: foldEvent_executions settleEffect_def applyProtocol_def progressTypes_def)
  then show ?thesis using assms(1) by (simp add: executionProgress_def Let_def)
qed

lemma workerDeadline_set:
  assumes "nonZero (Option.bind retry rp_startToCloseTimeoutMs) \<noteq> None
    \<or> nonZero (Option.bind retry rp_heartbeatTimeoutMs) \<noteq> None"
  shows "\<exists>d. workerDeadline retry startedAt now = Some d"
  using assms by (auto simp: workerDeadline_def minOf_def split: option.split)

lemma checked_definition:
  assumes "assertWorkerDeadlines reg (Some w) = Inr ()" and "ew_acknowledged w"
    and "dget (rg_effects reg) t = Some d" and "claimsType w d"
  shows "\<not> lacksStart d \<and> \<not> lacksClose d"
proof -
  have "d \<in> set (filter (claimsType w) (dvals (rg_effects reg)))"
    using dget_val [OF assms(3)] assms(4) by (simp only: set_filter) blast
  then show ?thesis
    using assms(1,2) by (auto simp: assertWorkerDeadlines_def Let_def filter_empty_conv split: if_splits)
qed

lemma deadline_number [simp]: "readNumber (payloadObject (workerStartedEvent stamp r i n retry now)) ''deadlineAt''
    = workerDeadline retry now now"
  "readNumber (payloadObject (heartbeatEvent stamp r i n now deadline details)) ''deadlineAt'' = deadline"
  by (simp_all add: workerStartedEvent_def heartbeatEvent_def payloadObject_def asObject_def readNumber_def
      numberOrNull_def split: option.split)

text \<open>The last event of an accepted start or heartbeat.\<close>

definition isBeat :: "string \<Rightarrow> outstanding_effect \<Rightarrow> number \<Rightarrow> retry_policy option \<Rightarrow> number \<Rightarrow> envelope \<Rightarrow> bool" where
  "isBeat r item n retry now e \<longleftrightarrow>
     (\<exists>stamp. e = workerStartedEvent stamp r item n retry now)
     \<or> (\<exists>stamp at0 details. e = heartbeatEvent stamp r item n now (workerDeadline retry at0 now) details)"

lemma isBeat_events [simp]:
  "isBeat r item n retry now (workerStartedEvent stamp r item n retry now)"
  "isBeat r item n retry now (heartbeatEvent stamp r item n now (workerDeadline retry at0 now) details)"
  unfolding isBeat_def by blast+

lemma accepted_beat:
  assumes "cp_status (acceptCallback validate st r reg now cb x (Some item)) = CallbackAccepted"
    and "cb_kind cb = CallbackStarted \<or> (\<exists>details. cb_kind cb = CallbackHeartbeat details)"
  shows "\<exists>es e. cp_events (acceptCallback validate st r reg now cb x (Some item)) = es @ [e]
    \<and> isBeat r item (cb_attempt cb) (effectRetryPolicy reg (oe_effect item)) now e"
  using assms(2)
proof (elim disjE exE)
  assume started: "cb_kind cb = CallbackStarted"
  then have "cp_events (acceptCallback validate st r reg now cb x (Some item))
      = [workerStartedEvent (st 0) r item (cb_attempt cb) (effectRetryPolicy reg (oe_effect item)) now]"
    using assms(1) by (simp add: acceptCallback_def acceptedPlan_def stalePlan_def Let_def split: if_splits)
  then show ?thesis by simp
next
  fix details assume beat: "cb_kind cb = CallbackHeartbeat details"
  let ?retry = "effectRetryPolicy reg (oe_effect item)"
  let ?deadline = "workerDeadline ?retry (withDefault (ex_startedAt x) now) now"
  have "\<exists>es stamp. cp_events (acceptCallback validate st r reg now cb x (Some item))
      = es @ [heartbeatEvent stamp r item (cb_attempt cb) now ?deadline details]"
  proof (cases "List.member [Dispatched, DispatchWait] (ex_status x)")
    case True
    then show ?thesis
      using beat by (intro exI [of _ "[workerStartedEvent (st 0) r item (cb_attempt cb) ?retry now]"] exI [of _ "st 1"])
        (simp add: acceptCallback_def acceptedPlan_def Let_def)
  next
    case False
    then show ?thesis
      using beat assms(1) by (intro exI [of _ "[]"] exI [of _ "st 0"])
        (simp add: acceptCallback_def acceptedPlan_def stalePlan_def Let_def split: if_splits)
  qed
  then show ?thesis by (metis isBeat_events(2))
qed

lemma callback_progress:
  assumes "i \<noteq> ''''" and "oe_effectId item = i" and "isBeat r item n retry now e"
    and "nonZero (Option.bind retry rp_startToCloseTimeoutMs) \<noteq> None
    \<or> nonZero (Option.bind retry rp_heartbeatTimeoutMs) \<noteq> None"
  shows "\<exists>ex d. dget (rs_effectExecutions (foldEvent reg s e)) i = Some ex \<and> ex_deadlineAt ex = Some d
    \<and> (ex_status ex = Started \<or> ex_status ex = Heartbeat)"
proof -
  have "payloadAttempt e = Some (i, n)"
    using assms(1,2,3) unfolding isBeat_def by (elim disjE exE; intro attempt_fields)
      (simp_all add: workerStartedEvent_def heartbeatEvent_def payloadObject_def asObject_def)
  moreover have "\<not> ev_ephemeral e \<and> ev_effectId e = None
      \<and> List.member [''runtime.effect.worker.started'', ''runtime.effect.heartbeat''] (ev_type e)"
    using assms(3) by (auto simp: isBeat_def workerStartedEvent_def heartbeatEvent_def)
  moreover have "\<exists>d. readNumber (payloadObject e) ''deadlineAt'' = Some d"
    using assms(3) workerDeadline_set [OF assms(4)] by (auto simp: isBeat_def)
  ultimately show ?thesis
    using progress_deadline [of e i n reg s] by (auto simp: progressTypes_def executionStatusOf_def)
qed

text \<open>
  C29. An attempt of an acknowledged worker cannot hang: when the start-up check passed, an attempt of an
  effect the worker claims carries a deadline from the moment its dispatch is folded, and again after
  every start or heartbeat that is accepted, so the run always has a next deadline to wake for.
\<close>

theorem acknowledged_attempt_has_deadline:
  assumes "assertWorkerDeadlines reg (Some w) = Inr ()" and "ew_acknowledged w"
    and "dget (rg_effects reg) (effectType (oe_effect item)) = Some d" and "claimsType w d"
    and "oe_effectId item \<noteq> ''''"
  shows "(\<exists>ex t. executionOf (foldEvent reg s (dispatchWorkerEffect st r
             (planOf st0 r s0 reg now secrets item) (Some w) None now limit)) item = Some ex
           \<and> ex_status ex = Dispatched \<and> ex_deadlineAt ex = Some t)
     \<and> (\<forall>cb. (cb_kind cb = CallbackStarted \<or> (\<exists>x. cb_kind cb = CallbackHeartbeat x))
          \<and> find (\<lambda>i. oe_effectId i = cb_effectId cb) (rs_outstandingEffects s) = Some item
          \<and> cp_status (planWorkerCallback validate st r s cb reg now) = CallbackAccepted
          \<longrightarrow> (\<exists>ex t. executionOf (foldRun reg s (cp_events (planWorkerCallback validate st r s cb reg now))) item = Some ex
                 \<and> (ex_status ex = Started \<or> ex_status ex = Heartbeat) \<and> ex_deadlineAt ex = Some t))"
proof (intro conjI allI impI)
  define retry where "retry = effectRetryPolicy reg (oe_effect item)"
  have retry: "retry = ed_retry d" using assms(3) by (simp add: retry_def effectRetryPolicy_def)
  note checked = checked_definition [OF assms(1-4)]
  have close: "nonZero (Option.bind retry rp_startToCloseTimeoutMs) \<noteq> None
      \<or> nonZero (Option.bind retry rp_heartbeatTimeoutMs) \<noteq> None"
    using checked by (auto simp: lacksClose_def retry)
  let ?p = "planOf st0 r s0 reg now secrets item"
  let ?e = "dispatchWorkerEffect st r ?p (Some w) None now limit"
  obtain t where t: "wp_scheduleToStartDeadlineAt ?p = Some t"
    using checked by (auto simp: planOf_def Let_def lacksStart_def retry retry_def [symmetric])
  have e: "?e = planEvent (st 0) r ?p ''runtime.effect.dispatched'' [(''deadlineAt'', JNum t)]"
    by (simp add: dispatchWorkerEffect_def Let_def t numberOrNull_def)
  have "payloadAttempt ?e = Some (oe_effectId item, wp_attempt ?p)"
    unfolding e using assms(5) by (intro attempt_fields) (simp_all add: planEvent_def payloadObject_def asObject_def)
  from progress_deadline [OF this, of reg s]
  show "\<exists>ex t. executionOf (foldEvent reg s ?e) item = Some ex \<and> ex_status ex = Dispatched \<and> ex_deadlineAt ex = Some t"
    by (simp add: e executionOf_def)
       (simp add: planEvent_def progressTypes_def executionStatusOf_def payloadObject_def asObject_def readNumber_def, blast)
  fix cb
  assume "(cb_kind cb = CallbackStarted \<or> (\<exists>x. cb_kind cb = CallbackHeartbeat x))
    \<and> find (\<lambda>i. oe_effectId i = cb_effectId cb) (rs_outstandingEffects s) = Some item
    \<and> cp_status (planWorkerCallback validate st r s cb reg now) = CallbackAccepted"
  then have kind: "cb_kind cb = CallbackStarted \<or> (\<exists>x. cb_kind cb = CallbackHeartbeat x)"
    and found: "find (\<lambda>i. oe_effectId i = cb_effectId cb) (rs_outstandingEffects s) = Some item"
    and accepted: "cp_status (planWorkerCallback validate st r s cb reg now) = CallbackAccepted" by blast+
  obtain x where plan: "planWorkerCallback validate st r s cb reg now = acceptCallback validate st r reg now cb x (Some item)"
    using planWorkerCallback_accepted [OF accepted] found by auto
  obtain es last_event where events: "cp_events (planWorkerCallback validate st r s cb reg now) = es @ [last_event]"
      "isBeat r item (cb_attempt cb) retry now last_event"
    using accepted_beat [OF accepted [unfolded plan] kind] unfolding plan retry_def by blast
  show "\<exists>ex t. executionOf (foldRun reg s (cp_events (planWorkerCallback validate st r s cb reg now))) item = Some ex
      \<and> (ex_status ex = Started \<or> ex_status ex = Heartbeat) \<and> ex_deadlineAt ex = Some t"
    using callback_progress [OF assms(5) refl events(2) close] by (fastforce simp: events(1) executionOf_def)
qed

definition watchedDefinition :: effect_definition where
  "watchedDefinition = \<lparr>ed_type = ''x'', ed_placement = PlacedWorker,
     ed_retry = Some (samplePolicy\<lparr>rp_scheduleToStartTimeoutMs := Some 50, rp_heartbeatTimeoutMs := Some 20\<rparr>),
     ed_deterministic = False\<rparr>"

definition watchedRegistry :: registry where
  "watchedRegistry = sampleRegistry\<lparr>rg_effects := [(''x'', watchedDefinition)]\<rparr>"

lemma acknowledged_attempt_has_deadline_witness:
  "\<exists>ex t. executionOf (foldEvent watchedRegistry (sampleRun Running)
       (dispatchWorkerEffect (\<lambda>n. (''e'', 0)) ''r''
         (planOf (''q'', 0) ''r'' (sampleRun Running) watchedRegistry 7 None (sampleItem ''a'' ''k''))
         (Some (sampleWorker True)) None 7 None)) (sampleItem ''a'' ''k'') = Some ex
     \<and> ex_status ex = Dispatched \<and> ex_deadlineAt ex = Some t"
proof (rule acknowledged_attempt_has_deadline [THEN conjunct1])
  show "assertWorkerDeadlines watchedRegistry (Some (sampleWorker True)) = Inr ()"
    by (simp add: assertWorkerDeadlines_def watchedRegistry_def watchedDefinition_def sampleWorker_def
        claimsType_def workerHandlesType_def lacksStart_def lacksClose_def nonZero_def samplePolicy_def)
  show "dget (rg_effects watchedRegistry) (effectType (oe_effect (sampleItem ''a'' ''k''))) = Some watchedDefinition"
    by (simp add: watchedRegistry_def sampleItem_def effectType_def)
qed (simp_all add: sampleWorker_def claimsType_def watchedDefinition_def workerHandlesType_def sampleItem_def)

end
