(* ===== verification/Cancellation.thy ===== *)
theory Cancellation
  imports Worker_Callbacks
begin

text \<open>
  \<open>packages/runtime/src/cancellation.ts\<close>, \<open>child-run.ts\<close> and \<open>effect-admission.ts\<close>: cancelling a thread
  with everything below it, the decision a cancel request makes against the current state, how a run
  tells its parent that it ended and how a parent that waits for its children closes, and the gate
  before an attempt. A function that walks over descendants is an option, \<open>None\<close> when the walk does
  not return.
\<close>

section \<open>Planning a cancellation\<close>

record cancellation_plan =
  cn_events :: "envelope list"
  cn_threadIds :: "string list"
  cn_workerCancellations :: "(outstanding_effect \<times> effect_execution) list"

definition emptyCancellation :: cancellation_plan where
  "emptyCancellation = \<lparr>cn_events = [], cn_threadIds = [], cn_workerCancellations = []\<rparr>"

definition effectCancelledInput :: "string \<Rightarrow> outstanding_effect \<Rightarrow> effect_execution \<Rightarrow> event_input" where
  "effectCancelledInput key item ex =
     (eventInput ''runtime.effect.cancelled'' (JObj
        [(''effectId'', JStr (oe_effectId item)), (''attempt'', JNum (ex_attempt ex))]))
     \<lparr>in_threadId := Val (oe_threadId item), in_effectId := Val (oe_effectId item),
      in_origin := Some OriginSystem, in_idempotencyKey := Val key\<rparr>"

definition cancelRequestedInput ::
  "string \<Rightarrow> number option \<Rightarrow> outstanding_effect \<Rightarrow> effect_execution \<Rightarrow> event_input" where
  "cancelRequestedInput key deadline item ex =
     (eventInput ''runtime.effect.cancel.requested'' (JObj
        [(''effectId'', JStr (oe_effectId item)), (''attempt'', JNum (ex_attempt ex)),
         (''deadlineAt'', numberOrNull deadline)]))
     \<lparr>in_threadId := Val (oe_threadId item), in_origin := Some OriginSystem, in_idempotencyKey := Val key\<rparr>"

text \<open>The body of the loop over the outstanding effects: the effect's event, when it gets one.\<close>

definition stopEffect ::
  "string \<Rightarrow> string \<Rightarrow> run_state \<Rightarrow> string list \<Rightarrow> registry \<Rightarrow> effect_worker option \<Rightarrow> number \<Rightarrow>
     outstanding_effect \<Rightarrow> event_input option" where
  "stopEffect runId key s threadIds reg worker now item =
     (case executionOf s item of
        None \<Rightarrow> None
      | Some ex \<Rightarrow>
          if \<not> List.member threadIds (oe_threadId item) \<or> \<not> isWorkerEffect runId item (Some ex) reg worker then None
          else if List.member [RetryWait, DispatchWait] (ex_status ex) then Some (effectCancelledInput key item ex)
          else Some (cancelRequestedInput key
            (map_option (\<lambda>t. now + t)
               (nonZero (Option.bind (effectRetryPolicy reg (oe_effect item)) rp_cancellationTimeoutMs))) item ex))"

definition handedOut ::
  "string \<Rightarrow> run_state \<Rightarrow> string list \<Rightarrow> registry \<Rightarrow> effect_worker option \<Rightarrow>
     outstanding_effect \<Rightarrow> (outstanding_effect \<times> effect_execution) option" where
  "handedOut runId s threadIds reg worker item =
     (case executionOf s item of
        None \<Rightarrow> None
      | Some ex \<Rightarrow>
          if List.member threadIds (oe_threadId item) \<and> isWorkerEffect runId item (Some ex) reg worker
             \<and> \<not> List.member [RetryWait, DispatchWait] (ex_status ex)
          then Some (item, ex) else None)"

definition threadCancelledInput :: "string \<Rightarrow> string \<Rightarrow> nat \<Rightarrow> string \<Rightarrow> event_input" where
  "threadCancelledInput key target seq threadId =
     (eventInput ''runtime.thread.cancelled'' (JObj
        ([(''threadId'', JStr threadId), (''reason'', JStr ''cancelled'')]
         @ (if threadId = target then [(''resumeSeq'', JNum (of_nat seq))] else []))))
     \<lparr>in_threadId := Val threadId, in_origin := Some (OriginExternal None), in_idempotencyKey := Val key\<rparr>"

definition planCancellation ::
  "stamps \<Rightarrow> string \<Rightarrow> nat \<Rightarrow> run_state \<Rightarrow> string option \<Rightarrow> registry \<Rightarrow> effect_worker option \<Rightarrow> number \<Rightarrow>
     cancellation_plan option" where
  "planCancellation st runId seq s threadId reg worker now =
     (let target = withDefault (orElse threadId (rs_rootThreadId s)) '''';
          key = ''cancel:'' @ target
      in if List.member (rs_processedIdempotencyKeys s) key then Some emptyCancellation
         else case descendantThreadIds s target of
           None \<Rightarrow> None
         | Some descendants \<Rightarrow>
             (let threadIds = insertionSet (descendants @ [target]);
                  effectInputs = List.map_filter (stopEffect runId key s threadIds reg worker now) (rs_outstandingEffects s);
                  threadInputs = map (threadCancelledInput key target seq)
                    (filter (\<lambda>t. t \<noteq> '''') (rev descendants @ [target]));
                  batch = createEvents st 0 runId (effectInputs @ threadInputs);
                  folded = foldRun reg s batch;
                  satisfied = createEvents st (length batch) runId (waitSatisfiedEvents folded batch)
              in Some \<lparr>cn_events = batch @ satisfied, cn_threadIds = threadIds,
                   cn_workerCancellations = List.map_filter (handedOut runId s threadIds reg worker)
                     (rs_outstandingEffects s)\<rparr>))"

section \<open>A cancel request\<close>

text \<open>What the commit of \<open>createCancellation\<close> plans: events, the command's key and the children to cancel.\<close>

record cancel_decision =
  cd_events :: "envelope list"
  cd_plan :: cancellation_plan
  cd_childRunIds :: "string list"
  cd_idempotencyKey :: "string option"

definition waitingChildren :: "run_state \<Rightarrow> string list" where
  "waitingChildren s = map lr_runId (filter (\<lambda>c. lr_close c = WaitChildren) (rs_launchedRuns s))"

definition decideCancel ::
  "stamps \<Rightarrow> string \<Rightarrow> run_cursor \<Rightarrow> string option \<Rightarrow> registry \<Rightarrow> effect_worker option \<Rightarrow> number \<Rightarrow>
     cancel_decision option" where
  "decideCancel st runId current threadId reg worker now =
     (let s = cu_state current;
          rootCancel = threadId = None \<or> threadId = rs_rootThreadId s;
          owner = withDefault (rs_rootThreadId s) runId
      in if rootCancel \<and> \<not> rs_childCloseSent s \<and> waitingChildren s \<noteq> [] then
           Some \<lparr>cd_events = [createEvent (st 0) runId
                   ((eventInput ''runtime.child.close.requested'' (JObj [(''policy'', JStr ''wait'')]))
                    \<lparr>in_threadId := (case rs_rootThreadId s of None \<Rightarrow> Null | Some t \<Rightarrow> Val t),
                     in_origin := Some OriginSystem,
                     in_idempotencyKey := Val (''child-close:'' @ owner)\<rparr>) 0],
                 cd_plan = emptyCancellation, cd_childRunIds = map lr_runId (rs_launchedRuns s),
                 cd_idempotencyKey = Some (''signal:child-close:'' @ owner)\<rparr>
         else if rootCancel \<and> rs_childCloseSent s \<and> waitingChildren s \<noteq> [] then
           Some \<lparr>cd_events = [], cd_plan = emptyCancellation, cd_childRunIds = waitingChildren s,
                 cd_idempotencyKey = None\<rparr>
         else map_option (\<lambda>plan. \<lparr>cd_events = cn_events plan, cd_plan = plan, cd_childRunIds = [],
                 cd_idempotencyKey = Some (''signal:cancel:''
                   @ withDefault (orElse threadId (rs_rootThreadId s)) '''')\<rparr>)
           (planCancellation st runId (cu_seq current) s threadId reg worker now))"

section \<open>Runs launched by runs\<close>

fun runStatusName :: "run_status \<Rightarrow> string" where
  "runStatusName RunRunning = ''running''"
| "runStatusName RunCompleted = ''completed''"
| "runStatusName RunFailed = ''failed''"
| "runStatusName RunCancelled = ''cancelled''"

text \<open>
  \<open>notifyLaunchingParent\<close>: the run that is signalled, the event and the key of the signal. \<open>None\<close> when
  there is nobody to tell or nothing to tell yet.
\<close>

definition notifyLaunchingParent :: "string \<Rightarrow> run_state \<Rightarrow> (string \<times> event_input \<times> string) option" where
  "notifyLaunchingParent runId s =
     (case Option.bind (rs_startIdentity s) si_launchedBy of
        None \<Rightarrow> None
      | Some by \<Rightarrow>
          if rs_status s = RunRunning then None
          else let root_record = Option.bind (truthy (rs_rootThreadId s)) (dget (rs_threads s));
                   error = (if rs_status s = RunCompleted then JNull
                            else JStr (withDefault (Option.bind root_record thr_error) (runStatusName (rs_status s))))
               in Some (ls_runId by,
                    (eventInput ''runtime.child.settled'' (JObj
                       [(''runId'', JStr runId), (''status'', JStr (runStatusName (rs_status s))),
                        (''output'', case root_record of None \<Rightarrow> JNull | Some r \<Rightarrow> thr_output r),
                        (''error'', error)]))
                    \<lparr>in_threadId := Val (ls_threadId by), in_idempotencyKey := Val (''child-settled:'' @ runId),
                     in_origin := Some (OriginRun runId)\<rparr>,
                    ''child-settled:'' @ runId))"

definition childCloseCancellations :: "run_state \<Rightarrow> event_input list option" where
  "childCloseCancellations s =
     (if \<not> rs_closeWaiting s \<or> waitingChildren s \<noteq> [] then Some []
      else case truthy (rs_rootThreadId s) of
        None \<Rightarrow> Some []
      | Some rootId \<Rightarrow>
          if \<not> isLive s rootId then Some []
          else map_option (\<lambda>ds. map cancelInput (filter (isLive s) (rev ds @ [rootId])))
                 (descendantThreadIds s rootId))"

section \<open>The gate before an attempt\<close>

text \<open>
  Admission hooks are code of the host's modules: a hook is a function of the effect and its context
  that returns the failure it raised, if any. The context is passed to the hooks unread.
\<close>

record effect_failure =
  ef_error :: string
  ef_nonRetryable :: bool
  ef_retryAfterMs :: "number option"

fun runHooks :: "(runtime_effect \<Rightarrow> 'c \<Rightarrow> effect_failure option) list \<Rightarrow> runtime_effect \<Rightarrow> 'c \<Rightarrow> effect_failure option" where
  "runHooks [] e c = None"
| "runHooks (hook # hooks) e c = (case hook e c of None \<Rightarrow> runHooks hooks e c | Some f \<Rightarrow> Some f)"

definition runEffectAdmission ::
  "(runtime_effect \<Rightarrow> 'c \<Rightarrow> effect_failure option) list \<Rightarrow> outstanding_effect \<Rightarrow> 'c \<Rightarrow> effect_failure option" where
  "runEffectAdmission hooks item c =
     (if isPrimitiveEffect (oe_effect item) \<or> hooks = [] then None else runHooks hooks (oe_effect item) c)"

text \<open>\<open>None\<close> admits; otherwise the durable event of the rejection and the retry observation.\<close>

definition admitOrFailAttempt ::
  "(runtime_effect \<Rightarrow> 'c \<Rightarrow> effect_failure option) list \<Rightarrow> 'c \<Rightarrow> string \<times> number \<Rightarrow> string \<Rightarrow> outstanding_effect \<Rightarrow>
     number \<Rightarrow> number \<Rightarrow> retry_policy option \<Rightarrow> (envelope \<times> bool \<times> observation option) option" where
  "admitOrFailAttempt hooks c stamp runId item attempt now retry =
     (case runEffectAdmission hooks item c of
        None \<Rightarrow> None
      | Some f \<Rightarrow>
          (let (event, retrying) = planAttemptFailure stamp runId item attempt (ef_error f) now retry
                 OriginSystem (ef_nonRetryable f) (ef_retryAfterMs f)
           in Some (event, retrying,
                if retrying
                then Some \<lparr>ob_type = ''effect.retry'', ob_runId = runId, ob_at = now,
                       ob_effectId = oe_effectId item, ob_attempt = attempt, ob_detail = Some (ef_error f)\<rparr>
                else None)))"

section \<open>Cancelled threads\<close>

text \<open>A thread that is over and has nothing left to do.\<close>

definition atPeace :: "run_state \<Rightarrow> string \<Rightarrow> bool" where
  "atPeace s t \<longleftrightarrow> (\<exists>st. finalThread s t st) \<and> noWork s t"

definition statusOf :: "run_state \<Rightarrow> string \<Rightarrow> thread_status option" where
  "statusOf s t = map_option thr_status (dget (rs_threads s) t)"

definition cancelTypes :: "string list" where
  "cancelTypes = [''runtime.effect.cancelled'', ''runtime.effect.cancel.requested'',
     ''runtime.thread.cancelled'', ''runtime.wait.satisfied'']"

lemma noWork_mono:
  assumes "noWork s t" and "set (rs_outstandingEffects s') \<subseteq> set (rs_outstandingEffects s)"
    and "set (rs_waits s') \<subseteq> set (rs_waits s)"
  shows "noWork s' t"
proof -
  have "snd ` set (rs_waits s') \<subseteq> snd ` set (rs_waits s)" using assms(3) by (rule image_mono)
  then show ?thesis
    using assms(1,2) unfolding noWork_def threadOutstanding_def threadWaits_def filter_empty_conv set_map by blast
qed

lemma waitSatisfied_shrinks:
  "set (rs_waits (waitSatisfied s e)) \<subseteq> set (rs_waits s)"
proof (cases "truthy (readString (payloadObject e) ''waitId'')")
  case (Some i)
  define n where "n = (case truthy (Option.bind (dget (rs_waits s) i) tagRace) of
    None \<Rightarrow> removeWait s i | Some q \<Rightarrow> removeRace (removeWait s i) q)"
  have "rs_waits (waitSatisfied s e) = rs_waits n"
    using Some by (simp add: waitSatisfied_def Let_def n_def split: option.split)
  moreover have "set (rs_waits n) \<subseteq> set (ddel i (rs_waits s))"
    using removeRace_subset [of "removeWait s i"] by (simp add: n_def split: option.split)
  ultimately show ?thesis using set_ddel_subset by fastforce
qed (simp add: waitSatisfied_def)

lemma threadCancelled_shrinks:
  "set (rs_waits (threadCancelled s e)) \<subseteq> set (rs_waits s)"
  by (auto simp: threadCancelled_def split: option.split)

lemma executionProgress_frame [simp]:
  "rs_waits (executionProgress s e) = rs_waits s" "rs_threads (executionProgress s e) = rs_threads s"
  "rs_outstandingEffects (executionProgress s e) = rs_outstandingEffects s"
  by (simp_all add: executionProgress_def Let_def split: option.split)

lemma effectCancelled_frame [simp]:
  "rs_waits (effectCancelled s e) = rs_waits s" "rs_threads (effectCancelled s e) = rs_threads s"
  by (simp_all add: effectCancelled_def split: option.split)

lemma cancelTypes_protocol:
  assumes "List.member cancelTypes (ev_type e)"
  shows "set (rs_outstandingEffects (applyProtocol reg s e)) \<subseteq> set (rs_outstandingEffects s)"
    and "set (rs_waits (applyProtocol reg s e)) \<subseteq> set (rs_waits s)"
proof -
  show "set (rs_outstandingEffects (applyProtocol reg s e)) \<subseteq> set (rs_outstandingEffects s)"
    by (rule applyProtocol_effects)
  consider "ev_type e = ''runtime.effect.cancelled''" | "ev_type e = ''runtime.effect.cancel.requested''"
    | "ev_type e = ''runtime.thread.cancelled''" | "ev_type e = ''runtime.wait.satisfied''"
    using assms by (auto simp: cancelTypes_def)
  then show "set (rs_waits (applyProtocol reg s e)) \<subseteq> set (rs_waits s)"
    by cases (simp_all add: applyProtocol_def progressTypes_def waitSatisfied_shrinks threadCancelled_shrinks)
qed

lemma atPeace_foldEvent:
  assumes "run_ok s" and "atPeace s t" and "List.member cancelTypes (ev_type e)"
  shows "atPeace (foldEvent reg s e) t"
proof (cases "ev_ephemeral e")
  case False
  obtain st where st: "finalThread s t st" and idle: "noWork s t" using assms(2) by (auto simp: atPeace_def)
  define settled where "settled = recordIdempotencyKey (settleEffect (adoptRunId s e) e) e"
  define protocol where "protocol = applyProtocol reg settled e"
  have type: "ev_type e \<noteq> ''runtime.thread.started''" "ev_type e \<noteq> ''runtime.effect.failed''"
    using assms(3) by (auto simp: cancelTypes_def)
  have "noWork settled t"
    by (rule noWork_mono [OF idle]) (auto simp: settled_def settleEffect_def split: option.splits)
  then have "noWork protocol t"
    unfolding protocol_def by (rule noWork_mono [OF _ cancelTypes_protocol [OF assms(3)]])
  moreover have "finalThread protocol t st"
    unfolding protocol_def settled_def
    by (intro finalThread_applyProtocol) (use assms(1) st type in \<open>simp_all add: finalThread_protocol_frame run_ok_intros\<close>)
  ultimately have "noWork (foldEvent reg s e) t"
    using False type by (simp add: foldEvent_def Let_def noWork_deliver flip: settled_def protocol_def)
  then show ?thesis using finalThread_foldEvent [OF assms(1) st type(1)] by (auto simp: atPeace_def)
qed (use assms in simp)

lemma cancelTypes_status:
  assumes "run_ok s" and "List.member cancelTypes (ev_type e)" and "ev_type e \<noteq> ''runtime.wait.satisfied''"
    and "ev_type e = ''runtime.thread.cancelled'' \<longrightarrow> payloadThreadId e \<noteq> Some t"
  shows "statusOf (foldEvent reg s e) t = statusOf s t"
proof (cases "ev_ephemeral e")
  case False
  define settled where "settled = recordIdempotencyKey (settleEffect (adoptRunId s e) e) e"
  define protocol where "protocol = applyProtocol reg settled e"
  have settled: "run_ok settled" "rs_threads settled = rs_threads s"
    using assms(1) by (simp_all add: settled_def run_ok_intros)
  have ok: "run_ok protocol" unfolding protocol_def by (rule run_ok_applyProtocol [OF settled(1)])
  consider "ev_type e = ''runtime.effect.cancelled''" | "ev_type e = ''runtime.effect.cancel.requested''"
    | "ev_type e = ''runtime.thread.cancelled''" using assms(2,3) by (auto simp: cancelTypes_def)
  then have "statusOf protocol t = statusOf s t"
  proof cases
    case 3
    have "thr_threadId r = k" if "dget (rs_threads s) k = Some r" for k r
      using run_ok_threadKey [OF assms(1) that] .
    then have "statusOf (threadCancelled settled e) t = statusOf s t"
      using assms(4) 3 by (auto simp: threadCancelled_def statusOf_def settled(2) split: option.split)
    then show ?thesis by (simp add: protocol_def applyProtocol_def progressTypes_def 3)
  qed (simp_all add: protocol_def applyProtocol_def progressTypes_def statusOf_def settled(2))
  moreover have "statusOf (deliver reg protocol e x) t = statusOf protocol t" for x
    using run_ok_threadKey [OF ok] by (auto simp: deliver_def Let_def statusOf_def split: option.split)
  moreover have "ev_type e \<noteq> ''runtime.effect.failed''" using assms(2) by (auto simp: cancelTypes_def)
  ultimately show ?thesis using False by (simp add: foldEvent_def Let_def flip: settled_def protocol_def)
qed simp

lemma threadCancelled_atPeace:
  assumes "run_ok s" and "\<not> ev_ephemeral e" and "ev_type e = ''runtime.thread.cancelled''"
    and "payloadThreadId e = Some t" and "statusOf s t = Some status" and "\<not> isTerminalStatus status"
  shows "atPeace (foldEvent reg s e) t"
proof -
  define settled where "settled = recordIdempotencyKey (settleEffect (adoptRunId s e) e) e"
  define protocol where "protocol = applyProtocol reg settled e"
  obtain r where r: "dget (rs_threads s) t = Some r" "\<not> isTerminalStatus (thr_status r)"
    using assms(5,6) by (auto simp: statusOf_def)
  have settled: "run_ok settled" "rs_threads settled = rs_threads s"
    using assms(1) by (simp_all add: settled_def run_ok_intros)
  have protocol: "protocol = threadCancelled settled e"
    by (simp add: protocol_def applyProtocol_def progressTypes_def assms(3))
  have "noWork protocol t" "finalThread protocol t (thr_state r)"
    using assms(4) settled(2) r run_ok_threadKey [OF assms(1) r(1)]
    by (simp_all add: protocol threadCancelled_def finalThread_def)
  moreover have "run_ok protocol" unfolding protocol_def by (rule run_ok_applyProtocol [OF settled(1)])
  ultimately have "noWork (deliver reg protocol e x) t" "finalThread (deliver reg protocol e x) t (thr_state r)" for x
    by (simp_all add: noWork_deliver finalThread_deliver)
  then show ?thesis
    using assms(2,3) by (auto simp: foldEvent_def Let_def atPeace_def simp flip: settled_def protocol_def)
qed

text \<open>A batch that cancels a thread leaves it at peace, whatever else of its kind is in the batch.\<close>

lemma atPeace_foldRun:
  assumes "run_ok s" and "atPeace s t" and "\<forall>e \<in> set es. List.member cancelTypes (ev_type e)"
  shows "atPeace (foldRun reg s es) t"
  using assms by (induction es arbitrary: s) (simp_all add: atPeace_foldEvent run_ok_foldEvent)

lemma cancel_batch_settles:
  assumes "run_ok s" and "statusOf s t = Some status" and "\<not> isTerminalStatus status"
    and "\<forall>e \<in> set es. List.member cancelTypes (ev_type e) \<and> ev_type e \<noteq> ''runtime.wait.satisfied''
           \<and> \<not> ev_ephemeral e"
    and "\<exists>e \<in> set es. ev_type e = ''runtime.thread.cancelled'' \<and> payloadThreadId e = Some t"
  shows "atPeace (foldRun reg s es) t"
  using assms
proof (induction es arbitrary: s)
  case (Cons e es)
  show ?case
  proof (cases "ev_type e = ''runtime.thread.cancelled'' \<and> payloadThreadId e = Some t")
    case True
    then have "atPeace (foldEvent reg s e) t"
      using Cons.prems by (intro threadCancelled_atPeace) auto
    then show ?thesis
      using Cons.prems by (simp add: atPeace_foldRun run_ok_foldEvent)
  next
    case False
    then have "statusOf (foldEvent reg s e) t = Some status"
      using Cons.prems cancelTypes_status [of s e t reg] by auto
    then show ?thesis
      using Cons.IH [of "foldEvent reg s e"] Cons.prems False by (auto simp: run_ok_foldEvent)
  qed
qed simp

section \<open>What a cancellation leaves\<close>

lemma processedKeys_frame [simp]:
  "rs_processedIdempotencyKeys (deliver reg s e x) = rs_processedIdempotencyKeys s"
  "rs_processedIdempotencyKeys (settleEffect s e) = rs_processedIdempotencyKeys s"
  "rs_processedIdempotencyKeys (adoptRunId s e) = rs_processedIdempotencyKeys s"
  by (simp_all add: deliver_def Let_def putThread_def reconcileEffects_def forgetCompletedEffects_def
      settleEffect_def completeEffect_def adoptRunId_def split: option.split)

lemma processedKeys_protocol:
  assumes "List.member cancelTypes (ev_type e)"
  shows "rs_processedIdempotencyKeys (applyProtocol reg s e) = rs_processedIdempotencyKeys s"
proof -
  have race: "rs_processedIdempotencyKeys (removeRace s q) = rs_processedIdempotencyKeys s" for s q
    unfolding removeRace_def
    by (rule foldl_invariant [where I = "\<lambda>x. rs_processedIdempotencyKeys x = rs_processedIdempotencyKeys s"])
       (simp_all add: removeWait_def)
  consider "ev_type e = ''runtime.effect.cancelled''" | "ev_type e = ''runtime.effect.cancel.requested''"
    | "ev_type e = ''runtime.thread.cancelled''" | "ev_type e = ''runtime.wait.satisfied''"
    using assms by (auto simp: cancelTypes_def)
  then show ?thesis
    by cases (simp_all add: applyProtocol_def progressTypes_def effectCancelled_def completeEffect_def
        executionProgress_def putExecution_def threadCancelled_def dropThreadWork_def putThread_def
        waitSatisfied_def race removeWait_def Let_def split: option.split)
qed

lemma processedKeys_foldRun:
  assumes "\<forall>e \<in> set es. List.member cancelTypes (ev_type e) \<and> \<not> ev_ephemeral e"
  shows "set (rs_processedIdempotencyKeys s) \<subseteq> set (rs_processedIdempotencyKeys (foldRun reg s es))
     \<and> (\<forall>e \<in> set es. \<forall>k. ev_idempotencyKey e = Some k \<longrightarrow> k \<noteq> '''' \<longrightarrow>
          k \<in> set (rs_processedIdempotencyKeys (foldRun reg s es)))"
  using assms
proof (induction es arbitrary: s)
  case (Cons e es)
  have type: "ev_type e \<noteq> ''runtime.effect.failed''" "List.member cancelTypes (ev_type e)" "\<not> ev_ephemeral e"
    using Cons.prems by (auto simp: cancelTypes_def)
  have "rs_processedIdempotencyKeys (foldEvent reg s e)
      = rs_processedIdempotencyKeys (recordIdempotencyKey (settleEffect (adoptRunId s e) e) e)"
    using type by (simp add: foldEvent_def Let_def processedKeys_protocol)
  then have "set (rs_processedIdempotencyKeys s) \<subseteq> set (rs_processedIdempotencyKeys (foldEvent reg s e))
      \<and> (\<forall>k. ev_idempotencyKey e = Some k \<longrightarrow> k \<noteq> '''' \<longrightarrow> k \<in> set (rs_processedIdempotencyKeys (foldEvent reg s e)))"
    by (auto simp: recordIdempotencyKey_def split: option.split)
  then show ?case using Cons.IH [of "foldEvent reg s e"] Cons.prems by (simp, blast)
qed simp

text \<open>The inputs of a cancellation, by the kind of event they become.\<close>

lemma stopEffect_input:
  assumes "stopEffect r key s ts reg w now item = Some i"
  shows "in_type i \<in> {''runtime.effect.cancelled'', ''runtime.effect.cancel.requested''}"
    and "in_ephemeral i = None" and "in_idempotencyKey i = Val key"
  using assms by (auto simp: stopEffect_def effectCancelledInput_def cancelRequestedInput_def split: option.splits if_splits)

lemma stopEffect_inputs:
  "i \<in> set (List.map_filter (stopEffect r key s ts reg w now) items) \<Longrightarrow>
     \<exists>item \<in> set items. stopEffect r key s ts reg w now item = Some i"
  by (induction items) (auto split: option.splits)

lemma satisfied_inputs_quiet:
  assumes "e \<in> set (createEvents st n r (waitSatisfiedEvents s es))"
  shows "satisfiesOnly e"
proof -
  obtain i k where i: "i \<in> set (waitSatisfiedEvents s es)" "e = createEvent (st k) r i 0"
    using createEvents_member [OF assms] by blast
  then obtain e' w where "i = satisfiedInput e' w"
    unfolding waitSatisfiedEvents_def by (blast dest: waitSatisfiedFrom_inputs)
  then show ?thesis by (simp add: i(2) satisfiesOnly_def satisfiedInput_def)
qed

lemma cancelBatch_events:
  assumes "e \<in> set (createEvents st n r (List.map_filter (stopEffect r' key s ts reg w now) items
    @ map (threadCancelledInput key target seq) threads))"
  shows "List.member cancelTypes (ev_type e) \<and> ev_type e \<noteq> ''runtime.wait.satisfied'' \<and> \<not> ev_ephemeral e
    \<and> ev_idempotencyKey e = Some key"
proof -
  obtain i k where i: "i \<in> set (List.map_filter (stopEffect r' key s ts reg w now) items)
      \<union> set (map (threadCancelledInput key target seq) threads)" and e: "e = createEvent (st k) r i 0"
    using createEvents_member [OF assms] by auto
  from i have "(in_type i \<in> {''runtime.effect.cancelled'', ''runtime.effect.cancel.requested''}
        \<or> in_type i = ''runtime.thread.cancelled'') \<and> in_ephemeral i = None \<and> in_idempotencyKey i = Val key"
  proof
    assume "i \<in> set (List.map_filter (stopEffect r' key s ts reg w now) items)"
    then obtain item where stop: "stopEffect r' key s ts reg w now item = Some i" by (blast dest: stopEffect_inputs)
    show ?thesis using stopEffect_input [OF stop] by simp
  next
    assume "i \<in> set (map (threadCancelledInput key target seq) threads)"
    then show ?thesis by (auto simp: threadCancelledInput_def)
  qed
  then show ?thesis by (auto simp: e cancelTypes_def)
qed

lemma createEvents_thread:
  assumes "t \<in> set threads" and "t \<noteq> ''''"
  shows "\<exists>e \<in> set (createEvents st n r (xs @ map (threadCancelledInput key target seq) threads)).
    ev_type e = ''runtime.thread.cancelled'' \<and> payloadThreadId e = Some t"
proof -
  have "threadCancelledInput key target seq t \<in> set (xs @ map (threadCancelledInput key target seq) threads)"
    using assms(1) by simp
  then obtain k where "createEvent (st k) r (threadCancelledInput key target seq t) 0
      \<in> set (createEvents st n r (xs @ map (threadCancelledInput key target seq) threads))"
    using createEvents_mem by blast
  moreover have "payloadThreadId (createEvent (st k) r (threadCancelledInput key target seq t) 0) = Some t"
    using assms(2) by (simp add: threadCancelledInput_def payloadThreadId_def payloadObject_def asObject_def readString_def)
  ultimately show ?thesis by (intro bexI) (simp_all add: threadCancelledInput_def)
qed

text \<open>The threads the walk lists below a target.\<close>

definition threadsBelow :: "run_state \<Rightarrow> string \<Rightarrow> string list" where
  "threadsBelow s target = map thr_threadId
     (filter (\<lambda>q. hasAncestor s target (thr_parentThreadId q)) (dvals (rs_threads s)))"

lemma threadsBelow_walk: "parentRanked s rank \<Longrightarrow> descendantThreadIds s target = Some (threadsBelow s target)"
  unfolding descendantThreadIds_def threadsBelow_def by (rule descendantsAmong_returns)

lemma threadsBelow_mem:
  assumes "run_ok s" and "dget (rs_threads s) t = Some q"
    and "t = target \<or> hasAncestor s target (thr_parentThreadId q)"
  shows "t \<in> set (rev (threadsBelow s target) @ [target])"
proof (cases "t = target")
  case False
  have "q \<in> set (filter (\<lambda>q. hasAncestor s target (thr_parentThreadId q)) (dvals (rs_threads s)))"
    using assms(3) False dget_val [OF assms(2)] by (simp only: set_filter) blast
  moreover have "thr_threadId q = t" by (rule run_ok_threadKey [OF assms(1,2)])
  ultimately show ?thesis unfolding threadsBelow_def by (metis image_eqI set_map set_rev UnI1 set_append)
qed simp

text \<open>
  C26. Cancelling a thread cancels its tree: when parents form no cycle, the plan exists, and folding all
  its events leaves every thread that was live at or below the target over, with no effect and no wait
  left; a second cancel of the same target then plans nothing.
\<close>

theorem planCancellation_settles:
  assumes "run_ok s" and "parentRanked s rank"
    and "target = withDefault (orElse threadId (rs_rootThreadId s)) ''''" and "target \<noteq> ''''"
    and "''cancel:'' @ target \<notin> set (rs_processedIdempotencyKeys s)" and "dget (rs_threads s) '''' = None"
  shows "\<exists>plan. planCancellation st r seq s threadId reg worker now = Some plan
     \<and> (\<forall>t q. dget (rs_threads s) t = Some q \<longrightarrow> \<not> isTerminalStatus (thr_status q) \<longrightarrow>
          t = target \<or> hasAncestor s target (thr_parentThreadId q) \<longrightarrow>
          atPeace (foldRun reg s (cn_events plan)) t)
     \<and> planCancellation st' r seq' (foldRun reg s (cn_events plan)) (Some target) reg worker now'
         = Some emptyCancellation"
proof -
  let ?key = "''cancel:'' @ target"
  define ds where "ds = threadsBelow s target"
  have walk: "descendantThreadIds s target = Some ds" unfolding ds_def by (rule threadsBelow_walk [OF assms(2)])
  define ts where "ts = filter (\<lambda>t. t \<noteq> '''') (rev ds @ [target])"
  define inputs where "inputs = List.map_filter (stopEffect r ?key s (insertionSet (ds @ [target])) reg worker now)
    (rs_outstandingEffects s)"
  define batch where "batch = createEvents st 0 r (inputs @ map (threadCancelledInput ?key target seq) ts)"
  define satisfied where "satisfied = createEvents st (length batch) r (waitSatisfiedEvents (foldRun reg s batch) batch)"
  obtain plan where plan: "planCancellation st r seq s threadId reg worker now = Some plan"
      "cn_events plan = batch @ satisfied"
    using assms(5) walk unfolding planCancellation_def Let_def
    by (simp add: batch_def satisfied_def inputs_def ts_def flip: assms(3))
  have batch: "\<forall>e \<in> set batch. List.member cancelTypes (ev_type e) \<and> ev_type e \<noteq> ''runtime.wait.satisfied''
      \<and> \<not> ev_ephemeral e \<and> ev_idempotencyKey e = Some ?key"
    unfolding batch_def inputs_def using cancelBatch_events by blast
  have quiet: "\<forall>e \<in> set satisfied. List.member cancelTypes (ev_type e) \<and> \<not> ev_ephemeral e"
    unfolding satisfied_def using satisfied_inputs_quiet by (fastforce simp: satisfiesOnly_def cancelTypes_def)
  have "atPeace (foldRun reg s (cn_events plan)) t"
    if q: "dget (rs_threads s) t = Some q" "\<not> isTerminalStatus (thr_status q)"
      and below: "t = target \<or> hasAncestor s target (thr_parentThreadId q)" for t q
  proof -
    have "t \<noteq> ''''" using q(1) assms(6) by auto
    moreover have "t \<in> set ts"
      using threadsBelow_mem [OF assms(1) q(1) below] \<open>t \<noteq> ''''\<close> by (auto simp: ts_def ds_def)
    ultimately have "\<exists>e \<in> set batch. ev_type e = ''runtime.thread.cancelled'' \<and> payloadThreadId e = Some t"
      unfolding batch_def by (intro createEvents_thread)
    then have "atPeace (foldRun reg s batch) t"
      using assms(1) q batch by (intro cancel_batch_settles [where status = "thr_status q"]) (simp_all add: statusOf_def)
    moreover have "run_ok (foldRun reg s batch)"
      using foldl_invariant [of run_ok s batch "foldEvent reg"] assms(1) by (simp add: foldRun_def run_ok_foldEvent)
    ultimately show ?thesis using quiet by (simp add: plan(2) atPeace_foldRun)
  qed
  moreover have "?key \<in> set (rs_processedIdempotencyKeys (foldRun reg s (cn_events plan)))"
  proof -
    have "target \<in> set ts" using assms(4) by (simp add: ts_def)
    then obtain e where "e \<in> set batch"
      using createEvents_thread [of target ts st 0 r inputs ?key target seq] assms(4) batch_def by blast
    moreover have "\<forall>e \<in> set (cn_events plan). List.member cancelTypes (ev_type e) \<and> \<not> ev_ephemeral e"
      using batch quiet by (auto simp: plan(2))
    ultimately show ?thesis
      using processedKeys_foldRun [THEN conjunct2, rule_format, of "cn_events plan" e ?key reg s] batch
      by (simp add: plan(2))
  qed
  then have "planCancellation st' r seq' (foldRun reg s (cn_events plan)) (Some target) reg worker now'
      = Some emptyCancellation"
    by (simp add: planCancellation_def)
  ultimately show ?thesis using plan(1) by blast
qed

lemma planCancellation_settles_witness:
  "\<exists>plan. planCancellation (\<lambda>n. (''e'', 0)) ''r'' 4 sampleTree (Some ''a'') sampleRegistry None 9 = Some plan
     \<and> atPeace (foldRun sampleRegistry sampleTree (cn_events plan)) ''b''"
proof -
  have ok: "run_ok sampleTree"
    by (simp add: run_ok_def sampleTree_def emptyRunState_def keyed_def sampleThread_def outstandingIds_def)
  have rank: "parentRanked sampleTree (\<lambda>t. if t = ''b'' then 1 else 0)"
    by (auto simp: parentRanked_def sampleTree_def sampleThread_def split: if_splits)
  have fresh: "''cancel:'' @ ''a'' \<notin> set (rs_processedIdempotencyKeys sampleTree)"
    by (simp add: sampleTree_def emptyRunState_def)
  have unnamed: "dget (rs_threads sampleTree) '''' = None" by (simp add: sampleTree_def)
  have target: "''a'' = withDefault (orElse (Some ''a'') (rs_rootThreadId sampleTree)) ''''" by simp
  obtain plan where plan: "planCancellation (\<lambda>n. (''e'', 0)) ''r'' 4 sampleTree (Some ''a'') sampleRegistry None 9 = Some plan"
    and settles: "\<forall>t q. dget (rs_threads sampleTree) t = Some q \<longrightarrow> \<not> isTerminalStatus (thr_status q) \<longrightarrow>
      t = ''a'' \<or> hasAncestor sampleTree ''a'' (thr_parentThreadId q) \<longrightarrow>
      atPeace (foldRun sampleRegistry sampleTree (cn_events plan)) t"
    using planCancellation_settles [OF ok rank target _ fresh unnamed, of "\<lambda>n. (''e'', 0)" "''r''" 4 sampleRegistry None 9
        "\<lambda>n. (''e'', 0)" 4 9] by auto
  have "dget (rs_threads sampleTree) ''b'' = Some (sampleThread ''b'' (Some ''a''))" by (simp add: sampleTree_def)
  moreover have "hasAncestor sampleTree ''a'' (thr_parentThreadId (sampleThread ''b'' (Some ''a'')))"
    by (simp add: sampleThread_def hasAncestor.here)
  ultimately have "atPeace (foldRun sampleRegistry sampleTree (cn_events plan)) ''b''"
    using settles by (simp add: sampleThread_def)
  with plan show ?thesis by blast
qed

section \<open>Attempts of cancelled effects\<close>

lemma quiet_executions:
  assumes "ev_type e = ''runtime.thread.cancelled'' \<or> ev_type e = ''runtime.wait.satisfied''"
    and "ev_effectId e = None" and "\<not> ev_ephemeral e"
  shows "rs_effectExecutions (foldEvent reg s e) = rs_effectExecutions s"
proof -
  have race: "rs_effectExecutions (removeRace s q) = rs_effectExecutions s" for s q
    unfolding removeRace_def
    by (rule foldl_invariant [where I = "\<lambda>x. rs_effectExecutions x = rs_effectExecutions s"]) simp_all
  have satisfied: "rs_effectExecutions (waitSatisfied s e) = rs_effectExecutions s" for s
    by (simp add: waitSatisfied_def race Let_def split: option.split)
  have cancelled: "rs_effectExecutions (threadCancelled s e) = rs_effectExecutions s" for s
    by (simp add: threadCancelled_def split: option.split)
  from assms(1) show ?thesis
    by (elim disjE) (use assms(2,3) in \<open>simp_all add: foldEvent_executions settleEffect_def applyProtocol_def
        progressTypes_def satisfied cancelled\<close>)
qed

lemma quiet_executions_foldRun:
  assumes "\<forall>e \<in> set es. (ev_type e = ''runtime.thread.cancelled'' \<or> ev_type e = ''runtime.wait.satisfied'')
    \<and> ev_effectId e = None \<and> \<not> ev_ephemeral e"
  shows "rs_effectExecutions (foldRun reg s es) = rs_effectExecutions s"
  using assms by (induction es arbitrary: s) (simp_all add: quiet_executions)

text \<open>The execution an effect is left with, by the execution it had.\<close>

definition stopsAttempt :: "number option \<Rightarrow> effect_execution \<Rightarrow> effect_execution option \<Rightarrow> bool" where
  "stopsAttempt deadline ex after \<longleftrightarrow>
     (if List.member [RetryWait, DispatchWait] (ex_status ex) then after = None
      else case after of None \<Rightarrow> False
        | Some x \<Rightarrow> ex_status x = CancelRequested \<and> ex_attempt x = ex_attempt ex \<and> ex_deadlineAt x = deadline)"

definition stopDeadline :: "registry \<Rightarrow> number \<Rightarrow> outstanding_effect \<Rightarrow> number option" where
  "stopDeadline reg now item = map_option (\<lambda>t. now + t)
     (nonZero (Option.bind (effectRetryPolicy reg (oe_effect item)) rp_cancellationTimeoutMs))"

lemma stopEffect_executions:
  assumes "stopEffect r key s0 ts reg w now item = Some i" and "executionOf s0 item = Some ex"
    and "oe_effectId item \<noteq> ''''"
  shows "stopsAttempt (stopDeadline reg now item) ex (dget (rs_effectExecutions
        (foldEvent reg s (createEvent stamp r' i 0))) (oe_effectId item))
     \<and> (\<forall>k. k \<noteq> oe_effectId item \<longrightarrow>
          dget (rs_effectExecutions (foldEvent reg s (createEvent stamp r' i 0))) k = dget (rs_effectExecutions s) k)"
proof (cases "List.member [RetryWait, DispatchWait] (ex_status ex)")
  case True
  then have i: "i = effectCancelledInput key item ex"
    using assms(1,2) by (auto simp: stopEffect_def split: if_splits)
  let ?e = "createEvent stamp r' (effectCancelledInput key item ex) 0"
  have "rs_effectExecutions (foldEvent reg s ?e)
      = ddel (oe_effectId item) (ddel (oe_effectId item) (rs_effectExecutions s))"
    using assms(3) by (simp add: foldEvent_executions effectCancelledInput_def settleEffect_executions
        applyProtocol_def progressTypes_def effectCancelled_def payloadEffectId_def payloadObject_def
        asObject_def readString_def settleEffect_def Let_def)
  then show ?thesis using True by (simp add: i stopsAttempt_def)
next
  case False
  then have i: "i = cancelRequestedInput key (stopDeadline reg now item) item ex"
    using assms(1,2) by (auto simp: stopEffect_def stopDeadline_def split: if_splits)
  let ?e = "createEvent stamp r' i 0"
  have attempt: "payloadAttempt ?e = Some (oe_effectId item, ex_attempt ex)"
    using assms(3) by (intro attempt_fields) (simp_all add: i cancelRequestedInput_def payloadObject_def asObject_def)
  have type: "ev_type ?e = ''runtime.effect.cancel.requested''" "\<not> ev_ephemeral ?e" "ev_effectId ?e = None"
    by (simp_all add: i cancelRequestedInput_def)
  have deadline: "readNumber (payloadObject ?e) ''deadlineAt'' = stopDeadline reg now item"
    by (simp add: i cancelRequestedInput_def payloadObject_def asObject_def readNumber_def numberOrNull_def split: option.split)
  obtain x where x: "ex_attempt x = ex_attempt ex"
      "rs_effectExecutions (foldEvent reg s ?e) = dput (oe_effectId item) x (rs_effectExecutions s)"
    using progress_executions [OF attempt type(2,3), of reg s] type(1) by (auto simp: progressTypes_def)
  have "ex_status x = CancelRequested \<and> ex_deadlineAt x = stopDeadline reg now item"
    using progress_deadline [OF attempt type(2,3), of reg s] type(1) x(2) deadline
    by (simp add: progressTypes_def executionStatusOf_def)
  then show ?thesis using False x by (simp add: stopsAttempt_def)
qed

lemma stopEffects_executions:
  assumes "distinct (map oe_effectId items)" and "\<forall>item \<in> set items. oe_effectId item \<noteq> ''''"
  shows "(\<forall>item \<in> set items. \<forall>i. stopEffect r key s0 ts reg w now item = Some i \<longrightarrow>
        (\<exists>ex. executionOf s0 item = Some ex \<and> stopsAttempt (stopDeadline reg now item) ex
           (dget (rs_effectExecutions (foldRun reg s (createEvents st n r' (List.map_filter
             (stopEffect r key s0 ts reg w now) items)))) (oe_effectId item))))
    \<and> (\<forall>k. k \<notin> oe_effectId ` set items \<longrightarrow> dget (rs_effectExecutions (foldRun reg s (createEvents st n r'
        (List.map_filter (stopEffect r key s0 ts reg w now) items)))) k = dget (rs_effectExecutions s) k)"
  using assms
proof (induction items arbitrary: n s)
  case (Cons item items)
  have fresh: "oe_effectId item \<notin> oe_effectId ` set items" "oe_effectId item \<noteq> ''''" using Cons.prems by auto
  show ?case
  proof (cases "stopEffect r key s0 ts reg w now item")
    case None
    then show ?thesis using Cons.IH [of s n] Cons.prems by simp
  next
    case (Some i)
    then obtain ex where ex: "executionOf s0 item = Some ex" by (auto simp: stopEffect_def split: option.splits)
    let ?s = "foldEvent reg s (createEvent (st n) r' i 0)"
    note one = stopEffect_executions [OF Some ex fresh(2), where s = s and stamp = "st n" and r' = r']
    have tail: "distinct (map oe_effectId items)" "\<forall>item \<in> set items. oe_effectId item \<noteq> ''''" using Cons.prems by auto
    note rest = Cons.IH [OF tail, of ?s "Suc n"]
    show ?thesis
    proof (intro conjI ballI allI impI)
      fix x j assume x: "x \<in> set (item # items)" and j: "stopEffect r key s0 ts reg w now x = Some j"
      show "\<exists>ex. executionOf s0 x = Some ex \<and> stopsAttempt (stopDeadline reg now x) ex
          (dget (rs_effectExecutions (foldRun reg s (createEvents st n r' (List.map_filter
            (stopEffect r key s0 ts reg w now) (item # items))))) (oe_effectId x))"
      proof (cases "x = item")
        case True
        then show ?thesis using one rest fresh(1) ex Some by simp
      next
        case False
        then show ?thesis using rest x j Some by simp
      qed
    next
      fix k assume "k \<notin> oe_effectId ` set (item # items)"
      then show "dget (rs_effectExecutions (foldRun reg s (createEvents st n r'
          (List.map_filter (stopEffect r key s0 ts reg w now) (item # items))))) k = dget (rs_effectExecutions s) k"
        using rest one Some by simp
    qed
  qed
qed simp

lemma stopEffects_untouched:
  assumes "oe_effectId item \<notin> oe_effectId ` set items" and "distinct (map oe_effectId items)"
    and "\<forall>item \<in> set items. oe_effectId item \<noteq> ''''"
  shows "dget (rs_effectExecutions (foldRun reg s (createEvents st n r'
      (List.map_filter (stopEffect r key s0 ts reg worker now) items)))) (oe_effectId item)
      = dget (rs_effectExecutions s) (oe_effectId item)"
  using stopEffects_executions [OF assms(2,3), of r key s0 ts reg worker now s st n r'] assms(1) by blast



section \<open>Closing a run that waits for its children\<close>

lemma childSettled_removes:
  assumes "ev_type e = ''runtime.child.settled''" and "\<not> ev_ephemeral e" and "ev_effectId e = None"
    and "readString (payloadObject e) ''runId'' = Some child" and "child \<noteq> ''''"
  shows "rs_launchedRuns (foldEvent reg s e) = filter (\<lambda>c. lr_runId c \<noteq> child) (rs_launchedRuns s)"
proof -
  have "rs_launchedRuns (deliver reg s e x) = rs_launchedRuns s"
    and "rs_launchedRuns (adoptRunId s e) = rs_launchedRuns s"
    and "rs_launchedRuns (recordIdempotencyKey s e) = rs_launchedRuns s" for s e x
    by (simp_all add: deliver_def Let_def reconcileEffects_def forgetCompletedEffects_def adoptRunId_def
        recordIdempotencyKey_def split: option.split)
  then show ?thesis
    using assms by (simp add: foldEvent_def Let_def settleEffect_def applyProtocol_def progressTypes_def childSettled_def)
qed

text \<open>
  What a child tells its parent closes the parent: the event a terminal run signals to the run that
  launched it removes that child from the parent's launched runs and no other; and once a parent that
  asked to close by waiting has no such child left, folding the cancellations it then plans leaves
  every live thread at or below its root at peace.
\<close>

theorem child_close_completes:
  assumes "run_ok s" and "parentRanked s rank" and "dget (rs_threads s) '''' = None"
    and "rs_closeWaiting s" and "waitingChildren s = []" and "rs_rootThreadId s = Some rootId"
    and "isLive s rootId"
    and "notifyLaunchingParent child childState = Some (parent, input, key)" and "child \<noteq> ''''"
  shows "rs_launchedRuns (foldEvent reg p (createEvent stamp parent input 0))
           = filter (\<lambda>c. lr_runId c \<noteq> child) (rs_launchedRuns p)
     \<and> (\<exists>inputs. childCloseCancellations s = Some inputs \<and>
          (\<forall>t q. dget (rs_threads s) t = Some q \<longrightarrow> \<not> isTerminalStatus (thr_status q) \<longrightarrow>
             t = rootId \<or> hasAncestor s rootId (thr_parentThreadId q) \<longrightarrow>
             atPeace (foldRun reg s (createEvents st n r inputs)) t))"
proof (rule conjI)
  have input: "in_type input = ''runtime.child.settled''" "in_ephemeral input = None" "in_effectId input = Undefined"
      "readString (asObject (in_payload input)) ''runId'' = Some child"
    using assms(8) by (auto simp: notifyLaunchingParent_def Let_def asObject_def readString_def split: option.splits if_splits)
  then show "rs_launchedRuns (foldEvent reg p (createEvent stamp parent input 0))
      = filter (\<lambda>c. lr_runId c \<noteq> child) (rs_launchedRuns p)"
    using assms(9) by (intro childSettled_removes) (simp_all add: payloadObject_def)
  define ds where "ds = threadsBelow s rootId"
  define inputs where "inputs = map cancelInput (filter (isLive s) (rev ds @ [rootId]))"
  have "rootId \<noteq> ''''" using assms(3,7) by (auto simp: isLive_def)
  moreover have "descendantThreadIds s rootId = Some ds" unfolding ds_def by (rule threadsBelow_walk [OF assms(2)])
  ultimately have "childCloseCancellations s = Some inputs"
    using assms(4-7) by (simp add: childCloseCancellations_def inputs_def)
  moreover have "atPeace (foldRun reg s (createEvents st n r inputs)) t"
    if q: "dget (rs_threads s) t = Some q" "\<not> isTerminalStatus (thr_status q)"
      and below: "t = rootId \<or> hasAncestor s rootId (thr_parentThreadId q)" for t q
  proof -
    have t: "t \<noteq> ''''" "isLive s t" using q assms(3) by (auto simp: isLive_def)
    have "t \<in> set (rev ds @ [rootId])" unfolding ds_def by (rule threadsBelow_mem [OF assms(1) q(1) below])
    then have "cancelInput t \<in> set inputs"
      using t(2) unfolding inputs_def set_map set_filter by (intro imageI CollectI conjI)
    then obtain k where "createEvent (st k) r (cancelInput t) 0 \<in> set (createEvents st n r inputs)"
      using createEvents_mem by blast
    moreover have "payloadThreadId (createEvent (st k) r (cancelInput t) 0) = Some t"
      using t(1) by (simp add: cancelInput_def payloadThreadId_def payloadObject_def asObject_def readString_def)
    ultimately have "\<exists>e \<in> set (createEvents st n r inputs). ev_type e = ''runtime.thread.cancelled'' \<and> payloadThreadId e = Some t"
      by (intro bexI) (simp_all add: cancelInput_def)
    moreover have "List.member cancelTypes (ev_type e) \<and> ev_type e \<noteq> ''runtime.wait.satisfied'' \<and> \<not> ev_ephemeral e"
      if "e \<in> set (createEvents st n r inputs)" for e
      using createEvents_member [OF that] by (auto simp: inputs_def cancelInput_def cancelTypes_def)
    ultimately show ?thesis
      using q by (intro cancel_batch_settles [OF assms(1), of t "thr_status q"]) (simp_all add: statusOf_def)
  qed
  ultimately show "\<exists>inputs. childCloseCancellations s = Some inputs \<and>
      (\<forall>t q. dget (rs_threads s) t = Some q \<longrightarrow> \<not> isTerminalStatus (thr_status q) \<longrightarrow>
         t = rootId \<or> hasAncestor s rootId (thr_parentThreadId q) \<longrightarrow>
         atPeace (foldRun reg s (createEvents st n r inputs)) t)" by blast
qed

definition sampleChild :: run_state where
  "sampleChild = (emptyRunState ''c'')\<lparr>rs_status := RunCompleted, rs_startIdentity := Some
     \<lparr>si_kind = ''workflow'', si_definitionName = ''d'', si_definitionVersion = ''1'', si_input = JNull,
      si_requestedThreadId = None, si_idempotencyKey = None, si_rootThreadId = ''x'',
      si_launchedBy = Some \<lparr>ls_runId = ''r'', ls_threadId = ''a'', ls_effectId = ''a:k'',
        ls_causationId = ''e'', ls_causationSeq = 1\<rparr>,
      si_correlationId = None, si_attributes = [], si_trace = None\<rparr>\<rparr>"

lemma child_close_completes_witness:
  "\<exists>inputs. childCloseCancellations (sampleTree\<lparr>rs_closeWaiting := True, rs_rootThreadId := Some ''a''\<rparr>) = Some inputs
     \<and> atPeace (foldRun sampleRegistry (sampleTree\<lparr>rs_closeWaiting := True, rs_rootThreadId := Some ''a''\<rparr>)
          (createEvents (\<lambda>n. (''e'', 0)) 0 ''r'' inputs)) ''a''"
proof -
  let ?s = "sampleTree\<lparr>rs_closeWaiting := True, rs_rootThreadId := Some ''a''\<rparr>"
  have ok: "run_ok ?s"
    by (simp add: run_ok_def sampleTree_def emptyRunState_def keyed_def sampleThread_def outstandingIds_def)
  have rank: "parentRanked ?s (\<lambda>t. if t = ''b'' then 1 else 0)"
    by (auto simp: parentRanked_def sampleTree_def sampleThread_def split: if_splits)
  have live: "isLive ?s ''a''" by (simp add: isLive_def sampleTree_def sampleThread_def)
  have root: "dget (rs_threads ?s) ''a'' = Some (sampleThread ''a'' None)" by (simp add: sampleTree_def)
  obtain parent input key where told: "notifyLaunchingParent ''c'' sampleChild = Some (parent, input, key)"
    by (simp add: notifyLaunchingParent_def sampleChild_def Let_def)
  have "dget (rs_threads ?s) '''' = None" "rs_closeWaiting ?s" "waitingChildren ?s = []" "rs_rootThreadId ?s = Some ''a''"
    by (simp_all add: sampleTree_def waitingChildren_def emptyRunState_def)
  from child_close_completes [OF ok rank this live told, THEN conjunct2] root
  show ?thesis by (fastforce simp: sampleThread_def)
qed

end
