(* ===== verification/Local_Effects.thy ===== *)
theory Local_Effects
  imports Cancellation "HOL-Library.Sublist"
begin

text \<open>
  \<open>packages/runtime/src/dispatch-effect.ts\<close> and \<open>local-effect-executor.ts\<close>: how the host runs the
  outstanding effects of one round of a wake. Effects that the same event of a thread caused form a
  group; groups run side by side, the effects of a group one after the other.

  Handlers, middleware, the definition resolver, input schemas and the launcher are code of the host:
  fields of \<open>local_host\<close>. A cause a handler raised is an \<open>effect_failure\<close>: its message and, when it was an
  \<open>EffectFailure\<close>, whether it may be retried and after how long. Every group draws its event ids and times
  from a supply of its own.
\<close>

section \<open>The host\<close>

record launch_args =
  la_runId :: string
    \<comment> \<open>after \<open>args.runId ?? createRunId()\<close>\<close>
  la_kind :: string
  la_definitionName :: string
  la_definitionVersion :: "string option"
  la_close :: "child_close option"

text \<open>The launches the target accepted while an effect ran, and what the effect came to.\<close>

type_synonym dispatched = "launch_args list \<times> (effect_failure + event_input list)"

datatype interruption = NotInterrupted | InterruptedByAbort | InterruptedByTimeout

text \<open>A resolved definition, with the validation of its input when it has a schema.\<close>

record resolved_definition =
  rd_validate :: "(json \<Rightarrow> string + json) option"

record 'c local_host =
  lh_registry :: registry
  lh_hooks :: "(runtime_effect \<Rightarrow> 'c \<Rightarrow> effect_failure option) list"
  lh_context :: "outstanding_effect \<Rightarrow> number \<Rightarrow> 'c"
  lh_resolve :: "string \<Rightarrow> string \<Rightarrow> string \<Rightarrow> effect_failure + resolved_definition option"
  lh_launch :: "launch_args \<Rightarrow> effect_failure option"
  lh_cancelRun :: "string \<Rightarrow> effect_failure option"
  lh_execute :: "runtime_effect \<Rightarrow> string \<Rightarrow> dispatched"
    \<comment> \<open>the handler of an effect and the effect id of its context\<close>
  lh_middleware :: "(runtime_effect \<Rightarrow> (runtime_effect \<Rightarrow> dispatched) \<Rightarrow> dispatched) list"
  lh_validate :: "event_input \<Rightarrow> string + event_input"
  lh_interrupt :: "outstanding_effect \<Rightarrow> interruption"
  lh_correlationId :: string

definition plainFailure :: "string \<Rightarrow> effect_failure" where
  "plainFailure message = \<lparr>ef_error = message, ef_nonRetryable = False, ef_retryAfterMs = None\<rparr>"

section \<open>Dispatching one effect\<close>

definition failedAttempt :: "string \<Rightarrow> string \<Rightarrow> effect_failure \<Rightarrow> event_input" where
  "failedAttempt effectId threadId f =
     (eventInput ''runtime.effect.failed'' (JObj
        ([(''effectId'', JStr effectId), (''error'', JStr (ef_error f))]
         @ (if ef_nonRetryable f then [(''nonRetryable'', JBool True)] else [])
         @ optField ''retryAfterMs'' JNum (ef_retryAfterMs f))))
     \<lparr>in_threadId := Val threadId\<rparr>"

definition unknownDefinition :: "string \<Rightarrow> string \<Rightarrow> string \<Rightarrow> effect_failure" where
  "unknownDefinition kind name version = plainFailure (''Unknown definition '' @ kind @ '':'' @ name @ ''@'' @ version)"

text \<open>
  A thread starts with the validated input; when the input does not validate it starts with what it was
  given and fails at once.
\<close>

definition threadStartedInput ::
  "string \<Rightarrow> string \<Rightarrow> string \<Rightarrow> json \<Rightarrow> string \<Rightarrow> string option \<Rightarrow> event_input" where
  "threadStartedInput kind name version input threadId parent =
     (eventInput ''runtime.thread.started'' (JObj
        [(''threadId'', JStr threadId), (''kind'', JStr kind), (''definitionName'', JStr name),
         (''definitionVersion'', JStr version), (''input'', input),
         (''parentThreadId'', case parent of None \<Rightarrow> JNull | Some p \<Rightarrow> JStr p)]))
     \<lparr>in_threadId := Val threadId, in_parentThreadId := (case parent of None \<Rightarrow> Null | Some p \<Rightarrow> Val p)\<rparr>"

definition threadFailedInput :: "string \<Rightarrow> string \<Rightarrow> event_input" where
  "threadFailedInput threadId error =
     (eventInput ''runtime.thread.failed'' (JObj [(''threadId'', JStr threadId), (''error'', JStr error)]))
     \<lparr>in_threadId := Val threadId\<rparr>"

definition threadStartedEvents ::
  "(string \<Rightarrow> string \<Rightarrow> string \<Rightarrow> effect_failure + resolved_definition option) \<Rightarrow>
     string \<Rightarrow> string \<Rightarrow> string \<Rightarrow> json \<Rightarrow> string \<Rightarrow> string option \<Rightarrow> effect_failure + event_input list" where
  "threadStartedEvents resolve kind name version input threadId parent =
     (case resolve kind name version of
        Inl f \<Rightarrow> Inl f
      | Inr None \<Rightarrow> Inl (unknownDefinition kind name version)
      | Inr (Some d) \<Rightarrow>
          (case rd_validate d of
             None \<Rightarrow> Inr [threadStartedInput kind name version input threadId parent]
           | Some validate \<Rightarrow>
               (case validate input of
                  Inr v \<Rightarrow> Inr [threadStartedInput kind name version v threadId parent]
                | Inl e \<Rightarrow>
                    Inr (threadStartedInput kind name version input threadId parent
                      # (if e = '''' then [] else [threadFailedInput threadId e])))))"

definition waitRegisteredInputs :: "string \<Rightarrow> string \<Rightarrow> wait_condition \<Rightarrow> json option \<Rightarrow> event_input list" where
  "waitRegisteredInputs threadId waitId on tag =
     (eventInput ''runtime.wait.registered'' (JObj
        [(''waitId'', JStr waitId), (''threadId'', JStr threadId), (''on'', waitJson on),
         (''tag'', withDefault tag JNull)]))\<lparr>in_threadId := Val threadId\<rparr>
     # (case timerAt on of
          None \<Rightarrow> []
        | Some wakeAt \<Rightarrow> [(eventInput ''runtime.timer.set'' (JObj
            [(''timerId'', JStr waitId), (''waitId'', JStr waitId), (''wakeAt'', JNum wakeAt)]))\<lparr>in_threadId := Val threadId\<rparr>])"

text \<open>\<open>baseDispatch\<close>. The effect may be one that middleware put in the place of the outstanding one.\<close>

definition invokeHandler :: "('c, 'd) local_host_scheme \<Rightarrow> string \<Rightarrow> string \<Rightarrow> runtime_effect \<Rightarrow> dispatched" where
  "invokeHandler host effectId threadId e =
     (case dget (rg_effects (lh_registry host)) (effectType e) of
        None \<Rightarrow> ([], Inr [failedAttempt effectId threadId (plainFailure (''No handler for '' @ effectType e))])
      | Some d \<Rightarrow>
          if ed_placement d \<noteq> PlacedLocal
          then ([], Inr [failedAttempt effectId threadId
                 ((plainFailure (effectType e @ '' is worker-placed; the host cannot run it''))\<lparr>ef_nonRetryable := True\<rparr>)])
          else (case lh_execute host e effectId of
                  (launches, Inl f) \<Rightarrow> (launches, Inr [failedAttempt effectId threadId f])
                | result \<Rightarrow> result))"

definition baseDispatch :: "('c, 'd) local_host_scheme \<Rightarrow> string \<Rightarrow> string \<Rightarrow> runtime_effect \<Rightarrow> dispatched" where
  "baseDispatch host effectId threadId e = (case e of
     SpawnEffect child kind name version input \<Rightarrow>
       ([], threadStartedEvents (lh_resolve host) kind name version input child (Some threadId))
   | WaitEffect waitId on tag \<Rightarrow> ([], Inr (waitRegisteredInputs threadId waitId on tag))
   | EmitEffect event _ \<Rightarrow> ([], Inr [event])
   | CompleteEffect out \<Rightarrow>
       ([], Inr [(eventInput ''runtime.thread.completed'' (JObj [(''threadId'', JStr threadId), (''output'', out)]))
                 \<lparr>in_threadId := Val threadId\<rparr>])
   | FailEffect error \<Rightarrow> ([], Inr [threadFailedInput threadId error])
   | CancelEffect target _ \<Rightarrow>
       ([], Inr [(eventInput ''runtime.thread.cancelled'' (JObj [(''threadId'', JStr target), (''reason'', JStr ''cancelled'')]))
                 \<lparr>in_threadId := Val target\<rparr>])
   | LaunchEffect r kind name version input close _ \<Rightarrow>
       (let args = \<lparr>la_runId = r, la_kind = kind, la_definitionName = name, la_definitionVersion = Some version,
              la_close = Some close\<rparr>
        in case lh_launch host args of None \<Rightarrow> ([args], Inr []) | Some f \<Rightarrow> ([], Inl f))
   | CancelRunEffect r _ \<Rightarrow> (case lh_cancelRun host r of None \<Rightarrow> ([], Inr []) | Some f \<Rightarrow> ([], Inl f))
   | InvokeEffect _ _ _ _ \<Rightarrow> invokeHandler host effectId threadId e)"

definition dispatchEffect :: "('c, 'd) local_host_scheme \<Rightarrow> outstanding_effect \<Rightarrow> dispatched" where
  "dispatchEffect host item =
     (let base = baseDispatch host (oe_effectId item) (oe_threadId item) in
      if lh_middleware host = [] then base (oe_effect item)
      else (case foldr (\<lambda>mw next_step e. mw e next_step) (lh_middleware host) base (oe_effect item) of
              (launches, Inl f) \<Rightarrow> (launches, Inr [failedAttempt (oe_effectId item) (oe_threadId item) f])
            | result \<Rightarrow> result))"

section \<open>Running a group\<close>

definition launchedInput :: "('c, 'd) local_host_scheme \<Rightarrow> outstanding_effect \<Rightarrow> launch_args \<Rightarrow> event_input" where
  "launchedInput host item args =
     (eventInput ''runtime.run.launched'' (JObj
        ([(''runId'', JStr (la_runId args)), (''kind'', JStr (la_kind args)),
          (''definitionName'', JStr (la_definitionName args)),
          (''definitionVersion'', JStr (withDefault (la_definitionVersion args) defaultDefinitionVersion)),
          (''effectId'', JStr (oe_effectId item))]
         @ optField ''close'' (\<lambda>c. JStr (closeName c)) (la_close args))))
     \<lparr>in_threadId := Val (oe_threadId item), in_causationId := Val (oe_causingEventId item),
      in_correlationId := Val (lh_correlationId host), in_origin := Some (OriginThread (oe_threadId item))\<rparr>"

definition timedOutInput :: "outstanding_effect \<Rightarrow> number \<Rightarrow> event_input" where
  "timedOutInput item attempt =
     (eventInput ''runtime.effect.timed_out'' (JObj
        [(''effectId'', JStr (oe_effectId item)), (''attempt'', JNum attempt), (''timeout'', JStr ''start-to-close'')]))
     \<lparr>in_threadId := Val (oe_threadId item), in_causationId := Val (oe_causingEventId item), in_origin := Some OriginSystem\<rparr>"

definition completedInput :: "outstanding_effect \<Rightarrow> number \<Rightarrow> event_input" where
  "completedInput item attempt =
     (eventInput ''runtime.effect.completed'' (JObj
        [(''effectId'', JStr (oe_effectId item)), (''attempt'', JNum attempt)]))
     \<lparr>in_threadId := Val (oe_threadId item), in_effectId := Val (oe_effectId item),
      in_causationId := Val (oe_causingEventId item), in_origin := Some OriginSystem\<rparr>"

text \<open>The event of one outcome: the retry of a failure the policy still allows, or the outcome itself.\<close>

definition outcomeEvent ::
  "('c, 'd) local_host_scheme \<Rightarrow> string \<times> number \<Rightarrow> string \<Rightarrow> outstanding_effect \<Rightarrow> number \<Rightarrow> number \<Rightarrow> event_input \<Rightarrow> envelope" where
  "outcomeEvent host stamp runId item attempt now outcome =
     (let payload = asObject (in_payload outcome);
          failure = planAttemptFailure stamp runId item attempt (withDefault (readString payload ''error'') ''effect failed'')
            now (effectRetryPolicy (lh_registry host) (oe_effect item)) OriginSystem
            (dget payload ''nonRetryable'' = Some (JBool True)) (readNumber payload ''retryAfterMs'')
      in if in_type outcome = ''runtime.effect.failed'' \<and> snd failure then fst failure
         else materializeEffectOutcome (lh_validate host) stamp runId item outcome)"

fun attemptOutcomes ::
  "('c, 'd) local_host_scheme \<Rightarrow> stamps \<Rightarrow> nat \<Rightarrow> string \<Rightarrow> outstanding_effect \<Rightarrow> number \<Rightarrow> number \<Rightarrow> event_input list \<Rightarrow>
     envelope list" where
  "attemptOutcomes host st n runId item attempt now [] = []"
| "attemptOutcomes host st n runId item attempt now (x # xs) =
     outcomeEvent host (st n) runId item attempt now x # attemptOutcomes host st (Suc n) runId item attempt now xs"

text \<open>What an attempt came to, given what interrupted it.\<close>

datatype local_attempt = AttemptCompleted "event_input list" | AttemptAborted | AttemptTimedOut

definition settledAttempt ::
  "('c, 'd) local_host_scheme \<Rightarrow> outstanding_effect \<Rightarrow> effect_failure + event_input list \<Rightarrow> effect_failure + local_attempt" where
  "settledAttempt host item outcome =
     (let timeout = nonZero (Option.bind (effectRetryPolicy (lh_registry host) (oe_effect item)) rp_startToCloseTimeoutMs) in
      case lh_interrupt host item of
        InterruptedByAbort \<Rightarrow> Inr AttemptAborted
      | InterruptedByTimeout \<Rightarrow>
          if timeout \<noteq> None then Inr AttemptTimedOut
          else (case outcome of Inl f \<Rightarrow> Inl f | Inr outcomes \<Rightarrow> Inr (AttemptCompleted outcomes))
      | NotInterrupted \<Rightarrow> (case outcome of Inl f \<Rightarrow> Inl f | Inr outcomes \<Rightarrow> Inr (AttemptCompleted outcomes)))"

text \<open>
  One effect of a group: the events so far and the effect that failed, if one did. \<open>Inl\<close> is an error the
  dispatch does not turn into an event; it ends the wake.
\<close>

definition runItem ::
  "('c, 'd) local_host_scheme \<Rightarrow> stamps \<Rightarrow> string \<Rightarrow> (string \<Rightarrow> number) \<Rightarrow> number \<Rightarrow> envelope list \<times> string option \<Rightarrow>
     outstanding_effect \<Rightarrow> effect_failure + envelope list \<times> string option" where
  "runItem host st runId attempts now sofar item =
     (let (produced, failed) = sofar;
          n = length produced;
          attempt = attempts (oe_effectId item);
          retry = effectRetryPolicy (lh_registry host) (oe_effect item)
      in case (if effectType (oe_effect item) = ''runtime.wait'' then failed else None) of
           Some sibling \<Rightarrow>
             Inr (produced @ [createEffectFailedEvent (st n) runId item (withdrawnError sibling) False], failed)
         | None \<Rightarrow>
             (case admitOrFailAttempt (lh_hooks host) (lh_context host item attempt) (st n) runId item attempt now retry of
                Some (event, _, _) \<Rightarrow> Inr (produced @ [event], Some (oe_effectId item))
              | None \<Rightarrow>
                  (let (launches, outcome) = dispatchEffect host item;
                       before = produced @ createEvents st n runId (map (launchedInput host item) launches);
                       m = length before
                   in case settledAttempt host item outcome of
                        Inl f \<Rightarrow> Inl f
                      | Inr AttemptAborted \<Rightarrow> Inr (before, failed)
                      | Inr AttemptTimedOut \<Rightarrow>
                          Inr (before @ [createEvent (st m) runId (timedOutInput item attempt) 0,
                              fst (planAttemptFailure (st (Suc m)) runId item attempt ''start-to-close timeout'' now retry
                                OriginSystem False None)],
                            Some (oe_effectId item))
                      | Inr (AttemptCompleted outcomes) \<Rightarrow>
                          (let settled = (if outcomes = [] then [createEvent (st m) runId (completedInput item attempt) 0]
                                 else attemptOutcomes host st m runId item attempt now outcomes)
                           in Inr (before @ settled,
                                if effectType (oe_effect item) \<noteq> ''runtime.wait''
                                   \<and> list_ex (\<lambda>e. ev_type e = ''runtime.effect.failed'') settled
                                then Some (oe_effectId item) else failed)))))"

fun runItems ::
  "('c, 'd) local_host_scheme \<Rightarrow> stamps \<Rightarrow> string \<Rightarrow> (string \<Rightarrow> number) \<Rightarrow> number \<Rightarrow> envelope list \<times> string option \<Rightarrow>
     outstanding_effect list \<Rightarrow> effect_failure + envelope list \<times> string option" where
  "runItems host st runId attempts now sofar [] = Inr sofar"
| "runItems host st runId attempts now sofar (item # items) =
     (case runItem host st runId attempts now sofar item of
        Inl f \<Rightarrow> Inl f
      | Inr sofar' \<Rightarrow> runItems host st runId attempts now sofar' items)"

definition groupKey :: "outstanding_effect \<Rightarrow> string" where
  "groupKey item = oe_threadId item @ '':'' @ showNat (oe_causingSeq item)"

definition groupItems :: "outstanding_effect list \<Rightarrow> string \<Rightarrow> outstanding_effect list" where
  "groupItems outstanding key = filter (\<lambda>item. groupKey item = key) outstanding"

fun runGroups ::
  "('c, 'd) local_host_scheme \<Rightarrow> (string \<Rightarrow> stamps) \<Rightarrow> string \<Rightarrow> (string \<Rightarrow> number) \<Rightarrow> number \<Rightarrow> outstanding_effect list \<Rightarrow>
     string list \<Rightarrow> effect_failure + envelope list" where
  "runGroups host supply runId attempts now outstanding [] = Inr []"
| "runGroups host supply runId attempts now outstanding (key # keys) =
     (case runItems host (supply key) runId attempts now ([], None) (groupItems outstanding key) of
        Inl f \<Rightarrow> Inl f
      | Inr (produced, _) \<Rightarrow>
          (case runGroups host supply runId attempts now outstanding keys of
             Inl f \<Rightarrow> Inl f | Inr rest \<Rightarrow> Inr (produced @ rest)))"

definition executeLocalEffects ::
  "('c, 'd) local_host_scheme \<Rightarrow> (string \<Rightarrow> stamps) \<Rightarrow> string \<Rightarrow> (string \<Rightarrow> number) \<Rightarrow> number \<Rightarrow> outstanding_effect list \<Rightarrow>
     effect_failure + envelope list" where
  "executeLocalEffects host supply runId attempts now outstanding =
     runGroups host supply runId attempts now outstanding (groupOutstanding outstanding)"

section \<open>Every effect is run once\<close>

lemma groupFrom_distinct: "distinct (groupFrom seen xs) \<and> set (groupFrom seen xs) \<inter> set seen = {}"
proof (induction seen xs rule: groupFrom.induct)
  case (2 seen t q items)
  then show ?case by (auto simp: Let_def List.member_iff)
qed simp

lemma groupFrom_keys:
  "set (groupFrom seen (map (\<lambda>i. (oe_threadId i, oe_causingSeq i)) items)) = groupKey ` set items - set seen"
proof (induction items arbitrary: seen)
  case (Cons i items)
  then show ?case by (auto simp: Let_def groupKey_def List.member_iff)
qed simp

lemma groupOutstanding_keys: "distinct (groupOutstanding xs)" "set (groupOutstanding xs) = groupKey ` set xs"
  using groupFrom_distinct groupFrom_keys [of "[]"] by (auto simp: groupOutstanding_def)

lemma groups_filter:
  "distinct keys \<Longrightarrow> length (filter P (concat (map (groupItems xs) keys))) = length (filter (\<lambda>i. P i \<and> groupKey i \<in> set keys) xs)"
proof (induction keys)
  case (Cons k keys)
  have "length (filter (\<lambda>i. P i \<and> groupKey i \<in> set (k # keys)) xs)
      = length (filter (\<lambda>i. P i \<and> groupKey i = k) xs) + length (filter (\<lambda>i. P i \<and> groupKey i \<in> set keys) xs)"
    using Cons.prems by (induction xs) auto
  moreover have "filter P (groupItems xs k) = filter (\<lambda>i. P i \<and> groupKey i = k) xs"
    by (induction xs) (auto simp: groupItems_def)
  ultimately show ?case using Cons by simp
qed simp

text \<open>
  A round runs every outstanding effect exactly once: the groups it forms hold together exactly the
  outstanding effects, each as often as it is outstanding, and a group holds the effects that one event
  of one thread caused, in their order.
\<close>

theorem local_round_runs_all:
  "length (filter P (concat (map (groupItems outstanding) (groupOutstanding outstanding)))) = length (filter P outstanding)
   \<and> (\<forall>key. groupItems outstanding key \<noteq> [] \<longleftrightarrow> key \<in> set (groupOutstanding outstanding))
   \<and> subseq (groupItems outstanding key) outstanding"
proof -
  have "filter (\<lambda>i. P i \<and> groupKey i \<in> set (groupOutstanding outstanding)) outstanding = filter P outstanding"
    by (intro filter_cong) (auto simp: groupOutstanding_keys)
  then show ?thesis
    using groups_filter [OF groupOutstanding_keys(1), of P outstanding outstanding]
    by (auto simp: groupOutstanding_keys groupItems_def filter_empty_conv)
qed

section \<open>Every effect is answered\<close>

text \<open>The event settles the effect, or puts its next attempt off.\<close>

definition settlesIt :: "string \<Rightarrow> envelope \<Rightarrow> bool" where
  "settlesIt i e \<longleftrightarrow> ev_effectId e = Some i \<and> \<not> ev_ephemeral e"

definition putsOff :: "string \<Rightarrow> envelope \<Rightarrow> bool" where
  "putsOff i e \<longleftrightarrow> ev_type e = ''runtime.effect.retry.scheduled''
     \<and> readString (payloadObject e) ''effectId'' = Some i \<and> \<not> ev_ephemeral e"

definition answers :: "string \<Rightarrow> envelope \<Rightarrow> bool" where
  "answers i e \<longleftrightarrow> settlesIt i e \<or> putsOff i e"

text \<open>What a handler reports about its effect is durable and claims no other effect.\<close>

definition plainOutcome :: "('c, 'd) local_host_scheme \<Rightarrow> outstanding_effect \<Rightarrow> event_input \<Rightarrow> bool" where
  "plainOutcome host item x \<longleftrightarrow> (case lh_validate host x of
     Inl _ \<Rightarrow> True
   | Inr v \<Rightarrow> in_ephemeral v \<noteq> Some True \<and> (case in_effectId v of Val i \<Rightarrow> i = oe_effectId item | _ \<Rightarrow> True))"

definition plainHandler :: "('c, 'd) local_host_scheme \<Rightarrow> outstanding_effect \<Rightarrow> bool" where
  "plainHandler host item \<longleftrightarrow> (case snd (dispatchEffect host item) of
     Inl _ \<Rightarrow> True | Inr outcomes \<Rightarrow> list_all (plainOutcome host item) outcomes)"

lemma answers_failed: "answers (oe_effectId item) (createEffectFailedEvent stamp r item error b)"
  by (simp add: answers_def settlesIt_def createEffectFailedEvent_def)

lemma answers_planned: "answers (oe_effectId item) (fst (planAttemptFailure stamp r item attempt error now retry origin b after))"
proof -
  have "answers (oe_effectId item) (createEvent stamp r ((eventInput ''runtime.effect.retry.scheduled'' (JObj
      [(''effectId'', JStr (oe_effectId item)), x, y, z]))\<lparr>in_threadId := t, in_causationId := c, in_origin := Some origin\<rparr>) 0)"
    for x y z t c
    by (cases x; cases y; cases z) (simp add: answers_def putsOff_def payloadObject_def readString_def asObject_def)
  then show ?thesis by (simp add: planAttemptFailure_def answers_failed split: option.split)
qed

lemma answers_completed: "answers (oe_effectId item) (createEvent stamp r (completedInput item attempt) q)"
  by (simp add: answers_def settlesIt_def completedInput_def)

lemma answers_outcome:
  assumes "plainOutcome host item x"
  shows "answers (oe_effectId item) (outcomeEvent host stamp r item attempt now x)"
proof (cases "lh_validate host x")
  case (Inl m)
  then show ?thesis
    using answers_planned answers_failed by (auto simp: outcomeEvent_def Let_def materializeEffectOutcome_def)
next
  case (Inr v)
  have "nullish (in_effectId v) (oe_effectId item) = Val (oe_effectId item)"
    using assms Inr by (cases "in_effectId v") (auto simp: plainOutcome_def)
  moreover have "\<not> withDefault (in_ephemeral v) False"
    using assms Inr by (cases "in_ephemeral v") (auto simp: plainOutcome_def)
  ultimately have "answers (oe_effectId item) (materializeEffectOutcome (lh_validate host) stamp r item x)"
    by (simp add: materializeEffectOutcome_def Inr answers_def settlesIt_def)
  then show ?thesis using answers_planned by (auto simp: outcomeEvent_def Let_def)
qed

lemma attemptOutcomes_answer:
  assumes "xs \<noteq> []" and "list_all (plainOutcome host item) xs"
  shows "\<exists>e \<in> set (attemptOutcomes host st n r item attempt now xs). answers (oe_effectId item) e"
  using assms answers_outcome [of host item "hd xs" "st n"] by (cases xs) simp_all

lemma runItem_keeps: "runItem host st r attempts now (produced, failed) item = Inr (produced', failed') \<Longrightarrow> set produced \<subseteq> set produced'"
  by (auto simp: runItem_def Let_def split: option.splits if_splits sum.splits local_attempt.splits prod.splits)

lemma runItems_keeps: "runItems host st r attempts now sofar items = Inr sofar' \<Longrightarrow> set (fst sofar) \<subseteq> set (fst sofar')"
proof (induction items arbitrary: sofar)
  case (Cons i items)
  then show ?case
    using runItem_keeps [of host st r attempts now "fst sofar" "snd sofar" i] by (fastforce split: sum.splits)
qed simp

lemma rejected_event:
  assumes "admitOrFailAttempt hooks c stamp r item attempt now retry = Some (event, b, obs)"
  shows "\<exists>f :: effect_failure. event = fst (planAttemptFailure stamp r item attempt (ef_error f) now retry
    OriginSystem (ef_nonRetryable f) (ef_retryAfterMs f))"
proof -
  obtain f where f: "runEffectAdmission hooks item c = Some f"
    using assms by (cases "runEffectAdmission hooks item c") (simp_all add: admitOrFailAttempt_def)
  have "event = fst (planAttemptFailure stamp r item attempt (ef_error f) now retry OriginSystem (ef_nonRetryable f) (ef_retryAfterMs f))"
    using assms by (simp add: admitOrFailAttempt_def f case_prod_unfold Let_def)
  then show ?thesis by blast
qed

lemma runItem_answers:
  assumes "runItem host st r attempts now (produced, failed) item = Inr (produced', failed')"
    and "lh_interrupt host item \<noteq> InterruptedByAbort" and "plainHandler host item"
  shows "\<exists>e \<in> set produced'. answers (oe_effectId item) e"
proof (cases "if effectType (oe_effect item) = ''runtime.wait'' then failed else None")
  case (Some sibling)
  then have "produced' = produced @ [createEffectFailedEvent (st (length produced)) r item (withdrawnError sibling) False]"
    using assms(1) by (simp add: runItem_def Let_def)
  then show ?thesis by (simp add: answers_failed)
next
  case None
  note wait = this
  show ?thesis
  proof (cases "admitOrFailAttempt (lh_hooks host) (lh_context host item (attempts (oe_effectId item))) (st (length produced)) r item
      (attempts (oe_effectId item)) now (effectRetryPolicy (lh_registry host) (oe_effect item))")
    case (Some rejection)
    then obtain event b obs where rejection: "rejection = (event, b, obs)" by (cases rejection)
    obtain f :: effect_failure where "event = fst (planAttemptFailure (st (length produced)) r item (attempts (oe_effectId item)) (ef_error f) now
        (effectRetryPolicy (lh_registry host) (oe_effect item)) OriginSystem (ef_nonRetryable f) (ef_retryAfterMs f))"
      using rejected_event [OF Some [unfolded rejection]] by blast
    then have "answers (oe_effectId item) event" by (simp only: answers_planned)
    then show ?thesis using assms(1) wait Some rejection by (auto simp: runItem_def Let_def)
  next
    case None
    obtain launches outcome where d: "dispatchEffect host item = (launches, outcome)" by fastforce
    obtain settled where s: "settledAttempt host item outcome = Inr settled"
      using assms(1) wait None d by (auto simp: runItem_def Let_def split: sum.splits)
    define before where "before = produced @ createEvents st (length produced) r (map (launchedInput host item) launches)"
    have run: "runItem host st r attempts now (produced, failed) item = (case settled of
        AttemptAborted \<Rightarrow> Inr (before, failed)
      | AttemptTimedOut \<Rightarrow> Inr (before @ [createEvent (st (length before)) r (timedOutInput item (attempts (oe_effectId item))) 0,
            fst (planAttemptFailure (st (Suc (length before))) r item (attempts (oe_effectId item)) ''start-to-close timeout'' now
              (effectRetryPolicy (lh_registry host) (oe_effect item)) OriginSystem False None)], Some (oe_effectId item))
      | AttemptCompleted outcomes \<Rightarrow>
          (let evs = (if outcomes = [] then [createEvent (st (length before)) r (completedInput item (attempts (oe_effectId item))) 0]
                 else attemptOutcomes host st (length before) r item (attempts (oe_effectId item)) now outcomes)
           in Inr (before @ evs, if effectType (oe_effect item) \<noteq> ''runtime.wait'' \<and> list_ex (\<lambda>e. ev_type e = ''runtime.effect.failed'') evs
                then Some (oe_effectId item) else failed)))"
      unfolding before_def by (simp add: runItem_def Let_def wait None d s split: local_attempt.split)
    show ?thesis
    proof (cases settled)
      case (AttemptCompleted outcomes)
      have "outcome = Inr outcomes"
        using s AttemptCompleted by (auto simp: settledAttempt_def Let_def split: interruption.splits if_splits sum.splits)
      then have "list_all (plainOutcome host item) outcomes" using assms(3) d by (simp add: plainHandler_def)
      then have "\<exists>e \<in> set (if outcomes = [] then [createEvent (st (length before)) r (completedInput item (attempts (oe_effectId item))) 0]
          else attemptOutcomes host st (length before) r item (attempts (oe_effectId item)) now outcomes). answers (oe_effectId item) e"
        using attemptOutcomes_answer [of outcomes host item] answers_completed [of item] by (cases "outcomes = []") simp_all
      then show ?thesis using assms(1) unfolding run AttemptCompleted Let_def local_attempt.case by (auto simp del: split_paired_All)
    next
      case AttemptAborted
      then show ?thesis
        using s assms(2) by (auto simp: settledAttempt_def Let_def split: interruption.splits if_splits sum.splits)
    next
      case AttemptTimedOut
      then show ?thesis using assms(1) answers_planned [of item "st (Suc (length before))"] unfolding run by auto
    qed
  qed
qed

lemma runItems_answers:
  assumes "runItems host st r attempts now sofar items = Inr sofar'" and "item \<in> set items"
    and "lh_interrupt host item \<noteq> InterruptedByAbort" and "plainHandler host item"
  shows "\<exists>e \<in> set (fst sofar'). answers (oe_effectId item) e"
  using assms(1,2)
proof (induction items arbitrary: sofar)
  case (Cons i items)
  then obtain s1 where s1: "runItem host st r attempts now sofar i = Inr s1" "runItems host st r attempts now s1 items = Inr sofar'"
    by (auto split: sum.splits)
  show ?case
  proof (cases "item \<in> set items")
    case True
    with Cons.IH s1(2) show ?thesis by blast
  next
    case False
    then have "\<exists>e \<in> set (fst s1). answers (oe_effectId item) e"
      using Cons.prems(2) s1(1) runItem_answers [OF _ assms(3,4), of st r attempts now "fst sofar" "snd sofar" "fst s1" "snd s1"] by simp
    with runItems_keeps [OF s1(2)] show ?thesis by blast
  qed
qed simp

lemma runGroups_answers:
  assumes "runGroups host supply r attempts now outstanding keys = Inr events" and "item \<in> set outstanding" and "groupKey item \<in> set keys"
    and "lh_interrupt host item \<noteq> InterruptedByAbort" and "plainHandler host item"
  shows "\<exists>e \<in> set events. answers (oe_effectId item) e"
  using assms(1,3)
proof (induction keys arbitrary: events)
  case (Cons k keys)
  then obtain sofar rest where group: "runItems host (supply k) r attempts now ([], None) (groupItems outstanding k) = Inr sofar"
      and rest: "runGroups host supply r attempts now outstanding keys = Inr rest" "events = fst sofar @ rest"
    by (auto split: sum.splits)
  show ?case
  proof (cases "groupKey item = k")
    case True
    then have "item \<in> set (groupItems outstanding k)" using assms(2) by (simp add: groupItems_def)
    from runItems_answers [OF group this assms(4,5)] rest(2) show ?thesis by auto
  next
    case False
    with Cons rest show ?thesis by auto
  qed
qed simp


section \<open>A failure withdraws the waits of its group\<close>

lemma runItem_extends:
  assumes "runItem host st r attempts now (p, f) item = Inr (p', f')"
  shows "\<exists>later. p' = p @ later \<and> (f' = f \<or> f' = Some (oe_effectId item))"
proof (cases "if effectType (oe_effect item) = ''runtime.wait'' then f else None")
  case (Some sibling)
  then show ?thesis using assms by (auto simp: runItem_def Let_def)
next
  case None
  note wait = this
  show ?thesis
  proof (cases "admitOrFailAttempt (lh_hooks host) (lh_context host item (attempts (oe_effectId item))) (st (length p)) r item
      (attempts (oe_effectId item)) now (effectRetryPolicy (lh_registry host) (oe_effect item))")
    case (Some rejection)
    then show ?thesis using assms wait by (cases rejection) (auto simp: runItem_def Let_def)
  next
    case None
    obtain launches outcome where d: "dispatchEffect host item = (launches, outcome)" by fastforce
    show ?thesis
    proof (cases "settledAttempt host item outcome")
      case (Inl e)
      then show ?thesis using assms wait None d by (simp add: runItem_def Let_def)
    next
      case (Inr settled)
      note s = this
      show ?thesis
        using assms wait None d s
        by (cases settled) (auto simp: runItem_def Let_def split: if_splits)
    qed
  qed
qed

lemma runItems_extends:
  "runItems host st r attempts now (p, f) items = Inr (p', f') \<Longrightarrow> \<exists>later. p' = p @ later \<and> (f \<noteq> None \<longrightarrow> f' \<noteq> None)"
proof (induction items arbitrary: p f)
  case (Cons i items)
  obtain s0 where s0: "runItem host st r attempts now (p, f) i = Inr s0"
    using Cons.prems by (cases "runItem host st r attempts now (p, f) i") simp_all
  obtain p1 f1 where pair: "s0 = (p1, f1)" by fastforce
  have s1: "runItem host st r attempts now (p, f) i = Inr (p1, f1)" "runItems host st r attempts now (p1, f1) items = Inr (p', f')"
    using Cons.prems s0 pair by simp_all
  from runItem_extends [OF s1(1)] obtain l1 where l1: "p1 = p @ l1" "f1 = f \<or> f1 = Some (oe_effectId i)" by blast
  obtain l2 where l2: "p' = p1 @ l2" "f1 \<noteq> None \<longrightarrow> f' \<noteq> None"
    using Cons.IH [OF s1(2)] by (elim exE conjE) (rule that)
  have "p' = p @ l1 @ l2" by (simp only: l1(1) l2(1) append_assoc)
  moreover have "f \<noteq> None \<longrightarrow> f' \<noteq> None" using l1(2) l2(2) by (cases f1) simp_all
  ultimately show ?case by (intro exI [of _ "l1 @ l2"] conjI)
qed simp

lemma runItems_append:
  "runItems host st r attempts now sofar (xs @ ys) =
     (case runItems host st r attempts now sofar xs of Inl e \<Rightarrow> Inl e | Inr mid \<Rightarrow> runItems host st r attempts now mid ys)"
  by (induction xs arbitrary: sofar) (auto split: sum.splits)

lemma deliver_same_waits [simp]: "rs_waits (deliver reg s e x) = rs_waits s"
  by (auto simp: deliver_def Let_def split: option.splits)

text \<open>
  A failure withdraws the waits of its group: once an effect of a group failed, every later wait of the
  group is answered by a withdrawn failure instead of being registered; folding that event adds no wait,
  and fails no thread.
\<close>

theorem failed_group_withdraws:
  assumes "runItems host st r attempts now sofar xs = Inr mid"
    and "runItem host st r attempts now mid item = Inr (p, Some (oe_effectId item))"
    and "runItems host st r attempts now (p, Some (oe_effectId item)) (ys @ w # zs) = Inr (produced, failed)"
    and "effectType (oe_effect w) = ''runtime.wait''"
  shows "runItems host st r attempts now sofar (xs @ item # ys @ w # zs) = Inr (produced, failed)
    \<and> (\<exists>sibling k. let e = createEffectFailedEvent (st k) r w (withdrawnError sibling) False in
        e \<in> set produced \<and> (\<forall>s. rs_waits (foldEvent reg s e) = rs_waits s
          \<and> (\<forall>before. failUnhandledEffect s e before = s)))"
proof -
  obtain p1 f1 where ys: "runItems host st r attempts now (p, Some (oe_effectId item)) ys = Inr (p1, f1)"
    using assms(3) by (auto simp: runItems_append split: sum.splits)
  from runItems_extends [OF this] obtain sibling where f1: "f1 = Some sibling" by auto
  define e where "e = createEffectFailedEvent (st (length p1)) r w (withdrawnError sibling) False"
  have w: "runItem host st r attempts now (p1, f1) w = Inr (p1 @ [e], f1)"
    by (simp add: runItem_def f1 assms(4) e_def)
  then have "runItems host st r attempts now (p1 @ [e], f1) zs = Inr (produced, failed)"
    using assms(3) ys by (simp add: runItems_append)
  from runItems_extends [OF this] have "e \<in> set produced" by auto
  moreover have e: "ev_type e = ''runtime.effect.failed''" "readString (payloadObject e) ''error'' = Some (withdrawnError sibling)"
      "\<not> ev_ephemeral e"
    by (simp_all add: e_def createEffectFailedEvent_def payloadObject_def asObject_def readString_def)
  then have unhandled: "failUnhandledEffect s e before = s" for s before
    by (simp add: failUnhandledEffect_def)
  have "rs_waits (foldEvent reg s e) = rs_waits s" for s
    using e by (simp add: foldEvent_def Let_def unhandled applyProtocol_def progressTypes_def recordIdempotencyKey_def settleEffect_def
        adoptRunId_def split: option.split)
  ultimately have "\<exists>sibling k. let e = createEffectFailedEvent (st k) r w (withdrawnError sibling) False in
      e \<in> set produced \<and> (\<forall>s. rs_waits (foldEvent reg s e) = rs_waits s \<and> (\<forall>before. failUnhandledEffect s e before = s))"
    using unhandled unfolding e_def Let_def by blast
  then show ?thesis using assms(1-3) by (simp add: runItems_append)
qed

section \<open>A round with a failing handler and a wait\<close>

definition sampleHost :: "unit local_host" where
  "sampleHost = \<lparr>lh_registry = sampleRegistry\<lparr>rg_effects := [(''x'', \<lparr>ed_type = ''x'', ed_placement = PlacedLocal,
       ed_retry = None, ed_deterministic = False\<rparr>)]\<rparr>, lh_hooks = [], lh_context = (\<lambda>_ _. ()), lh_resolve = (\<lambda>_ _ _. Inr None),
     lh_launch = (\<lambda>_. None), lh_cancelRun = (\<lambda>_. None),
     lh_execute = (\<lambda>_ _. ([], Inl (plainFailure ''broken''))), lh_middleware = [], lh_validate = Inr,
     lh_interrupt = (\<lambda>_. NotInterrupted), lh_correlationId = ''r''\<rparr>"

definition sampleInvoke :: outstanding_effect where
  "sampleInvoke = \<lparr>oe_effectId = ''a:k'', oe_threadId = ''a'', oe_causingSeq = 1, oe_causingEventId = ''e1'',
     oe_effect = InvokeEffect ''x'' JNull (Some ''k'') None\<rparr>"

definition sampleWaiting :: outstanding_effect where
  "sampleWaiting = \<lparr>oe_effectId = ''a:w'', oe_threadId = ''a'', oe_causingSeq = 1, oe_causingEventId = ''e1'',
     oe_effect = WaitEffect ''w'' (WaitOnTimer 9) None\<rparr>"

abbreviation "sampleRound \<equiv> executeLocalEffects sampleHost (\<lambda>_ _. (''e'', 0)) ''r'' (\<lambda>_. 1) 0 [sampleInvoke, sampleWaiting]"

lemma sampleRound_returns: "sampleRound = Inr (projr sampleRound)"
proof -
  have "isl sampleRound = False" by code_simp
  then show ?thesis by (cases sampleRound) simp_all
qed

lemma sampleRound_plain: "plainHandler sampleHost sampleInvoke" "lh_interrupt sampleHost sampleInvoke \<noteq> InterruptedByAbort"
  by code_simp+


lemma failed_group_withdraws_witness:
  "\<exists>produced failed sibling.
     runItems sampleHost (\<lambda>_. (''e'', 0)) ''r'' (\<lambda>_. 1) 0 ([], None) [sampleInvoke, sampleWaiting] = Inr (produced, failed)
     \<and> createEffectFailedEvent (''e'', 0) ''r'' sampleWaiting (withdrawnError sibling) False \<in> set produced"
proof -
  obtain event where first: "runItem sampleHost (\<lambda>_. (''e'', 0)) ''r'' (\<lambda>_. 1) 0 ([], None) sampleInvoke
      = Inr ([event], Some (oe_effectId sampleInvoke))"
    by (simp add: runItem_def sampleInvoke_def sampleHost_def admitOrFailAttempt_def runEffectAdmission_def dispatchEffect_def
        baseDispatch_def invokeHandler_def settledAttempt_def effectRetryPolicy_def effectType_def outcomeEvent_def failedAttempt_def
        plainFailure_def planAttemptFailure_def materializeEffectOutcome_def optField_def asObject_def readString_def Let_def)
  obtain produced failed where rest: "runItems sampleHost (\<lambda>_. (''e'', 0)) ''r'' (\<lambda>_. 1) 0 ([event], Some (oe_effectId sampleInvoke))
      ([] @ sampleWaiting # []) = Inr (produced, failed)"
    by (simp add: runItem_def sampleWaiting_def effectType_def)
  have wait: "effectType (oe_effect sampleWaiting) = ''runtime.wait''" by (simp add: sampleWaiting_def effectType_def)
  from failed_group_withdraws [OF runItems.simps(1) first rest wait, of sampleRegistry]
  show ?thesis by (auto simp only: Let_def append_Nil append_Cons)
qed

end
