(* ===== verification/Repository.thy ===== *)
theory Repository
  imports Cancellation
begin

text \<open>
  \<open>packages/runtime/src/repository.ts\<close>: how the runtime turns a run's log into a cursor and commits to
  it. What the repository sees of the store for one run is a \<open>store_view\<close>: a paged read, the tail and,
  for a store that has them, the bounds. \<open>view_of\<close> is the view of the memory store. Reads within one
  load see one version of the log; other writers come between the load and the append of a commit.

  \<open>prime\<close> and \<open>primeState\<close> stand for loading the definitions a log or a state pins: they return the
  failure of the definition resolver, if it fails. A loop that may not end returns \<open>None\<close> when it does
  not.
\<close>

section \<open>The store as the repository sees it\<close>

record store_view =
  sv_read :: "nat \<Rightarrow> nat option \<Rightarrow> envelope list"
  sv_tail :: nat
  sv_bounds :: "(nat \<times> nat) option"

definition viewOf :: "memory_store \<Rightarrow> string \<Rightarrow> store_view" where
  "viewOf st runId = \<lparr>sv_read = (\<lambda>q limit. readFrom st runId (Some q) limit), sv_tail = tailOf st runId,
     sv_bounds = Some (boundsOf st runId)\<rparr>"

datatype repository_error =
    LogTrimmed string nat nat
  | ResolveFailed string
  | LengthMismatch nat nat
  | StoreFailed store_error
  | CommitConflicts string

partial_function (option) readRemaining ::
  "store_view \<Rightarrow> nat option \<Rightarrow> envelope list \<Rightarrow> envelope list option" where
  "readRemaining v expectedTail collected =
     (if collected = [] then Some collected
      else let lastSeq = ev_seq (last collected);
               target = withDefault expectedTail (sv_tail v)
           in if target \<le> lastSeq then Some collected
              else let further = sv_read v (lastSeq + 1) (map_option (\<lambda>_. target - lastSeq) expectedTail)
                   in if further = [] \<or> ev_seq (hd further) \<le> lastSeq then Some collected
                      else readRemaining v expectedTail (collected @ further))"

declare readRemaining.simps [code]

section \<open>Loading a cursor\<close>

text \<open>The failure of a log that starts after the event that was asked for.\<close>

definition trimmedFailure :: "store_view \<Rightarrow> string \<Rightarrow> nat \<Rightarrow> nat \<Rightarrow> repository_error option" where
  "trimmedFailure v runId firstSeq fromSeq =
     (if firstSeq \<le> fromSeq then None
      else case sv_bounds v of
        Some (head, _) \<Rightarrow> if fromSeq < head then Some (LogTrimmed runId head fromSeq) else None
      | None \<Rightarrow> Some (LogTrimmed runId firstSeq fromSeq))"

definition primedAdvance ::
  "(envelope list \<Rightarrow> string option) \<Rightarrow> registry \<Rightarrow> run_cursor \<Rightarrow> envelope list \<Rightarrow> repository_error + run_cursor" where
  "primedAdvance prime reg c delta =
     (case prime delta of Some e \<Rightarrow> Inl (ResolveFailed e) | None \<Rightarrow> Inr (advanceCursor c delta reg))"

definition catchUp ::
  "(envelope list \<Rightarrow> string option) \<Rightarrow> registry \<Rightarrow> store_view \<Rightarrow> string \<Rightarrow> run_cursor \<Rightarrow> nat option \<Rightarrow>
     (repository_error + run_cursor) option" where
  "catchUp prime reg v runId c expectedTail =
     (if expectedTail = Some (cu_seq c) then Some (Inr c)
      else let fromSeq = cu_seq c + 1;
               delta = sv_read v fromSeq (map_option (\<lambda>t. t - cu_seq c) expectedTail)
           in if delta = [] then Some (Inr c)
              else case trimmedFailure v runId (ev_seq (hd delta)) fromSeq of
                Some e \<Rightarrow> Some (Inl e)
              | None \<Rightarrow> map_option (primedAdvance prime reg c) (readRemaining v expectedTail delta))"

record run_snapshot =
  sn_cursor :: nat
  sn_state :: run_state

text \<open>\<open>snap\<close> is the latest snapshot, \<open>None\<close> when there is none or loading it failed.\<close>

definition startCursor :: "string \<Rightarrow> run_snapshot option \<Rightarrow> run_cursor" where
  "startCursor runId snap = (case snap of
     None \<Rightarrow> emptyCursor runId
   | Some s \<Rightarrow> \<lparr>cu_state = sn_state s, cu_seq = sn_cursor s, cu_durableSinceSnapshot = 0\<rparr>)"

definition loadCursorCold ::
  "(envelope list \<Rightarrow> string option) \<Rightarrow> (run_state \<Rightarrow> string option) \<Rightarrow> registry \<Rightarrow> store_view \<Rightarrow> string \<Rightarrow>
     run_snapshot option \<Rightarrow> (repository_error + run_cursor) option" where
  "loadCursorCold prime primeState reg v runId snap =
     (case Option.bind snap (\<lambda>s. primeState (sn_state s)) of
        Some e \<Rightarrow> Some (Inl (ResolveFailed e))
      | None \<Rightarrow>
          (let c = startCursor runId snap;
               delta = sv_read v (cu_seq c + 1) None
           in case (if cu_seq c = 0 \<and> delta \<noteq> [] then trimmedFailure v runId (ev_seq (hd delta)) 1 else None) of
                Some e \<Rightarrow> Some (Inl e)
              | None \<Rightarrow> map_option (primedAdvance prime reg c) (readRemaining v None delta)))"

text \<open>
  The cached load: the result with the cache it leaves. \<open>limit\<close> is the bound of the cache. A cursor ahead
  of the log is dropped, a log trimmed under the cursor is loaded cold.
\<close>

definition storeLoaded ::
  "int \<Rightarrow> string \<Rightarrow> run_cursor dict \<Rightarrow> repository_error + run_cursor \<Rightarrow>
     run_cursor dict \<times> (repository_error + run_cursor)" where
  "storeLoaded limit runId cache result =
     (case result of Inl e \<Rightarrow> (cache, Inl e) | Inr c \<Rightarrow> (cacheSet limit runId c cache, Inr c))"

definition loadCursor ::
  "(envelope list \<Rightarrow> string option) \<Rightarrow> (run_state \<Rightarrow> string option) \<Rightarrow> registry \<Rightarrow> int \<Rightarrow> store_view \<Rightarrow> string \<Rightarrow>
     run_snapshot option \<Rightarrow> run_cursor dict \<Rightarrow> (run_cursor dict \<times> (repository_error + run_cursor)) option" where
  "loadCursor prime primeState reg limit v runId snap cache =
     (let cold = loadCursorCold prime primeState reg v runId snap in
      case cacheGet runId cache of
        (None, cache') \<Rightarrow> map_option (storeLoaded limit runId cache') cold
      | (Some cached, cache') \<Rightarrow>
          if sv_tail v < cu_seq cached then map_option (Pair (cacheDelete runId cache')) cold
          else if sv_tail v = cu_seq cached then Some (cache', Inr cached)
          else (case catchUp prime reg v runId cached (Some (sv_tail v)) of
                  None \<Rightarrow> None
                | Some (Inl (LogTrimmed _ _ _)) \<Rightarrow>
                    map_option (storeLoaded limit runId (cacheDelete runId cache')) cold
                | Some result \<Rightarrow> Some (storeLoaded limit runId cache' result)))"

section \<open>Folding what was appended\<close>

text \<open>
  \<open>liveCount\<close> counts the live events this run appended outside the batch; when they fill the gap the
  cursor steps over them, otherwise it catches up.
\<close>

definition bridgeGap ::
  "(envelope list \<Rightarrow> string option) \<Rightarrow> registry \<Rightarrow> store_view \<Rightarrow> string \<Rightarrow> run_cursor \<Rightarrow> envelope list \<Rightarrow> nat \<Rightarrow> nat \<Rightarrow>
     (repository_error + run_cursor) option" where
  "bridgeGap prime reg v runId c echo commandRecords liveCount =
     (case echo of
        [] \<Rightarrow> Some (Inr c)
      | first # _ \<Rightarrow>
          if ev_seq first = cu_seq c + 1 + commandRecords then Some (Inr c)
          else if int liveCount = int (ev_seq first) - 1 - int (cu_seq c)
          then Some (Inr (c\<lparr>cu_seq := ev_seq first - 1\<rparr>))
          else catchUp prime reg v runId c (Some (ev_seq first - 1)))"

text \<open>
  \<open>applyAppend\<close> ends with the cursor in the cache and the count of live events reset; the first component of
  the result is the cache and that count.
\<close>

definition applyAppend ::
  "(envelope list \<Rightarrow> string option) \<Rightarrow> registry \<Rightarrow> int \<Rightarrow> store_view \<Rightarrow> string \<Rightarrow> run_cursor \<Rightarrow> envelope list \<Rightarrow>
     append_result \<Rightarrow> nat \<Rightarrow> run_cursor dict \<times> nat \<Rightarrow>
     ((run_cursor dict \<times> nat) \<times> (repository_error + run_cursor)) option" where
  "applyAppend prime reg limit v runId c batch result commandRecords ctx =
     (let (cache, liveCount) = ctx in
      case assignSequences batch (ar_sequences result) of
        Inl (m, n) \<Rightarrow> Some (ctx, Inl (LengthMismatch m n))
      | Inr echo \<Rightarrow>
          (case bridgeGap prime reg v runId c echo commandRecords liveCount of
             None \<Rightarrow> None
           | Some (Inl e) \<Rightarrow> Some (ctx, Inl e)
           | Some (Inr bridged) \<Rightarrow>
               (case primedAdvance prime reg bridged echo of
                  Inl e \<Rightarrow> Some (ctx, Inl e)
                | Inr next_cursor \<Rightarrow>
                    map_option (\<lambda>r. let (cache', r') = storeLoaded limit runId cache r in ((cache', 0), r'))
                      (if cu_seq next_cursor = ar_tail result then Some (Inr next_cursor)
                       else catchUp prime reg v runId next_cursor (Some (ar_tail result))))))"

section \<open>Committing\<close>

definition maxCommitConflicts :: nat where
  "maxCommitConflicts = 16"

record 'a commit_plan =
  pl_events :: "envelope list"
  pl_value :: 'a
  pl_idempotencyKey :: "string option"

record 'a commit_result =
  cr_value :: 'a
  cr_cursor :: run_cursor
  cr_append :: "append_result option"

definition stripSeq :: "envelope list \<Rightarrow> envelope list" where
  "stripSeq events = map (\<lambda>e. e\<lparr>ev_seq := 0\<rparr>) events"

definition commitOptions :: "run_cursor \<Rightarrow> 'a commit_plan \<Rightarrow> append_options" where
  "commitOptions c planned = noOptions\<lparr>ao_expectedTail := Some (cu_seq c),
     ao_idempotency := map_option (\<lambda>k. (k, None)) (truthy (pl_idempotencyKey planned))\<rparr>"

text \<open>
  One round of the loop: load, plan, append. \<open>other\<close> is what other writers did to the store in between.
  \<open>None\<close> in the last component asks for another round.
\<close>

definition commitRound ::
  "(envelope \<Rightarrow> nat) \<Rightarrow> (envelope list \<Rightarrow> string option) \<Rightarrow> (run_state \<Rightarrow> string option) \<Rightarrow> registry \<Rightarrow> int \<Rightarrow> string \<Rightarrow>
     run_snapshot option \<Rightarrow> (run_cursor \<Rightarrow> repository_error + 'a commit_plan) \<Rightarrow> (memory_store \<Rightarrow> memory_store) \<Rightarrow>
     memory_store \<times> run_cursor dict \<Rightarrow>
     ((memory_store \<times> run_cursor dict) \<times> (repository_error + 'a commit_result) option) option" where
  "commitRound bytes prime primeState reg limit runId snap plan other sc =
     (let (st, cache) = sc in
      case loadCursor prime primeState reg limit (viewOf st runId) runId snap cache of
        None \<Rightarrow> None
      | Some (cache', Inl e) \<Rightarrow> Some ((st, cache'), Some (Inl e))
      | Some (cache', Inr c) \<Rightarrow>
          (case plan c of
             Inl e \<Rightarrow> Some ((st, cache'), Some (Inl e))
           | Inr planned \<Rightarrow>
               if pl_events planned = [] then
                 Some ((st, cache'), Some (Inr \<lparr>cr_value = pl_value planned, cr_cursor = c, cr_append = None\<rparr>))
               else (case append_events bytes (other st) runId (stripSeq (pl_events planned)) (commitOptions c planned) of
                       Inr (result, st') \<Rightarrow>
                         Some ((st', cache'), Some (Inr \<lparr>cr_value = pl_value planned, cr_cursor = c,
                           cr_append = Some result\<rparr>))
                     | Inl (Conflict _ _ _) \<Rightarrow> Some ((other st, cacheDelete runId cache'), None)
                     | Inl e \<Rightarrow> Some ((other st, cache'), Some (Inl (StoreFailed e))))))"

text \<open>\<open>others\<close> is the list of what other writers do in the rounds, the first round first.\<close>

fun commitRounds ::
  "(envelope \<Rightarrow> nat) \<Rightarrow> (envelope list \<Rightarrow> string option) \<Rightarrow> (run_state \<Rightarrow> string option) \<Rightarrow> registry \<Rightarrow> int \<Rightarrow> string \<Rightarrow>
     run_snapshot option \<Rightarrow> (run_cursor \<Rightarrow> repository_error + 'a commit_plan) \<Rightarrow> (memory_store \<Rightarrow> memory_store) list \<Rightarrow>
     memory_store \<times> run_cursor dict \<Rightarrow>
     ((memory_store \<times> run_cursor dict) \<times> (repository_error + 'a commit_result)) option" where
  "commitRounds bytes prime primeState reg limit runId snap plan [] sc = Some (sc, Inl (CommitConflicts runId))"
| "commitRounds bytes prime primeState reg limit runId snap plan (other # others) sc =
     (case commitRound bytes prime primeState reg limit runId snap plan other sc of
        None \<Rightarrow> None
      | Some (sc', Some result) \<Rightarrow> Some (sc', result)
      | Some (sc', None) \<Rightarrow> commitRounds bytes prime primeState reg limit runId snap plan others sc')"

definition commit ::
  "(envelope \<Rightarrow> nat) \<Rightarrow> (envelope list \<Rightarrow> string option) \<Rightarrow> (run_state \<Rightarrow> string option) \<Rightarrow> registry \<Rightarrow> int \<Rightarrow> string \<Rightarrow>
     run_snapshot option \<Rightarrow> (run_cursor \<Rightarrow> repository_error + 'a commit_plan) \<Rightarrow> (nat \<Rightarrow> memory_store \<Rightarrow> memory_store) \<Rightarrow>
     memory_store \<times> run_cursor dict \<Rightarrow>
     ((memory_store \<times> run_cursor dict) \<times> (repository_error + 'a commit_result)) option" where
  "commit bytes prime primeState reg limit runId snap plan others sc =
     commitRounds bytes prime primeState reg limit runId snap plan (map others [0..<maxCommitConflicts]) sc"

section \<open>Paged reads\<close>

text \<open>
  A read that returns a log page by page from \<open>h\<close> on: each page is not empty while something is left. The
  events before \<open>h\<close> may be gone.
\<close>

definition pagesFrom :: "nat \<Rightarrow> (nat \<Rightarrow> nat option \<Rightarrow> envelope list) \<Rightarrow> envelope list \<Rightarrow> bool" where
  "pagesFrom h read_page rlog \<longleftrightarrow> map ev_seq rlog = [1..<Suc (length rlog)]
     \<and> (\<forall>q limit. 1 \<le> q \<longrightarrow> h \<le> q \<longrightarrow> (\<exists>k. read_page q limit = take k (drop (q - 1) rlog)
          \<and> (q \<le> length rlog \<and> limit \<noteq> Some 0 \<longrightarrow> 0 < k) \<and> (\<forall>n. limit = Some n \<longrightarrow> k \<le> n)))"

definition pages :: "(nat \<Rightarrow> nat option \<Rightarrow> envelope list) \<Rightarrow> envelope list \<Rightarrow> bool" where
  "pages read_page rlog \<longleftrightarrow> pagesFrom 1 read_page rlog"

lemma pagesFrom_seqs: "pagesFrom h f rlog \<Longrightarrow> map ev_seq rlog = [1..<Suc (length rlog)]"
  by (simp add: pagesFrom_def)

lemma pagesFrom_seq: "pagesFrom h f rlog \<Longrightarrow> i < length rlog \<Longrightarrow> ev_seq (rlog ! i) = Suc i"
  using nth_map [of i rlog ev_seq] by (simp add: pagesFrom_def del: upt_Suc)

lemma pagesFrom_take: "pagesFrom h f rlog \<Longrightarrow> h \<le> Suc n \<Longrightarrow> \<exists>k. f (Suc n) limit = take k (drop n rlog)"
  unfolding pagesFrom_def by (metis diff_Suc_1 le_add1 plus_1_eq_Suc)

lemma pagesFrom_read:
  assumes "pagesFrom h f rlog" and "h \<le> Suc n" and "n < length rlog" and "limit \<noteq> Some 0"
  shows "\<exists>k > 0. f (Suc n) limit = take k (drop n rlog) \<and> (\<forall>m. limit = Some m \<longrightarrow> k \<le> m)
    \<and> f (Suc n) limit \<noteq> [] \<and> ev_seq (hd (f (Suc n) limit)) = Suc n"
proof -
  obtain k where k: "f (Suc n) limit = take k (drop n rlog)" "0 < k" "\<forall>m. limit = Some m \<longrightarrow> k \<le> m"
    using assms unfolding pagesFrom_def by (metis Suc_leI diff_Suc_1 le_add1 plus_1_eq_Suc)
  moreover have "hd (take k (drop n rlog)) = rlog ! n" using k(2) assms(3) by (simp add: hd_drop_conv_nth)
  ultimately show ?thesis using assms(3) pagesFrom_seq [OF assms(1,3)] by auto
qed

lemma readRemaining_step:
  assumes "c \<noteq> []" and "ev_seq (last c) = b" and "withDefault expected (sv_tail v) = t"
  shows "readRemaining v expected c =
    (let further = sv_read v (Suc b) (map_option (\<lambda>_. t - b) expected) in
     if t \<le> b \<or> further = [] \<or> ev_seq (hd further) \<le> b then Some c
     else readRemaining v expected (c @ further))"
  using assms by (simp add: readRemaining.simps [of v expected c] Let_def)

lemma readRemaining_pagesFrom:
  assumes "pagesFrom h (sv_read v) rlog" and "sv_tail v = length rlog"
    and "expected = None \<and> t = length rlog \<or> expected = Some t \<and> t \<le> length rlog"
    and "a < b" and "b \<le> t" and "h \<le> Suc a"
  shows "readRemaining v expected (drop a (take b rlog)) = Some (drop a (take t rlog))"
  using assms(4,5)
proof (induction "t - b" arbitrary: b rule: less_induct)
  case less
  have t: "t \<le> length rlog" using assms(3) by auto
  then have b: "b \<le> length rlog" "0 < b" using less.prems by simp_all
  let ?c = "drop a (take b rlog)"
  have c: "?c \<noteq> []" using less.prems b by simp
  have "last ?c = rlog ! (b - 1)"
    using c b less.prems by (simp add: last_conv_nth)
  then have lastSeq: "ev_seq (last ?c) = b" using pagesFrom_seq [OF assms(1), of "b - 1"] b by simp
  have target: "withDefault expected (sv_tail v) = t" using assms(2,3) by auto
  show ?case
  proof (cases "t \<le> b")
    case True
    then have "readRemaining v expected ?c = Some ?c"
      unfolding readRemaining_step [OF c lastSeq target] by simp
    with True less.prems show ?thesis by simp
  next
    case False
    let ?limit = "map_option (\<lambda>_. t - b) expected"
    have "?limit \<noteq> Some 0" using False by auto
    then obtain k where k: "0 < k" "sv_read v (Suc b) ?limit = take k (drop b rlog)"
        "\<forall>m. ?limit = Some m \<longrightarrow> k \<le> m" "sv_read v (Suc b) ?limit \<noteq> []"
        "ev_seq (hd (sv_read v (Suc b) ?limit)) = Suc b"
      using pagesFrom_read [OF assms(1), of b ?limit] False t assms(6) less.prems(1) by auto
    let ?b = "min (b + k) (length rlog)"
    have "?c @ take k (drop b rlog) = drop a (take ?b rlog)"
    proof -
      have "take ?b rlog = take (b + k) rlog" by (simp add: min_def)
      then show ?thesis using less.prems(1) b by (simp add: take_add)
    qed
    moreover have "?b \<le> t" using k(3) assms(3) False by auto
    moreover have larger: "b < ?b" using k(1) False t by simp
    moreover have "t - ?b < t - b" using larger False by linarith
    ultimately have "readRemaining v expected (?c @ take k (drop b rlog)) = Some (drop a (take t rlog))"
      using less.hyps [of ?b] less.prems(1) by simp
    then show ?thesis
      unfolding readRemaining_step [OF c lastSeq target] Let_def using False k(4,5) by (simp add: k(2))
  qed
qed

section \<open>Cursors of a log\<close>

definition cursorAt :: "registry \<Rightarrow> string \<Rightarrow> envelope list \<Rightarrow> run_cursor \<Rightarrow> bool" where
  "cursorAt reg r rlog c \<longleftrightarrow> cu_seq c \<le> length rlog
     \<and> cu_state c = foldRun reg (emptyRunState r) (take (cu_seq c) rlog)"

lemma cursorAt_extends: "cursorAt reg r rlog c \<Longrightarrow> cursorAt reg r (rlog @ later) c"
  by (simp add: cursorAt_def)

lemma cursorAt_empty [simp]: "cursorAt reg r rlog (emptyCursor r)"
  by (simp add: cursorAt_def emptyCursor_def)

lemma cursorAt_advance:
  assumes "map ev_seq rlog = [1..<Suc (length rlog)]" and "cursorAt reg r rlog c" and "cu_seq c \<le> t" and "t \<le> length rlog"
  shows "cursorAt reg r rlog (advanceCursor c (drop (cu_seq c) (take t rlog)) reg)
    \<and> cu_seq (advanceCursor c (drop (cu_seq c) (take t rlog)) reg) = t"
proof -
  let ?n = "cu_seq c"
  have "map ev_seq (drop ?n (take t rlog)) = drop ?n (take t [1..<Suc (length rlog)])"
    using assms(1) by (metis drop_map take_map)
  also have "\<dots> = [Suc ?n..<Suc (?n + (t - ?n))]"
    using assms(3,4) by (simp add: take_upt drop_upt del: upt_Suc)
  finally have "cu_seq (advanceCursor c (drop ?n (take t rlog)) reg) = t"
    using assms(3) fold_max_upt [of ?n "t - ?n"] by (simp add: cu_seq_advance del: upt_Suc)
  moreover have "take t rlog = take ?n rlog @ drop ?n (take t rlog)"
    using assms(3) by (metis append_take_drop_id min.absorb1 take_take)
  then have "foldRun reg (foldRun reg (emptyRunState r) (take ?n rlog)) (drop ?n (take t rlog))
      = foldRun reg (emptyRunState r) (take t rlog)" by (metis foldRun_append)
  ultimately show ?thesis using assms(2,4) by (simp add: cursorAt_def)
qed

lemma pages_seqs: "pages f rlog \<Longrightarrow> map ev_seq rlog = [1..<Suc (length rlog)]"
  by (simp add: pages_def pagesFrom_def)

definition neverFails :: "('a \<Rightarrow> string option) \<Rightarrow> bool" where
  "neverFails f \<longleftrightarrow> (\<forall>x. f x = None)"

lemma catchUp_pagesFrom:
  assumes "pagesFrom h (sv_read v) rlog" and "sv_tail v = length rlog" and "neverFails prime"
    and "cursorAt reg r rlog c" and "cu_seq c \<le> t" and "t \<le> length rlog"
    and "h \<le> Suc (cu_seq c)"
  shows "\<exists>c'. catchUp prime reg v r c (Some t) = Some (Inr c') \<and> cursorAt reg r rlog c' \<and> cu_seq c' = t"
proof (cases "t = cu_seq c")
  case False
  let ?n = "cu_seq c"
  have n: "?n < length rlog" "Some (t - ?n) \<noteq> Some 0" using False assms(5,6) by simp_all
  obtain k where k: "0 < k" "sv_read v (Suc ?n) (Some (t - ?n)) = take k (drop ?n rlog)" "k \<le> t - ?n"
      "sv_read v (Suc ?n) (Some (t - ?n)) \<noteq> []" "ev_seq (hd (sv_read v (Suc ?n) (Some (t - ?n)))) = Suc ?n"
    using pagesFrom_read [OF assms(1,7) n] by auto
  have "take k (drop ?n rlog) = drop ?n (take (?n + k) rlog)" by (simp add: take_drop add.commute)
  then have "readRemaining v (Some t) (take k (drop ?n rlog)) = Some (drop ?n (take t rlog))"
    using readRemaining_pagesFrom [OF assms(1,2), of "Some t" t ?n "?n + k"] assms(5-7) k(1,3) by simp
  then have "catchUp prime reg v r c (Some t) = Some (Inr (advanceCursor c (drop ?n (take t rlog)) reg))"
    using False k assms(3) by (simp add: catchUp_def Let_def trimmedFailure_def primedAdvance_def neverFails_def)
  then show ?thesis using cursorAt_advance [OF pagesFrom_seqs [OF assms(1)] assms(4-6)] by blast
qed (use assms in \<open>simp add: catchUp_def\<close>)

lemma catchUp_pages:
  assumes "pages (sv_read v) rlog" and "sv_tail v = length rlog" and "neverFails prime"
    and "cursorAt reg r rlog c" and "cu_seq c \<le> t" and "t \<le> length rlog"
  shows "\<exists>c'. catchUp prime reg v r c (Some t) = Some (Inr c') \<and> cursorAt reg r rlog c' \<and> cu_seq c' = t"
  using catchUp_pagesFrom [of 1, OF assms(1) [unfolded pages_def] assms(2-6)] by simp

text \<open>
  Loading cold from a cursor of the log, when what may be missing of the log lies before it.
\<close>

lemma coldFrom:
  assumes "pagesFrom h (sv_read v) rlog" and "sv_tail v = length rlog" and "neverFails prime" and "neverFails primeState"
    and "cursorAt reg r rlog (startCursor r snap)" and "h \<le> Suc (cu_seq (startCursor r snap))"
  shows "\<exists>c. loadCursorCold prime primeState reg v r snap = Some (Inr c) \<and> cursorAt reg r rlog c \<and> cu_seq c = length rlog"
proof -
  define c where "c = startCursor r snap"
  have c: "cursorAt reg r rlog c" "h \<le> Suc (cu_seq c)" unfolding c_def by (rule assms(5), rule assms(6))
  then have n: "cu_seq c \<le> length rlog" by (simp add: cursorAt_def)
  define delta where "delta = sv_read v (Suc (cu_seq c)) None"
  have load: "loadCursorCold prime primeState reg v r snap
      = (case (if cu_seq c = 0 \<and> delta \<noteq> [] then trimmedFailure v r (ev_seq (hd delta)) 1 else None) of
           Some e \<Rightarrow> Some (Inl e)
         | None \<Rightarrow> map_option (primedAdvance prime reg c) (readRemaining v None delta))"
  proof -
    have "Option.bind snap (\<lambda>s. primeState (sn_state s)) = None"
      using assms(4) by (cases snap) (simp_all add: neverFails_def)
    then show ?thesis by (simp only: loadCursorCold_def option.case Let_def c_def delta_def Suc_eq_plus1)
  qed
  have rest: "readRemaining v None delta = Some (drop (cu_seq c) (take (length rlog) rlog))
      \<and> (delta \<noteq> [] \<longrightarrow> ev_seq (hd delta) = Suc (cu_seq c))"
  proof (cases "cu_seq c < length rlog")
    case True
    then obtain k where k: "0 < k" "delta = take k (drop (cu_seq c) rlog)" "ev_seq (hd delta) = Suc (cu_seq c)"
      using pagesFrom_read [OF assms(1) c(2), of None] by (auto simp: delta_def)
    have "delta = drop (cu_seq c) (take (min (cu_seq c + k) (length rlog)) rlog)"
      by (simp add: k(2) take_drop add.commute min_def)
    then show ?thesis
      using readRemaining_pagesFrom [OF assms(1,2), of None "length rlog" "cu_seq c" "min (cu_seq c + k) (length rlog)"]
        True k(1,3) c(2) by simp
  next
    case False
    obtain k where "delta = take k (drop (cu_seq c) rlog)"
      using pagesFrom_take [OF assms(1) c(2), of None] unfolding delta_def by blast
    then have "delta = []" using False by auto
    then show ?thesis using False n by (simp add: readRemaining.simps)
  qed
  then have "loadCursorCold prime primeState reg v r snap
      = Some (Inr (advanceCursor c (drop (cu_seq c) (take (length rlog) rlog)) reg))"
    using assms(3) by (auto simp: load trimmedFailure_def primedAdvance_def neverFails_def)
  then show ?thesis
    using cursorAt_advance [OF pagesFrom_seqs [OF assms(1)] c(1) n order_refl] by simp
qed

lemma filter_from:
  assumes "map ev_seq rlog = [1..<Suc (length rlog)]" and "1 \<le> q"
  shows "filter (\<lambda>e. q \<le> ev_seq e) rlog = drop (q - 1) rlog"
proof -
  have seq: "ev_seq (rlog ! i) = Suc i" if "i < length rlog" for i
    using nth_map [OF that, of ev_seq] that by (simp add: assms(1) del: upt_Suc)
  have "filter (\<lambda>e. q \<le> ev_seq e) (take (q - 1) rlog) = []"
    unfolding filter_empty_conv
  proof
    fix e assume "e \<in> set (take (q - 1) rlog)"
    then obtain i where "i < length rlog" "Suc i < q" "e = rlog ! i" by (auto simp: in_set_conv_nth)
    then show "\<not> q \<le> ev_seq e" using seq by simp
  qed
  moreover have "filter (\<lambda>e. q \<le> ev_seq e) (drop (q - 1) rlog) = drop (q - 1) rlog"
    unfolding filter_id_conv
  proof
    fix e assume "e \<in> set (drop (q - 1) rlog)"
    then obtain i where "q - 1 + i < length rlog" "e = rlog ! (q - 1 + i)"
      by (auto simp: in_set_conv_nth add.commute less_diff_conv)
    then show "q \<le> ev_seq e" using seq by simp
  qed
  ultimately show ?thesis by (metis append_self_conv2 append_take_drop_id filter_append)
qed

lemma memory_pages:
  assumes "plainStore st"
  shows "pages (sv_read (viewOf st r)) (memoryRead st r 1)" and "length (memoryRead st r 1) = tailOf st r"
proof -
  note seqs = plainStore_read(2) [OF assms, of r]
  show len: "length (memoryRead st r 1) = tailOf st r" using arg_cong [OF seqs, of length] by simp
  have rest: "memoryRead st r q = drop (q - 1) (memoryRead st r 1)" if "1 \<le> q" for q
    using filter_from [of "memoryRead st r 1" q] that
    by (simp only: plainStore_read(1) [OF assms, of r q] seqs len)
  have limited: "readFrom st r (Some q) limit = (case limit of None \<Rightarrow> memoryRead st r q | Some n \<Rightarrow> take n (memoryRead st r q))"
    for q limit by (simp add: memoryRead_def readFrom_def split: option.split)
  have "\<exists>k. sv_read (viewOf st r) q limit = take k (drop (q - 1) (memoryRead st r 1))
      \<and> (q \<le> length (memoryRead st r 1) \<and> limit \<noteq> Some 0 \<longrightarrow> 0 < k) \<and> (\<forall>n. limit = Some n \<longrightarrow> k \<le> n)"
    if q: "1 \<le> q" for q limit
  proof (cases limit)
    case None
    then show ?thesis
      by (intro exI [of _ "Suc (length (memoryRead st r 1))"]) (simp add: viewOf_def limited rest [OF q])
  next
    case (Some n)
    then show ?thesis by (intro exI [of _ n]) (auto simp: viewOf_def limited rest [OF q])
  qed
  then show "pages (sv_read (viewOf st r)) (memoryRead st r 1)"
    unfolding pages_def pagesFrom_def using seqs len by simp
qed

text \<open>The entries of a cache.\<close>

lemma evict_entries: "set (evict limit m) \<subseteq> set m"
proof (induction m)
  case (Cons a m)
  then show ?case by (subst evict.simps) (auto split: prod.split)
qed (simp add: evict.simps)

lemma cacheSet_entries: "set (cacheSet limit r v m) \<subseteq> insert (r, v) (set m)"
  using evict_entries [of limit "dput r v (ddel r m)"] set_dput_subset [of r v "ddel r m"] set_ddel_subset [of r m]
  by (auto simp: cacheSet_def split: if_splits)

lemma cacheGet_entries:
  assumes "cacheGet r m = (found, m')"
  shows "set m' \<subseteq> set m \<and> (\<forall>v. found = Some v \<longrightarrow> (r, v) \<in> set m)"
proof (cases "dget m r")
  case None
  then show ?thesis using assms by (simp add: cacheGet_def)
next
  case (Some v)
  then show ?thesis
    using assms set_dput_subset [of r v "ddel r m"] set_ddel_subset [of r m] map_of_SomeD [OF Some]
    by (auto simp: cacheGet_def)
qed

text \<open>
  The contract of a log that is read in pages, on top of the one of a log: the view the repository gets
  of a sound store pages its log. The memory store provides it.
\<close>

locale paged_log = event_log append_at read_from tail_of sound
  for append_at :: "'st \<Rightarrow> string \<Rightarrow> envelope list \<Rightarrow> nat \<Rightarrow> (nat list \<times> 'st) option"
    and read_from :: "'st \<Rightarrow> string \<Rightarrow> nat \<Rightarrow> envelope list"
    and tail_of :: "'st \<Rightarrow> string \<Rightarrow> nat"
    and sound :: "'st \<Rightarrow> bool" +
  fixes view_of :: "'st \<Rightarrow> string \<Rightarrow> store_view"
  assumes view_pages: "sound st \<Longrightarrow> pages (sv_read (view_of st r)) (read_from st r 1)"
    and view_tail: "sound st \<Longrightarrow> sv_tail (view_of st r) = tail_of st r"
begin

lemma view_length: "sound st \<Longrightarrow> length (read_from st r 1) = tail_of st r"
  using arg_cong [OF read_seqs, of st length r] by simp

lemma cold:
  assumes "sound st" and "neverFails prime" and "neverFails primeState"
    and "cursorAt reg r (read_from st r 1) (startCursor r snap)"
  shows "\<exists>c. loadCursorCold prime primeState reg (view_of st r) r snap = Some (Inr c)
    \<and> cursorAt reg r (read_from st r 1) c \<and> cu_seq c = tail_of st r"
  using coldFrom [of 1, OF view_pages [OF assms(1), of r, unfolded pages_def] _ assms(2,3,4)]
    view_tail [OF assms(1), of r] view_length [OF assms(1), of r] by simp

text \<open>The cached load.\<close>

lemma load:
  assumes "sound st" and "neverFails prime" and "neverFails primeState"
    and "cursorAt reg r (read_from st r 1) (startCursor r snap)"
    and "\<forall>c. (r, c) \<in> set cache \<longrightarrow> cursorAt reg r (read_from st r 1) c \<or> tail_of st r < cu_seq c"
  shows "\<exists>cache' c. loadCursor prime primeState reg limit (view_of st r) r snap cache = Some (cache', Inr c)
    \<and> cursorAt reg r (read_from st r 1) c \<and> cu_seq c = tail_of st r \<and> set cache' \<subseteq> insert (r, c) (set cache)"
proof -
  let ?log = "read_from st r 1"
  obtain c where c: "loadCursorCold prime primeState reg (view_of st r) r snap = Some (Inr c)"
      "cursorAt reg r ?log c" "cu_seq c = tail_of st r"
    using cold [OF assms(1-4)] by blast
  obtain found cache1 where get: "cacheGet r cache = (found, cache1)" by fastforce
  note get_set = cacheGet_entries [OF get]
  note tail = view_tail [OF assms(1), of r]
  show ?thesis
  proof (cases found)
    case None
    then show ?thesis
      using c get get_set cacheSet_entries [of limit r c cache1] by (auto simp: loadCursor_def storeLoaded_def)
  next
    case (Some cached)
    have entry: "cursorAt reg r ?log cached \<or> tail_of st r < cu_seq cached" using get_set Some assms(5) by blast
    consider "tail_of st r < cu_seq cached" | "tail_of st r = cu_seq cached" | "cu_seq cached < tail_of st r" by linarith
    then show ?thesis
    proof cases
      case 1
      then show ?thesis
        using c get get_set Some set_ddel_subset [of r cache1]
        by (auto simp: loadCursor_def cacheDelete_def tail)
    next
      case 2
      then show ?thesis using get get_set Some entry by (auto simp: loadCursor_def tail)
    next
      case 3
      then obtain c' where c': "catchUp prime reg (view_of st r) r cached (Some (tail_of st r)) = Some (Inr c')"
          "cursorAt reg r ?log c'" "cu_seq c' = tail_of st r"
        using catchUp_pages [OF view_pages [OF assms(1)] _ assms(2), where reg = reg and r = r and c = cached and t = "tail_of st r"]
          entry view_length [OF assms(1)] tail by auto
      then show ?thesis
        using get get_set Some 3 cacheSet_entries [of limit r c' cache1]
        by (auto simp: loadCursor_def tail storeLoaded_def)
    qed
  qed
qed

end

interpretation memory_view: paged_log "memoryAppend bytes" memoryRead tailOf plainStore viewOf for bytes
  by unfold_locales (rule memory_pages(1), assumption, simp add: viewOf_def)

section \<open>Loading and committing on the memory store\<close>


text \<open>What other writers may do to the store: append to the log of the run.\<close>

definition onlyAppends :: "string \<Rightarrow> (memory_store \<Rightarrow> memory_store) \<Rightarrow> bool" where
  "onlyAppends r f \<longleftrightarrow> (\<forall>st. plainStore st \<longrightarrow>
     plainStore (f st) \<and> (\<exists>later. memoryRead (f st) r 1 = memoryRead st r 1 @ later))"

lemma append_not_deduplicated:
  assumes "plainStore st" and "append_events bytes st r es (commitOptions c planned) = Inr (result, st')"
  shows "if ar_deduplicated result then st' = st
    else tailOf st r = cu_seq c \<and> memoryRead st' r 1 = memoryRead st r 1 @ numberEvents r (cu_seq c) es"
proof (cases "ar_deduplicated result")
  case True
  then show ?thesis
    using assms(2) by (auto simp: append_events_def Let_def split: option.splits sum.splits bool.splits prod.splits)
next
  case False
  note success = append_events_success [OF assms(2) False]
  have tail: "tailOf st r = cu_seq c"
    using success by (auto simp: appendGuard_def Let_def commitOptions_def split: option.splits if_splits sum.splits prod.splits)
  have "store_ok st" using assms(1) by (simp add: plainStore_def)
  from appendLog_read [OF this, of "ar_sequences result" st' r es "commitOptions c planned" 1]
  have "memoryRead st' r 1 = memoryRead st r 1 @ filter (\<lambda>e. 1 \<le> ev_seq e) (numberEvents r (tailOf st r) es)"
    using success by (simp add: memoryRead_def commitOptions_def)
  moreover have "filter (\<lambda>e. 1 \<le> ev_seq e) (numberEvents r (tailOf st r) es) = numberEvents r (tailOf st r) es"
    by (intro filter_True) (use numberEvents_mem in fastforce)
  ultimately show ?thesis using False tail by simp
qed

definition freshCache :: "registry \<Rightarrow> string \<Rightarrow> memory_store \<Rightarrow> run_cursor dict \<Rightarrow> bool" where
  "freshCache reg r st cache \<longleftrightarrow>
     (\<forall>c. (r, c) \<in> set cache \<longrightarrow> cursorAt reg r (memoryRead st r 1) c \<or> tailOf st r < cu_seq c)"

text \<open>
  C22. A commit is serializable: when a commit appended, the batch was planned from a cursor with the
  state of the whole log as it was at the very moment of the append, and the log then is that log
  followed by the batch, whatever other writers appended before, in as many rounds as were lost; a
  commit that was deduplicated appended nothing.
\<close>

theorem commit_serializable:
  assumes "plainStore st" and "neverFails prime" and "neverFails primeState"
    and "\<forall>k. onlyAppends r (others k)" and "freshCache reg r st cache"
    and "cursorAt reg r (memoryRead st r 1) (startCursor r snap)"
    and "commit bytes prime primeState reg limit r snap plan others (st, cache) = Some ((st', cache'), Inr result)"
    and "cr_append result = Some appended"
  shows "\<exists>st0 planned. plainStore st0 \<and> plan (cr_cursor result) = Inr planned \<and> cr_value result = pl_value planned
     \<and> (\<exists>later. memoryRead st0 r 1 = memoryRead st r 1 @ later)
     \<and> (if ar_deduplicated appended then st' = st0
        else memoryRead st' r 1 = memoryRead st0 r 1 @ numberEvents r (tailOf st0 r) (stripSeq (pl_events planned))
           \<and> cu_seq (cr_cursor result) = tailOf st0 r
           \<and> cu_state (cr_cursor result) = foldRun reg (emptyRunState r) (memoryRead st0 r 1))"
proof -
  have rounds: "\<exists>st0 planned. plainStore st0 \<and> plan (cr_cursor result) = Inr planned \<and> cr_value result = pl_value planned
     \<and> (\<exists>later. memoryRead st0 r 1 = memoryRead st r 1 @ later)
     \<and> (if ar_deduplicated appended then st' = st0
        else memoryRead st' r 1 = memoryRead st0 r 1 @ numberEvents r (tailOf st0 r) (stripSeq (pl_events planned))
           \<and> cu_seq (cr_cursor result) = tailOf st0 r
           \<and> cu_state (cr_cursor result) = foldRun reg (emptyRunState r) (memoryRead st0 r 1))"
    if "commitRounds bytes prime primeState reg limit r snap plan fs (st, cache) = Some ((st', cache'), Inr result)"
      "\<forall>f \<in> set fs. onlyAppends r f" "plainStore st" "freshCache reg r st cache"
      "cursorAt reg r (memoryRead st r 1) (startCursor r snap)" for fs st cache
    using that
  proof (induction fs arbitrary: st cache)
    case (Cons f fs)
    obtain cache1 c where load: "loadCursor prime primeState reg limit (viewOf st r) r snap cache = Some (cache1, Inr c)"
        "cursorAt reg r (memoryRead st r 1) c" "cu_seq c = tailOf st r"
      using memory_view.load [OF Cons.prems(3) assms(2,3) Cons.prems(5)] Cons.prems(4) unfolding freshCache_def by blast
    have state: "cu_state c = foldRun reg (emptyRunState r) (memoryRead st r 1)"
      using load(2,3) memory_pages(2) [OF Cons.prems(3), of r] by (simp add: cursorAt_def)
    obtain later where other: "plainStore (f st)" "memoryRead (f st) r 1 = memoryRead st r 1 @ later"
      using Cons.prems(2,3) by (auto simp: onlyAppends_def)
    obtain planned where plan: "plan c = Inr planned"
      using Cons.prems(1) load(1) by (cases "plan c") (auto simp: commitRound_def)
    show ?case
    proof (cases "append_events bytes (f st) r (stripSeq (pl_events planned)) (commitOptions c planned)")
      case (Inr p)
      obtain res st1 where p: "p = (res, st1)" by fastforce
      have finished: "pl_events planned \<noteq> [] \<and> st' = st1 \<and> result = \<lparr>cr_value = pl_value planned, cr_cursor = c, cr_append = Some res\<rparr>"
        using Cons.prems(1) load(1) plan Inr p assms(8) by (auto simp: commitRound_def split: if_splits)
      then have res: "res = appended" using assms(8) by simp
      note appended = append_not_deduplicated [OF other(1) Inr [unfolded p]]
      have same: "memoryRead (f st) r 1 = memoryRead st r 1" if "\<not> ar_deduplicated res"
      proof -
        have "tailOf (f st) r = tailOf st r" using appended that load(3) by simp
        then have "length (memoryRead (f st) r 1) = length (memoryRead st r 1)"
          using memory_pages(2) [OF other(1)] memory_pages(2) [OF Cons.prems(3)] by simp
        then show ?thesis using other(2) by simp
      qed
      show ?thesis
        by (rule exI [of _ "f st"], rule exI [of _ planned])
           (use plan finished res appended same other load(3) state in auto)
    next
      case (Inl e)
      have conflict: "commitRounds bytes prime primeState reg limit r snap plan fs (f st, cacheDelete r cache1)
          = Some ((st', cache'), Inr result)"
        using Cons.prems(1) load(1) plan Inl assms(8) by (cases e) (auto simp: commitRound_def split: if_splits)
      have "freshCache reg r (f st) (cacheDelete r cache1)"
        by (auto simp: freshCache_def cacheDelete_def AList.delete_eq)
      moreover have "cursorAt reg r (memoryRead (f st) r 1) (startCursor r snap)"
        unfolding other(2) by (rule cursorAt_extends [OF Cons.prems(5)])
      ultimately show ?thesis
        using Cons.IH [OF conflict] Cons.prems(2) other by (metis (no_types, lifting) append.assoc list.set_intros(2))
    qed
  qed simp
  show ?thesis
    by (rule rounds [OF assms(7) [unfolded commit_def]]) (use assms(1,4,5,6) in auto)
qed


definition samplePlan :: "run_cursor \<Rightarrow> repository_error + nat commit_plan" where
  "samplePlan c = Inr \<lparr>pl_events = [sampleEvent ''go'' []], pl_value = cu_seq c, pl_idempotencyKey = None\<rparr>"

lemma sampleLoad:
  "loadCursor (\<lambda>_. None) (\<lambda>_. None) sampleRegistry 4 (viewOf emptyStore ''r'') ''r'' None []
     = Some ([(''r'', emptyCursor ''r'')], Inr (emptyCursor ''r''))"
  by (simp add: loadCursor_def cacheGet_def loadCursorCold_def startCursor_def emptyCursor_def viewOf_def readFrom_def
      emptyStore_def readRemaining.simps primedAdvance_def storeLoaded_def cacheSet_def evict.simps Let_def)

lemma sampleCommit:
  "\<exists>st' result. commit noBytes (\<lambda>_. None) (\<lambda>_. None) sampleRegistry 4 ''r'' None samplePlan (\<lambda>_ st. st) (emptyStore, [])
     = Some ((st', [(''r'', emptyCursor ''r'')]), Inr result)
     \<and> (\<exists>a. cr_append result = Some a \<and> \<not> ar_deduplicated a)"
proof -
  have first: "map (\<lambda>_ st. st) [0..<maxCommitConflicts] = (\<lambda>st. st) # map (\<lambda>_ st. st) [1..<maxCommitConflicts]"
    by (simp add: maxCommitConflicts_def upt_conv_Cons)
  obtain p where p: "append_events noBytes emptyStore ''r'' (stripSeq [sampleEvent ''go'' []])
      (noOptions\<lparr>ao_expectedTail := Some 0, ao_idempotency := None\<rparr>) = Inr p \<and> \<not> ar_deduplicated (fst p)"
    by (simp add: append_events_def appendGuard_def fencingGuard_def Let_def split_beta)
  then show ?thesis
    unfolding commit_def first
    by (cases p) (simp add: commitRound_def sampleLoad samplePlan_def commitOptions_def emptyCursor_def)
qed

lemma commit_serializable_witness:
  "\<exists>st' cache' result. commit noBytes (\<lambda>_. None) (\<lambda>_. None) sampleRegistry 4 ''r'' None samplePlan (\<lambda>_ st. st) (emptyStore, [])
     = Some ((st', cache'), Inr result)
     \<and> (\<exists>st0 planned. plainStore st0 \<and> samplePlan (cr_cursor result) = Inr planned
          \<and> memoryRead st' ''r'' 1 = memoryRead st0 ''r'' 1 @ numberEvents ''r'' (tailOf st0 ''r'') (stripSeq (pl_events planned)))"
proof -
  obtain st' result a where commit: "commit noBytes (\<lambda>_. None) (\<lambda>_. None) sampleRegistry 4 ''r'' None samplePlan
      (\<lambda>_ st. st) (emptyStore, []) = Some ((st', [(''r'', emptyCursor ''r'')]), Inr result)"
    "cr_append result = Some a" "\<not> ar_deduplicated a"
    using sampleCommit by blast
  have quiet: "\<forall>k. onlyAppends ''r'' ((\<lambda>_ st. st) (k :: nat))" by (simp add: onlyAppends_def)
  have fresh: "freshCache sampleRegistry ''r'' emptyStore []" by (simp add: freshCache_def)
  have start: "cursorAt sampleRegistry ''r'' (memoryRead emptyStore ''r'' 1) (startCursor ''r'' None)"
    by (simp add: startCursor_def)
  have never: "neverFails (\<lambda>_ :: 'b. None)" by (simp add: neverFails_def)
  from commit_serializable [OF plainStore_empty never never quiet fresh start commit(1,2)] commit
  show ?thesis by auto
qed

section \<open>Folding what was appended\<close>

lemma foldRun_ephemeral: "\<forall>e \<in> set es. ev_ephemeral e \<Longrightarrow> foldRun reg s es = s"
  by (induction es arbitrary: s) simp_all

lemma applyAppend_pagesFrom:
  assumes "pagesFrom h (sv_read v) rlog" and "sv_tail v = length rlog" and "neverFails prime" and "cursorAt reg r rlog c"
    and "rlog = before @ gap @ numberEvents r (length before + length gap) batch @ later"
    and "cu_seq c = length before" and "batch \<noteq> []" and "\<forall>e \<in> set batch. ev_runId e = r"
    and "ar_sequences result = [Suc (length before + length gap)..<Suc (length before + length gap + length batch)]"
    and "ar_tail result = length rlog"
    and "liveCount = length gap \<longrightarrow> (\<forall>e \<in> set gap. ev_ephemeral e)" and "h \<le> Suc (cu_seq c)"
  shows "\<exists>c'. applyAppend prime reg limit v r c batch result 0 (cache, liveCount) = Some ((cacheSet limit r c' cache, 0), Inr c')
     \<and> cursorAt reg r rlog c' \<and> cu_seq c' = length rlog"
proof -
  let ?t = "length before + length gap"
  let ?echo = "numberEvents r ?t batch"
  note catch = catchUp_pagesFrom [OF assms(1-3)]
  have room: "?t + length batch \<le> length rlog" by (simp add: assms(5))
  have assigned: "assignSequences batch (ar_sequences result) = Inr ?echo"
    using memory_log.numberEvents_assigned [OF assms(8), of ?t] assms(9) by (simp add: assignSequences_def)
  obtain b bs where batch: "batch = b # bs" using assms(7) by (cases batch) auto
  have "\<exists>c1. bridgeGap prime reg v r c ?echo 0 liveCount = Some (Inr c1) \<and> cursorAt reg r rlog c1 \<and> cu_seq c1 = ?t"
  proof -
    consider "gap = []" | "gap \<noteq> []" "liveCount = length gap" | "gap \<noteq> []" "liveCount \<noteq> length gap" by blast
    then show ?thesis
    proof cases
      case 1
      then show ?thesis using assms(4,6) by (simp add: bridgeGap_def batch)
    next
      case 2
      let ?c = "c\<lparr>cu_seq := ?t\<rparr>"
      have "take ?t rlog = before @ gap" by (simp add: assms(5))
      moreover have "cu_state c = foldRun reg (emptyRunState r) before"
        using assms(4) by (simp add: cursorAt_def assms(6) assms(5))
      ultimately have "cursorAt reg r rlog ?c"
        using foldRun_ephemeral [of gap reg] assms(11) 2 room by (simp add: cursorAt_def)
      then show ?thesis using 2 assms(6) by (simp add: bridgeGap_def batch)
    next
      case 3
      have "catchUp prime reg v r c (Some ?t) = catchUp prime reg v r c (Some (ev_seq (hd ?echo) - 1))"
        by (simp add: batch)
      then show ?thesis
        using catch [OF assms(4), of ?t] 3 assms(6,12) room by (simp add: bridgeGap_def batch)
    qed
  qed
  then obtain c1 where c1: "bridgeGap prime reg v r c ?echo 0 liveCount = Some (Inr c1)"
      "cursorAt reg r rlog c1" "cu_seq c1 = ?t" by blast
  let ?c2 = "advanceCursor c1 ?echo reg"
  have "drop ?t (take (?t + length batch) rlog) = ?echo" by (simp add: assms(5))
  then have c2: "cursorAt reg r rlog ?c2" "cu_seq ?c2 = ?t + length batch"
    using cursorAt_advance [OF pagesFrom_seqs [OF assms(1)] c1(2), of "?t + length batch"] c1(3) room by simp_all
  have "\<exists>c'. (if cu_seq ?c2 = length rlog then Some (Inr ?c2) else catchUp prime reg v r ?c2 (Some (length rlog)))
      = Some (Inr c') \<and> cursorAt reg r rlog c' \<and> cu_seq c' = length rlog"
    using c2 catch [OF c2(1), of "length rlog"] room assms(6,12) by auto
  then obtain c' where c': "(if cu_seq ?c2 = length rlog then Some (Inr ?c2)
        else catchUp prime reg v r ?c2 (Some (length rlog))) = Some (Inr c')"
      "cursorAt reg r rlog c'" "cu_seq c' = length rlog" by blast
  then have "applyAppend prime reg limit v r c batch result 0 (cache, liveCount)
      = Some ((cacheSet limit r c' cache, 0), Inr c')"
    using assms(3,10) c'(1) by (simp add: applyAppend_def storeLoaded_def assigned c1(1) primedAdvance_def neverFails_def split: if_splits)
  then show ?thesis using c'(2,3) by blast
qed

text \<open>
  C24. After an append the cursor is at the tail again: folding the events the append echoed, stepping over
  the live events this run wrote in between or catching up over what others wrote, before and after
  the batch, gives the cursor of the whole log.
\<close>

theorem applyAppend_current:
  assumes "plainStore st" and "neverFails prime" and "cursorAt reg r (memoryRead st r 1) c"
    and "memoryRead st r 1 = before @ gap @ numberEvents r (length before + length gap) batch @ later"
    and "cu_seq c = length before" and "batch \<noteq> []" and "\<forall>e \<in> set batch. ev_runId e = r"
    and "ar_sequences result = [Suc (length before + length gap)..<Suc (length before + length gap + length batch)]"
    and "ar_tail result = tailOf st r"
    and "liveCount = length gap \<longrightarrow> (\<forall>e \<in> set gap. ev_ephemeral e)"
  shows "\<exists>c'. applyAppend prime reg limit (viewOf st r) r c batch result 0 (cache, liveCount)
       = Some ((cacheSet limit r c' cache, 0), Inr c')
     \<and> cu_seq c' = tailOf st r \<and> cu_state c' = foldRun reg (emptyRunState r) (memoryRead st r 1)"
proof -
  note pg = memory_pages(1) [OF assms(1), of r]
  have len: "length (memoryRead st r 1) = tailOf st r" by (rule memory_pages(2) [OF assms(1)])
  have tail: "sv_tail (viewOf st r) = length (memoryRead st r 1)" by (simp only: len) (simp add: viewOf_def)
  from applyAppend_pagesFrom [OF pg [unfolded pages_def] tail assms(2-8) _ assms(10)] assms(9) len
  show ?thesis by (fastforce simp: cursorAt_def)
qed

lemma applyAppend_current_witness:
  "\<exists>st c'. applyAppend (\<lambda>_. None) sampleRegistry 4 (viewOf st ''r'') ''r'' (emptyCursor ''r'') [sampleEvent ''go'' []]
       \<lparr>ar_sequences = [1], ar_tail = 1, ar_deduplicated = False\<rparr> 0 ([], 0) = Some ((cacheSet 4 ''r'' c' [], 0), Inr c') \<and> cu_seq c' = 1"
proof -
  let ?batch = "[sampleEvent ''go'' []]"
  have empty: "tailOf emptyStore ''r'' = 0" by (simp add: tailOf_def emptyStore_def)
  obtain qs st where append: "memoryAppend noBytes emptyStore ''r'' ?batch 0 = Some (qs, st)"
    by (simp add: memoryAppend_def append_events_def appendGuard_def fencingGuard_def empty Let_def split_beta) (metis surj_pair)
  note spec = memoryAppend_spec [OF plainStore_empty append]
  have "memoryRead emptyStore ''r'' 1 = []" by (simp add: memoryRead_def readFrom_def emptyStore_def)
  then have rlog: "memoryRead st ''r'' 1 = [] @ [] @ numberEvents ''r'' (length [] + length []) ?batch @ []"
    using spec(2) by simp
  have tail: "tailOf st ''r'' = 1" using memory_pages(2) [OF spec(3), of "''r''"] arg_cong [OF rlog, of length] by simp
  have never: "neverFails (\<lambda>_ :: envelope list. None)" by (simp add: neverFails_def)
  have run: "ev_runId (sampleEvent ''go'' []) = ''r''" by (simp add: sampleEvent_def)
  have "\<exists>c'. applyAppend (\<lambda>_. None) sampleRegistry 4 (viewOf st ''r'') ''r'' (emptyCursor ''r'') ?batch
      \<lparr>ar_sequences = [1], ar_tail = 1, ar_deduplicated = False\<rparr> 0 ([], 0) = Some ((cacheSet 4 ''r'' c' [], 0), Inr c') \<and> cu_seq c' = tailOf st ''r''
      \<and> cu_state c' = foldRun sampleRegistry (emptyRunState ''r'') (memoryRead st ''r'' 1)"
    by (rule applyAppend_current [OF spec(3) never cursorAt_empty rlog])
       (simp_all add: emptyCursor_def run tail upt_conv_Cons)
  with tail show ?thesis by auto
qed

end
