(* ===== verification/Snapshot_Store.thy ===== *)
theory Snapshot_Store
  imports Repository
begin

text \<open>
  \<open>packages/core/src/snapshot-store.ts\<close>, the memory snapshot store, and how the repository persists a
  snapshot (\<open>persistSnapshot\<close> in \<open>packages/runtime/src/repository.ts\<close>): save the state of the cursor, keep
  the latest few, and trim the log behind the oldest one kept when an archive or the projectors cover it.

  The hash of a state, the clock, whether a snapshot is within the byte limit, and the coverage the host
  reports (or its failure) are arguments.
\<close>

section \<open>The memory snapshot store\<close>

record saved_snapshot = run_snapshot +
  ss_runId :: string
  ss_stateHash :: string
  ss_takenAt :: number

type_synonym snapshots = "saved_snapshot list dict"

definition snapshotsOf :: "snapshots \<Rightarrow> string \<Rightarrow> saved_snapshot list" where
  "snapshotsOf snaps runId = withDefault (dget snaps runId) []"

definition loadLatest :: "snapshots \<Rightarrow> string \<Rightarrow> saved_snapshot option" where
  "loadLatest snaps runId = (case snapshotsOf snaps runId of [] \<Rightarrow> None | xs \<Rightarrow> Some (last xs))"

text \<open>\<open>fits\<close> is \<open>assertSnapshotByteLimit\<close>; \<open>None\<close> refuses.\<close>

definition saveSnapshot :: "(saved_snapshot \<Rightarrow> bool) \<Rightarrow> snapshots \<Rightarrow> saved_snapshot \<Rightarrow> snapshots option" where
  "saveSnapshot fits snaps snap =
     (if fits snap then Some (dput (ss_runId snap) (snapshotsOf snaps (ss_runId snap) @ [snap]) snaps) else None)"

definition listCursors :: "snapshots \<Rightarrow> string \<Rightarrow> nat list" where
  "listCursors snaps runId = map sn_cursor (snapshotsOf snaps runId)"

definition pruneSnapshots :: "snapshots \<Rightarrow> string \<Rightarrow> nat \<Rightarrow> snapshots" where
  "pruneSnapshots snaps runId keepLatest =
     (let xs = snapshotsOf snaps runId in
      if length xs \<le> keepLatest then snaps else dput runId (drop (length xs - keepLatest) xs) snaps)"

section \<open>Persisting a snapshot\<close>

text \<open>\<open>trimAfterSnapshot\<close> and what its \<open>coverage\<close> answers: nothing configured, a failure, or the coverage.\<close>

datatype coverage_answer = NoCoverage | CoverageFailed | Covered trim_coverage

record snapshot_options =
  so_hash :: "run_state \<Rightarrow> string"
  so_fits :: "saved_snapshot \<Rightarrow> bool"
  so_keep :: nat

definition takenSnapshot :: "snapshot_options \<Rightarrow> string \<Rightarrow> number \<Rightarrow> run_cursor \<Rightarrow> saved_snapshot" where
  "takenSnapshot opts runId takenAt c = \<lparr>sn_cursor = cu_seq c, sn_state = cu_state c, ss_runId = runId,
     ss_stateHash = so_hash opts (cu_state c), ss_takenAt = takenAt\<rparr>"

text \<open>The trim behind the oldest kept snapshot; \<open>None\<close> when the coverage fails or does not cover it.\<close>

definition trimBehind ::
  "snapshot_options \<Rightarrow> coverage_answer \<Rightarrow> snapshots \<Rightarrow> memory_store \<Rightarrow> string \<Rightarrow> memory_store option" where
  "trimBehind opts answer snaps st runId =
     (if answer = NoCoverage then Some st
      else let cursors = listCursors snaps runId; idx = length cursors - so_keep opts in
        if length cursors \<le> idx then Some st
        else (case answer of
                Covered coverage \<Rightarrow>
                  (case trimEventStoreSafely True st runId (cursors ! idx + 1) coverage of
                     Inl _ \<Rightarrow> None | Inr st' \<Rightarrow> Some st')
              | _ \<Rightarrow> None))"

text \<open>A failure leaves what was done before it and returns the cursor as it was.\<close>

definition persistSnapshot ::
  "snapshot_options \<Rightarrow> number \<Rightarrow> coverage_answer \<Rightarrow> snapshots \<times> memory_store \<Rightarrow> string \<Rightarrow> run_cursor \<Rightarrow>
     (snapshots \<times> memory_store) \<times> run_cursor" where
  "persistSnapshot opts takenAt answer sc runId c =
     (let (snaps, st) = sc in
      if cu_durableSinceSnapshot c = 0 then (sc, c)
      else (case saveSnapshot (so_fits opts) snaps (takenSnapshot opts runId takenAt c) of
              None \<Rightarrow> (sc, c)
            | Some saved \<Rightarrow>
                (let kept = pruneSnapshots saved runId (so_keep opts) in
                 case trimBehind opts answer kept st runId of
                   None \<Rightarrow> ((kept, st), c)
                 | Some st' \<Rightarrow> ((kept, st'), c\<lparr>cu_durableSinceSnapshot := 0\<rparr>))))"

section \<open>A run that can be recovered\<close>

text \<open>
  \<open>hist\<close> is everything ever appended to the run. The store keeps it from its head on, every snapshot is the
  fold of what it covers, and the latest snapshot reaches up to the head.
\<close>

definition keepsFrom :: "memory_store \<Rightarrow> string \<Rightarrow> envelope list \<Rightarrow> nat \<Rightarrow> bool" where
  "keepsFrom st r hist h \<longleftrightarrow> map ev_seq hist = [1..<Suc (length hist)] \<and> 1 \<le> h \<and> tailOf st r = length hist
     \<and> (\<forall>l. dget (ms_logs st) r = Some l \<longrightarrow> lg_head l = h \<and> lg_events l = filter (\<lambda>e. h \<le> ev_seq e) hist)
     \<and> (dget (ms_logs st) r = None \<longrightarrow> hist = [] \<and> h = 1)"

definition latestSnapshot :: "snapshots \<Rightarrow> string \<Rightarrow> run_snapshot option" where
  "latestSnapshot snaps r = map_option run_snapshot.truncate (loadLatest snaps r)"

definition recoverable :: "registry \<Rightarrow> string \<Rightarrow> envelope list \<Rightarrow> snapshots \<Rightarrow> memory_store \<Rightarrow> bool" where
  "recoverable reg r hist snaps st \<longleftrightarrow>
     (\<exists>h. keepsFrom st r hist h \<and> h \<le> Suc (cu_seq (startCursor r (latestSnapshot snaps r))))
     \<and> (\<forall>x \<in> set (snapshotsOf snaps r). cursorAt reg r hist (startCursor r (Some (run_snapshot.truncate x))))"

lemma keepsFrom_read:
  assumes "keepsFrom st r hist h" and "h \<le> q" and "1 \<le> q"
  shows "readFrom st r (Some q) None = drop (q - 1) hist"
proof (cases "dget (ms_logs st) r")
  case None
  then show ?thesis using assms(1) by (simp add: keepsFrom_def readFrom_def)
next
  case (Some l)
  then have l: "lg_head l = h" "lg_events l = filter (\<lambda>e. h \<le> ev_seq e) hist"
    using assms(1) by (simp_all add: keepsFrom_def)
  have "readFrom st r (Some q) None = filter (\<lambda>e. q \<le> ev_seq e) (filter (\<lambda>e. h \<le> ev_seq e) hist)"
    using Some l assms(2) by (simp add: readFrom_def max_absorb1)
  also have "\<dots> = filter (\<lambda>e. q \<le> ev_seq e) hist" using assms(2) by (simp add: conj_commute) (metis le_trans)
  also have "\<dots> = drop (q - 1) hist"
    using filter_from [OF _ assms(3), of hist] assms(1) by (simp add: keepsFrom_def)
  finally show ?thesis .
qed

lemma keepsFrom_pages:
  assumes "keepsFrom st r hist h"
  shows "pagesFrom h (sv_read (viewOf st r)) hist" and "sv_tail (viewOf st r) = length hist"
proof -
  have at: "sv_read (viewOf st r) q limit = (case limit of None \<Rightarrow> drop (q - 1) hist | Some n \<Rightarrow> take n (drop (q - 1) hist))"
    if "1 \<le> q" "h \<le> q" for q limit
  proof -
    have "readFrom st r (Some q) limit = (case limit of None \<Rightarrow> readFrom st r (Some q) None
        | Some n \<Rightarrow> take n (readFrom st r (Some q) None))"
      by (simp add: readFrom_def Let_def split: option.split)
    then show ?thesis by (simp only: keepsFrom_read [OF assms that(2,1)] viewOf_def store_view.simps)
  qed
  have "\<exists>k. sv_read (viewOf st r) q limit = take k (drop (q - 1) hist)
      \<and> (q \<le> length hist \<and> limit \<noteq> Some 0 \<longrightarrow> 0 < k) \<and> (\<forall>n. limit = Some n \<longrightarrow> k \<le> n)"
    if q: "1 \<le> q" "h \<le> q" for q limit
  proof (cases limit)
    case None
    then show ?thesis
      by (intro exI [of _ "Suc (length hist)"]) (simp add: at [OF q])
  next
    case (Some n)
    then show ?thesis by (intro exI [of _ n]) (auto simp: at [OF q])
  qed
  then show "pagesFrom h (sv_read (viewOf st r)) hist"
    using assms by (simp add: pagesFrom_def keepsFrom_def)
  show "sv_tail (viewOf st r) = length hist" using assms by (simp add: viewOf_def keepsFrom_def)
qed

lemma latest_mem: "loadLatest snaps r = Some x \<Longrightarrow> x \<in> set (snapshotsOf snaps r)"
  by (auto simp: loadLatest_def split: list.splits if_splits)

lemma recoverable_load:
  assumes "recoverable reg r hist snaps st" and "neverFails prime" and "neverFails primeState"
  shows "\<exists>c. loadCursorCold prime primeState reg (viewOf st r) r (latestSnapshot snaps r) = Some (Inr c)
    \<and> cursorAt reg r hist c \<and> cu_seq c = length hist"
proof -
  obtain h where h: "keepsFrom st r hist h" "h \<le> Suc (cu_seq (startCursor r (latestSnapshot snaps r)))"
    using assms(1) by (auto simp: recoverable_def)
  have "cursorAt reg r hist (startCursor r (latestSnapshot snaps r))"
  proof (cases "loadLatest snaps r")
    case None
    then show ?thesis by (simp add: latestSnapshot_def startCursor_def)
  next
    case (Some x)
    then show ?thesis using assms(1) latest_mem [OF Some] by (simp add: recoverable_def latestSnapshot_def)
  qed
  from coldFrom [OF keepsFrom_pages [OF h(1)] assms(2,3) this h(2)] show ?thesis .
qed

lemma cacheSet_own:
  assumes "dget (cacheSet limit r v m) r = Some v'"
  shows "if 0 < limit then v' = v else dget m r = Some v'"
proof (cases "0 < limit")
  case True
  then have "(r, v') \<in> set (dput r v (ddel r m))"
    using assms evict_entries [of limit "dput r v (ddel r m)"] by (auto simp: cacheSet_def dest: map_of_SomeD)
  then show ?thesis using True set_dput_subset [of r v "ddel r m"] by (auto simp: AList.delete_eq)
qed (use assms in \<open>simp add: cacheSet_def\<close>)

text \<open>
  A load from a trimmed log: the snapshot and the cached cursor must not lie before what is left. A cache
  without room has no entries.
\<close>

lemma loadCursor_keeps:
  assumes "keepsFrom st r hist h" and "neverFails prime" and "neverFails primeState"
    and "cursorAt reg r hist (startCursor r snap)" and "h \<le> Suc (cu_seq (startCursor r snap))"
    and "\<forall>c. dget cache r = Some c \<longrightarrow> cursorAt reg r hist c \<and> h \<le> Suc (cu_seq c) \<and> 0 < limit"
  shows "\<exists>cache' c. loadCursor prime primeState reg limit (viewOf st r) r snap cache = Some (cache', Inr c)
    \<and> cursorAt reg r hist c \<and> cu_seq c = length hist \<and> (\<forall>c'. dget cache' r = Some c' \<longrightarrow> c' = c \<and> 0 < limit)"
proof -
  obtain c where c: "loadCursorCold prime primeState reg (viewOf st r) r snap = Some (Inr c)"
      "cursorAt reg r hist c" "cu_seq c = length hist"
    using coldFrom [OF keepsFrom_pages [OF assms(1)] assms(2-5)] by blast
  note tail = keepsFrom_pages(2) [OF assms(1)]
  show ?thesis
  proof (cases "dget cache r")
    case None
    then have "dget (cacheSet limit r c cache) r = Some c' \<Longrightarrow> c' = c \<and> 0 < limit" for c'
      using cacheSet_own [of limit r c cache c'] by (auto split: if_splits)
    then show ?thesis using None c by (auto simp: loadCursor_def cacheGet_def storeLoaded_def)
  next
    case (Some cached)
    then have entry: "cursorAt reg r hist cached" "h \<le> Suc (cu_seq cached)" "0 < limit" using assms(6) by auto
    then have "cu_seq cached \<le> length hist" by (simp add: cursorAt_def)
    then consider "cu_seq cached = length hist" | "cu_seq cached < length hist" by linarith
    then show ?thesis
    proof cases
      case 1
      then show ?thesis using Some entry by (auto simp: loadCursor_def cacheGet_def tail)
    next
      case 2
      obtain c' where c': "catchUp prime reg (viewOf st r) r cached (Some (length hist)) = Some (Inr c')"
          "cursorAt reg r hist c'" "cu_seq c' = length hist"
        using catchUp_pagesFrom [OF keepsFrom_pages [OF assms(1)] assms(2) entry(1) _ order_refl entry(2)] 2 by auto
      have "dget (cacheSet limit r c' m) r = Some c1 \<Longrightarrow> c1 = c'" for m c1
        using cacheSet_own [of limit r c' m c1] entry(3) by simp
      then show ?thesis using Some c' 2 entry(3) by (auto simp: loadCursor_def cacheGet_def tail storeLoaded_def)
    qed
  qed
qed

section \<open>Appending and saving keep a run recoverable\<close>

lemma snapshotsOf_dput [simp]: "snapshotsOf (dput r xs snaps) r' = (if r' = r then xs else snapshotsOf snaps r')"
  by (simp add: snapshotsOf_def)

lemma snapshots_cursorAt:
  "(cursorAt reg r hist (startCursor r (Some (run_snapshot.truncate x)))) =
   (sn_cursor x \<le> length hist \<and> sn_state x = foldRun reg (emptyRunState r) (take (sn_cursor x) hist))"
  by (simp add: cursorAt_def startCursor_def run_snapshot.defs)

lemma keepsFrom_append:
  assumes "keepsFrom st r hist h" and "h \<le> Suc (length hist)" and "append_events bytes st r es opts = Inr (res, st')"
    and "\<not> ar_deduplicated res" and "ao_fence opts = None"
  shows "keepsFrom st' r (hist @ numberEvents r (length hist) es) h"
    and "ar_sequences res = [Suc (length hist)..<Suc (length hist + length es)]" and "ar_tail res = length hist + length es"
proof -
  let ?new = "numberEvents r (length hist) es"
  have append: "(ar_sequences res, st') = appendLog st r es opts" "ar_tail res = tailOf st' r"
    using append_events_success [OF assms(3,4)] by simp_all
  have old: "lg_events (getOrCreate st r) = filter (\<lambda>e. h \<le> ev_seq e) hist" "lg_head (getOrCreate st r) = h"
    using assms(1) by (cases "dget (ms_logs st) r"; simp add: keepsFrom_def getOrCreate_def emptyLog_def)+
  obtain l where l: "dget (ms_logs st') r = Some l" "lg_head l = h"
      "lg_events l = filter (\<lambda>e. h \<le> ev_seq e) hist @ ?new" "lg_tail l = length hist + length es"
    using append assms(1) old assms(5) by (simp add: appendLog_def Let_def keepsFrom_def)
  have "filter (\<lambda>e. h \<le> ev_seq e) ?new = ?new"
  proof (rule filter_True, rule ballI)
    fix e assume "e \<in> set ?new"
    from numberEvents_mem [OF this] assms(2) show "h \<le> ev_seq e" by simp
  qed
  moreover have "map ev_seq (hist @ ?new) = [1..<Suc (length (hist @ ?new))]"
    using assms(1) numberEvents_seqs [of r "length hist" es] upt_add_eq_append [of 1 "Suc (length hist)" "length es"]
    by (simp add: keepsFrom_def del: upt_Suc)
  ultimately show "keepsFrom st' r (hist @ ?new) h"
    using assms(1) l by (simp add: keepsFrom_def tailOf_def del: upt_Suc)
  show "ar_sequences res = [Suc (length hist)..<Suc (length hist + length es)]" "ar_tail res = length hist + length es"
    using append l(1,4) assms(1,5) numberEvents_seqs [of r "length hist" es]
    by (simp_all add: appendLog_def Let_def keepsFrom_def tailOf_def del: upt_Suc)
qed

lemma recoverable_append:
  assumes "recoverable reg r hist snaps st" and "append_events bytes st r es opts = Inr (res, st')"
    and "\<not> ar_deduplicated res" and "ao_fence opts = None"
  shows "recoverable reg r (hist @ numberEvents r (length hist) es) snaps st'"
proof -
  let ?new = "numberEvents r (length hist) es"
  obtain h where h: "keepsFrom st r hist h" "h \<le> Suc (cu_seq (startCursor r (latestSnapshot snaps r)))"
    using assms(1) by (auto simp: recoverable_def)
  have start: "cu_seq (startCursor r (latestSnapshot snaps r)) \<le> length hist"
  proof (cases "loadLatest snaps r")
    case None
    then show ?thesis by (simp add: latestSnapshot_def startCursor_def emptyCursor_def)
  next
    case (Some x)
    then show ?thesis using assms(1) latest_mem [OF Some] snapshots_cursorAt [of reg r hist x]
      by (simp add: recoverable_def latestSnapshot_def startCursor_def run_snapshot.defs)
  qed
  have "keepsFrom st' r (hist @ ?new) h"
    using keepsFrom_append(1) [OF h(1) _ assms(2-4)] h(2) start by simp
  moreover have "cursorAt reg r (hist @ ?new) (startCursor r (Some (run_snapshot.truncate x)))" if "x \<in> set (snapshotsOf snaps r)" for x
    using assms(1) that by (intro cursorAt_extends) (simp add: recoverable_def)
  ultimately show ?thesis using h(2) by (auto simp: recoverable_def)
qed

lemma recoverable_head:
  assumes "recoverable reg r hist snaps st"
  shows "\<exists>h. keepsFrom st r hist h \<and> h \<le> Suc (length hist)"
proof -
  obtain h where h: "keepsFrom st r hist h" "h \<le> Suc (cu_seq (startCursor r (latestSnapshot snaps r)))"
    using assms by (auto simp: recoverable_def)
  have "cu_seq (startCursor r (latestSnapshot snaps r)) \<le> length hist"
  proof (cases "loadLatest snaps r")
    case None
    then show ?thesis by (simp add: latestSnapshot_def startCursor_def emptyCursor_def)
  next
    case (Some x)
    then show ?thesis using assms latest_mem [OF Some] snapshots_cursorAt [of reg r hist x]
      by (simp add: recoverable_def latestSnapshot_def startCursor_def run_snapshot.defs)
  qed
  with h show ?thesis by auto
qed

lemma keepsFrom_trim:
  assumes "keepsFrom st r hist h"
  shows "\<exists>h'. keepsFrom (trimLog st r b) r hist h' \<and> h' \<le> max h b"
proof (cases "dget (ms_logs st) r")
  case None
  then show ?thesis using assms by (auto simp: trimLog_def)
next
  case (Some l)
  have "filter (\<lambda>e. b \<le> ev_seq e) (filter (\<lambda>e. h \<le> ev_seq e) hist) = filter (\<lambda>e. max h b \<le> ev_seq e) hist"
    by (auto intro: filter_cong)
  with Some assms have "keepsFrom (trimLog st r b) r hist (max h b)"
    by (auto simp: trimLog_def keepsFrom_def tailOf_def)
  then show ?thesis by blast
qed

text \<open>A state of the snapshots whose latest snapshot is of the whole history.\<close>

lemma recoverable_latest:
  assumes "keepsFrom st r hist h" and "h \<le> Suc (length hist)" and "snapshotsOf snaps r = xs @ [x]" and "sn_cursor x = length hist"
    and "\<forall>y \<in> set (xs @ [x]). sn_cursor y \<le> length hist \<and> sn_state y = foldRun reg (emptyRunState r) (take (sn_cursor y) hist)"
  shows "recoverable reg r hist snaps st"
proof -
  have "loadLatest snaps r = Some x" using assms(3) by (cases xs) (simp_all add: loadLatest_def)
  then have "cu_seq (startCursor r (latestSnapshot snaps r)) = length hist"
    using assms(4) by (simp add: latestSnapshot_def startCursor_def run_snapshot.defs)
  with assms show ?thesis by (auto simp: recoverable_def snapshots_cursorAt)
qed

lemma trimBehind_cases:
  assumes "trimBehind opts answer snaps st r = Some st'"
  shows "st' = st \<or> (\<exists>x \<in> set (snapshotsOf snaps r). st' = trimLog st r (Suc (sn_cursor x)))"
proof -
  let ?cursors = "listCursors snaps r"
  let ?i = "length ?cursors - so_keep opts"
  have "?cursors ! ?i \<in> sn_cursor ` set (snapshotsOf snaps r)" if "?i < length ?cursors"
    using nth_mem [OF that] by (simp add: listCursors_def)
  then show ?thesis
    using assms by (auto simp: trimBehind_def trimEventStoreSafely_def Let_def split: if_splits coverage_answer.splits sum.splits)
qed

text \<open>Persisting does nothing, or it leaves the taken snapshot as the latest and trims behind one that is kept.\<close>

lemma persistSnapshot_cases:
  assumes "1 \<le> so_keep opts" and "persistSnapshot opts takenAt answer (snaps, st) r c = ((snaps', st'), c')"
  shows "cu_seq c' = cu_seq c \<and> cu_state c' = cu_state c"
    and "snaps' = snaps \<and> st' = st \<or> (\<exists>xs. snapshotsOf snaps' r = xs @ [takenSnapshot opts r takenAt c]
      \<and> set xs \<subseteq> set (snapshotsOf snaps r)
      \<and> (st' = st \<or> (\<exists>y \<in> set (xs @ [takenSnapshot opts r takenAt c]). st' = trimLog st r (Suc (sn_cursor y)))))"
proof -
  let ?x = "takenSnapshot opts r takenAt c"
  let ?saved = "dput r (snapshotsOf snaps r @ [?x]) snaps"
  define kept where "kept = pruneSnapshots ?saved r (so_keep opts)"
  have x: "ss_runId ?x = r" by (simp add: takenSnapshot_def)
  show "cu_seq c' = cu_seq c \<and> cu_state c' = cu_state c"
    using assms(2) by (auto simp: persistSnapshot_def Let_def split: option.splits if_splits)
  consider "snaps' = snaps \<and> st' = st" | "snaps' = kept \<and> (st' = st \<or> trimBehind opts answer kept st r = Some st')"
    using assms(2) x by (auto simp: persistSnapshot_def saveSnapshot_def kept_def Let_def split: option.splits if_splits)
  then show "snaps' = snaps \<and> st' = st \<or> (\<exists>xs. snapshotsOf snaps' r = xs @ [?x] \<and> set xs \<subseteq> set (snapshotsOf snaps r)
      \<and> (st' = st \<or> (\<exists>y \<in> set (xs @ [?x]). st' = trimLog st r (Suc (sn_cursor y)))))"
  proof cases
    case 2
    obtain xs where xs: "snapshotsOf kept r = xs @ [?x]" "set xs \<subseteq> set (snapshotsOf snaps r)"
    proof -
      let ?n = "length (snapshotsOf snaps r @ [?x]) - so_keep opts"
      have "?n \<le> length (snapshotsOf snaps r)" using assms(1) by simp
      then have "snapshotsOf kept r = drop ?n (snapshotsOf snaps r) @ [?x]"
        by (auto simp: kept_def pruneSnapshots_def Let_def)
      then show ?thesis by (rule that) (rule set_drop_subset)
    qed
    moreover have "st' = st \<or> (\<exists>y \<in> set (xs @ [?x]). st' = trimLog st r (Suc (sn_cursor y)))"
      using 2 trimBehind_cases [of opts answer kept st r st'] xs(1) by auto
    ultimately show ?thesis using 2 by blast
  qed simp
qed

lemma recoverable_persist:
  assumes "recoverable reg r hist snaps st" and "cursorAt reg r hist c" and "cu_seq c = length hist" and "1 \<le> so_keep opts"
    and "persistSnapshot opts takenAt answer (snaps, st) r c = ((snaps', st'), c')"
  shows "recoverable reg r hist snaps' st' \<and> cu_seq c' = cu_seq c \<and> cu_state c' = cu_state c"
proof -
  let ?x = "takenSnapshot opts r takenAt c"
  note persisted = persistSnapshot_cases [OF assms(4,5)]
  have x: "sn_cursor ?x = length hist" "sn_state ?x = foldRun reg (emptyRunState r) hist"
    using assms(2,3) by (simp_all add: takenSnapshot_def cursorAt_def)
  have "recoverable reg r hist snaps' st'" if xs: "snapshotsOf snaps' r = xs @ [?x]" "set xs \<subseteq> set (snapshotsOf snaps r)"
      and st: "st' = st \<or> (\<exists>y \<in> set (xs @ [?x]). st' = trimLog st r (Suc (sn_cursor y)))" for xs
  proof -
    have good: "\<forall>y \<in> set (xs @ [?x]). sn_cursor y \<le> length hist \<and> sn_state y = foldRun reg (emptyRunState r) (take (sn_cursor y) hist)"
      using assms(1) xs(2) x by (auto simp: recoverable_def snapshots_cursorAt)
    obtain h where h: "keepsFrom st r hist h" "h \<le> Suc (length hist)" using recoverable_head [OF assms(1)] by blast
    have "\<exists>h'. keepsFrom st' r hist h' \<and> h' \<le> Suc (length hist)"
    proof (cases "st' = st")
      case True
      with h show ?thesis by blast
    next
      case False
      then obtain y where y: "y \<in> set (xs @ [?x])" "st' = trimLog st r (Suc (sn_cursor y))" using st by blast
      from keepsFrom_trim [OF h(1), of "Suc (sn_cursor y)"] y(2) obtain h' where "keepsFrom st' r hist h'" "h' \<le> max h (Suc (sn_cursor y))"
        by auto
      moreover have "sn_cursor y \<le> length hist" using good y(1) by blast
      ultimately show ?thesis using h(2) by (intro exI [of _ h']) auto
    qed
    with recoverable_latest [OF _ _ xs(1) x(1) good] show ?thesis by blast
  qed
  with persisted assms(1) show ?thesis by blast
qed

text \<open>
  What happens to a run with time: a batch is appended without a fence, and a snapshot of the run as it
  then is, is saved with at least one snapshot kept, and the log trimmed, or any of that fails.
\<close>

inductive run_history ::
  "registry \<Rightarrow> string \<Rightarrow> envelope list \<Rightarrow> snapshots \<Rightarrow> memory_store \<Rightarrow> bool" for reg r where
  started: "run_history reg r [] [] emptyStore"
| appended: "run_history reg r hist snaps st \<Longrightarrow> append_events bytes st r es opts = Inr (res, st') \<Longrightarrow>
    \<not> ar_deduplicated res \<Longrightarrow> ao_fence opts = None \<Longrightarrow> run_history reg r (hist @ numberEvents r (length hist) es) snaps st'"
| persisted: "run_history reg r hist snaps st \<Longrightarrow> cursorAt reg r hist c \<Longrightarrow> cu_seq c = length hist \<Longrightarrow> 1 \<le> so_keep opts \<Longrightarrow>
    persistSnapshot opts takenAt answer (snaps, st) r c = ((snaps', st'), c') \<Longrightarrow> run_history reg r hist snaps' st'"

lemma recoverable_start: "recoverable reg r [] [] emptyStore"
  by (simp add: recoverable_def keepsFrom_def tailOf_def emptyStore_def snapshotsOf_def)

lemma run_history_recoverable: "run_history reg r hist snaps st \<Longrightarrow> recoverable reg r hist snaps st"
proof (induction rule: run_history.induct)
  case started
  show ?case by (rule recoverable_start)
next
  case appended
  then show ?case by (intro recoverable_append)
next
  case persisted
  then show ?case using recoverable_persist by blast
qed


section \<open>A run with a trimmed log\<close>

definition sampleBatch :: "envelope list" where
  "sampleBatch = createEvents (\<lambda>n. (showNat n, 0)) 0 ''r'' (replicate 3 (eventInput ''note'' JNull))"

definition keepOne :: snapshot_options where
  "keepOne = \<lparr>so_hash = (\<lambda>_. ''''), so_fits = (\<lambda>_. True), so_keep = 1\<rparr>"

definition sampleHist :: "envelope list" where
  "sampleHist = numberEvents ''r'' 0 sampleBatch"

definition sampleCursor :: run_cursor where
  "sampleCursor = \<lparr>cu_state = foldRun sampleRegistry (emptyRunState ''r'') sampleHist, cu_seq = 3, cu_durableSinceSnapshot = 3\<rparr>"

definition filledStore :: memory_store where
  "filledStore = snd (appendLog emptyStore ''r'' sampleBatch noOptions)"

definition trimmedRun :: "snapshots \<times> memory_store" where
  "trimmedRun = fst (persistSnapshot keepOne 0 (Covered (ArchiveCursor 9)) ([], filledStore) ''r'' sampleCursor)"

lemma filled:
  "append_events noBytes emptyStore ''r'' sampleBatch noOptions
     = Inr (\<lparr>ar_sequences = fst (appendLog emptyStore ''r'' sampleBatch noOptions), ar_tail = tailOf filledStore ''r'',
            ar_deduplicated = False\<rparr>, filledStore)"
  by (simp add: filledStore_def append_events_def appendGuard_def fencingGuard_def case_prod_unfold Let_def)


text \<open>
  The snapshot must be of the run as it is. A host that parked with an old cursor and saves it after
  another host has trimmed the log makes its snapshot the latest one; a cold load then starts at it and folds
  on over the gap without an error: events 2 and 3 are missing from the state it returns.
\<close>

lemma stale_snapshot_skips_events:
  "let stale = (persistSnapshot keepOne 0 NoCoverage trimmedRun ''r''
      \<lparr>cu_state = emptyRunState ''r'', cu_seq = 1, cu_durableSinceSnapshot = 1\<rparr>);
       c = projr (the (loadCursorCold (\<lambda>_. None) (\<lambda>_. None) sampleRegistry (viewOf (snd (fst stale)) ''r'') ''r''
         (latestSnapshot (fst (fst stale)) ''r'')))
   in (cu_seq c, readFrom (snd (fst stale)) ''r'' (Some 2) None, tailOf (snd (fst stale)) ''r'') = (1, [], 3)"
  by code_simp

text \<open>
  A read of a log that is trimmed up to its tail is empty, and an empty read is taken for a log with nothing
  new: a cached cursor from before the trim is returned as it is, behind the tail, and a cold load whose
  snapshot could not be read returns a run that never started.
\<close>

lemma trimmed_log_reads_as_old:
  "let old = \<lparr>cu_state = emptyRunState ''r'', cu_seq = 1, cu_durableSinceSnapshot = 1\<rparr>;
       view = viewOf (snd trimmedRun) ''r'';
       cached = projr (snd (the (loadCursor (\<lambda>_. None) (\<lambda>_. None) sampleRegistry 4 view ''r''
         (latestSnapshot (fst trimmedRun) ''r'') [(''r'', old)])));
       unsaved = projr (the (loadCursorCold (\<lambda>_. None) (\<lambda>_. None) sampleRegistry view ''r'' None))
   in (cu_seq cached, cu_seq unsaved, sv_tail view) = (1, 0, 3)"
  by code_simp

end
