(* ===== verification/Wake_Engine.thy ===== *)
theory Wake_Engine
  imports Local_Effects Snapshot_Store
begin

text \<open>
  \<open>packages/runtime/src/wake-engine.ts\<close>: one wake of a run. A wake loads the run, then repeats: fire due
  deadlines, hand due effects to the worker, run what is ready on the host, append what came of it; until
  nothing is left to do. It then closes a finished run, saves a snapshot, schedules the next wake and parks.

  The state of a wake is the store, the cache of cursors, the count of live events, the snapshots and what
  the wake asked of the world (\<open>wk_outputs\<close>). Every question to the world (the clock, fresh ids, what other
  writers appended meanwhile, a push to the worker, a call of the launcher, a round of handlers) has a number,
  \<open>wk_tick\<close>, and the environment answers it by that number. A step that fails keeps the state it reached;
  \<open>None\<close> is a step that does not return.
\<close>

section \<open>The state and the environment of a wake\<close>

datatype wake_error =
    RepositoryFailed repository_error
  | DispatchFailed effect_failure
  | LauncherFailed string
  | MaxWakeIterations string nat
  | DuplicateEffectDispatch string string string

datatype wake_output =
    Scheduled string number
  | Unscheduled string
  | CancelledRun string
  | SignalledRun string event_input string
  | PushedTask string number
  | RanLocally "(string \<times> number) list"

record wake_state =
  wk_store :: memory_store
  wk_cache :: "run_cursor dict"
  wk_liveCount :: nat
  wk_snapshots :: snapshots
  wk_tick :: nat
  wk_outputs :: "wake_output list"

record 'c wake_env =
  we_registry :: registry
  we_worker :: "effect_worker option"
  we_maxInFlight :: "int option"
  we_snapshotEvery :: nat
  we_maxWakeIterations :: nat
  we_cacheLimit :: int
  we_snapshotOptions :: snapshot_options
  we_bytes :: "envelope \<Rightarrow> nat"
  we_prime :: "envelope list \<Rightarrow> string option"
  we_primeState :: "run_state \<Rightarrow> string option"
  we_secrets :: "string dict option"
  we_clock :: "nat \<Rightarrow> number"
  we_stamps :: "nat \<Rightarrow> stamps"
  we_others :: "nat \<Rightarrow> memory_store \<Rightarrow> memory_store"
  we_snapshotLoads :: "nat \<Rightarrow> bool"
  we_coverage :: "nat \<Rightarrow> coverage_answer"
  we_host :: "nat \<Rightarrow> 'c local_host"
  we_supply :: "nat \<Rightarrow> string \<Rightarrow> stamps"
  we_live :: "nat \<Rightarrow> envelope list"
    \<comment> \<open>the live events one push of the coalescing appender writes\<close>
  we_livePushes :: "nat \<Rightarrow> nat"
  we_push :: "nat \<Rightarrow> string option"
    \<comment> \<open>the error of a push to the worker, if it was rejected\<close>
  we_cancelChild :: "nat \<Rightarrow> string option"
  we_signal :: "nat \<Rightarrow> string option"
  we_wakeAgain :: "nat \<Rightarrow> bool"

type_synonym 'a wake = "wake_state \<Rightarrow> (wake_state \<times> (wake_error + 'a)) option"

definition wreturn :: "'a \<Rightarrow> 'a wake" where
  "wreturn x w = Some (w, Inr x)"

definition wfail :: "wake_error \<Rightarrow> 'a wake" where
  "wfail e w = Some (w, Inl e)"

definition wbind :: "'a wake \<Rightarrow> ('a \<Rightarrow> 'b wake) \<Rightarrow> 'b wake" where
  "wbind m f w = (case m w of
     None \<Rightarrow> None | Some (w', Inl e) \<Rightarrow> Some (w', Inl e) | Some (w', Inr x) \<Rightarrow> f x w')"

fun wEach :: "('a \<Rightarrow> unit wake) \<Rightarrow> 'a list \<Rightarrow> unit wake" where
  "wEach f [] = wreturn ()"
| "wEach f (x # xs) = wbind (f x) (\<lambda>_. wEach f xs)"

text \<open>A question to the world: its number.\<close>

definition askWorld :: "nat wake" where
  "askWorld w = Some (w\<lparr>wk_tick := Suc (wk_tick w)\<rparr>, Inr (wk_tick w))"

definition report :: "wake_output \<Rightarrow> unit wake" where
  "report out w = Some (w\<lparr>wk_outputs := wk_outputs w @ [out]\<rparr>, Inr ())"

definition clockNow :: "('c, 'd) wake_env_scheme \<Rightarrow> number wake" where
  "clockNow env = wbind askWorld (\<lambda>n. wreturn (we_clock env n))"

definition freshStamps :: "('c, 'd) wake_env_scheme \<Rightarrow> stamps wake" where
  "freshStamps env = wbind askWorld (\<lambda>n. wreturn (we_stamps env n))"

section \<open>The repository in a wake\<close>

text \<open>What other writers append comes before the step that the wake takes next.\<close>

definition othersWrite :: "('c, 'd) wake_env_scheme \<Rightarrow> unit wake" where
  "othersWrite env = wbind askWorld (\<lambda>n w. Some (w\<lparr>wk_store := we_others env n (wk_store w)\<rparr>, Inr ()))"

definition loadRun :: "('c, 'd) wake_env_scheme \<Rightarrow> string \<Rightarrow> run_cursor wake" where
  "loadRun env runId = wbind (othersWrite env) (\<lambda>_. wbind askWorld (\<lambda>n w.
     case loadCursor (we_prime env) (we_primeState env) (we_registry env) (we_cacheLimit env)
            (viewOf (wk_store w) runId) runId
            (if we_snapshotLoads env n then latestSnapshot (wk_snapshots w) runId else None) (wk_cache w) of
       None \<Rightarrow> None
     | Some (cache, Inl e) \<Rightarrow> Some (w\<lparr>wk_cache := cache\<rparr>, Inl (RepositoryFailed e))
     | Some (cache, Inr c) \<Rightarrow> Some (w\<lparr>wk_cache := cache\<rparr>, Inr c)))"

definition appendEvents ::
  "('c, 'd) wake_env_scheme \<Rightarrow> string \<Rightarrow> envelope list \<Rightarrow> append_options \<Rightarrow> (store_error + append_result) wake" where
  "appendEvents env runId events opts = wbind (othersWrite env) (\<lambda>_ w.
     case append_events (we_bytes env) (wk_store w) runId (stripSeq events) opts of
       Inl e \<Rightarrow> Some (w, Inr (Inl e))
     | Inr (result, st) \<Rightarrow> Some (w\<lparr>wk_store := st\<rparr>, Inr (Inr result)))"

definition applyTo ::
  "('c, 'd) wake_env_scheme \<Rightarrow> string \<Rightarrow> run_cursor \<Rightarrow> envelope list \<Rightarrow> append_result \<Rightarrow> run_cursor wake" where
  "applyTo env runId c events result w =
     (case applyAppend (we_prime env) (we_registry env) (we_cacheLimit env) (viewOf (wk_store w) runId) runId c
             (stripSeq events) result 0 (wk_cache w, wk_liveCount w) of
        None \<Rightarrow> None
      | Some ((cache, live), Inl e) \<Rightarrow> Some (w\<lparr>wk_cache := cache, wk_liveCount := live\<rparr>, Inl (RepositoryFailed e))
      | Some ((cache, live), Inr c') \<Rightarrow> Some (w\<lparr>wk_cache := cache, wk_liveCount := live\<rparr>, Inr c'))"

definition appendAndApply ::
  "('c, 'd) wake_env_scheme \<Rightarrow> string \<Rightarrow> run_cursor \<Rightarrow> envelope list \<Rightarrow> run_cursor wake" where
  "appendAndApply env runId c events = wbind (appendEvents env runId events noOptions) (\<lambda>result.
     case result of
       Inl e \<Rightarrow> wfail (RepositoryFailed (StoreFailed e))
     | Inr appended \<Rightarrow> applyTo env runId c events appended)"

definition persistRun :: "('c, 'd) wake_env_scheme \<Rightarrow> string \<Rightarrow> run_cursor \<Rightarrow> run_cursor wake" where
  "persistRun env runId c = wbind (clockNow env) (\<lambda>takenAt. wbind askWorld (\<lambda>n w.
     let ((snaps, st), c') = persistSnapshot (we_snapshotOptions env) takenAt (we_coverage env n)
           (wk_snapshots w, wk_store w) runId c
     in Some (w\<lparr>wk_snapshots := snaps, wk_store := st\<rparr>, Inr c')))"

definition dropCached :: "string \<Rightarrow> unit wake" where
  "dropCached runId w = Some (w\<lparr>wk_cache := cacheDelete runId (wk_cache w)\<rparr>, Inr ())"

definition keepCached :: "('c, 'd) wake_env_scheme \<Rightarrow> string \<Rightarrow> run_cursor \<Rightarrow> unit wake" where
  "keepCached env runId c w = Some (w\<lparr>wk_cache := cacheSet (we_cacheLimit env) runId c (wk_cache w)\<rparr>, Inr ())"

text \<open>\<open>liveAppends.drain\<close>: the pushes that are still to be written.\<close>

definition pushLive :: "('c, 'd) wake_env_scheme \<Rightarrow> string \<Rightarrow> unit wake" where
  "pushLive env runId = wbind askWorld (\<lambda>n. wbind (appendEvents env runId (we_live env n) noOptions) (\<lambda>result.
     case result of
       Inl e \<Rightarrow> wfail (RepositoryFailed (StoreFailed e))
     | Inr appended \<Rightarrow> (\<lambda>w. Some (w\<lparr>wk_liveCount := wk_liveCount w + length (ar_sequences appended)\<rparr>, Inr ()))))"

definition drainLive :: "('c, 'd) wake_env_scheme \<Rightarrow> string \<Rightarrow> unit wake" where
  "drainLive env runId = wbind askWorld (\<lambda>n. wEach (\<lambda>_. pushLive env runId) [0..<we_livePushes env n])"

section \<open>Children\<close>

definition cancelChildRun :: "('c, 'd) wake_env_scheme \<Rightarrow> string \<Rightarrow> unit wake" where
  "cancelChildRun env childRunId = wbind (report (CancelledRun childRunId)) (\<lambda>_. wbind askWorld (\<lambda>n.
     case we_cancelChild env n of None \<Rightarrow> wreturn () | Some e \<Rightarrow> wfail (LauncherFailed e)))"

definition childCloseRequestedInput :: "string \<Rightarrow> run_state \<Rightarrow> event_input" where
  "childCloseRequestedInput runId s =
     (eventInput ''runtime.child.close.requested'' (JObj [(''policy'', JStr ''terminate'')]))
     \<lparr>in_threadId := (case rs_rootThreadId s of None \<Rightarrow> Null | Some t \<Rightarrow> Val t), in_origin := Some OriginSystem,
      in_idempotencyKey := Val (''child-close:'' @ runId)\<rparr>"

definition notifyParent :: "('c, 'd) wake_env_scheme \<Rightarrow> string \<Rightarrow> run_state \<Rightarrow> unit wake" where
  "notifyParent env runId s = (case notifyLaunchingParent runId s of
     None \<Rightarrow> wreturn ()
   | Some (parent, event, key) \<Rightarrow> wbind (report (SignalledRun parent event key)) (\<lambda>_. wbind askWorld (\<lambda>n.
       case we_signal env n of None \<Rightarrow> wreturn () | Some e \<Rightarrow> wfail (LauncherFailed e))))"

definition closeLaunchedRuns :: "('c, 'd) wake_env_scheme \<Rightarrow> string \<Rightarrow> run_cursor \<Rightarrow> run_cursor wake" where
  "closeLaunchedRuns env runId c = wbind
     (if isRunTerminal (cu_state c) \<and> rs_launchedRuns (cu_state c) \<noteq> [] then wbind
        (if rs_childCloseSent (cu_state c) then wreturn c
         else wbind (freshStamps env) (\<lambda>st.
           appendAndApply env runId c [createEvent (st 0) runId (childCloseRequestedInput runId (cu_state c)) 0]))
        (\<lambda>next_cursor. wbind (wEach (\<lambda>child. cancelChildRun env (lr_runId child)) (rs_launchedRuns (cu_state next_cursor)))
          (\<lambda>_. wreturn next_cursor))
      else wreturn c)
     (\<lambda>next_cursor. wbind
       (if isRunTerminal (cu_state next_cursor) then notifyParent env runId (cu_state next_cursor) else wreturn ())
       (\<lambda>_. wreturn next_cursor))"

section \<open>One iteration\<close>

text \<open>Where an iteration leaves the loop: go on, or stop with nothing more to do.\<close>

record loop_state =
  lp_cursor :: run_cursor
  lp_dispatched :: "(string \<times> number) list"
  lp_started :: "string list"
  lp_plannedAt :: "number option"

datatype loop_step = Continue loop_state | Break loop_state

definition deadlineStep ::
  "('c, 'd) wake_env_scheme \<Rightarrow> string \<Rightarrow> run_cursor \<Rightarrow> deadline_plan \<Rightarrow> run_cursor wake" where
  "deadlineStep env runId c plan =
     wbind (appendEvents env runId (dp_events plan)
         (if dp_timerNotices plan \<noteq> [] then noOptions\<lparr>ao_expectedTail := Some (cu_seq c)\<rparr> else noOptions)) (\<lambda>result.
       case result of
         Inr appended \<Rightarrow> applyTo env runId c (dp_events plan) appended
       | Inl (Conflict x y z) \<Rightarrow>
           if dp_timerNotices plan \<noteq> [] then wbind (dropCached runId) (\<lambda>_. loadRun env runId)
           else wfail (RepositoryFailed (StoreFailed (Conflict x y z)))
       | Inl e \<Rightarrow> wfail (RepositoryFailed (StoreFailed e)))"

definition pushPlan ::
  "('c, 'd) wake_env_scheme \<Rightarrow> string \<Rightarrow> number \<Rightarrow> stamps \<Rightarrow> run_cursor \<Rightarrow> dispatch_plan \<Rightarrow> run_cursor wake" where
  "pushPlan env runId now st c plan = wbind
     (case wp_queuedEvent plan of None \<Rightarrow> wreturn c | Some queued \<Rightarrow> appendAndApply env runId c [queued])
     (\<lambda>c1. wbind (if we_worker env = None then wreturn ()
         else report (PushedTask (oe_effectId (wp_item plan)) (wp_attempt plan))) (\<lambda>_. wbind askWorld (\<lambda>m.
       appendAndApply env runId c1
         [dispatchWorkerEffect (\<lambda>i. st (Suc i)) runId plan (we_worker env) (we_push env m) now None])))"

definition workerStep ::
  "('c, 'd) wake_env_scheme \<Rightarrow> string \<Rightarrow> number \<Rightarrow> run_cursor \<Rightarrow> dispatch_plan \<Rightarrow> run_cursor wake" where
  "workerStep env runId now c plan = wbind askWorld (\<lambda>n. wbind (freshStamps env) (\<lambda>st.
     case admitOrFailAttempt (lh_hooks (we_host env n)) (lh_context (we_host env n) (wp_item plan) (wp_attempt plan)) (st 0)
            runId (wp_item plan) (wp_attempt plan) now (wp_retry plan) of
       Some (event, _, _) \<Rightarrow> appendAndApply env runId c [event]
     | None \<Rightarrow> pushPlan env runId now st c plan))"

fun workerSteps ::
  "('c, 'd) wake_env_scheme \<Rightarrow> string \<Rightarrow> number \<Rightarrow> run_cursor \<Rightarrow> dispatch_plan list \<Rightarrow> run_cursor wake" where
  "workerSteps env runId now c [] = wreturn c"
| "workerSteps env runId now c (plan # plans) =
     wbind (workerStep env runId now c plan) (\<lambda>c'. workerSteps env runId now c' plans)"

definition cancellationTargets :: "run_state \<Rightarrow> string list" where
  "cancellationTargets s = List.map_filter (\<lambda>item. case oe_effect item of CancelEffect target _ \<Rightarrow> Some target | _ \<Rightarrow> None)
     (rs_outstandingEffects s)"

definition readyLocally ::
  "registry \<Rightarrow> effect_worker option \<Rightarrow> string \<Rightarrow> run_state \<Rightarrow> number \<Rightarrow> outstanding_effect \<Rightarrow> bool" where
  "readyLocally reg worker runId s now item \<longleftrightarrow>
     \<not> ((case deferredUntil (oe_effect item) of None \<Rightarrow> False | Some dueAt \<Rightarrow> now + 5 < dueAt)
       \<or> (List.member (cancellationTargets s) (oe_threadId item) \<and> effectType (oe_effect item) \<noteq> ''runtime.cancel'')
       \<or> isWorkerEffect runId item (executionOf s item) reg worker
       \<or> (case executionOf s item of
            None \<Rightarrow> False
          | Some ex \<Rightarrow> ex_status ex = RetryWait \<and> (case ex_nextAttemptAt ex of None \<Rightarrow> False | Some t \<Rightarrow> now < t)))"

definition localReady :: "registry \<Rightarrow> effect_worker option \<Rightarrow> string \<Rightarrow> run_state \<Rightarrow> number \<Rightarrow> outstanding_effect list" where
  "localReady reg worker runId s now = filter (readyLocally reg worker runId s now) (rs_outstandingEffects s)"

definition localAttempt :: "string list \<Rightarrow> run_state \<Rightarrow> outstanding_effect \<Rightarrow> number" where
  "localAttempt started s item = (case executionOf s item of
     None \<Rightarrow> 1
   | Some ex \<Rightarrow> if ex_status ex = RunningHere \<and> List.member started (oe_effectId item) then ex_attempt ex
               else ex_attempt ex + 1)"

definition attemptStartedInput :: "outstanding_effect \<Rightarrow> number \<Rightarrow> event_input" where
  "attemptStartedInput item attempt =
     (eventInput ''runtime.effect.attempt.started'' (JObj
        [(''effectId'', JStr (oe_effectId item)), (''attempt'', JNum attempt)]))
     \<lparr>in_threadId := Val (oe_threadId item), in_origin := Some OriginSystem\<rparr>"

text \<open>What the handlers produced, with the failures, cancellations and satisfied waits that follow from it.\<close>

definition fullBatch :: "registry \<Rightarrow> stamps \<Rightarrow> string \<Rightarrow> run_state \<Rightarrow> envelope list \<Rightarrow> envelope list option" where
  "fullBatch reg st runId beforeFold produced =
     (let intermediate = foldRun reg beforeFold produced in
      map_option (\<lambda>cascaded.
        let synthesized = createEvents st 0 runId (synthesizedThreadFailed beforeFold intermediate produced @ cascaded);
            afterSynth = foldRun reg intermediate synthesized;
            allNew = produced @ synthesized
        in allNew @ createEvents st (length synthesized) runId (waitSatisfiedEvents afterSynth allNew))
        (cascadedCancellations intermediate produced))"

definition recordProduced ::
  "('c, 'd) wake_env_scheme \<Rightarrow> string \<Rightarrow> run_cursor \<Rightarrow> envelope list \<Rightarrow> run_cursor wake" where
  "recordProduced env runId c produced = wbind (drainLive env runId) (\<lambda>_. wbind (freshStamps env) (\<lambda>st.
     case fullBatch (we_registry env) st runId (cu_state c) produced of
       None \<Rightarrow> (\<lambda>w. None)
     | Some batch \<Rightarrow> wbind (appendAndApply env runId c batch) (\<lambda>c'.
         if 0 < we_snapshotEvery env \<and> we_snapshotEvery env \<le> cu_durableSinceSnapshot c'
         then persistRun env runId c' else wreturn c')))"

text \<open>
  \<open>attempts\<close> pairs every effect that is ready with the number of its attempt. The handlers see the registry of
  the engine and the correlation id of the run. Nothing produced (every handler was aborted) ends the loop.
\<close>

definition runHandlers ::
  "('c, 'd) wake_env_scheme \<Rightarrow> string \<Rightarrow> number \<Rightarrow> run_state \<Rightarrow> outstanding_effect list \<Rightarrow> (string \<times> number) list \<Rightarrow>
     envelope list wake" where
  "runHandlers env runId now s outstanding attempts = wbind askWorld (\<lambda>n. wbind (report (RanLocally attempts)) (\<lambda>_.
     case executeLocalEffects
            ((we_host env n)\<lparr>lh_registry := we_registry env,
               lh_correlationId := withDefault (Option.bind (rs_startIdentity s) si_correlationId) runId\<rparr>)
            (we_supply env n) runId (\<lambda>i. withDefault (map_of attempts i) 1) now outstanding of
       Inl f \<Rightarrow> wfail (DispatchFailed f)
     | Inr produced \<Rightarrow> wreturn produced))"

definition localRound ::
  "('c, 'd) wake_env_scheme \<Rightarrow> string \<Rightarrow> number \<Rightarrow> run_cursor \<Rightarrow> outstanding_effect list \<Rightarrow> (string \<times> number) list \<Rightarrow>
     (run_cursor \<times> bool) wake" where
  "localRound env runId now c outstanding attempts = wbind (freshStamps env) (\<lambda>st.
     wbind (appendAndApply env runId c (createEvents st 0 runId (map2 attemptStartedInput outstanding (map snd attempts)))) (\<lambda>c1.
     wbind (runHandlers env runId now (cu_state c1) outstanding attempts) (\<lambda>produced.
       if produced = [] then wreturn (c1, False)
       else wbind (recordProduced env runId c1 produced) (\<lambda>c2. wreturn (c2, True)))))"

definition wakeIteration :: "('c, 'd) wake_env_scheme \<Rightarrow> string \<Rightarrow> loop_state \<Rightarrow> loop_step wake" where
  "wakeIteration env runId lp = wbind (clockNow env) (\<lambda>now. wbind (freshStamps env) (\<lambda>st.
     let c = lp_cursor lp; s = cu_state c; reg = we_registry env;
         planned = lp\<lparr>lp_plannedAt := Some now\<rparr>;
         deadlines = planDeadlineTransitions st runId s reg now;
         plans = planWorkerEffects st runId s reg (we_worker env) now (we_maxInFlight env) (we_secrets env);
         outstanding = localReady reg (we_worker env) runId s now;
         attempts = map (\<lambda>item. (oe_effectId item, localAttempt (lp_started lp) s item)) outstanding
     in if dp_events deadlines \<noteq> [] then
          wbind (deadlineStep env runId c deadlines) (\<lambda>c'. wreturn (Continue (planned\<lparr>lp_cursor := c'\<rparr>)))
        else if plans \<noteq> [] then
          wbind (workerSteps env runId now c plans) (\<lambda>c'. wreturn (Continue (planned\<lparr>lp_cursor := c'\<rparr>)))
        else if outstanding = [] then wreturn (Break planned)
        else case find (\<lambda>item. List.member (lp_dispatched lp) (oe_effectId item, localAttempt (lp_started lp) s item)) outstanding of
          Some item \<Rightarrow> wfail (DuplicateEffectDispatch runId (oe_effectId item) (oe_threadId item))
        | None \<Rightarrow> wbind (localRound env runId now c outstanding attempts) (\<lambda>(c', more).
            wreturn ((if more then Continue else Break)
              (planned\<lparr>lp_cursor := c', lp_dispatched := lp_dispatched lp @ attempts,
                 lp_started := lp_started lp @ map oe_effectId outstanding\<rparr>)))))"

section \<open>A wake\<close>

text \<open>The loop gets as many iterations as the engine allows.\<close>

fun wakeLoop :: "('c, 'd) wake_env_scheme \<Rightarrow> string \<Rightarrow> nat \<Rightarrow> loop_state \<Rightarrow> loop_state wake" where
  "wakeLoop env runId fuel lp =
     (if isRunTerminal (cu_state (lp_cursor lp)) then wreturn lp
      else case fuel of
        0 \<Rightarrow> wfail (MaxWakeIterations runId (we_maxWakeIterations env))
      | Suc rest \<Rightarrow> wbind (wakeIteration env runId lp) (\<lambda>next_step.
          case next_step of Continue lp' \<Rightarrow> wakeLoop env runId rest lp' | Break lp' \<Rightarrow> wreturn lp'))"

declare wakeLoop.simps [simp del]

definition rootRecord :: "run_state \<Rightarrow> thread_record option" where
  "rootRecord s = Option.bind (truthy (rs_rootThreadId s)) (dget (rs_threads s))"

definition runEndedInput :: "thread_record \<Rightarrow> event_input" where
  "runEndedInput rootThread =
     (if thr_status rootThread = Cancelled
      then (eventInput ''runtime.run.cancelled'' (JObj [(''reason'', JStr (withDefault (thr_error rootThread) ''cancelled''))]))
      else (eventInput ''runtime.run.completed'' (JObj
        [(''output'', thr_output rootThread), (''error'', case thr_error rootThread of None \<Rightarrow> JNull | Some e \<Rightarrow> JStr e)])))
     \<lparr>in_threadId := Null, in_origin := Some OriginSystem\<rparr>"

definition endRun :: "('c, 'd) wake_env_scheme \<Rightarrow> string \<Rightarrow> run_cursor \<Rightarrow> run_cursor wake" where
  "endRun env runId c = (case rootRecord (cu_state c) of
     None \<Rightarrow> wreturn c
   | Some rootThread \<Rightarrow>
       if isTerminalStatus (thr_status rootThread) \<and> \<not> isRunTerminal (cu_state c)
       then wbind (freshStamps env) (\<lambda>st. appendAndApply env runId c [createEvent (st 0) runId (runEndedInput rootThread) 0])
       else wreturn c)"

definition scheduleNext :: "string \<Rightarrow> run_state \<Rightarrow> number option \<Rightarrow> unit wake" where
  "scheduleNext runId s after = report (case nextRuntimeDeadline s after of
     Some d \<Rightarrow> Scheduled runId d | None \<Rightarrow> Unscheduled runId)"

definition park :: "('c, 'd) wake_env_scheme \<Rightarrow> string \<Rightarrow> loop_state \<Rightarrow> run_state wake" where
  "park env runId lp = wbind (endRun env runId (lp_cursor lp)) (\<lambda>ended.
     wbind (if isRunTerminal (cu_state ended) then closeLaunchedRuns env runId ended else wreturn ended) (\<lambda>closed.
     wbind (persistRun env runId closed) (\<lambda>c.
     wbind (scheduleNext runId (cu_state c) (lp_plannedAt lp)) (\<lambda>_.
     wbind (if isRunTerminal (cu_state c) then dropCached runId else keepCached env runId c) (\<lambda>_.
     wreturn (cu_state c))))))"

definition wakeTerminal :: "('c, 'd) wake_env_scheme \<Rightarrow> string \<Rightarrow> run_cursor \<Rightarrow> run_state wake" where
  "wakeTerminal env runId c = wbind (clockNow env) (\<lambda>now. wbind (freshStamps env) (\<lambda>st.
     let events = planTerminalCancellationTransitions st runId (cu_state c) now in
     wbind (if events = [] then wreturn c else appendAndApply env runId c events) (\<lambda>c1.
     wbind (closeLaunchedRuns env runId c1) (\<lambda>c2.
     wbind (scheduleNext runId (cu_state c2) (Some now)) (\<lambda>_. wreturn (cu_state c2))))))"

definition resetLive :: "unit wake" where
  "resetLive w = Some (w\<lparr>wk_liveCount := 0\<rparr>, Inr ())"

definition closeWaited :: "('c, 'd) wake_env_scheme \<Rightarrow> string \<Rightarrow> run_cursor \<Rightarrow> run_cursor wake" where
  "closeWaited env runId c = (case childCloseCancellations (cu_state c) of
     None \<Rightarrow> (\<lambda>w. None)
   | Some [] \<Rightarrow> wreturn c
   | Some closing \<Rightarrow> wbind (freshStamps env) (\<lambda>st. appendAndApply env runId c (createEvents st 0 runId closing)))"

definition wakeRound :: "('c, 'd) wake_env_scheme \<Rightarrow> string \<Rightarrow> run_state wake" where
  "wakeRound env runId = wbind (loadRun env runId) (\<lambda>loaded. wbind (closeWaited env runId loaded) (\<lambda>c.
     if isRunTerminal (cu_state c) then wakeTerminal env runId c
     else wbind resetLive (\<lambda>_. wbind
       (wakeLoop env runId (we_maxWakeIterations env)
         \<lparr>lp_cursor = c, lp_dispatched = [], lp_started = [], lp_plannedAt = None\<rparr>)
       (park env runId))))"

text \<open>
  A wake that was asked for while this one ran joins it: the round is repeated until nobody asked again. The
  wake that ends drops what was pushed live and forgets its count.
\<close>

partial_function (option) wakeRounds :: "('c, 'd) wake_env_scheme \<Rightarrow> string \<Rightarrow> run_state wake" where
  "wakeRounds env runId w =
     (case wakeRound env runId w of
        None \<Rightarrow> None
      | Some (w', Inl e) \<Rightarrow> Some (w'\<lparr>wk_liveCount := 0\<rparr>, Inl e)
      | Some (w', Inr s) \<Rightarrow>
          if we_wakeAgain env (wk_tick w') then wakeRounds env runId (w'\<lparr>wk_tick := Suc (wk_tick w')\<rparr>)
          else Some (w'\<lparr>wk_liveCount := 0, wk_tick := Suc (wk_tick w')\<rparr>, Inr s))"

end
