(* ===== verification/Wake_Properties.thy ===== *)
theory Wake_Properties
  imports Wake_Engine
begin

text \<open>
  What a wake guarantees. The steps of a wake are reasoned about with triples over its state: \<open>wspec P m Q E\<close>
  says that from a state with \<open>P\<close> the step, if it returns, ends with \<open>Q\<close> for its value, or fails in a state
  with \<open>E\<close>. The assertions say how the store, the snapshots and the cache hang together with everything that
  was ever appended to the run.
\<close>

section \<open>Triples\<close>

definition wspec :: "(wake_state \<Rightarrow> bool) \<Rightarrow> 'a wake \<Rightarrow> ('a \<Rightarrow> wake_state \<Rightarrow> bool) \<Rightarrow> (wake_state \<Rightarrow> bool) \<Rightarrow> bool" where
  "wspec P m Q E \<longleftrightarrow> (\<forall>w. P w \<longrightarrow>
     (case m w of None \<Rightarrow> True | Some (w', Inl _) \<Rightarrow> E w' | Some (w', Inr x) \<Rightarrow> Q x w'))"

lemma wspecI: "(\<And>w. P w \<Longrightarrow> case m w of None \<Rightarrow> True | Some (w', Inl _) \<Rightarrow> E w' | Some (w', Inr x) \<Rightarrow> Q x w') \<Longrightarrow> wspec P m Q E"
  by (simp add: wspec_def)

lemma wspec_use: "wspec P m Q E \<Longrightarrow> P w \<Longrightarrow> m w = Some (w', Inr x) \<Longrightarrow> Q x w'"
  by (fastforce simp: wspec_def)

lemma wspec_use_error: "wspec P m Q E \<Longrightarrow> P w \<Longrightarrow> m w = Some (w', Inl e) \<Longrightarrow> E w'"
  by (fastforce simp: wspec_def)

lemma wspec_weaken:
  "wspec P m Q E \<Longrightarrow> (\<And>w. P' w \<Longrightarrow> P w) \<Longrightarrow> (\<And>x w. Q x w \<Longrightarrow> Q' x w) \<Longrightarrow> (\<And>w. E w \<Longrightarrow> E' w) \<Longrightarrow> wspec P' m Q' E'"
  by (fastforce simp: wspec_def split: option.splits sum.splits prod.splits)

lemma wspec_pre: "wspec P m Q E \<Longrightarrow> (\<And>w. P' w \<Longrightarrow> P w) \<Longrightarrow> wspec P' m Q E"
  by (simp add: wspec_def)

lemma wspec_post: "wspec P m Q E \<Longrightarrow> (\<And>x w. Q x w \<Longrightarrow> Q' x w) \<Longrightarrow> wspec P m Q' E"
  by (erule wspec_weaken)

lemma wspec_bind: "wspec P m Q E \<Longrightarrow> (\<And>x. wspec (Q x) (f x) R E) \<Longrightarrow> wspec P (wbind m f) R E"
  by (fastforce simp: wspec_def wbind_def split: option.splits sum.splits prod.splits)

lemma wspec_return: "(\<And>w. P w \<Longrightarrow> Q x w) \<Longrightarrow> wspec P (wreturn x) Q E"
  by (simp add: wspec_def wreturn_def)

lemma wspec_fail: "(\<And>w. P w \<Longrightarrow> E w) \<Longrightarrow> wspec P (wfail e) Q E"
  by (simp add: wspec_def wfail_def)

lemma wspec_hang: "wspec P (\<lambda>w. None) Q E"
  by (simp add: wspec_def)

lemma wspec_if: "(b \<Longrightarrow> wspec P m Q E) \<Longrightarrow> (\<not> b \<Longrightarrow> wspec P m' Q E) \<Longrightarrow> wspec P (if b then m else m') Q E"
  by simp

lemma wspec_fact: "(b \<Longrightarrow> wspec P m Q E) \<Longrightarrow> wspec (\<lambda>w. b \<and> P w) m Q E"
  by (cases b) (simp_all add: wspec_def)

lemma wspec_ask: "(\<And>w. P w \<Longrightarrow> P (w\<lparr>wk_tick := Suc (wk_tick w)\<rparr>)) \<Longrightarrow> wspec P askWorld (\<lambda>_. P) E"
  by (simp add: wspec_def askWorld_def)

lemma wspec_report: "(\<And>w out. P w \<Longrightarrow> P (w\<lparr>wk_outputs := wk_outputs w @ [out]\<rparr>)) \<Longrightarrow> wspec P (report out) (\<lambda>_. P) E"
  by (simp add: wspec_def report_def)

lemma wspec_each: "(\<And>x. x \<in> set xs \<Longrightarrow> wspec P (f x) (\<lambda>_. P) E) \<Longrightarrow> wspec P (wEach f xs) (\<lambda>_. P) E"
  by (induction xs) (auto intro: wspec_return intro!: wspec_bind)

lemma wspec_conj:
  "wspec P m Q E \<Longrightarrow> wspec P' m Q' E' \<Longrightarrow> wspec (\<lambda>w. P w \<and> P' w) m (\<lambda>x w. Q x w \<and> Q' x w) (\<lambda>w. E w \<and> E' w)"
  by (fastforce simp: wspec_def split: option.splits sum.splits prod.splits)

section \<open>The log behind a wake\<close>

text \<open>
  The environment a wake can rely on: definitions resolve, snapshots can be read, other writers append to the
  run and do not trim it, live events are of this run and ephemeral, at least one snapshot is kept.
\<close>

definition steady :: "('c, 'd) wake_env_scheme \<Rightarrow> string \<Rightarrow> bool" where
  "steady env r \<longleftrightarrow> neverFails (we_prime env) \<and> neverFails (we_primeState env) \<and> (\<forall>n. we_snapshotLoads env n)
     \<and> 1 \<le> so_keep (we_snapshotOptions env)
     \<and> (\<forall>n st hist h. keepsFrom st r hist h \<longrightarrow> (\<exists>later. keepsFrom (we_others env n st) r (hist @ later) h))
     \<and> (\<forall>n. \<forall>e \<in> set (we_live env n). ev_ephemeral e \<and> ev_runId e = r)"

lemma steady_others:
  assumes "steady env r" and "keepsFrom st r hist h"
  obtains later where "keepsFrom (we_others env n st) r (hist @ later) h"
  using assms by (fastforce simp: steady_def)

lemma steady_facts:
  assumes "steady env r"
  shows "neverFails (we_prime env)" "neverFails (we_primeState env)" "we_snapshotLoads env n" "1 \<le> so_keep (we_snapshotOptions env)"
    and "\<forall>e \<in> set (we_live env n). ev_ephemeral e \<and> ev_runId e = r"
  using assms by (simp_all add: steady_def)

text \<open>
  \<open>hist\<close> is all that was appended: the store keeps it from its head on, snapshots are folds of prefixes of at
  most \<open>b\<close> events and the latest one reaches up to the head, the cached cursor is a fold of a prefix of at least
  \<open>b\<close> events.
\<close>

definition runLog :: "('c, 'd) wake_env_scheme \<Rightarrow> string \<Rightarrow> envelope list \<Rightarrow> nat \<Rightarrow> wake_state \<Rightarrow> bool" where
  "runLog env r hist b w \<longleftrightarrow> b \<le> length hist
     \<and> (\<exists>h. keepsFrom (wk_store w) r hist h \<and> h \<le> Suc (cu_seq (startCursor r (latestSnapshot (wk_snapshots w) r))))
     \<and> (\<forall>x \<in> set (snapshotsOf (wk_snapshots w) r). sn_cursor x \<le> b
          \<and> cursorAt (we_registry env) r hist (startCursor r (Some (run_snapshot.truncate x))))
     \<and> (\<forall>c. dget (wk_cache w) r = Some c \<longrightarrow> cursorAt (we_registry env) r hist c \<and> b \<le> cu_seq c \<and> 0 < we_cacheLimit env)"

text \<open>
  What is in the log after the cursor: at least as many ephemeral events as were pushed live; and, when other
  writers do not start the run again, nothing that starts it.
\<close>

definition calm :: "envelope list \<Rightarrow> bool" where
  "calm es \<longleftrightarrow> (\<forall>e \<in> set es. ev_type e \<noteq> ''runtime.run.started'' \<or> ev_ephemeral e)"

definition startedOnce :: "('c, 'd) wake_env_scheme \<Rightarrow> string \<Rightarrow> bool" where
  "startedOnce env r \<longleftrightarrow> (\<forall>n st hist h later. keepsFrom st r hist h \<longrightarrow> keepsFrom (we_others env n st) r (hist @ later) h \<longrightarrow> calm later)"

definition between :: "('c, 'd) wake_env_scheme \<Rightarrow> string \<Rightarrow> envelope list \<Rightarrow> nat \<Rightarrow> bool" where
  "between env r es n \<longleftrightarrow> n \<le> length (filter ev_ephemeral es) \<and> (startedOnce env r \<longrightarrow> calm es)"

lemma calm_append [simp]: "calm (xs @ ys) \<longleftrightarrow> calm xs \<and> calm ys"
  by (auto simp: calm_def)

lemma between_empty [simp]: "between env r [] n = (n = 0)"
  by (auto simp: between_def calm_def)

lemma between_later: "between env r es n \<Longrightarrow> (startedOnce env r \<longrightarrow> calm later) \<Longrightarrow> between env r (es @ later) n"
  by (auto simp: between_def calm_def)

lemma between_live: "between env r es n \<Longrightarrow> \<forall>e \<in> set live. ev_ephemeral e \<Longrightarrow> between env r (es @ live) (n + length live)"
  by (auto simp: between_def calm_def)

definition logged :: "('c, 'd) wake_env_scheme \<Rightarrow> string \<Rightarrow> envelope list \<Rightarrow> wake_state \<Rightarrow> bool" where
  "logged env r h0 w \<longleftrightarrow> (\<exists>hist b. prefix h0 hist \<and> runLog env r hist b w)"

definition parkedAt :: "('c, 'd) wake_env_scheme \<Rightarrow> string \<Rightarrow> envelope list \<Rightarrow> wake_state \<Rightarrow> bool" where
  "parkedAt env r h0 w \<longleftrightarrow> logged env r h0 w \<and> wk_liveCount w = 0"

text \<open>The wake holds the cursor \<open>c\<close>; live events it pushed since are in the log after it.\<close>

definition atLive :: "('c, 'd) wake_env_scheme \<Rightarrow> string \<Rightarrow> envelope list \<Rightarrow> run_cursor \<Rightarrow> wake_state \<Rightarrow> bool" where
  "atLive env r h0 c w \<longleftrightarrow> (\<exists>hist. prefix h0 hist \<and> runLog env r hist (cu_seq c) w \<and> cursorAt (we_registry env) r hist c
     \<and> between env r (drop (cu_seq c) hist) (wk_liveCount w))"

definition atCursor :: "('c, 'd) wake_env_scheme \<Rightarrow> string \<Rightarrow> envelope list \<Rightarrow> run_cursor \<Rightarrow> wake_state \<Rightarrow> bool" where
  "atCursor env r h0 c w \<longleftrightarrow> atLive env r h0 c w \<and> wk_liveCount w = 0"

lemma atCursorE:
  assumes "atCursor env r h0 c w"
  obtains hist where "prefix h0 hist" "runLog env r hist (cu_seq c) w" "cursorAt (we_registry env) r hist c"
    "between env r (drop (cu_seq c) hist) 0" "wk_liveCount w = 0"
  using assms by (auto simp: atCursor_def atLive_def)

lemma atCursorI:
  "prefix h0 hist \<Longrightarrow> runLog env r hist (cu_seq c) w \<Longrightarrow> cursorAt (we_registry env) r hist c \<Longrightarrow>
   between env r (drop (cu_seq c) hist) 0 \<Longrightarrow> wk_liveCount w = 0 \<Longrightarrow> atCursor env r h0 c w"
  by (auto simp: atCursor_def atLive_def)

lemma runLog_frame [simp]:
  "runLog env r hist b (w\<lparr>wk_tick := n\<rparr>) = runLog env r hist b w"
  "runLog env r hist b (w\<lparr>wk_outputs := out\<rparr>) = runLog env r hist b w"
  "runLog env r hist b (w\<lparr>wk_liveCount := n\<rparr>) = runLog env r hist b w"
  by (simp_all add: runLog_def)

lemma asserted_frame [simp]:
  "logged env r h0 (w\<lparr>wk_tick := n\<rparr>) = logged env r h0 w" "logged env r h0 (w\<lparr>wk_outputs := out\<rparr>) = logged env r h0 w"
  "logged env r h0 (w\<lparr>wk_liveCount := n\<rparr>) = logged env r h0 w"
  "parkedAt env r h0 (w\<lparr>wk_tick := n\<rparr>) = parkedAt env r h0 w" "parkedAt env r h0 (w\<lparr>wk_outputs := out\<rparr>) = parkedAt env r h0 w"
  "atLive env r h0 c (w\<lparr>wk_tick := n\<rparr>) = atLive env r h0 c w" "atLive env r h0 c (w\<lparr>wk_outputs := out\<rparr>) = atLive env r h0 c w"
  "atCursor env r h0 c (w\<lparr>wk_tick := n\<rparr>) = atCursor env r h0 c w"
  "atCursor env r h0 c (w\<lparr>wk_outputs := out\<rparr>) = atCursor env r h0 c w"
  by (simp_all add: logged_def parkedAt_def atLive_def atCursor_def)

lemma atCursor_rest: "atCursor env r h0 c w \<Longrightarrow> parkedAt env r h0 w"
  by (auto simp: atCursor_def atLive_def parkedAt_def logged_def)

lemma atLive_logged: "atLive env r h0 c w \<Longrightarrow> logged env r h0 w"
  by (auto simp: atLive_def logged_def)

lemma atCursor_live: "atCursor env r h0 c w \<Longrightarrow> atLive env r h0 c w"
  by (simp add: atCursor_def)

lemma atCursor_logged: "atCursor env r h0 c w \<Longrightarrow> logged env r h0 w"
  by (auto simp: atCursor_def intro: atLive_logged)

text \<open>More of the log.\<close>

lemma runLog_extend:
  assumes "runLog env r hist b w" and "keepsFrom st r (hist @ later) h" and "keepsFrom (wk_store w) r hist h"
    and "h \<le> Suc (cu_seq (startCursor r (latestSnapshot (wk_snapshots w) r)))"
  shows "runLog env r (hist @ later) b (w\<lparr>wk_store := st\<rparr>)"
  using assms by (auto simp: runLog_def intro: cursorAt_extends)

lemma runLog_others:
  assumes "steady env r" and "runLog env r hist b w"
  shows "\<exists>later. runLog env r (hist @ later) b (w\<lparr>wk_store := we_others env n (wk_store w)\<rparr>) \<and> (startedOnce env r \<longrightarrow> calm later)"
proof -
  obtain h where h: "keepsFrom (wk_store w) r hist h" "h \<le> Suc (cu_seq (startCursor r (latestSnapshot (wk_snapshots w) r)))"
    using assms(2) by (auto simp: runLog_def)
  obtain later where "keepsFrom (we_others env n (wk_store w)) r (hist @ later) h"
    by (rule steady_others [OF assms(1) h(1)])
  with runLog_extend [OF assms(2) this h] h(1) show ?thesis unfolding startedOnce_def by blast
qed

lemma runLog_start:
  assumes "runLog env r hist b w"
  shows "cu_seq (startCursor r (latestSnapshot (wk_snapshots w) r)) \<le> b"
    and "cursorAt (we_registry env) r hist (startCursor r (latestSnapshot (wk_snapshots w) r))"
proof -
  show "cu_seq (startCursor r (latestSnapshot (wk_snapshots w) r)) \<le> b"
  proof (cases "loadLatest (wk_snapshots w) r")
    case None
    then show ?thesis by (simp add: latestSnapshot_def startCursor_def emptyCursor_def)
  next
    case (Some x)
    then show ?thesis using assms latest_mem [OF Some]
      by (simp add: runLog_def latestSnapshot_def startCursor_def run_snapshot.defs)
  qed
  show "cursorAt (we_registry env) r hist (startCursor r (latestSnapshot (wk_snapshots w) r))"
  proof (cases "loadLatest (wk_snapshots w) r")
    case None
    then show ?thesis by (simp add: latestSnapshot_def startCursor_def)
  next
    case (Some x)
    then show ?thesis using assms latest_mem [OF Some] by (simp add: runLog_def latestSnapshot_def)
  qed
qed

lemma runLog_head:
  assumes "runLog env r hist b w"
  obtains h where "keepsFrom (wk_store w) r hist h" "h \<le> Suc (cu_seq (startCursor r (latestSnapshot (wk_snapshots w) r)))" "h \<le> Suc b"
  using assms runLog_start(1) [OF assms] by (auto simp: runLog_def)

section \<open>The repository steps\<close>

lemma othersWrite_spec:
  assumes "steady env r" and "\<And>w st. P w \<Longrightarrow> (\<And>hist b. runLog env r hist b w \<Longrightarrow> \<exists>later. runLog env r (hist @ later) b (w\<lparr>wk_store := st\<rparr>) \<and> (startedOnce env r \<longrightarrow> calm later))
    \<Longrightarrow> P (w\<lparr>wk_store := st\<rparr>)" and "\<And>w n. P w \<Longrightarrow> P (w\<lparr>wk_tick := n\<rparr>)"
  shows "wspec P (othersWrite env) (\<lambda>_. P) E"
proof (rule wspecI)
  fix w assume "P w"
  then have ticked: "P (w\<lparr>wk_tick := Suc (wk_tick w)\<rparr>)" by (rule assms(3))
  show "case othersWrite env w of None \<Rightarrow> True | Some (w', Inl _) \<Rightarrow> E w' | Some (w', Inr _) \<Rightarrow> P w'"
    using assms(2) [OF ticked, of "we_others env (wk_tick w) (wk_store w)"]
      runLog_others [OF assms(1), where w = "w\<lparr>wk_tick := Suc (wk_tick w)\<rparr>" and n = "wk_tick w"]
    by (simp add: othersWrite_def wbind_def askWorld_def)
qed

lemma atLive_others:
  assumes "atLive env r h0 c w" and "\<And>hist b. runLog env r hist b w \<Longrightarrow> \<exists>later. runLog env r (hist @ later) b (w\<lparr>wk_store := st\<rparr>) \<and> (startedOnce env r \<longrightarrow> calm later)"
  shows "atLive env r h0 c (w\<lparr>wk_store := st\<rparr>)"
proof -
  obtain hist where h: "prefix h0 hist" "runLog env r hist (cu_seq c) w" "cursorAt (we_registry env) r hist c"
      "between env r (drop (cu_seq c) hist) (wk_liveCount w)"
    using assms(1) by (auto simp: atLive_def)
  obtain later where l: "runLog env r (hist @ later) (cu_seq c) (w\<lparr>wk_store := st\<rparr>)" "startedOnce env r \<longrightarrow> calm later"
    using assms(2) [OF h(2)] by blast
  have "cu_seq c \<le> length hist" using h(3) by (simp add: cursorAt_def)
  then have "between env r (drop (cu_seq c) (hist @ later)) (wk_liveCount w)" using between_later [OF h(4) l(2)] by simp
  moreover have "wk_liveCount (w\<lparr>wk_store := st\<rparr>) = wk_liveCount w" by simp
  ultimately show ?thesis
    using l(1) cursorAt_extends [OF h(3), of later] prefix_prefix [OF h(1), of later] unfolding atLive_def
    by (intro exI [of _ "hist @ later"]) (simp only:)
qed

lemma logged_others:
  assumes "logged env r h0 w" and "\<And>hist b. runLog env r hist b w \<Longrightarrow> \<exists>later. runLog env r (hist @ later) b (w\<lparr>wk_store := st\<rparr>) \<and> (startedOnce env r \<longrightarrow> calm later)"
  shows "logged env r h0 (w\<lparr>wk_store := st\<rparr>)"
  using assms unfolding logged_def by (meson prefix_prefix)

lemma othersWrite_live: "steady env r \<Longrightarrow> wspec (atLive env r h0 c) (othersWrite env) (\<lambda>_. atLive env r h0 c) E"
  by (rule othersWrite_spec) (auto intro: atLive_others)

lemma othersWrite_rest: "steady env r \<Longrightarrow> wspec (parkedAt env r h0) (othersWrite env) (\<lambda>_. parkedAt env r h0) E"
  by (rule othersWrite_spec) (auto simp: parkedAt_def intro: logged_others)

lemma loadRun_spec:
  assumes "steady env r"
  shows "wspec (parkedAt env r h0) (loadRun env r) (\<lambda>c. atCursor env r h0 c) (logged env r h0)"
  unfolding loadRun_def
proof (rule wspec_bind [OF othersWrite_rest [OF assms]], rule wspec_bind [OF wspec_ask], simp)
  fix n
  let ?load = "\<lambda>w. loadCursor (we_prime env) (we_primeState env) (we_registry env) (we_cacheLimit env) (viewOf (wk_store w) r) r
    (if we_snapshotLoads env n then latestSnapshot (wk_snapshots w) r else None) (wk_cache w)"
  show "wspec (parkedAt env r h0) (\<lambda>w. case ?load w of None \<Rightarrow> None
      | Some (cache, Inl e) \<Rightarrow> Some (w\<lparr>wk_cache := cache\<rparr>, Inl (RepositoryFailed e))
      | Some (cache, Inr c) \<Rightarrow> Some (w\<lparr>wk_cache := cache\<rparr>, Inr c)) (\<lambda>c. atCursor env r h0 c) (logged env r h0)"
  proof (rule wspecI)
    fix w assume "parkedAt env r h0 w"
    then obtain hist b where w: "prefix h0 hist" "runLog env r hist b w" "wk_liveCount w = 0"
      by (auto simp: parkedAt_def logged_def)
    obtain h where h: "keepsFrom (wk_store w) r hist h" "h \<le> Suc (cu_seq (startCursor r (latestSnapshot (wk_snapshots w) r)))"
        "h \<le> Suc b" by (rule runLog_head [OF w(2)])
    have "\<forall>c. dget (wk_cache w) r = Some c \<longrightarrow>
        cursorAt (we_registry env) r hist c \<and> h \<le> Suc (cu_seq c) \<and> 0 < we_cacheLimit env"
      using w(2) h(3) by (fastforce simp: runLog_def)
    from loadCursor_keeps [OF h(1) steady_facts(1,2) [OF assms] runLog_start(2) [OF w(2)] h(2) this]
    obtain cache c where c: "?load w = Some (cache, Inr c)" "cursorAt (we_registry env) r hist c" "cu_seq c = length hist"
        "\<forall>c'. dget cache r = Some c' \<longrightarrow> c' = c \<and> 0 < we_cacheLimit env"
      using steady_facts(3) [OF assms, of n] by auto
    have "runLog env r hist (cu_seq c) (w\<lparr>wk_cache := cache\<rparr>)"
      using w(2) h c by (fastforce simp: runLog_def)
    then have "atCursor env r h0 c (w\<lparr>wk_cache := cache\<rparr>)"
      using w c by (auto simp: atCursor_def atLive_def)
    then show "case case ?load w of None \<Rightarrow> None
        | Some (cache, Inl e) \<Rightarrow> Some (w\<lparr>wk_cache := cache\<rparr>, Inl (RepositoryFailed e))
        | Some (cache, Inr c) \<Rightarrow> Some (w\<lparr>wk_cache := cache\<rparr>, Inr c) of
          None \<Rightarrow> True | Some (w', Inl _) \<Rightarrow> logged env r h0 w' | Some (w', Inr c) \<Rightarrow> atCursor env r h0 c w'"
      by (simp add: c(1))
  qed
qed

text \<open>A batch that was appended and is not folded into the cursor yet.\<close>

definition appendedTo ::
  "('c, 'd) wake_env_scheme \<Rightarrow> string \<Rightarrow> envelope list \<Rightarrow> run_cursor \<Rightarrow> envelope list \<Rightarrow> append_result \<Rightarrow> wake_state \<Rightarrow> bool" where
  "appendedTo env r h0 c es result w \<longleftrightarrow> (\<exists>hist. prefix h0 hist
     \<and> runLog env r (hist @ numberEvents r (length hist) (stripSeq es)) (cu_seq c) w
     \<and> cursorAt (we_registry env) r hist c
     \<and> between env r (drop (cu_seq c) hist) (wk_liveCount w)
     \<and> ar_sequences result = [Suc (length hist)..<Suc (length hist + length es)]
     \<and> ar_tail result = length hist + length es)"

lemma append_not_known:
  "append_events bytes st r es opts = Inr (res, st') \<Longrightarrow> ao_idempotency opts = None \<Longrightarrow> \<not> ar_deduplicated res"
  by (auto simp: append_events_def appendGuard_def fencingGuard_def Let_def split: option.splits sum.splits bool.splits prod.splits if_splits)

lemma length_stripSeq [simp]: "length (stripSeq es) = length es"
  by (simp add: stripSeq_def)

lemma appendEvents_spec:
  assumes "steady env r" and "ao_idempotency opts = None" and "ao_fence opts = None"
  shows "wspec (atLive env r h0 c) (appendEvents env r es opts)
    (\<lambda>result w. case result of Inl _ \<Rightarrow> atLive env r h0 c w | Inr appended \<Rightarrow> appendedTo env r h0 c es appended w) E"
  unfolding appendEvents_def
proof (rule wspec_bind [OF othersWrite_live [OF assms(1)]], rule wspecI)
  fix w assume "atLive env r h0 c w"
  then obtain hist where w: "prefix h0 hist" "runLog env r hist (cu_seq c) w" "cursorAt (we_registry env) r hist c"
      "between env r (drop (cu_seq c) hist) (wk_liveCount w)" by (auto simp: atLive_def)
  obtain h where h: "keepsFrom (wk_store w) r hist h" "h \<le> Suc (cu_seq (startCursor r (latestSnapshot (wk_snapshots w) r)))"
      "h \<le> Suc (cu_seq c)" by (rule runLog_head [OF w(2)])
  show "case case append_events (we_bytes env) (wk_store w) r (stripSeq es) opts of
        Inl e \<Rightarrow> Some (w, Inr (Inl e)) | Inr (result, st) \<Rightarrow> Some (w\<lparr>wk_store := st\<rparr>, Inr (Inr result)) of
      None \<Rightarrow> True | Some (w', Inl _) \<Rightarrow> E w'
    | Some (w', Inr result) \<Rightarrow> (case result of Inl _ \<Rightarrow> atLive env r h0 c w' | Inr appended \<Rightarrow> appendedTo env r h0 c es appended w')"
  proof (cases "append_events (we_bytes env) (wk_store w) r (stripSeq es) opts")
    case (Inl e)
    with \<open>atLive env r h0 c w\<close> show ?thesis by simp
  next
    case (Inr p)
    obtain res st where p: "p = (res, st)" by fastforce
    have append: "append_events (we_bytes env) (wk_store w) r (stripSeq es) opts = Inr (res, st)" using Inr p by simp
    have "h \<le> Suc (length hist)" using h(3) w(3) by (simp add: cursorAt_def)
    note kept = keepsFrom_append [OF h(1) this append append_not_known [OF append assms(2)] assms(3)]
    from runLog_extend [OF w(2) kept(1) h(1,2)] w kept(2,3) have "appendedTo env r h0 c es res (w\<lparr>wk_store := st\<rparr>)"
      by (auto simp: appendedTo_def)
    with append show ?thesis by simp
  qed
qed

lemma appendEvents_live:
  "wspec (\<lambda>w. wk_liveCount w = n) (appendEvents env r es opts) (\<lambda>_ w. wk_liveCount w = n) E"
  by (rule wspecI) (auto simp: appendEvents_def othersWrite_def wbind_def askWorld_def split: sum.split)

text \<open>A run that is over stays over until it is started again.\<close>

lemma status_frames [simp]:
  "rs_status (completeEffect s i) = rs_status s" "rs_status (putThread s x) = rs_status s" "rs_status (dropThreadWork s t) = rs_status s"
  "rs_status (putExecution s ex) = rs_status s" "rs_status (addWait s wt) = rs_status s" "rs_status (removeWait s t) = rs_status s"
  by (simp_all add: completeEffect_def putThread_def dropThreadWork_def putExecution_def addWait_def removeWait_def)

lemma removeRace_status [simp]: "rs_status (removeRace s q) = rs_status s"
  unfolding removeRace_def by (rule foldl_invariant [where I = "\<lambda>x. rs_status x = rs_status s"]) simp_all

lemma deliver_status [simp]: "rs_status (deliver reg s e x) = rs_status s"
  by (auto simp: deliver_def reconcileEffects_def forgetCompletedEffects_def Let_def split: option.split)

lemma failUnhandledEffect_status [simp]: "rs_status (failUnhandledEffect s e before) = rs_status s"
  by (auto simp: failUnhandledEffect_def Let_def split: option.split)

definition runTypes :: "string list" where
  "runTypes = [''runtime.run.started'', ''runtime.run.completed'', ''runtime.run.cancelled'']"

lemma protocol_status: "\<not> List.member runTypes (ev_type e) \<Longrightarrow> rs_status (applyProtocol reg s e) = rs_status s"
proof -
  assume other: "\<not> List.member runTypes (ev_type e)"
  have "rs_status (runForked s e) = rs_status s" "rs_status (threadStarted reg s e) = rs_status s"
      "rs_status (threadCompleted s e) = rs_status s" "rs_status (threadFailed s e) = rs_status s" "rs_status (threadCancelled s e) = rs_status s"
    by (simp_all add: runForked_def threadStarted_def threadCompleted_def threadFailed_def threadCancelled_def Let_def split: option.split)
  moreover have "rs_status (waitRegistered s e) = rs_status s" "rs_status (waitSatisfied s e) = rs_status s"
      "rs_status (runLaunched s e) = rs_status s" "rs_status (childSettled s e) = rs_status s" "rs_status (childCloseRequested s e) = rs_status s"
    by (simp_all add: waitRegistered_def waitSatisfied_def runLaunched_def childSettled_def childCloseRequested_def Let_def
        split: option.split json.split)
  moreover have "rs_status (attemptStarted s e) = rs_status s" "rs_status (executionProgress s e) = rs_status s"
      "rs_status (dispatchDeferred s e) = rs_status s" "rs_status (retryScheduled s e) = rs_status s" "rs_status (effectCancelled s e) = rs_status s"
    by (simp_all add: attemptStarted_def executionProgress_def dispatchDeferred_def retryScheduled_def effectCancelled_def Let_def
        split: option.split)
  ultimately show ?thesis using other by (simp add: applyProtocol_def runTypes_def Let_def)
qed

lemma settled_status [simp]: "rs_status (recordIdempotencyKey (settleEffect (adoptRunId s e) e) e) = rs_status s"
  by (simp add: recordIdempotencyKey_def settleEffect_def adoptRunId_def split: option.split)

lemma foldEvent_status:
  assumes "\<not> ev_ephemeral e"
  shows "rs_status (foldEvent reg s e) = rs_status (applyProtocol reg (recordIdempotencyKey (settleEffect (adoptRunId s e) e) e) e)"
  using assms by (simp add: foldEvent_def Let_def)

lemma ended_status:
  assumes "\<not> ev_ephemeral e" and "ev_type e = ''runtime.run.completed'' \<or> ev_type e = ''runtime.run.cancelled''"
  shows "isRunTerminal (foldEvent reg s e)"
  using assms by (auto simp: isRunTerminal_def foldEvent_status applyProtocol_def runCompleted_def runCancelled_def completedRunStatus_def
      Let_def split: option.split)

lemma calm_terminal: "isRunTerminal s \<Longrightarrow> calm es \<Longrightarrow> isRunTerminal (foldRun reg s es)"
proof (induction es arbitrary: s)
  case (Cons e es)
  have "isRunTerminal (foldEvent reg s e)"
  proof (cases "ev_ephemeral e")
    case False
    then have started: "ev_type e \<noteq> ''runtime.run.started''" using Cons.prems(2) by (auto simp: calm_def)
    show ?thesis
    proof (cases "List.member runTypes (ev_type e)")
      case True
      then show ?thesis using started False by (intro ended_status) (simp_all add: runTypes_def)
    next
      case other: False
      then show ?thesis using False Cons.prems(1) by (simp add: isRunTerminal_def foldEvent_status protocol_status)
    qed
  qed (use Cons.prems in simp)
  with Cons show ?case by (simp add: calm_def)
qed simp

definition staysOver :: "('c, 'd) wake_env_scheme \<Rightarrow> string \<Rightarrow> envelope list \<Rightarrow> run_cursor \<Rightarrow> run_cursor \<Rightarrow> bool" where
  "staysOver env r es c c' \<longleftrightarrow> (startedOnce env r \<longrightarrow> calm es \<longrightarrow> isRunTerminal (cu_state c) \<longrightarrow> isRunTerminal (cu_state c'))"

text \<open>The cursor is at the end of a log that ends with the batch.\<close>

definition atTip ::
  "('c, 'd) wake_env_scheme \<Rightarrow> string \<Rightarrow> envelope list \<Rightarrow> envelope list \<Rightarrow> run_cursor \<Rightarrow> wake_state \<Rightarrow> bool" where
  "atTip env r h0 es c w \<longleftrightarrow> (\<exists>hist. prefix h0 hist \<and> (let whole = hist @ numberEvents r (length hist) (stripSeq es) in
     runLog env r whole (cu_seq c) w \<and> cursorAt (we_registry env) r whole c \<and> cu_seq c = length whole) \<and> wk_liveCount w = 0)"

lemma atTip_cursor: "atTip env r h0 es c w \<Longrightarrow> atCursor env r h0 c w"
  using prefix_prefix by (fastforce simp: atTip_def atCursor_def atLive_def Let_def)

lemma calm_numbered: "calm (numberEvents r n (stripSeq es)) = calm es"
  by (induction es arbitrary: n) (auto simp: calm_def stripSeq_def)

lemma applyTo_tip:
  assumes "steady env r" and "es \<noteq> []" and "\<forall>e \<in> set es. ev_runId e = r"
  shows "wspec (appendedTo env r h0 c es result) (applyTo env r c es result)
    (\<lambda>c' w. atTip env r h0 es c' w \<and> staysOver env r es c c') E"
proof (rule wspecI)
  fix w assume "appendedTo env r h0 c es result w"
  then obtain hist where w: "prefix h0 hist" "runLog env r (hist @ numberEvents r (length hist) (stripSeq es)) (cu_seq c) w"
      "cursorAt (we_registry env) r hist c" "between env r (drop (cu_seq c) hist) (wk_liveCount w)"
      "ar_sequences result = [Suc (length hist)..<Suc (length hist + length es)]" "ar_tail result = length hist + length es"
    by (auto simp: appendedTo_def)
  let ?hist = "hist @ numberEvents r (length hist) (stripSeq es)"
  let ?before = "take (cu_seq c) hist" and ?gap = "drop (cu_seq c) hist"
  obtain h where h: "keepsFrom (wk_store w) r ?hist h" "h \<le> Suc (cu_seq c)" by (rule runLog_head [OF w(2)])
  have le: "cu_seq c \<le> length hist" using w(3) by (simp add: cursorAt_def)
  have "\<exists>c'. applyAppend (we_prime env) (we_registry env) (we_cacheLimit env) (viewOf (wk_store w) r) r c (stripSeq es) result 0
        (wk_cache w, wk_liveCount w) = Some ((cacheSet (we_cacheLimit env) r c' (wk_cache w), 0), Inr c')
      \<and> cursorAt (we_registry env) r ?hist c' \<and> cu_seq c' = length ?hist"
  proof (rule applyAppend_pagesFrom [OF keepsFrom_pages [OF h(1)] steady_facts(1) [OF assms(1)] cursorAt_extends [OF w(3)]])
    show "?hist = ?before @ ?gap @ numberEvents r (length ?before + length ?gap) (stripSeq es) @ []" using le by simp
    show "cu_seq c = length ?before" using le by simp
    show "stripSeq es \<noteq> []" "\<forall>e \<in> set (stripSeq es). ev_runId e = r" using assms(2,3) by (auto simp: stripSeq_def)
    show "ar_sequences result = [Suc (length ?before + length ?gap)..<Suc (length ?before + length ?gap + length (stripSeq es))]"
      using w(5) le by (simp del: upt_Suc)
    show "ar_tail result = length ?hist" using w(6) by simp
    show "wk_liveCount w = length ?gap \<longrightarrow> (\<forall>e \<in> set ?gap. ev_ephemeral e)"
    proof
      assume "wk_liveCount w = length ?gap"
      then have "length (filter ev_ephemeral ?gap) = length ?gap"
        using w(4) length_filter_le [of ev_ephemeral ?gap] unfolding between_def by linarith
      then show "\<forall>e \<in> set ?gap. ev_ephemeral e" using length_filter_less [of _ ?gap ev_ephemeral] by fastforce
    qed
    show "h \<le> Suc (cu_seq c)" by (rule h(2))
  qed
  then obtain c' where c': "applyAppend (we_prime env) (we_registry env) (we_cacheLimit env) (viewOf (wk_store w) r) r c
        (stripSeq es) result 0 (wk_cache w, wk_liveCount w) = Some ((cacheSet (we_cacheLimit env) r c' (wk_cache w), 0), Inr c')"
      "cursorAt (we_registry env) r ?hist c'" "cu_seq c' = length ?hist" by blast
  have cached: "cc = c' \<and> 0 < we_cacheLimit env" if "dget (cacheSet (we_cacheLimit env) r c' (wk_cache w)) r = Some cc" for cc
    using cacheSet_own [OF that] w(2) by (auto simp: runLog_def split: if_splits)
  have "cu_seq c \<le> cu_seq c'" using le c'(3) by simp
  then have "runLog env r ?hist (cu_seq c') (w\<lparr>wk_cache := cacheSet (we_cacheLimit env) r c' (wk_cache w)\<rparr>)"
    using w(2) c'(2,3) cached by (fastforce simp: runLog_def)
  then have "atTip env r h0 es c' (w\<lparr>wk_cache := cacheSet (we_cacheLimit env) r c' (wk_cache w), wk_liveCount := 0\<rparr>)"
    using c'(2,3) w(1) unfolding atTip_def Let_def by (intro exI [of _ hist]) simp
  moreover have "staysOver env r es c c'"
    unfolding staysOver_def
  proof (intro impI)
    assume over: "startedOnce env r" "calm es" "isRunTerminal (cu_state c)"
    have "calm (?gap @ numberEvents r (length hist) (stripSeq es))"
      using over(1,2) w(4) calm_numbered [where es = es and r = r and n = "length hist"] by (simp add: between_def)
    moreover have "cu_state c' = foldRun (we_registry env) (cu_state c) (?gap @ numberEvents r (length hist) (stripSeq es))"
    proof -
      have "?hist = ?before @ ?gap @ numberEvents r (length hist) (stripSeq es)" by simp
      moreover have "cu_state c' = foldRun (we_registry env) (emptyRunState r) ?hist" using c'(2,3) by (simp add: cursorAt_def)
      moreover have "cu_state c = foldRun (we_registry env) (emptyRunState r) ?before" using w(3) by (simp add: cursorAt_def)
      ultimately show ?thesis by (metis foldRun_append)
    qed
    ultimately show "isRunTerminal (cu_state c')" by (metis calm_terminal [OF over(3)])
  qed
  ultimately show "case applyTo env r c es result w of None \<Rightarrow> True | Some (w', Inl _) \<Rightarrow> E w' | Some (w', Inr c') \<Rightarrow> atTip env r h0 es c' w' \<and> staysOver env r es c c'"
    by (simp add: applyTo_def c'(1))
qed

lemma applyTo_spec:
  assumes "steady env r" and "es \<noteq> []" and "\<forall>e \<in> set es. ev_runId e = r"
  shows "wspec (appendedTo env r h0 c es result) (applyTo env r c es result) (\<lambda>c'. atCursor env r h0 c') E"
  by (rule wspec_post [OF applyTo_tip [OF assms]]) (blast intro: atTip_cursor)

lemma appendAndApply_tip:
  assumes "steady env r" and "es \<noteq> []" and "\<forall>e \<in> set es. ev_runId e = r"
  shows "wspec (atLive env r h0 c) (appendAndApply env r c es) (\<lambda>c' w. atTip env r h0 es c' w \<and> staysOver env r es c c') (logged env r h0)"
  unfolding appendAndApply_def
proof (rule wspec_bind [OF appendEvents_spec [OF assms(1)]])
  show "ao_idempotency noOptions = None" "ao_fence noOptions = None" by (simp_all add: noOptions_def)
  fix result :: "store_error + append_result"
  show "wspec (\<lambda>w. case result of Inl _ \<Rightarrow> atLive env r h0 c w | Inr appended \<Rightarrow> appendedTo env r h0 c es appended w)
      (case result of Inl e \<Rightarrow> wfail (RepositoryFailed (StoreFailed e)) | Inr appended \<Rightarrow> applyTo env r c es appended)
      (\<lambda>c' w. atTip env r h0 es c' w \<and> staysOver env r es c c') (logged env r h0)"
    by (cases result) (simp_all add: wspec_fail atLive_logged applyTo_tip [OF assms])
qed

lemma appendAndApply_spec:
  assumes "steady env r" and "es \<noteq> []" and "\<forall>e \<in> set es. ev_runId e = r"
  shows "wspec (atLive env r h0 c) (appendAndApply env r c es) (\<lambda>c'. atCursor env r h0 c') (logged env r h0)"
  by (rule wspec_post [OF appendAndApply_tip [OF assms]]) (blast intro: atTip_cursor)

lemmas append_at = appendAndApply_spec [THEN wspec_pre, OF _ _ _ atCursor_live]

lemma numberEvents_ephemeral:
  "\<forall>e \<in> set es. ev_ephemeral e \<Longrightarrow> \<forall>e \<in> set (numberEvents r n (stripSeq es)). ev_ephemeral e"
  by (induction es arbitrary: n) (auto simp: stripSeq_def)

lemma pushLive_spec:
  assumes "steady env r"
  shows "wspec (atLive env r h0 c) (pushLive env r) (\<lambda>_. atLive env r h0 c) (logged env r h0)"
  unfolding pushLive_def
proof (rule wspec_bind [OF wspec_ask], simp, rule wspec_bind [OF appendEvents_spec [OF assms]])
  show "ao_idempotency noOptions = None" "ao_fence noOptions = None" by (simp_all add: noOptions_def)
  fix n and result :: "store_error + append_result"
  let ?count = "\<lambda>appended w. Some (w\<lparr>wk_liveCount := wk_liveCount w + length (ar_sequences appended)\<rparr>, Inr ())"
  have "wspec (appendedTo env r h0 c (we_live env n) appended) (?count appended) (\<lambda>_. atLive env r h0 c) (logged env r h0)" for appended
  proof (rule wspecI)
    fix w assume "appendedTo env r h0 c (we_live env n) appended w"
    then obtain hist where w: "prefix h0 hist"
        "runLog env r (hist @ numberEvents r (length hist) (stripSeq (we_live env n))) (cu_seq c) w"
        "cursorAt (we_registry env) r hist c" "between env r (drop (cu_seq c) hist) (wk_liveCount w)"
        "ar_sequences appended = [Suc (length hist)..<Suc (length hist + length (we_live env n))]"
      by (auto simp: appendedTo_def)
    let ?new = "numberEvents r (length hist) (stripSeq (we_live env n))"
    have "\<forall>e \<in> set ?new. ev_ephemeral e"
      using numberEvents_ephemeral [of "we_live env n" r "length hist"] steady_facts(5) [OF assms, of n] by simp
    moreover have "cu_seq c \<le> length hist" using w(3) by (simp add: cursorAt_def)
    ultimately have "between env r (drop (cu_seq c) (hist @ ?new)) (wk_liveCount w + length (ar_sequences appended))"
      using between_live [OF w(4), of ?new] w(5) by (simp del: upt_Suc)
    then have "atLive env r h0 c (w\<lparr>wk_liveCount := wk_liveCount w + length (ar_sequences appended)\<rparr>)"
      using w(2) cursorAt_extends [OF w(3)] prefix_prefix [OF w(1)] unfolding atLive_def
      by (intro exI [of _ "hist @ ?new"]) simp
    then show "case ?count appended w of None \<Rightarrow> True | Some (w', Inl _) \<Rightarrow> logged env r h0 w' | Some (w', Inr _) \<Rightarrow> atLive env r h0 c w'"
      by simp
  qed
  then show "wspec (\<lambda>w. case result of Inl _ \<Rightarrow> atLive env r h0 c w | Inr appended \<Rightarrow> appendedTo env r h0 c (we_live env n) appended w)
      (case result of Inl e \<Rightarrow> wfail (RepositoryFailed (StoreFailed e)) | Inr appended \<Rightarrow> ?count appended)
      (\<lambda>_. atLive env r h0 c) (logged env r h0)"
    by (cases result) (simp_all add: wspec_fail atLive_logged)
qed

lemma drainLive_spec:
  "steady env r \<Longrightarrow> wspec (atLive env r h0 c) (drainLive env r) (\<lambda>_. atLive env r h0 c) (logged env r h0)"
  unfolding drainLive_def by (rule wspec_bind [OF wspec_ask]) (auto intro: wspec_each pushLive_spec)

lemma runLog_persist:
  assumes "runLog env r hist (cu_seq c) w" and "cursorAt (we_registry env) r hist c" and "1 \<le> so_keep (we_snapshotOptions env)"
    and "persistSnapshot (we_snapshotOptions env) takenAt answer (wk_snapshots w, wk_store w) r c = ((snaps, st), c')"
  shows "runLog env r hist (cu_seq c) (w\<lparr>wk_snapshots := snaps, wk_store := st\<rparr>)"
proof -
  let ?x = "takenSnapshot (we_snapshotOptions env) r takenAt c"
  have x: "sn_cursor ?x = cu_seq c" "cursorAt (we_registry env) r hist (startCursor r (Some (run_snapshot.truncate ?x)))"
    using assms(2) by (simp_all add: takenSnapshot_def startCursor_def run_snapshot.defs cursorAt_def)
  obtain h where h: "keepsFrom (wk_store w) r hist h" "h \<le> Suc (cu_seq c)" by (rule runLog_head [OF assms(1)])
  have "runLog env r hist (cu_seq c) (w\<lparr>wk_snapshots := snaps, wk_store := st\<rparr>)"
    if xs: "snapshotsOf snaps r = xs @ [?x]" "set xs \<subseteq> set (snapshotsOf (wk_snapshots w) r)"
      and st: "st = wk_store w \<or> (\<exists>y \<in> set (xs @ [?x]). st = trimLog (wk_store w) r (Suc (sn_cursor y)))" for xs
  proof -
    have good: "sn_cursor y \<le> cu_seq c \<and> cursorAt (we_registry env) r hist (startCursor r (Some (run_snapshot.truncate y)))"
      if "y \<in> set (xs @ [?x])" for y
      using that xs(2) x assms(1) by (auto simp: runLog_def)
    have "\<exists>h'. keepsFrom st r hist h' \<and> h' \<le> Suc (cu_seq c)"
    proof (cases "st = wk_store w")
      case True
      with h show ?thesis by blast
    next
      case False
      then obtain y where y: "y \<in> set (xs @ [?x])" "st = trimLog (wk_store w) r (Suc (sn_cursor y))" using st by blast
      from keepsFrom_trim [OF h(1), of "Suc (sn_cursor y)"] y(2)
      obtain h' where "keepsFrom st r hist h'" "h' \<le> max h (Suc (sn_cursor y))" by auto
      with h(2) good [OF y(1)] show ?thesis by (intro exI [of _ h']) auto
    qed
    moreover have "loadLatest snaps r = Some ?x" using xs(1) by (cases xs) (simp_all add: loadLatest_def)
    then have "cu_seq (startCursor r (latestSnapshot snaps r)) = cu_seq c"
      using x(1) by (simp add: latestSnapshot_def startCursor_def run_snapshot.defs)
    ultimately show ?thesis using assms(1) good xs(1) by (simp add: runLog_def)
  qed
  moreover have "w\<lparr>wk_snapshots := wk_snapshots w, wk_store := wk_store w\<rparr> = w" by simp
  ultimately show ?thesis using persistSnapshot_cases(2) [OF assms(3,4)] assms(1) by metis
qed

lemma persistRun_spec:
  assumes "steady env r"
  shows "wspec (atCursor env r h0 c) (persistRun env r c) (\<lambda>c' w. cu_state c' = cu_state c \<and> atCursor env r h0 c' w) E"
  unfolding persistRun_def clockNow_def
proof (rule wspec_bind [OF wspec_bind [OF wspec_ask]], simp, rule wspec_return, assumption, rule wspec_bind [OF wspec_ask], simp)
  fix takenAt n
  let ?step = "\<lambda>w. let ((snaps, st), c') = persistSnapshot (we_snapshotOptions env) takenAt (we_coverage env n)
      (wk_snapshots w, wk_store w) r c in Some (w\<lparr>wk_snapshots := snaps, wk_store := st\<rparr>, Inr c')"
  show "wspec (atCursor env r h0 c) ?step (\<lambda>c' w. cu_state c' = cu_state c \<and> atCursor env r h0 c' w) E"
  proof (rule wspecI)
    fix w assume "atCursor env r h0 c w"
    then obtain hist where w: "prefix h0 hist" "runLog env r hist (cu_seq c) w" "cursorAt (we_registry env) r hist c"
      "between env r (drop (cu_seq c) hist) 0" "wk_liveCount w = 0" by (rule atCursorE)
    obtain snaps st c' where p: "persistSnapshot (we_snapshotOptions env) takenAt (we_coverage env n) (wk_snapshots w, wk_store w) r c
        = ((snaps, st), c')" by (metis prod.exhaust)
    note same = persistSnapshot_cases(1) [OF steady_facts(4) [OF assms] p]
    have "cursorAt (we_registry env) r hist c'" using w(3) same by (simp add: cursorAt_def)
    then have "atCursor env r h0 c' (w\<lparr>wk_snapshots := snaps, wk_store := st\<rparr>)"
      using runLog_persist [OF w(2,3) steady_facts(4) [OF assms] p] w(1,4,5) same by (intro atCursorI [of h0 hist]) simp_all
    with p same show "case ?step w of None \<Rightarrow> True | Some (w', Inl _) \<Rightarrow> E w'
        | Some (w', Inr c') \<Rightarrow> cu_state c' = cu_state c \<and> atCursor env r h0 c' w'" by simp
  qed
qed

lemma dropCached_spec:
  "wspec (atCursor env r h0 c) (dropCached r) (\<lambda>_. atCursor env r h0 c) E"
proof (rule wspecI)
  fix w assume "atCursor env r h0 c w"
  then obtain hist where w: "prefix h0 hist" "runLog env r hist (cu_seq c) w" "cursorAt (we_registry env) r hist c"
      "between env r (drop (cu_seq c) hist) 0" "wk_liveCount w = 0" by (rule atCursorE)
  have "runLog env r hist (cu_seq c) (w\<lparr>wk_cache := cacheDelete r (wk_cache w)\<rparr>)"
    using w(2) by (simp add: runLog_def cacheDelete_def)
  with w have "atCursor env r h0 c (w\<lparr>wk_cache := cacheDelete r (wk_cache w)\<rparr>)" by (intro atCursorI [of h0 hist]) simp_all
  then show "case dropCached r w of None \<Rightarrow> True | Some (w', Inl _) \<Rightarrow> E w' | Some (w', Inr _) \<Rightarrow> atCursor env r h0 c w'"
    by (simp add: dropCached_def)
qed

lemma keepCached_spec:
  "wspec (atCursor env r h0 c) (keepCached env r c) (\<lambda>_. atCursor env r h0 c) E"
proof (rule wspecI)
  fix w assume "atCursor env r h0 c w"
  then obtain hist where w: "prefix h0 hist" "runLog env r hist (cu_seq c) w" "cursorAt (we_registry env) r hist c"
      "between env r (drop (cu_seq c) hist) 0" "wk_liveCount w = 0" by (rule atCursorE)
  have "cc = c \<and> 0 < we_cacheLimit env" if "dget (cacheSet (we_cacheLimit env) r c (wk_cache w)) r = Some cc" for cc
    using cacheSet_own [OF that] w(2) by (auto simp: runLog_def split: if_splits)
  then have "runLog env r hist (cu_seq c) (w\<lparr>wk_cache := cacheSet (we_cacheLimit env) r c (wk_cache w)\<rparr>)"
    using w(2,3) by (fastforce simp: runLog_def)
  with w have "atCursor env r h0 c (w\<lparr>wk_cache := cacheSet (we_cacheLimit env) r c (wk_cache w)\<rparr>)" by (intro atCursorI [of h0 hist]) simp_all
  then show "case keepCached env r c w of None \<Rightarrow> True | Some (w', Inl _) \<Rightarrow> E w' | Some (w', Inr _) \<Rightarrow> atCursor env r h0 c w'"
    by (simp add: keepCached_def)
qed

section \<open>Everything planned is of the run\<close>

abbreviation ofRun :: "string \<Rightarrow> envelope list \<Rightarrow> bool" where
  "ofRun r es \<equiv> \<forall>e \<in> set es. ev_runId e = r"

lemma ofRun_createEvents [simp]: "ofRun r (createEvents st n r is)"
  by (auto dest: createEvents_member)

lemma run_createEffectFailed [simp]: "ev_runId (createEffectFailedEvent stamp r item error b) = r"
  by (simp add: createEffectFailedEvent_def)

lemma run_planAttemptFailure [simp]: "ev_runId (fst (planAttemptFailure stamp r item attempt error now retry origin b after)) = r"
  by (simp add: planAttemptFailure_def split: option.split)

lemma run_admit: "admitOrFailAttempt hooks c stamp r item attempt now retry = Some (e, x) \<Longrightarrow> ev_runId e = r"
  by (auto simp: admitOrFailAttempt_def split: option.splits prod.splits)
     (metis fst_conv run_planAttemptFailure)

lemma run_planEvent [simp]: "ev_runId (planEvent stamp r plan t extra) = r"
  by (simp add: planEvent_def)

lemma run_dispatch [simp]: "ev_runId (dispatchWorkerEffect st r plan worker outcome now limit) = r"
  by (simp add: dispatchWorkerEffect_def Let_def split: option.split)

lemma run_expired: "ofRun r (fst (planExpiredFrom st n r s reg now exs))"
proof (induction st n r s reg now exs rule: planExpiredFrom.induct)
  case (2 st n r s reg now ex exs)
  then show ?case
    by (auto simp: cancellationAmbiguous_def timedOutEvent_def Let_def split: option.splits prod.splits)
qed simp

lemma run_deadlines: "ofRun r (dp_events (planDeadlineTransitions st r s reg now))"
proof -
  have "ofRun r (dp_events (planDueTimers st r s reg now))"
    by (auto simp: planDueTimers_def emptyPlan_def Let_def dest: createEvents_member)
  moreover have "ofRun r (dp_events (planExpiredExecutions st r s reg now))"
    using run_expired [where st = st and n = 0 and r = r and s = s and reg = reg and now = now]
    by (simp add: planExpiredExecutions_def emptyPlan_def Let_def case_prod_unfold)
  ultimately show ?thesis by (simp add: planDeadlineTransitions_def Let_def)
qed

lemma run_ambiguous: "ofRun r (ambiguousFrom st n r exs)"
  by (induction exs arbitrary: n) (simp_all add: cancellationAmbiguous_def)

lemma run_terminal: "ofRun r (planTerminalCancellationTransitions st r s now)"
  using run_ambiguous by (simp add: planTerminalCancellationTransitions_def)

lemma run_materialize [simp]: "ev_runId (materializeEffectOutcome validate stamp r item input) = r"
  by (simp add: materializeEffectOutcome_def split: sum.split)

lemma run_outcomes: "ofRun r (attemptOutcomes host st n r item attempt now outcomes)"
  by (induction host st n r item attempt now outcomes rule: attemptOutcomes.induct) (simp_all add: outcomeEvent_def Let_def)

lemma run_item:
  assumes "runItem host st r attempts now (produced, failed) item = Inr (produced', failed')" and "ofRun r produced"
  shows "ofRun r produced'"
  using assms run_outcomes [where r = r and host = host and st = st]
  by (auto simp: runItem_def Let_def dest!: run_admit createEvents_member
      split: if_splits option.splits prod.splits sum.splits local_attempt.splits)

lemma run_items:
  "runItems host st r attempts now sofar items = Inr sofar' \<Longrightarrow> ofRun r (fst sofar) \<Longrightarrow> ofRun r (fst sofar')"
proof (induction items arbitrary: sofar)
  case (Cons item items)
  obtain produced failed where sofar: "sofar = (produced, failed)" by fastforce
  obtain next_sofar where first: "runItem host st r attempts now sofar item = Inr next_sofar"
      "runItems host st r attempts now next_sofar items = Inr sofar'"
    using Cons.prems(1) by (auto split: sum.splits)
  have "ofRun r (fst next_sofar)"
    using run_item [of host st r attempts now produced failed item "fst next_sofar" "snd next_sofar"] first(1) Cons.prems(2)
    by (simp add: sofar)
  from Cons.IH [OF first(2) this] show ?case .
qed simp

lemma run_groups: "runGroups host supply r attempts now outstanding keys = Inr produced \<Longrightarrow> ofRun r produced"
proof (induction keys arbitrary: produced)
  case (Cons key keys)
  then obtain first failed rest where parts: "runItems host (supply key) r attempts now ([], None) (groupItems outstanding key) = Inr (first, failed)"
      "runGroups host supply r attempts now outstanding keys = Inr rest" "produced = first @ rest"
    by (auto split: sum.splits)
  then show ?case using run_items [OF parts(1)] Cons.IH [OF parts(2)] by auto
qed simp

lemma run_local: "executeLocalEffects host supply r attempts now outstanding = Inr produced \<Longrightarrow> ofRun r produced"
  by (simp add: executeLocalEffects_def run_groups)

lemma run_fullBatch: "fullBatch reg st r s produced = Some batch \<Longrightarrow> ofRun r produced \<Longrightarrow> ofRun r batch \<and> (produced \<noteq> [] \<longrightarrow> batch \<noteq> [])"
  by (auto simp: fullBatch_def Let_def dest!: createEvents_member)

section \<open>The steps of a wake\<close>

lemma ask_cursor: "wspec (atCursor env r h0 c) askWorld (\<lambda>_. atCursor env r h0 c) E"
  by (rule wspec_ask) simp

lemma stamps_cursor: "wspec (atCursor env r h0 c) (freshStamps env) (\<lambda>_. atCursor env r h0 c) E"
  unfolding freshStamps_def by (rule wspec_bind [OF ask_cursor]) (rule wspec_return)

lemma clock_cursor: "wspec (atCursor env r h0 c) (clockNow env) (\<lambda>_. atCursor env r h0 c) E"
  unfolding clockNow_def by (rule wspec_bind [OF ask_cursor]) (rule wspec_return)

lemma report_cursor: "wspec (atCursor env r h0 c) (report out) (\<lambda>_. atCursor env r h0 c) E"
  by (rule wspec_report) simp

lemma cursor_return: "wspec (atCursor env r h0 c) (wreturn c) (\<lambda>c'. atCursor env r h0 c') E"
  by (rule wspec_return)

lemma cursor_fail: "wspec (atCursor env r h0 c) (wfail e) Q (logged env r h0)"
  by (rule wspec_fail) (rule atCursor_logged)

lemma answer_cursor:
  "wspec (atCursor env r h0 c) (case answer of None \<Rightarrow> wreturn () | Some e \<Rightarrow> wfail (LauncherFailed e)) (\<lambda>_. atCursor env r h0 c) (logged env r h0)"
  by (cases answer) (simp_all add: wspec_return cursor_fail)

lemma cancelChildRun_spec:
  "wspec (atCursor env r h0 c) (cancelChildRun env child) (\<lambda>_. atCursor env r h0 c) (logged env r h0)"
  unfolding cancelChildRun_def by (rule wspec_bind [OF report_cursor], rule wspec_bind [OF ask_cursor], rule answer_cursor)

lemma notifyParent_spec:
  "wspec (atCursor env r h0 c) (notifyParent env run s) (\<lambda>_. atCursor env r h0 c) (logged env r h0)"
  unfolding notifyParent_def
  by (cases "notifyLaunchingParent run s")
     (auto intro!: wspec_return wspec_bind [OF report_cursor] wspec_bind [OF ask_cursor] answer_cursor split: prod.split)

lemma closeLaunchedRuns_spec:
  assumes "steady env r"
  shows "wspec (atCursor env r h0 c) (closeLaunchedRuns env r c) (\<lambda>c'. atCursor env r h0 c') (logged env r h0)"
  unfolding closeLaunchedRuns_def
proof (rule wspec_bind [OF wspec_if])
  have request: "wspec (atCursor env r h0 c) (if rs_childCloseSent (cu_state c) then wreturn c
      else wbind (freshStamps env) (\<lambda>st. appendAndApply env r c [createEvent (st 0) r (childCloseRequestedInput r (cu_state c)) 0]))
      (\<lambda>c'. atCursor env r h0 c') (logged env r h0)"
    by (rule wspec_if [OF cursor_return], rule wspec_bind [OF stamps_cursor], rule append_at [OF assms]) simp_all
  show "wspec (atCursor env r h0 c) (wbind (if rs_childCloseSent (cu_state c) then wreturn c
      else wbind (freshStamps env) (\<lambda>st. appendAndApply env r c [createEvent (st 0) r (childCloseRequestedInput r (cu_state c)) 0]))
      (\<lambda>next_cursor. wbind (wEach (\<lambda>child. cancelChildRun env (lr_runId child)) (rs_launchedRuns (cu_state next_cursor)))
          (\<lambda>_. wreturn next_cursor))) (\<lambda>c'. atCursor env r h0 c') (logged env r h0)"
    by (rule wspec_bind [OF request], rule wspec_bind [OF wspec_each [OF cancelChildRun_spec]], rule cursor_return)
  show "wspec (atCursor env r h0 c) (wreturn c) (\<lambda>c'. atCursor env r h0 c') (logged env r h0)" by (rule cursor_return)
  fix c'
  show "wspec (atCursor env r h0 c') (wbind (if isRunTerminal (cu_state c') then notifyParent env r (cu_state c') else wreturn ())
      (\<lambda>_. wreturn c')) (\<lambda>c'. atCursor env r h0 c') (logged env r h0)"
    by (rule wspec_bind [OF wspec_if [OF notifyParent_spec wspec_return]], assumption, rule cursor_return)
qed

lemma deadlineStep_spec:
  assumes "steady env r" and "dp_events plan \<noteq> []" and "ofRun r (dp_events plan)"
  shows "wspec (atCursor env r h0 c) (deadlineStep env r c plan) (\<lambda>c'. atCursor env r h0 c') (logged env r h0)"
proof -
  let ?opts = "if dp_timerNotices plan \<noteq> [] then noOptions\<lparr>ao_expectedTail := Some (cu_seq c)\<rparr> else noOptions"
  have opts: "ao_idempotency ?opts = None" "ao_fence ?opts = None" by (simp_all add: noOptions_def)
  have again: "wspec (atCursor env r h0 c) (wbind (dropCached r) (\<lambda>_. loadRun env r)) (\<lambda>c'. atCursor env r h0 c') (logged env r h0)"
    by (rule wspec_bind [OF dropCached_spec], rule wspec_pre [OF loadRun_spec [OF assms(1)]], erule atCursor_rest)
  have appended: "wspec (atCursor env r h0 c) (appendEvents env r (dp_events plan) ?opts)
      (\<lambda>result w. case result of Inl _ \<Rightarrow> atCursor env r h0 c w | Inr appended \<Rightarrow> appendedTo env r h0 c (dp_events plan) appended w) (logged env r h0)"
    by (rule wspec_weaken [OF wspec_conj [OF appendEvents_spec [OF assms(1) opts] appendEvents_live]])
       (auto simp: atCursor_def split: sum.splits)
  show ?thesis
    unfolding deadlineStep_def
  proof (rule wspec_bind [OF appended])
    fix result :: "store_error + append_result"
    show "wspec (\<lambda>w. case result of Inl _ \<Rightarrow> atCursor env r h0 c w | Inr appended \<Rightarrow> appendedTo env r h0 c (dp_events plan) appended w)
      (case result of Inr appended \<Rightarrow> applyTo env r c (dp_events plan) appended
       | Inl (Conflict x y z) \<Rightarrow> if dp_timerNotices plan \<noteq> [] then wbind (dropCached r) (\<lambda>_. loadRun env r)
           else wfail (RepositoryFailed (StoreFailed (Conflict x y z)))
       | Inl e \<Rightarrow> wfail (RepositoryFailed (StoreFailed e))) (\<lambda>c'. atCursor env r h0 c') (logged env r h0)"
    proof (cases result)
      case (Inl e)
      then show ?thesis using again by (cases e) (simp_all add: cursor_fail)
    next
      case (Inr appended)
      then show ?thesis using applyTo_spec [OF assms] by simp
    qed
  qed
qed

lemma pushPlan_spec:
  assumes "steady env r" and "\<forall>e. wp_queuedEvent plan = Some e \<longrightarrow> ev_runId e = r"
  shows "wspec (atCursor env r h0 c) (pushPlan env r now st c plan) (\<lambda>c'. atCursor env r h0 c') (logged env r h0)"
  unfolding pushPlan_def
proof (rule wspec_bind)
  show "wspec (atCursor env r h0 c) (case wp_queuedEvent plan of None \<Rightarrow> wreturn c | Some e \<Rightarrow> appendAndApply env r c [e])
      (\<lambda>c'. atCursor env r h0 c') (logged env r h0)"
    using assms by (cases "wp_queuedEvent plan") (simp_all add: cursor_return append_at)
qed (rule wspec_bind [OF wspec_if [OF wspec_return report_cursor]], assumption, rule wspec_bind [OF ask_cursor],
     rule append_at [OF assms(1)], simp_all)

lemma workerStep_spec:
  assumes "steady env r" and "\<forall>e. wp_queuedEvent plan = Some e \<longrightarrow> ev_runId e = r"
  shows "wspec (atCursor env r h0 c) (workerStep env r now c plan) (\<lambda>c'. atCursor env r h0 c') (logged env r h0)"
  unfolding workerStep_def
  by (rule wspec_bind [OF ask_cursor], rule wspec_bind [OF stamps_cursor])
     (auto intro!: append_at [OF assms(1)] pushPlan_spec [OF assms] dest: run_admit split: option.split)

lemma workerSteps_spec:
  assumes "steady env r" and "\<forall>plan \<in> set plans. \<forall>e. wp_queuedEvent plan = Some e \<longrightarrow> ev_runId e = r"
  shows "wspec (atCursor env r h0 c) (workerSteps env r now c plans) (\<lambda>c'. atCursor env r h0 c') (logged env r h0)"
  using assms(2)
proof (induction plans arbitrary: c)
  case (Cons plan plans)
  show ?case
    unfolding workerSteps.simps
    by (rule wspec_bind [OF workerStep_spec [OF assms(1)]]) (use Cons in auto)
qed (simp add: cursor_return)

lemma run_queued: "plan \<in> set (plansFrom st n r s reg now secrets items) \<Longrightarrow> wp_queuedEvent plan = Some e \<Longrightarrow> ev_runId e = r"
  by (induction st n r s reg now secrets items rule: plansFrom.induct) (auto simp: planOf_def Let_def split: if_splits)

lemma recordProduced_spec:
  assumes "steady env r" and "produced \<noteq> []" and "ofRun r produced"
  shows "wspec (atCursor env r h0 c) (recordProduced env r c produced) (\<lambda>c'. atCursor env r h0 c') (logged env r h0)"
  unfolding recordProduced_def
proof (rule wspec_bind [OF wspec_pre [OF drainLive_spec [OF assms(1)]]], erule atCursor_live)
  have stamps: "wspec (atLive env r h0 c) (freshStamps env) (\<lambda>_. atLive env r h0 c) (logged env r h0)"
    unfolding freshStamps_def by (rule wspec_bind [OF wspec_ask]) (auto intro: wspec_return)
  have saved: "wspec (atCursor env r h0 c2) (if b then persistRun env r c2 else wreturn c2) (\<lambda>c'. atCursor env r h0 c') (logged env r h0)" for b c2
    by (rule wspec_if [OF wspec_post [OF persistRun_spec [OF assms(1)]] cursor_return]) simp
  show "wspec (atLive env r h0 c) (wbind (freshStamps env) (\<lambda>st. case fullBatch (we_registry env) st r (cu_state c) produced of
       None \<Rightarrow> (\<lambda>w. None)
     | Some batch \<Rightarrow> wbind (appendAndApply env r c batch) (\<lambda>c'.
         if 0 < we_snapshotEvery env \<and> we_snapshotEvery env \<le> cu_durableSinceSnapshot c'
         then persistRun env r c' else wreturn c'))) (\<lambda>c'. atCursor env r h0 c') (logged env r h0)"
    by (rule wspec_bind [OF stamps])
       (auto intro!: wspec_hang wspec_bind [OF appendAndApply_spec [OF assms(1)] saved] dest: run_fullBatch [OF _ assms(3)] simp: assms(2)
         split: option.split)
qed

lemma runHandlers_spec:
  "wspec (atCursor env r h0 c) (runHandlers env r now s outstanding attempts)
     (\<lambda>produced w. ofRun r produced \<and> atCursor env r h0 c w) (logged env r h0)"
  unfolding runHandlers_def
  by (rule wspec_bind [OF ask_cursor], rule wspec_bind [OF report_cursor])
     (auto intro!: cursor_fail wspec_return dest: run_local split: sum.split)

lemma localRound_spec:
  assumes "steady env r" and "outstanding \<noteq> []" and "length attempts = length outstanding"
  shows "wspec (atCursor env r h0 c) (localRound env r now c outstanding attempts) (\<lambda>result. atCursor env r h0 (fst result)) (logged env r h0)"
  unfolding localRound_def
proof (rule wspec_bind [OF stamps_cursor], rule wspec_bind [OF append_at [OF assms(1)]])
  fix st :: stamps
  have "length (createEvents st 0 r (map2 attemptStartedInput outstanding (map snd attempts))) = length outstanding"
    using assms(3) by simp
  then show "createEvents st 0 r (map2 attemptStartedInput outstanding (map snd attempts)) \<noteq> []"
    using assms(2) by (metis length_0_conv)
  show "ofRun r (createEvents st 0 r (map2 attemptStartedInput outstanding (map snd attempts)))" by simp
next
  fix c1
  show "wspec (atCursor env r h0 c1) (wbind (runHandlers env r now (cu_state c1) outstanding attempts) (\<lambda>produced.
       if produced = [] then wreturn (c1, False)
       else wbind (recordProduced env r c1 produced) (\<lambda>c2. wreturn (c2, True)))) (\<lambda>result. atCursor env r h0 (fst result)) (logged env r h0)"
    by (rule wspec_bind [OF runHandlers_spec], rule wspec_fact)
       (auto intro!: wspec_return wspec_bind [OF recordProduced_spec [OF assms(1)]])
qed

section \<open>A wake follows the log\<close>

lemma planned_spec:
  assumes "steady env r"
  shows "wspec (atCursor env r h0 (lp_cursor lp)) (wakeIteration env r lp)
    (\<lambda>next_step. case next_step of Continue lp' \<Rightarrow> atCursor env r h0 (lp_cursor lp') | Break lp' \<Rightarrow> atCursor env r h0 (lp_cursor lp'))
    (logged env r h0)"
  unfolding wakeIteration_def
proof (rule wspec_bind [OF clock_cursor], rule wspec_bind [OF stamps_cursor])
  fix now st
  let ?c = "lp_cursor lp" and ?s = "cu_state (lp_cursor lp)" and ?reg = "we_registry env"
  let ?planned = "lp\<lparr>lp_plannedAt := Some now\<rparr>"
  let ?deadlines = "planDeadlineTransitions st r ?s ?reg now"
  let ?plans = "planWorkerEffects st r ?s ?reg (we_worker env) now (we_maxInFlight env) (we_secrets env)"
  let ?Q = "\<lambda>next_step. case next_step of Continue lp' \<Rightarrow> atCursor env r h0 (lp_cursor lp') | Break lp' \<Rightarrow> atCursor env r h0 (lp_cursor lp')"
  have go_on: "wspec (atCursor env r h0 ?c) (wbind m (\<lambda>c'. wreturn (Continue (?planned\<lparr>lp_cursor := c'\<rparr>)))) ?Q (logged env r h0)"
    if "wspec (atCursor env r h0 ?c) m (\<lambda>c'. atCursor env r h0 c') (logged env r h0)" for m
    by (rule wspec_bind [OF that], rule wspec_return) simp
  have workers: "wspec (atCursor env r h0 ?c) (workerSteps env r now ?c ?plans) (\<lambda>c'. atCursor env r h0 c') (logged env r h0)"
    by (rule workerSteps_spec [OF assms]) (auto simp: planWorkerEffects_def Let_def dest: run_queued)
  have local_spec: "wspec (atCursor env r h0 ?c) (wbind (localRound env r now ?c outstanding (map f outstanding)) (\<lambda>(c', more).
            wreturn ((if more then Continue else Break) (?planned\<lparr>lp_cursor := c', lp_dispatched := d, lp_started := b\<rparr>)))) ?Q (logged env r h0)"
    if "outstanding \<noteq> []" for outstanding d b f
    by (rule wspec_bind [OF localRound_spec [OF assms that]], simp, unfold case_prod_unfold, rule wspec_return) simp
  show "wspec (atCursor env r h0 ?c) (let c = ?c; s = cu_state c; reg = ?reg; planned = ?planned;
         deadlines = planDeadlineTransitions st r s reg now;
         plans = planWorkerEffects st r s reg (we_worker env) now (we_maxInFlight env) (we_secrets env);
         outstanding = localReady reg (we_worker env) r s now;
         attempts = map (\<lambda>item. (oe_effectId item, localAttempt (lp_started lp) s item)) outstanding
     in if dp_events deadlines \<noteq> [] then
          wbind (deadlineStep env r c deadlines) (\<lambda>c'. wreturn (Continue (planned\<lparr>lp_cursor := c'\<rparr>)))
        else if plans \<noteq> [] then
          wbind (workerSteps env r now c plans) (\<lambda>c'. wreturn (Continue (planned\<lparr>lp_cursor := c'\<rparr>)))
        else if outstanding = [] then wreturn (Break planned)
        else case find (\<lambda>item. List.member (lp_dispatched lp) (oe_effectId item, localAttempt (lp_started lp) s item)) outstanding of
          Some item \<Rightarrow> wfail (DuplicateEffectDispatch r (oe_effectId item) (oe_threadId item))
        | None \<Rightarrow> wbind (localRound env r now c outstanding attempts) (\<lambda>(c', more).
            wreturn ((if more then Continue else Break)
              (planned\<lparr>lp_cursor := c', lp_dispatched := lp_dispatched lp @ attempts,
                 lp_started := lp_started lp @ map oe_effectId outstanding\<rparr>)))) ?Q (logged env r h0)"
    unfolding Let_def
    by (intro wspec_if go_on deadlineStep_spec [OF assms _ run_deadlines] workers)
       (auto intro: wspec_return cursor_fail local_spec split: option.split)
qed

lemma wakeLoop_spec:
  assumes "steady env r"
  shows "wspec (atCursor env r h0 (lp_cursor lp)) (wakeLoop env r fuel lp) (\<lambda>lp'. atCursor env r h0 (lp_cursor lp')) (logged env r h0)"
proof (induction fuel arbitrary: lp)
  case 0
  show ?case unfolding wakeLoop.simps [of env r 0] by (auto intro: wspec_return cursor_fail)
next
  case (Suc fuel)
  have "wspec (case x of Continue lp' \<Rightarrow> atCursor env r h0 (lp_cursor lp') | Break lp' \<Rightarrow> atCursor env r h0 (lp_cursor lp'))
      (case x of Continue lp' \<Rightarrow> wakeLoop env r fuel lp' | Break lp' \<Rightarrow> wreturn lp')
      (\<lambda>lp'. atCursor env r h0 (lp_cursor lp')) (logged env r h0)" for x
    by (cases x) (auto intro: Suc.IH wspec_return)
  then have "wspec (atCursor env r h0 (lp_cursor lp)) (wbind (wakeIteration env r lp) (\<lambda>x.
      case x of Continue lp' \<Rightarrow> wakeLoop env r fuel lp' | Break lp' \<Rightarrow> wreturn lp')) (\<lambda>lp'. atCursor env r h0 (lp_cursor lp')) (logged env r h0)"
    by (rule wspec_bind [OF planned_spec [OF assms]])
  then show ?case unfolding wakeLoop.simps [of env r "Suc fuel"] by (auto intro: wspec_return)
qed

text \<open>The state a step returns is the one of a cursor the wake holds.\<close>

definition atState :: "('c, 'd) wake_env_scheme \<Rightarrow> string \<Rightarrow> envelope list \<Rightarrow> run_state \<Rightarrow> wake_state \<Rightarrow> bool" where
  "atState env r h0 s w \<longleftrightarrow> (\<exists>c. cu_state c = s \<and> atCursor env r h0 c w)"

lemma state_return: "wspec (atCursor env r h0 c) (wreturn (cu_state c)) (atState env r h0) E"
  by (rule wspec_return) (auto simp: atState_def)

lemma scheduleNext_spec: "wspec (atCursor env r h0 c) (scheduleNext run s after) (\<lambda>_. atCursor env r h0 c) E"
  unfolding scheduleNext_def by (rule report_cursor)

lemma endRun_spec:
  assumes "steady env r"
  shows "wspec (atCursor env r h0 c) (endRun env r c) (\<lambda>c'. atCursor env r h0 c') (logged env r h0)"
proof -
  have "wspec (atCursor env r h0 c) (wbind (freshStamps env) (\<lambda>st. appendAndApply env r c [createEvent (st 0) r i 0]))
      (\<lambda>c'. atCursor env r h0 c') (logged env r h0)" for i
    by (rule wspec_bind [OF stamps_cursor], rule append_at [OF assms]) simp_all
  then show ?thesis by (auto simp: endRun_def intro: cursor_return split: option.split)
qed

lemma park_spec:
  assumes "steady env r"
  shows "wspec (atCursor env r h0 (lp_cursor lp)) (park env r lp) (atState env r h0) (logged env r h0)"
proof -
  have ended: "wspec (atCursor env r h0 c) (if isRunTerminal (cu_state c) then closeLaunchedRuns env r c else wreturn c)
      (\<lambda>c'. atCursor env r h0 c') (logged env r h0)" for c
    by (rule wspec_if [OF closeLaunchedRuns_spec [OF assms] cursor_return])
  have persisted: "wspec (atCursor env r h0 c) (persistRun env r c) (\<lambda>c'. atCursor env r h0 c') (logged env r h0)" for c
    by (rule wspec_post [OF persistRun_spec [OF assms]]) simp
  have cached: "wspec (atCursor env r h0 c) (if isRunTerminal (cu_state c) then dropCached r else keepCached env r c)
      (\<lambda>_. atCursor env r h0 c) (logged env r h0)" for c
    by (rule wspec_if [OF dropCached_spec keepCached_spec])
  show ?thesis
    unfolding park_def
    by (rule wspec_bind [OF endRun_spec [OF assms]], rule wspec_bind [OF ended], rule wspec_bind [OF persisted],
        rule wspec_bind [OF scheduleNext_spec], rule wspec_bind [OF cached], rule state_return)
qed

lemma wakeTerminal_spec:
  assumes "steady env r"
  shows "wspec (atCursor env r h0 c) (wakeTerminal env r c) (atState env r h0) (logged env r h0)"
proof -
  have planned: "wspec (atCursor env r h0 c) (if es = [] then wreturn c else appendAndApply env r c es) (\<lambda>c'. atCursor env r h0 c') (logged env r h0)"
    if "ofRun r es" for es
    by (rule wspec_if [OF cursor_return append_at [OF assms]]) (use that in simp_all)
  show ?thesis
    unfolding wakeTerminal_def Let_def
    by (rule wspec_bind [OF clock_cursor], rule wspec_bind [OF stamps_cursor], rule wspec_bind [OF planned [OF run_terminal]],
        rule wspec_bind [OF closeLaunchedRuns_spec [OF assms]], rule wspec_bind [OF scheduleNext_spec], rule state_return)
qed

lemma closeWaited_spec:
  assumes "steady env r"
  shows "wspec (atCursor env r h0 c) (closeWaited env r c) (\<lambda>c'. atCursor env r h0 c') (logged env r h0)"
proof -
  have "wspec (atCursor env r h0 c) (wbind (freshStamps env) (\<lambda>st. appendAndApply env r c (createEvents st 0 r (i # is))))
      (\<lambda>c'. atCursor env r h0 c') (logged env r h0)" for i "is"
  proof (rule wspec_bind [OF stamps_cursor], rule append_at [OF assms])
    fix st
    show "createEvents st 0 r (i # is) \<noteq> []" by simp
    show "ofRun r (createEvents st 0 r (i # is))" by (rule ofRun_createEvents)
  qed
  then show ?thesis by (auto simp: closeWaited_def intro: wspec_hang cursor_return split: option.split list.split)
qed

lemma wakeRound_spec:
  assumes "steady env r"
  shows "wspec (parkedAt env r h0) (wakeRound env r) (atState env r h0) (logged env r h0)"
  unfolding wakeRound_def
proof (rule wspec_bind [OF loadRun_spec [OF assms]], rule wspec_bind [OF closeWaited_spec [OF assms]], rule wspec_if)
  fix c
  show "wspec (atCursor env r h0 c) (wakeTerminal env r c) (atState env r h0) (logged env r h0)" by (rule wakeTerminal_spec [OF assms])
  have reset: "wspec (atCursor env r h0 c) resetLive (\<lambda>_. atCursor env r h0 c) (logged env r h0)"
    by (rule wspecI) (auto simp: resetLive_def atCursor_def atLive_def)
  have loop: "wspec (atCursor env r h0 c) (wakeLoop env r fuel \<lparr>lp_cursor = c, lp_dispatched = [], lp_started = [], lp_plannedAt = None\<rparr>)
      (\<lambda>lp'. atCursor env r h0 (lp_cursor lp')) (logged env r h0)" for fuel
    using wakeLoop_spec [OF assms, of h0 "\<lparr>lp_cursor = c, lp_dispatched = [], lp_started = [], lp_plannedAt = None\<rparr>"] by simp
  show "wspec (atCursor env r h0 c) (wbind resetLive (\<lambda>_. wbind
       (wakeLoop env r (we_maxWakeIterations env)
         \<lparr>lp_cursor = c, lp_dispatched = [], lp_started = [], lp_plannedAt = None\<rparr>) (park env r))) (atState env r h0) (logged env r h0)"
    by (rule wspec_bind [OF reset], rule wspec_bind [OF loop], rule park_spec [OF assms])
qed

lemma wakeRound_follow:
  assumes "steady env r" and "parkedAt env r h0 w" and "wakeRound env r w = Some (w', result)"
  shows "case result of Inl _ \<Rightarrow> logged env r h0 w' | Inr s \<Rightarrow> atState env r h0 s w'"
  using wspec_use [OF wakeRound_spec [OF assms(1)] assms(2)] wspec_use_error [OF wakeRound_spec [OF assms(1)] assms(2)] assms(3)
  by (cases result) simp_all

definition followed :: "('c, 'd) wake_env_scheme \<Rightarrow> string \<Rightarrow> envelope list \<Rightarrow> wake_state \<times> (wake_error + run_state) \<Rightarrow> bool" where
  "followed env r h0 end_of \<longleftrightarrow> parkedAt env r h0 (fst end_of) \<and> (\<forall>s. snd end_of = Inr s \<longrightarrow> atState env r h0 s (fst end_of))"

lemma wakeRounds_follow:
  assumes "wakeRounds env r w = Some end_of" and "steady env r" and "parkedAt env r h0 w"
  shows "followed env r h0 end_of"
proof -
  let ?P = "\<lambda>env r w end_of. steady env r \<longrightarrow> parkedAt env r h0 w \<longrightarrow> followed env r h0 end_of"
  have "?P env r w end_of"
  proof (rule wakeRounds.raw_induct [of ?P, OF _ assms(1)], intro impI)
    fix rounds and env :: "('a, 'b) wake_env_scheme" and r w end_of
    assume again: "\<And>r w b y. rounds r w b = Some y \<Longrightarrow> ?P r w b y"
      and body: "(case wakeRound env r w of
          None \<Rightarrow> None
        | Some (w', Inl e) \<Rightarrow> Some (w'\<lparr>wk_liveCount := 0\<rparr>, Inl e)
        | Some (w', Inr s) \<Rightarrow>
            if we_wakeAgain env (wk_tick w') then rounds env r (w'\<lparr>wk_tick := Suc (wk_tick w')\<rparr>)
            else Some (w'\<lparr>wk_liveCount := 0, wk_tick := Suc (wk_tick w')\<rparr>, Inr s)) = Some end_of"
      and steady: "steady env r" and parked: "parkedAt env r h0 w"
    obtain w1 result where round: "wakeRound env r w = Some (w1, result)" using body by (cases "wakeRound env r w") auto
    note follow = wakeRound_follow [OF steady parked round]
    show "followed env r h0 end_of"
    proof (cases result)
      case (Inl e)
      with body round follow show ?thesis by (auto simp: followed_def parkedAt_def)
    next
      case (Inr s)
      then have at: "atState env r h0 s (w1\<lparr>wk_tick := n\<rparr>)" for n using follow by (auto simp: atState_def)
      then have rest: "parkedAt env r h0 (w1\<lparr>wk_tick := n\<rparr>)" for n by (auto simp: atState_def dest: atCursor_rest)
      show ?thesis
      proof (cases "we_wakeAgain env (wk_tick w1)")
        case True
        then have "rounds env r (w1\<lparr>wk_tick := Suc (wk_tick w1)\<rparr>) = Some end_of" using body round Inr by simp
        with again steady rest show ?thesis by blast
      next
        case False
        have "wk_liveCount w1 = 0" using rest [of 0] by (simp add: parkedAt_def)
        then have "w1\<lparr>wk_liveCount := 0, wk_tick := n\<rparr> = w1\<lparr>wk_tick := n\<rparr>" for n by simp
        with False body round Inr have "end_of = (w1\<lparr>wk_tick := Suc (wk_tick w1)\<rparr>, Inr s)" by simp
        with at rest show ?thesis by (simp add: followed_def)
      qed
    qed
  qed
  with assms(2,3) show ?thesis by blast
qed


end
