(* ===== verification/Wake_Liveness.thy ===== *)
theory Wake_Liveness
  imports Wake_Properties
begin

text \<open>
  A parked run is not forgotten: when a wake ends with the run not over, the time it asked to be woken at is
  no later than the first moment at which the engine would find something to do in the state it left.
\<close>

section \<open>Waiting executions carry their deadline\<close>

definition waiting :: "effect_execution \<Rightarrow> bool" where
  "waiting ex \<longleftrightarrow> List.member [RetryWait, DispatchWait] (ex_status ex)"

definition waitsHaveDeadline :: "run_state \<Rightarrow> bool" where
  "waitsHaveDeadline s \<longleftrightarrow> (\<forall>i ex. dget (rs_effectExecutions s) i = Some ex \<longrightarrow> waiting ex \<longrightarrow> ex_deadlineAt ex = ex_nextAttemptAt ex)"

lemma waitsHaveDeadline_frame:
  "rs_effectExecutions s' = rs_effectExecutions s \<Longrightarrow> waitsHaveDeadline s \<Longrightarrow> waitsHaveDeadline s'"
  by (simp add: waitsHaveDeadline_def)

lemma waitsHaveDeadline_put:
  "waitsHaveDeadline s \<Longrightarrow> (waiting ex \<Longrightarrow> ex_deadlineAt ex = ex_nextAttemptAt ex) \<Longrightarrow> waitsHaveDeadline (putExecution s ex)"
  by (auto simp: waitsHaveDeadline_def putExecution_def)

lemma waitsHaveDeadline_complete: "waitsHaveDeadline s \<Longrightarrow> waitsHaveDeadline (completeEffect s i)"
  by (auto simp: waitsHaveDeadline_def completeEffect_def)

lemma executionStatusOf_idle: "\<not> List.member [RetryWait, DispatchWait] (executionStatusOf t)"
  by (simp add: executionStatusOf_def)

lemma removeRace_executions [simp]: "rs_effectExecutions (removeRace s q) = rs_effectExecutions s"
  unfolding removeRace_def
  by (rule foldl_invariant [where I = "\<lambda>x. rs_effectExecutions x = rs_effectExecutions s"]) simp_all

lemma waitsHaveDeadline_protocol:
  assumes "waitsHaveDeadline s"
  shows "waitsHaveDeadline (applyProtocol reg s e)"
proof -
  note frame = waitsHaveDeadline_frame [OF _ assms]
  have run: "waitsHaveDeadline (runStarted s e)" "waitsHaveDeadline (runCompleted s e)" "waitsHaveDeadline (runCancelled s)"
    by (rule frame; simp add: runStarted_def runCompleted_def runCancelled_def Let_def)+
  have forked: "waitsHaveDeadline (runForked s e)"
    using assms by (auto simp: runForked_def waitsHaveDeadline_def Let_def split: option.split)
  have threads: "waitsHaveDeadline (threadStarted reg s e)" "waitsHaveDeadline (threadCompleted s e)"
      "waitsHaveDeadline (threadFailed s e)" "waitsHaveDeadline (threadCancelled s e)"
    by (rule frame; simp add: threadStarted_def threadCompleted_def threadFailed_def threadCancelled_def Let_def split: option.split)+
  have waits: "waitsHaveDeadline (waitRegistered s e)" "waitsHaveDeadline (waitSatisfied s e)"
    by (rule frame; simp add: waitRegistered_def waitSatisfied_def Let_def split: option.split json.split)+
  have children: "waitsHaveDeadline (runLaunched s e)" "waitsHaveDeadline (childSettled s e)" "waitsHaveDeadline (childCloseRequested s e)"
    by (rule frame; simp add: runLaunched_def childSettled_def childCloseRequested_def Let_def split: option.split)+
  have executions: "waitsHaveDeadline (attemptStarted s e)" "waitsHaveDeadline (executionProgress s e)" "waitsHaveDeadline (dispatchDeferred s e)"
      "waitsHaveDeadline (retryScheduled s e)" "waitsHaveDeadline (effectCancelled s e)"
    using assms executionStatusOf_idle
    by (auto simp: attemptStarted_def executionProgress_def dispatchDeferred_def retryScheduled_def effectCancelled_def Let_def waiting_def
        intro!: waitsHaveDeadline_put waitsHaveDeadline_complete split: option.split)
  show ?thesis
    using assms run forked threads waits children executions by (simp add: applyProtocol_def Let_def)
qed

lemma waitsHaveDeadline_foldEvent:
  assumes "waitsHaveDeadline s"
  shows "waitsHaveDeadline (foldEvent reg s e)"
proof (cases "ev_ephemeral e")
  case False
  have "waitsHaveDeadline (recordIdempotencyKey (settleEffect (adoptRunId s e) e) e)"
    using assms
    by (auto simp: recordIdempotencyKey_def settleEffect_def adoptRunId_def waitsHaveDeadline_complete split: option.split
        intro: waitsHaveDeadline_frame [of _ "completeEffect s' i" for s' i] waitsHaveDeadline_frame [of _ s])
  from waitsHaveDeadline_protocol [OF this]
  show ?thesis by (rule waitsHaveDeadline_frame [rotated]) (rule foldEvent_executions [OF False])
qed (use assms in simp)

lemma waitsHaveDeadline_foldRun: "waitsHaveDeadline s \<Longrightarrow> waitsHaveDeadline (foldRun reg s es)"
  by (induction es arbitrary: s) (simp_all add: waitsHaveDeadline_foldEvent)

lemma waitsHaveDeadline_empty: "waitsHaveDeadline (emptyRunState r)"
  by (simp add: waitsHaveDeadline_def emptyRunState_def)

section \<open>Nothing to do until the next deadline\<close>

text \<open>At \<open>t\<close> the engine would fire a deadline, hand something to the worker, or run something itself.\<close>

definition busyAt :: "('c, 'd) wake_env_scheme \<Rightarrow> string \<Rightarrow> run_state \<Rightarrow> number \<Rightarrow> stamps \<Rightarrow> bool" where
  "busyAt env r s t st \<longleftrightarrow> dp_events (planDeadlineTransitions st r s (we_registry env) t) \<noteq> []
     \<or> planWorkerEffects st r s (we_registry env) (we_worker env) t (we_maxInFlight env) (we_secrets env) \<noteq> []
     \<or> localReady (we_registry env) (we_worker env) r s t \<noteq> []"

text \<open>An effect that was put off to a later time has not been attempted yet.\<close>

definition deferredUntouched :: "run_state \<Rightarrow> number \<Rightarrow> bool" where
  "deferredUntouched s now \<longleftrightarrow> (\<forall>item \<in> set (rs_outstandingEffects s). executionOf s item \<noteq> None \<longrightarrow> attemptDue now item)"

lemma planExpiredFrom_none: "fst (planExpiredFrom st n r s reg now exs) = [] \<longleftrightarrow> (\<forall>ex \<in> set exs. orphaned s ex)"
proof (induction st n r s reg now exs rule: planExpiredFrom.induct)
  case (2 st n r s reg now ex exs)
  show ?case
  proof (cases "find (\<lambda>item. oe_effectId item = ex_effectId ex) (rs_outstandingEffects s)")
    case None
    then have "\<not> List.member (outstandingIds s) (ex_effectId ex)" by (auto simp: outstandingIds_def find_None_iff List.member_iff)
    then show ?thesis using 2 None by (auto simp: orphaned_def case_prod_unfold Let_def)
  next
    case (Some item)
    then have "item \<in> set (rs_outstandingEffects s)" "oe_effectId item = ex_effectId ex"
      by (auto simp: find_Some_iff in_set_conv_nth)
    then have "List.member (outstandingIds s) (ex_effectId ex)" by (force simp: outstandingIds_def List.member_iff)
    then show ?thesis using Some by (auto simp: orphaned_def case_prod_unfold Let_def)
  qed
qed simp

lemma deadlines_none:
  "dp_events (planDeadlineTransitions st r s reg now) = [] \<longleftrightarrow>
     (\<forall>w \<in> set (dvals (rs_waits s)). \<not> isDueTimer now w)
     \<and> (\<forall>ex \<in> set (dvals (rs_effectExecutions s)). isExpired now ex \<longrightarrow> orphaned s ex)"
proof -
  have timers: "dp_events (planDueTimers st r s reg now) = [] \<longleftrightarrow> (\<forall>w \<in> set (dvals (rs_waits s)). \<not> isDueTimer now w)"
  proof (cases "filter (isDueTimer now) (dvals (rs_waits s)) = []")
    case True
    then show ?thesis by (simp add: planDueTimers_def emptyPlan_def filter_empty_conv)
  next
    case False
    then have "dp_events (planDueTimers st r s reg now) \<noteq> []"
      by (cases "filter (isDueTimer now) (dvals (rs_waits s))") (simp_all add: planDueTimers_def Let_def)
    with False show ?thesis unfolding filter_empty_conv by blast
  qed
  have expired: "dp_events (planExpiredExecutions st r s reg now) = [] \<longleftrightarrow>
      (\<forall>ex \<in> set (dvals (rs_effectExecutions s)). isExpired now ex \<longrightarrow> orphaned s ex)"
    by (auto simp: planExpiredExecutions_def emptyPlan_def Let_def case_prod_unfold planExpiredFrom_none filter_empty_conv)
  show ?thesis using timers expired by (auto simp: planDeadlineTransitions_def Let_def)
qed

lemma plans_none:
  "planWorkerEffects st r s reg worker now limit secrets = [] \<longleftrightarrow>
     withinInFlightLimit s limit (workerItems r s reg worker)
       (filter (\<lambda>item. attemptDue now item \<and> executionDue now (executionOf s item)) (workerItems r s reg worker)) = []"
  unfolding planWorkerEffects_def Let_def by (metis length_0_conv plansFrom_length)

text \<open>A deadline of the run after \<open>now\<close>, and what it makes of the next deadline.\<close>

lemma nextDeadline:
  assumes "d \<in> set (runtimeDeadlines s)" and "now < d"
  shows "\<exists>m. nextRuntimeDeadline s (Some now) = Some m \<and> m \<le> d"
proof -
  have d: "d \<in> set (filter (laterThan (Some now)) (runtimeDeadlines s))" using assms by (simp add: laterThan_def)
  then have "filter (laterThan (Some now)) (runtimeDeadlines s) \<noteq> []" by (metis list.set(1) empty_iff)
  then obtain m where "minOf (filter (laterThan (Some now)) (runtimeDeadlines s)) = Some m"
    by (cases "minOf (filter (laterThan (Some now)) (runtimeDeadlines s))") (simp_all add: minOf_None)
  with d show ?thesis by (auto simp: nextRuntimeDeadline_def minOf_Some)
qed

lemma timer_deadline:
  "\<not> isRunTerminal s \<Longrightarrow> w \<in> set (dvals (rs_waits s)) \<Longrightarrow> timerAt (wt_on w) = Some d \<Longrightarrow> d \<in> set (runtimeDeadlines s)"
  using map_filter_mem [of w "dvals (rs_waits s)" "\<lambda>w. timerAt (wt_on w)" d]
  by (simp add: runtimeDeadlines_def Let_def)

lemma execution_deadline:
  "\<not> isRunTerminal s \<Longrightarrow> ex \<in> set (dvals (rs_effectExecutions s)) \<Longrightarrow> ex_deadlineAt ex = Some d \<Longrightarrow> d \<in> set (runtimeDeadlines s)"
  using map_filter_mem [of ex "dvals (rs_effectExecutions s)"
      "\<lambda>ex. if \<not> isRunTerminal s \<or> ex_status ex = CancelRequested then ex_deadlineAt ex else None" d]
  by (auto simp: runtimeDeadlines_def Let_def)

lemma deferred_deadline:
  assumes "\<not> isRunTerminal s" and "item \<in> set (rs_outstandingEffects s)" and "executionOf s item = None"
    and "deferredUntil (oe_effect item) = Some d"
  shows "d \<in> set (runtimeDeadlines s)"
  using assms map_filter_mem [of item "rs_outstandingEffects s"
      "\<lambda>item. if dget (rs_effectExecutions s) (oe_effectId item) \<noteq> None then None else deferredUntil (oe_effect item)" d]
  by (auto simp: runtimeDeadlines_def Let_def executionOf_def)

text \<open>An effect that becomes due after \<open>now\<close>: when it was put off, or its execution waits.\<close>

lemma due_later:
  assumes "\<not> isRunTerminal s" and "waitsHaveDeadline s" and "item \<in> set (rs_outstandingEffects s)" and "deferredUntouched s now"
    and "attemptDue t item" and "now < t"
    and "\<not> attemptDue now item \<or> (\<exists>ex at_time. executionOf s item = Some ex \<and> waiting ex \<and> ex_nextAttemptAt ex = Some at_time
      \<and> now < at_time \<and> at_time \<le> t + 5)"
  shows "\<exists>d. nextRuntimeDeadline s (Some now) = Some d \<and> d \<le> t + 5"
proof (cases "attemptDue now item")
  case False
  then obtain d where d: "deferredUntil (oe_effect item) = Some d" "now + 5 < d" "d \<le> t + 5"
    using assms(5) by (auto simp: attemptDue_def split: option.splits)
  have "executionOf s item = None" using assms(3,4) False by (auto simp: deferredUntouched_def)
  from deferred_deadline [OF assms(1,3) this d(1)] d(2,3) nextDeadline [of d s now] show ?thesis by fastforce
next
  case True
  then obtain ex at_time where ex: "executionOf s item = Some ex" "waiting ex" "ex_nextAttemptAt ex = Some at_time" "now < at_time" "at_time \<le> t + 5"
    using assms(7) by blast
  then have "ex_deadlineAt ex = Some at_time" using assms(2) by (auto simp: waitsHaveDeadline_def executionOf_def)
  moreover have "ex \<in> set (dvals (rs_effectExecutions s))" using ex(1) by (auto simp: executionOf_def dest: dget_val)
  ultimately have "at_time \<in> set (runtimeDeadlines s)" using execution_deadline [OF assms(1)] by blast
  with ex(4,5) nextDeadline [of at_time s now] show ?thesis by fastforce
qed

lemma quiet_until_deadline:
  assumes "\<not> isRunTerminal s" and "waitsHaveDeadline s" and "deferredUntouched s now" and "now < t"
    and "\<not> busyAt env r s now st" and "busyAt env r s t st'"
  shows "\<exists>d. nextRuntimeDeadline s (Some now) = Some d \<and> d \<le> t + 5"
proof -
  let ?reg = "we_registry env" and ?items = "workerItems r s (we_registry env) (we_worker env)"
  let ?due = "\<lambda>t. filter (\<lambda>item. attemptDue t item \<and> executionDue t (executionOf s item)) ?items"
  have quiet: "\<forall>w \<in> set (dvals (rs_waits s)). \<not> isDueTimer now w"
      "\<forall>ex \<in> set (dvals (rs_effectExecutions s)). isExpired now ex \<longrightarrow> orphaned s ex"
      "withinInFlightLimit s (we_maxInFlight env) ?items (?due now) = []" "localReady ?reg (we_worker env) r s now = []"
    using assms(5) unfolding busyAt_def deadlines_none plans_none by blast+
  note later = due_later [OF assms(1,2) _ assms(3) _ assms(4)]
  consider (timer) w where "w \<in> set (dvals (rs_waits s))" "isDueTimer t w"
    | (expired) ex where "ex \<in> set (dvals (rs_effectExecutions s))" "isExpired t ex" "\<not> orphaned s ex"
    | (worker) "withinInFlightLimit s (we_maxInFlight env) ?items (?due t) \<noteq> []"
    | (here) item where "item \<in> set (localReady ?reg (we_worker env) r s t)"
    using assms(6) list.set_sel(1) unfolding busyAt_def deadlines_none plans_none by blast
  then show ?thesis
  proof cases
    case timer
    then obtain d where d: "timerAt (wt_on w) = Some d" "d \<le> t + 5" by (auto simp: isDueTimer_def split: option.splits)
    moreover have "now + 5 < d" using quiet(1) timer(1) d(1) by (force simp: isDueTimer_def)
    ultimately show ?thesis using timer_deadline [OF assms(1) timer(1)] nextDeadline [of d s now] by fastforce
  next
    case expired
    then obtain d where d: "ex_deadlineAt ex = Some d" "d \<le> t" by (auto simp: isExpired_def split: option.splits)
    moreover have "now < d" using quiet(2) expired d by (force simp: isExpired_def)
    ultimately show ?thesis using execution_deadline [OF assms(1) expired(1)] nextDeadline [of d s now] by fastforce
  next
    case worker
    then have "?due now = []" and "?due t \<noteq> []"
      using quiet(3) by (auto simp: withinInFlightLimit_def split: option.splits if_splits)
    then obtain item where item: "item \<in> set ?items" "attemptDue t item" "executionDue t (executionOf s item)"
        "\<not> (attemptDue now item \<and> executionDue now (executionOf s item))"
      unfolding filter_empty_conv by blast
    have out: "item \<in> set (rs_outstandingEffects s)" using item(1) by (simp add: workerItems_def)
    show ?thesis
    proof (rule later [OF out item(2)], rule disjCI)
      assume "\<not> (\<exists>ex at_time. executionOf s item = Some ex \<and> waiting ex \<and> ex_nextAttemptAt ex = Some at_time \<and> now < at_time \<and> at_time \<le> t + 5)"
      then have "executionDue now (executionOf s item)"
        using item(3) by (force simp: executionDue_def waiting_def split: option.splits)
      with item(4) show "\<not> attemptDue now item" by blast
    qed
  next
    case here
    then have item: "item \<in> set (rs_outstandingEffects s)" "readyLocally ?reg (we_worker env) r s t item"
        "\<not> readyLocally ?reg (we_worker env) r s now item"
      using quiet(4) by (auto simp: localReady_def filter_empty_conv)
    have "attemptDue t item" using item(2) by (auto simp: readyLocally_def attemptDue_def split: option.splits)
    then show ?thesis
    proof (rule later [OF item(1)], intro disjCI)
      assume none: "\<not> (\<exists>ex at_time. executionOf s item = Some ex \<and> waiting ex \<and> ex_nextAttemptAt ex = Some at_time \<and> now < at_time \<and> at_time \<le> t + 5)"
      show "\<not> attemptDue now item"
        using item(2,3) none by (force simp: readyLocally_def attemptDue_def waiting_def split: option.splits)
    qed
  qed
qed

section \<open>The questions of a wake are asked in order\<close>

definition forward :: "'a wake \<Rightarrow> bool" where
  "forward m \<longleftrightarrow> (\<forall>w. case m w of None \<Rightarrow> True | Some (w', _) \<Rightarrow> wk_tick w \<le> wk_tick w')"

named_theorems forward

lemma forwardI: "(\<And>w w' x. m w = Some (w', x) \<Longrightarrow> wk_tick w \<le> wk_tick w') \<Longrightarrow> forward m"
  by (auto simp: forward_def split: option.split)

lemma forward_bind [forward]: "forward m \<Longrightarrow> (\<And>x. forward (f x)) \<Longrightarrow> forward (wbind m f)"
  by (fastforce simp: forward_def wbind_def split: option.splits prod.splits sum.splits intro: order_trans)

lemma forward_if [forward]: "forward m \<Longrightarrow> forward m' \<Longrightarrow> forward (if b then m else m')"
  by simp

lemma forward_wspec: "forward m \<Longrightarrow> wspec (\<lambda>w. k \<le> wk_tick w) m (\<lambda>_ w. k \<le> wk_tick w) (\<lambda>_. True)"
  by (fastforce simp: forward_def wspec_def split: option.splits prod.splits sum.splits)

lemma forward_steps [forward]:
  "forward (wreturn x)" "forward (wfail e)" "forward (\<lambda>w. None)" "forward askWorld" "forward (report out)" "forward (clockNow env)"
  "forward (freshStamps env)" "forward (othersWrite env)" "forward (dropCached r)" "forward (keepCached env r c)" "forward resetLive"
  by (auto simp: forward_def wreturn_def wfail_def askWorld_def report_def clockNow_def freshStamps_def othersWrite_def dropCached_def
      keepCached_def resetLive_def wbind_def)

lemma forward_each [forward]: "(\<And>x. forward (f x)) \<Longrightarrow> forward (wEach f xs)"
  by (induction xs) (simp_all add: forward)

lemma forward_repository [forward]:
  "forward (loadRun env r)" "forward (appendEvents env r es opts)" "forward (applyTo env r c es result)" "forward (persistRun env r c)"
  by (rule forwardI; force simp: loadRun_def appendEvents_def applyTo_def persistRun_def clockNow_def othersWrite_def wbind_def askWorld_def
      wreturn_def Let_def split: option.splits prod.splits sum.splits)+

lemma forward_append [forward]: "forward (appendAndApply env r c es)"
  unfolding appendAndApply_def by (auto intro!: forward split: sum.split)

lemma forward_live [forward]: "forward (drainLive env r)"
proof -
  have "forward (\<lambda>w. Some (w\<lparr>wk_liveCount := f w\<rparr>, Inr ()))" for f :: "wake_state \<Rightarrow> nat" by (simp add: forward_def)
  then show ?thesis unfolding drainLive_def pushLive_def by (auto intro!: forward split: sum.split)
qed

lemma forward_children [forward]: "forward (closeLaunchedRuns env r c)"
  unfolding closeLaunchedRuns_def cancelChildRun_def notifyParent_def
  by (auto intro!: forward split: option.split prod.split)

lemma forward_deadline [forward]: "forward (deadlineStep env r c plan)"
  unfolding deadlineStep_def by (auto intro!: forward split: sum.split store_error.split)

lemma forward_workers [forward]: "forward (workerSteps env r now c plans)"
proof (induction plans arbitrary: c)
  case (Cons plan plans)
  have "forward (workerStep env r now c plan)"
    unfolding workerStep_def pushPlan_def by (auto intro!: forward split: option.split prod.split)
  with Cons show ?case by (auto intro!: forward)
qed (auto intro: forward)

lemma forward_round [forward]: "forward (localRound env r now c outstanding attempts)"
  unfolding localRound_def runHandlers_def recordProduced_def by (auto intro!: forward split: option.split sum.split)

lemma forward_iteration [forward]: "forward (wakeIteration env r lp)"
  unfolding wakeIteration_def Let_def by (auto intro!: forward split: option.split)

lemma forward_loop [forward]: "forward (wakeLoop env r fuel lp)"
proof (induction fuel arbitrary: lp)
  case 0
  show ?case unfolding wakeLoop.simps [of env r 0] by (auto intro: forward)
next
  case (Suc fuel)
  show ?case unfolding wakeLoop.simps [of env r "Suc fuel"] by (auto intro!: forward Suc split: loop_step.split)
qed

lemma forward_ends [forward]: "forward (closeWaited env r c)" "forward (park env r lp)" "forward (wakeTerminal env r c)"
  unfolding closeWaited_def park_def endRun_def scheduleNext_def wakeTerminal_def Let_def
  by (auto intro!: forward split: option.split list.split)

section \<open>Where a wake stops\<close>

text \<open>No handler is aborted: nobody cancels while the wake runs.\<close>

definition undisturbed :: "('c, 'd) wake_env_scheme \<Rightarrow> bool" where
  "undisturbed env \<longleftrightarrow> (\<forall>n item. lh_interrupt (we_host env n) item \<noteq> InterruptedByAbort)"

lemma length_attemptOutcomes: "length (attemptOutcomes host st n r item attempt now outcomes) = length outcomes"
  by (induction host st n r item attempt now outcomes rule: attemptOutcomes.induct) simp_all

lemma runItem_produces:
  assumes "runItem host st r attempts now (produced, failed) item = Inr (produced', failed')" and "lh_interrupt host item \<noteq> InterruptedByAbort"
  shows "produced' \<noteq> []"
proof -
  have "settledAttempt host item outcome \<noteq> Inr AttemptAborted" for outcome
    using assms(2) by (auto simp: settledAttempt_def Let_def split: interruption.split sum.split)
  moreover have "attemptOutcomes host st n r item attempt now outcomes \<noteq> []" if "outcomes \<noteq> []" for n attempt outcomes
    using that length_attemptOutcomes [of host st n r item attempt now outcomes] by auto
  ultimately show ?thesis using assms(1)
    by (auto simp: runItem_def Let_def split: if_splits option.splits prod.splits sum.splits local_attempt.splits)
qed

lemma runItems_produce:
  assumes "runItems host st r attempts now sofar (item # items) = Inr sofar'" and "lh_interrupt host item \<noteq> InterruptedByAbort"
  shows "fst sofar' \<noteq> []"
proof -
  obtain p f where sofar: "sofar = (p, f)" by fastforce
  obtain p1 f1 where first: "runItem host st r attempts now (p, f) item = Inr (p1, f1)" "runItems host st r attempts now (p1, f1) items = Inr sofar'"
    using assms(1) by (auto simp: sofar split: sum.splits)
  from runItem_produces [OF first(1) assms(2)] runItems_keeps [OF first(2)] show ?thesis by auto
qed

lemma local_produces:
  assumes "executeLocalEffects host supply r attempts now outstanding = Inr produced" and "outstanding \<noteq> []"
    and "\<forall>item. lh_interrupt host item \<noteq> InterruptedByAbort"
  shows "produced \<noteq> []"
proof -
  obtain item items where "outstanding = item # items" using assms(2) by (cases outstanding) auto
  then obtain key keys where keys: "groupOutstanding outstanding = key # keys" "key \<in> groupKey ` set outstanding"
    using groupOutstanding_keys(2) [of outstanding] by (cases "groupOutstanding outstanding") auto
  then obtain first rest where group: "groupItems outstanding key = first # rest"
    by (cases "groupItems outstanding key") (auto simp: groupItems_def filter_empty_conv)
  obtain sofar others where round: "runItems host (supply key) r attempts now ([], None) (first # rest) = Inr sofar" "produced = fst sofar @ others"
    using assms(1) by (auto simp: executeLocalEffects_def keys(1) group split: sum.splits)
  from runItems_produce [OF round(1)] assms(3) round(2) show ?thesis by simp
qed

lemma wspec_any: "wspec P m (\<lambda>_ _. True) (\<lambda>_. True)"
  by (auto simp: wspec_def split: option.split sum.split)

text \<open>The time that a question at or after \<open>k\<close> read.\<close>

definition readSince :: "('c, 'd) wake_env_scheme \<Rightarrow> nat \<Rightarrow> number \<Rightarrow> wake_state \<Rightarrow> bool" where
  "readSince env k now w \<longleftrightarrow> (\<exists>n. k \<le> n \<and> n < wk_tick w \<and> now = we_clock env n)"

lemma clock_reading: "wspec (\<lambda>w. k \<le> wk_tick w) (clockNow env) (readSince env k) (\<lambda>_. True)"
  by (rule wspecI) (auto simp: clockNow_def wbind_def askWorld_def wreturn_def readSince_def)

lemma still_read: "forward m \<Longrightarrow> wspec (readSince env k now) m (\<lambda>_. readSince env k now) (\<lambda>_. True)"
  by (fastforce simp: forward_def wspec_def readSince_def split: option.splits prod.splits sum.splits)

lemma wspec_known: "(b \<Longrightarrow> wspec (\<lambda>_. True) m Q E) \<Longrightarrow> wspec (\<lambda>_. b) m Q E"
  by (cases b) (simp_all add: wspec_def)

lemma runHandlers_produce:
  assumes "undisturbed env" and "outstanding \<noteq> []"
  shows "wspec P (runHandlers env r now s outstanding attempts) (\<lambda>produced _. produced \<noteq> []) (\<lambda>_. True)"
proof -
  have "executeLocalEffects ((we_host env n)\<lparr>lh_registry := reg, lh_correlationId := correlation\<rparr>) (we_supply env n) r tries now outstanding \<noteq> Inr []"
    for n reg correlation tries
    using local_produces [of "(we_host env n)\<lparr>lh_registry := reg, lh_correlationId := correlation\<rparr>" "we_supply env n" r tries now outstanding "[]"]
      assms by (auto simp: undisturbed_def)
  then show ?thesis
    by (intro wspecI) (auto simp: runHandlers_def wbind_def askWorld_def report_def wreturn_def wfail_def split: sum.split)
qed

lemma localRound_continues:
  assumes "undisturbed env" and "outstanding \<noteq> []"
  shows "wspec P (localRound env r now c outstanding attempts) (\<lambda>result _. snd result) (\<lambda>_. True)"
  unfolding localRound_def
proof (rule wspec_bind [OF wspec_any], rule wspec_bind [OF wspec_any], rule wspec_bind [OF runHandlers_produce [OF assms]])
  fix c1 and produced :: "envelope list"
  have "wspec (\<lambda>_. True) (wbind (recordProduced env r c1 produced) (\<lambda>c2. wreturn (c2, True))) (\<lambda>result _. snd result) (\<lambda>_. True)"
    by (rule wspec_bind [OF wspec_any], rule wspec_return) simp
  then show "wspec (\<lambda>_. produced \<noteq> []) (if produced = [] then wreturn (c1, False)
       else wbind (recordProduced env r c1 produced) (\<lambda>c2. wreturn (c2, True))) (\<lambda>result _. snd result) (\<lambda>_. True)"
    by - (rule wspec_known, simp)
qed

text \<open>The loop stopped because there was nothing to do when it read the clock, with its question \<open>n\<close>, at or after \<open>k\<close>.\<close>

definition restsAt :: "('c, 'd) wake_env_scheme \<Rightarrow> string \<Rightarrow> nat \<Rightarrow> loop_state \<Rightarrow> nat \<Rightarrow> bool" where
  "restsAt env r k lp limit \<longleftrightarrow> (\<exists>n st. k \<le> n \<and> n < limit \<and> lp_plannedAt lp = Some (we_clock env n)
     \<and> \<not> busyAt env r (cu_state (lp_cursor lp)) (we_clock env n) st)"

lemma restsAt_later: "restsAt env r k lp limit \<Longrightarrow> limit \<le> limit' \<Longrightarrow> restsAt env r k lp limit'"
  by (force simp: restsAt_def)

lemma wakeIteration_rests:
  assumes "undisturbed env"
  shows "wspec (\<lambda>w. k \<le> wk_tick w) (wakeIteration env r lp)
    (\<lambda>next_step w. case next_step of Continue _ \<Rightarrow> True | Break lp' \<Rightarrow> restsAt env r k lp' (wk_tick w)) (\<lambda>_. True)"
  unfolding wakeIteration_def
proof (rule wspec_bind [OF clock_reading], rule wspec_bind [OF still_read], rule forward)
  fix now st
  let ?c = "lp_cursor lp" and ?s = "cu_state (lp_cursor lp)" and ?reg = "we_registry env"
  let ?Q = "\<lambda>next_step w :: wake_state. case next_step of Continue _ \<Rightarrow> True | Break lp' \<Rightarrow> restsAt env r k lp' (wk_tick w)"
  let ?E = "\<lambda>_ :: wake_state. True"
  have go_on: "wspec (readSince env k now) (wbind m (\<lambda>c'. wreturn (Continue (f c')))) ?Q ?E" for m and f :: "run_cursor \<Rightarrow> loop_state"
    by (rule wspec_bind [OF wspec_any], rule wspec_return) simp
  have local_spec: "wspec (readSince env k now) (wbind (localRound env r now ?c outstanding attempts) (\<lambda>(c', more).
            wreturn ((if more then Continue else Break) (lp\<lparr>lp_plannedAt := Some now, lp_cursor := c', lp_dispatched := d, lp_started := b\<rparr>)))) ?Q ?E"
    if "outstanding \<noteq> []" for outstanding attempts d b
    by (rule wspec_bind [OF localRound_continues [OF assms that]], unfold case_prod_unfold, rule wspec_return) simp
  have rests: "wspec (readSince env k now) (wreturn (Break (lp\<lparr>lp_plannedAt := Some now\<rparr>))) ?Q ?E"
    if "\<not> busyAt env r ?s now st"
    by (rule wspec_return) (use that in \<open>auto simp: restsAt_def readSince_def\<close>)
  show "wspec (readSince env k now) (let c = ?c; s = cu_state c; reg = ?reg; planned = lp\<lparr>lp_plannedAt := Some now\<rparr>;
         deadlines = planDeadlineTransitions st r s reg now;
         plans = planWorkerEffects st r s reg (we_worker env) now (we_maxInFlight env) (we_secrets env);
         outstanding = localReady reg (we_worker env) r s now;
         attempts = map (\<lambda>item. (oe_effectId item, localAttempt (lp_started lp) s item)) outstanding
     in if dp_events deadlines \<noteq> [] then
          wbind (deadlineStep env r c deadlines) (\<lambda>c'. wreturn (Continue (planned\<lparr>lp_cursor := c'\<rparr>)))
        else if plans \<noteq> [] then
          wbind (workerSteps env r now c plans) (\<lambda>c'. wreturn (Continue (planned\<lparr>lp_cursor := c'\<rparr>)))
        else if outstanding = [] then wreturn (Break planned)
        else case find (\<lambda>item. List.member (lp_dispatched lp) (oe_effectId item, localAttempt (lp_started lp) s item)) outstanding of
          Some item \<Rightarrow> wfail (DuplicateEffectDispatch r (oe_effectId item) (oe_threadId item))
        | None \<Rightarrow> wbind (localRound env r now c outstanding attempts) (\<lambda>(c', more).
            wreturn ((if more then Continue else Break)
              (planned\<lparr>lp_cursor := c', lp_dispatched := lp_dispatched lp @ attempts,
                 lp_started := lp_started lp @ map oe_effectId outstanding\<rparr>)))) ?Q ?E"
    unfolding Let_def
    by (intro wspec_if go_on rests)
       (auto simp: busyAt_def intro: wspec_fail local_spec split: option.split)
qed

lemma wakeLoop_rests:
  assumes "undisturbed env"
  shows "wspec (\<lambda>w. k \<le> wk_tick w) (wakeLoop env r fuel lp)
    (\<lambda>lp' w. isRunTerminal (cu_state (lp_cursor lp')) \<or> restsAt env r k lp' (wk_tick w)) (\<lambda>_. True)"
proof (induction fuel arbitrary: lp)
  case 0
  show ?case unfolding wakeLoop.simps [of env r 0] by (auto intro: wspec_return wspec_fail)
next
  case (Suc fuel)
  let ?rests = "\<lambda>lp' w. isRunTerminal (cu_state (lp_cursor lp')) \<or> restsAt env r k lp' (wk_tick w)"
  have "wspec (\<lambda>w. (case x of Continue _ \<Rightarrow> True | Break lp' \<Rightarrow> restsAt env r k lp' (wk_tick w)) \<and> k \<le> wk_tick w)
      (case x of Continue lp' \<Rightarrow> wakeLoop env r fuel lp' | Break lp' \<Rightarrow> wreturn lp') ?rests (\<lambda>_. True)" for x
    by (cases x) (auto intro: Suc.IH wspec_return)
  note step = wspec_bind [OF _ this]
  have "wspec (\<lambda>w. k \<le> wk_tick w) (wbind (wakeIteration env r lp) (\<lambda>x.
      case x of Continue lp' \<Rightarrow> wakeLoop env r fuel lp' | Break lp' \<Rightarrow> wreturn lp')) ?rests (\<lambda>_. True)"
    by (rule step, rule wspec_weaken [OF wspec_conj [OF wakeIteration_rests [OF assms] forward_wspec [OF forward_iteration]]]) auto
  then show ?case unfolding wakeLoop.simps [of env r "Suc fuel"] by (auto intro: wspec_return)
qed

section \<open>What a parked run is waiting for\<close>

definition wakeAt :: "string \<Rightarrow> run_state \<Rightarrow> number option \<Rightarrow> wake_output" where
  "wakeAt r s after = (case nextRuntimeDeadline s after of Some d \<Rightarrow> Scheduled r d | None \<Rightarrow> Unscheduled r)"

lemma closeLaunchedRuns_over:
  assumes "steady env r" and "startedOnce env r" and "isRunTerminal (cu_state c)"
  shows "wspec (atCursor env r h0 c) (closeLaunchedRuns env r c) (\<lambda>c' w. isRunTerminal (cu_state c') \<and> atCursor env r h0 c' w) (logged env r h0)"
  unfolding closeLaunchedRuns_def
proof (rule wspec_bind [OF wspec_if])
  let ?over = "\<lambda>c' w. isRunTerminal (cu_state c') \<and> atCursor env r h0 c' w"
  have same: "wspec (atCursor env r h0 c) (wreturn c) ?over (logged env r h0)" by (rule wspec_return) (use assms(3) in simp)
  have asked: "wspec (atCursor env r h0 c) (appendAndApply env r c [createEvent stamp r (childCloseRequestedInput r s) 0]) ?over (logged env r h0)" for stamp s
  proof (rule wspec_weaken [OF appendAndApply_tip [OF assms(1)]])
    let ?es = "[createEvent stamp r (childCloseRequestedInput r s) 0]"
    fix c' w
    assume "atTip env r h0 ?es c' w \<and> staysOver env r ?es c c'"
    moreover have "calm ?es" by (simp add: calm_def childCloseRequestedInput_def)
    ultimately show "?over c' w" using assms(2,3) by (auto simp: staysOver_def intro: atTip_cursor)
  qed (simp_all add: atCursor_live)
  have request: "wspec (atCursor env r h0 c) (if rs_childCloseSent (cu_state c) then wreturn c
      else wbind (freshStamps env) (\<lambda>st. appendAndApply env r c [createEvent (st 0) r (childCloseRequestedInput r (cu_state c)) 0]))
      ?over (logged env r h0)"
    by (rule wspec_if [OF same], rule wspec_bind [OF stamps_cursor], rule asked)
  show "wspec (atCursor env r h0 c) (wbind (if rs_childCloseSent (cu_state c) then wreturn c
      else wbind (freshStamps env) (\<lambda>st. appendAndApply env r c [createEvent (st 0) r (childCloseRequestedInput r (cu_state c)) 0]))
      (\<lambda>next_cursor. wbind (wEach (\<lambda>child. cancelChildRun env (lr_runId child)) (rs_launchedRuns (cu_state next_cursor)))
          (\<lambda>_. wreturn next_cursor))) ?over (logged env r h0)"
    by (rule wspec_bind [OF request], rule wspec_fact, rule wspec_bind [OF wspec_each [OF cancelChildRun_spec]], rule wspec_return) simp
  show "wspec (atCursor env r h0 c) (wreturn c) ?over (logged env r h0)" by (rule same)
  fix c'
  show "wspec (?over c') (wbind (if isRunTerminal (cu_state c') then notifyParent env r (cu_state c') else wreturn ())
      (\<lambda>_. wreturn c')) ?over (logged env r h0)"
    by (rule wspec_fact, rule wspec_bind [OF wspec_if [OF notifyParent_spec wspec_return]], assumption, rule wspec_return) simp
qed

lemma tip_ended:
  assumes "atTip env r h0 [e] c' w" and "\<not> ev_ephemeral e"
    and "ev_type e = ''runtime.run.completed'' \<or> ev_type e = ''runtime.run.cancelled''"
  shows "isRunTerminal (cu_state c')"
proof -
  obtain hist where "cu_state c' = foldRun (we_registry env) (emptyRunState r) (hist @ numberEvents r (length hist) (stripSeq [e]))"
    using assms(1) by (auto simp: atTip_def Let_def cursorAt_def)
  then show ?thesis using assms(2,3) by (simp add: stripSeq_def ended_status)
qed

lemma endRun_ends:
  assumes "steady env r"
  shows "wspec (atCursor env r h0 c) (endRun env r c)
    (\<lambda>c' w. (c' = c \<or> isRunTerminal (cu_state c')) \<and> atCursor env r h0 c' w) (logged env r h0)"
proof -
  let ?ended = "\<lambda>c' w. (c' = c \<or> isRunTerminal (cu_state c')) \<and> atCursor env r h0 c' w"
  have "wspec (atCursor env r h0 c) (appendAndApply env r c [createEvent stamp r (runEndedInput x) 0]) ?ended (logged env r h0)" for stamp x
  proof (rule wspec_weaken [OF appendAndApply_tip [OF assms]])
    fix c' w
    assume tip: "atTip env r h0 [createEvent stamp r (runEndedInput x) 0] c' w \<and> staysOver env r [createEvent stamp r (runEndedInput x) 0] c c'"
    have "\<not> ev_ephemeral (createEvent stamp r (runEndedInput x) 0)"
        "ev_type (createEvent stamp r (runEndedInput x) 0) = ''runtime.run.completed''
         \<or> ev_type (createEvent stamp r (runEndedInput x) 0) = ''runtime.run.cancelled''"
      by (cases "thr_status x = Cancelled"; simp add: runEndedInput_def)+
    then have "isRunTerminal (cu_state c')" using tip tip_ended by blast
    with tip show "?ended c' w" by (auto intro: atTip_cursor)
  qed (simp_all add: atCursor_live)
  then have "wspec (atCursor env r h0 c) (wbind (freshStamps env) (\<lambda>st. appendAndApply env r c [createEvent (st 0) r (runEndedInput x) 0]))
      ?ended (logged env r h0)" for x
    by (rule wspec_bind [OF stamps_cursor])
  moreover have "wspec (atCursor env r h0 c) (wreturn c) ?ended (logged env r h0)" by (rule wspec_return) simp
  ultimately show ?thesis by (auto simp: endRun_def split: option.split)
qed

text \<open>What a wake that did not end the run leaves: the state of its loop, and the wake it asked for.\<close>

definition leaves :: "string \<Rightarrow> loop_state \<Rightarrow> run_state \<Rightarrow> wake_state \<Rightarrow> bool" where
  "leaves r lp s w \<longleftrightarrow> isRunTerminal s \<or> (s = cu_state (lp_cursor lp) \<and> wk_outputs w \<noteq> [] \<and> last (wk_outputs w) = wakeAt r s (lp_plannedAt lp))"

lemma park_leaves:
  assumes "steady env r" and "startedOnce env r"
  shows "wspec (atCursor env r h0 (lp_cursor lp)) (park env r lp) (leaves r lp) (logged env r h0)"
proof -
  let ?lc = "lp_cursor lp"
  let ?fine = "\<lambda>c' w. (cu_state c' = cu_state ?lc \<or> isRunTerminal (cu_state c')) \<and> atCursor env r h0 c' w"
  have closed: "wspec (\<lambda>w. (c = ?lc \<or> isRunTerminal (cu_state c)) \<and> atCursor env r h0 c w)
      (if isRunTerminal (cu_state c) then closeLaunchedRuns env r c else wreturn c) ?fine (logged env r h0)" for c
  proof (rule wspec_fact, rule wspec_if)
    assume "isRunTerminal (cu_state c)"
    from closeLaunchedRuns_over [OF assms this] show "wspec (atCursor env r h0 c) (closeLaunchedRuns env r c) ?fine (logged env r h0)"
      by (rule wspec_post) simp
  next
    assume "c = ?lc \<or> isRunTerminal (cu_state c)" and "\<not> isRunTerminal (cu_state c)"
    then show "wspec (atCursor env r h0 c) (wreturn c) ?fine (logged env r h0)" by (intro wspec_return) simp
  qed
  have persisted: "wspec (?fine c) (persistRun env r c) ?fine (logged env r h0)" for c
    by (rule wspec_fact, rule wspec_post [OF persistRun_spec [OF assms(1)]]) auto
  have scheduled: "wspec (?fine c) (scheduleNext r (cu_state c) (lp_plannedAt lp)) (\<lambda>_. leaves r lp (cu_state c)) (logged env r h0)" for c
    by (rule wspecI) (auto simp: scheduleNext_def report_def leaves_def wakeAt_def)
  have cached: "wspec (leaves r lp s) (if b then dropCached r else keepCached env r c) (\<lambda>_. leaves r lp s) (logged env r h0)" for b s c
    by (rule wspecI) (auto simp: dropCached_def keepCached_def leaves_def)
  show ?thesis
    unfolding park_def
    by (rule wspec_bind [OF endRun_ends [OF assms(1)]], rule wspec_bind [OF closed], rule wspec_bind [OF persisted],
        rule wspec_bind [OF scheduled], rule wspec_bind [OF cached], rule wspec_return)
qed

lemma wakeTerminal_ends:
  assumes "steady env r" and "startedOnce env r" and "isRunTerminal (cu_state c)"
  shows "wspec (atCursor env r h0 c) (wakeTerminal env r c) (\<lambda>s _. isRunTerminal s) (logged env r h0)"
proof -
  let ?over = "\<lambda>c' w. isRunTerminal (cu_state c') \<and> atCursor env r h0 c' w"
  have "calm (ambiguousFrom st n r exs)" for st n exs
    by (induction exs arbitrary: n) (simp_all add: calm_def cancellationAmbiguous_def)
  then have calm: "calm (planTerminalCancellationTransitions st r s now)" for st s now
    by (auto simp: planTerminalCancellationTransitions_def calm_def)
  have planned: "wspec (atCursor env r h0 c) (if es = [] then wreturn c else appendAndApply env r c es) ?over (logged env r h0)"
    if es: "ofRun r es" "calm es" for es
  proof (rule wspec_if)
    show "wspec (atCursor env r h0 c) (wreturn c) ?over (logged env r h0)" by (rule wspec_return) (use assms(3) in simp)
    assume "es \<noteq> []"
    from appendAndApply_tip [OF assms(1) this es(1)]
    show "wspec (atCursor env r h0 c) (appendAndApply env r c es) ?over (logged env r h0)"
      by (rule wspec_weaken) (use assms(2,3) es(2) in \<open>auto simp: staysOver_def atCursor_live intro: atTip_cursor\<close>)
  qed
  have closed: "wspec (?over c') (closeLaunchedRuns env r c') ?over (logged env r h0)" for c'
    by (rule wspec_fact, rule closeLaunchedRuns_over [OF assms(1,2)])
  have scheduled: "wspec (?over c') (scheduleNext r s after) (\<lambda>_. ?over c') (logged env r h0)" for c' s after
    unfolding scheduleNext_def by (rule wspec_report) simp
  show ?thesis
    unfolding wakeTerminal_def Let_def
    by (rule wspec_bind [OF clock_cursor], rule wspec_bind [OF stamps_cursor], rule wspec_bind [OF planned [OF run_terminal calm]],
        rule wspec_bind [OF closed], rule wspec_bind [OF scheduled], rule wspec_return) simp
qed

lemma wspec_since:
  "wspec P m Q E \<Longrightarrow> forward m \<Longrightarrow> wspec (\<lambda>w. P w \<and> k \<le> wk_tick w) m (\<lambda>x w. Q x w \<and> k \<le> wk_tick w) E"
  using wspec_conj [OF _ forward_wspec [of m k], of P Q E] by simp

lemma wakeRound_leaves:
  assumes "steady env r" and "startedOnce env r" and "undisturbed env"
  shows "wspec (\<lambda>w. parkedAt env r h0 w \<and> k \<le> wk_tick w) (wakeRound env r)
    (\<lambda>s w. isRunTerminal s \<or> (\<exists>lp. restsAt env r k lp (wk_tick w) \<and> leaves r lp s w)) (logged env r h0)"
  unfolding wakeRound_def
proof (rule wspec_bind [OF wspec_since [OF loadRun_spec [OF assms(1)]]], rule forward,
    rule wspec_bind [OF wspec_since [OF closeWaited_spec [OF assms(1)]]], rule forward, rule wspec_if)
  let ?Q = "\<lambda>s w. isRunTerminal s \<or> (\<exists>lp. restsAt env r k lp (wk_tick w) \<and> leaves r lp s w)"
  fix c :: run_cursor
  assume over: "isRunTerminal (cu_state c)"
  show "wspec (\<lambda>w. atCursor env r h0 c w \<and> k \<le> wk_tick w) (wakeTerminal env r c) ?Q (logged env r h0)"
    by (rule wspec_weaken [OF wakeTerminal_ends [OF assms(1,2) over]]) auto
next
  let ?Q = "\<lambda>s w. isRunTerminal s \<or> (\<exists>lp. restsAt env r k lp (wk_tick w) \<and> leaves r lp s w)"
  fix c :: run_cursor
  let ?lp = "\<lparr>lp_cursor = c, lp_dispatched = [], lp_started = [], lp_plannedAt = None\<rparr>"
  let ?rests = "\<lambda>lp' w. isRunTerminal (cu_state (lp_cursor lp')) \<or> restsAt env r k lp' (wk_tick w)"
  have reset: "wspec (atCursor env r h0 c) resetLive (\<lambda>_. atCursor env r h0 c) (logged env r h0)"
    by (rule wspecI) (auto simp: resetLive_def atCursor_def atLive_def)
  have loop: "wspec (\<lambda>w. atCursor env r h0 c w \<and> k \<le> wk_tick w) (wakeLoop env r fuel ?lp)
      (\<lambda>lp' w. ?rests lp' w \<and> atCursor env r h0 (lp_cursor lp') w) (logged env r h0)" for fuel
    by (rule wspec_weaken [OF wspec_conj [OF wakeLoop_rests [OF assms(3)] wakeLoop_spec [OF assms(1), of h0 ?lp fuel]]]) auto
  have later: "forward m \<Longrightarrow> wspec (?rests lp') m (\<lambda>_. ?rests lp') (\<lambda>_. True)" for m :: "run_state wake" and lp'
    by (fastforce simp: forward_def wspec_def split: option.splits prod.splits sum.splits dest: restsAt_later)
  have parked: "wspec (\<lambda>w. ?rests lp' w \<and> atCursor env r h0 (lp_cursor lp') w) (park env r lp') ?Q (logged env r h0)" for lp'
    by (rule wspec_weaken [OF wspec_conj [OF later park_leaves [OF assms(1,2)]]]) (auto simp: leaves_def intro: forward)
  show "wspec (\<lambda>w. atCursor env r h0 c w \<and> k \<le> wk_tick w)
      (wbind resetLive (\<lambda>_. wbind (wakeLoop env r (we_maxWakeIterations env) ?lp) (park env r))) ?Q (logged env r h0)"
    by (rule wspec_bind [OF wspec_since [OF reset]], rule forward, rule wspec_bind [OF loop], rule parked)
qed


section \<open>A run that waits for a timer\<close>

definition napDefinition :: thread_definition where
  "napDefinition = \<lparr>td_forgetsCompletedEffects = False, td_initialState = (\<lambda>_. JNull), td_step = (\<lambda>st _ _. st), td_effects = (\<lambda>_ _. [])\<rparr>"

definition napRegistry :: registry where
  "napRegistry = \<lparr>rg_threads = [(''nap'', napDefinition)], rg_effects = []\<rparr>"

definition napEnv :: "unit wake_env" where
  "napEnv = \<lparr>we_registry = napRegistry, we_worker = None, we_maxInFlight = None, we_snapshotEvery = 0, we_maxWakeIterations = 9,
     we_cacheLimit = 4, we_snapshotOptions = keepOne, we_bytes = noBytes, we_prime = (\<lambda>_. None), we_primeState = (\<lambda>_. None),
     we_secrets = None, we_clock = rat_of_nat, we_stamps = (\<lambda>n k. (showNat n @ showNat k, of_nat n)), we_others = (\<lambda>_ st. st),
     we_snapshotLoads = (\<lambda>_. True), we_coverage = (\<lambda>_. NoCoverage), we_host = (\<lambda>_. sampleHost),
     we_supply = (\<lambda>n _ k. (''h'' @ showNat n @ showNat k, of_nat n)), we_live = (\<lambda>_. []), we_livePushes = (\<lambda>_. 0), we_push = (\<lambda>_. None),
     we_cancelChild = (\<lambda>_. None), we_signal = (\<lambda>_. None), we_wakeAgain = (\<lambda>_. False)\<rparr>"

definition napEvents :: "envelope list" where
  "napEvents = map2 (createEvent (''e1'', 0) ''r'')
     [(eventInput ''runtime.thread.started'' (JObj [(''threadId'', JStr ''a''), (''kind'', JStr ''nap''), (''definitionName'', JStr ''n'')])) \<lparr>in_threadId := Val ''a''\<rparr>,
      (eventInput ''runtime.wait.registered'' (JObj [(''waitId'', JStr ''w''), (''threadId'', JStr ''a''), (''on'', waitJson (WaitOnTimer 100))])) \<lparr>in_threadId := Val ''a''\<rparr>] [1, 2]"

definition napHist :: "envelope list" where
  "napHist = [] @ numberEvents ''r'' (length ([] :: envelope list)) napEvents"

definition napCursor :: run_cursor where
  "napCursor = \<lparr>cu_state = foldRun napRegistry (emptyRunState ''r'') napHist, cu_seq = 2, cu_durableSinceSnapshot = 0\<rparr>"

definition napStore :: memory_store where
  "napStore = snd (appendLog emptyStore ''r'' napEvents noOptions)"

definition napWorld :: wake_state where
  "napWorld = \<lparr>wk_store = napStore, wk_cache = [(''r'', napCursor)], wk_liveCount = 0, wk_snapshots = [], wk_tick = 0, wk_outputs = []\<rparr>"

lemma nap_state:
  "\<not> isRunTerminal (cu_state napCursor)" "childCloseCancellations (cu_state napCursor) = Some []" "map_option thr_status (rootRecord (cu_state napCursor)) = Some Waiting"
  "runtimeDeadlines (cu_state napCursor) = [100]" "rs_outstandingEffects (cu_state napCursor) = []"
  "map wt_on (dvals (rs_waits (cu_state napCursor))) = [WaitOnTimer 100]" "rs_effectExecutions (cu_state napCursor) = []"
  by code_simp+

lemma nap_idle:
  assumes "now \<le> 9"
  shows "\<not> busyAt napEnv ''r'' (cu_state napCursor) now st"
proof -
  obtain w where w: "dvals (rs_waits (cu_state napCursor)) = [w]" "wt_on w = WaitOnTimer 100"
    using nap_state(6) by (cases "dvals (rs_waits (cu_state napCursor))") auto
  then show ?thesis using assms nap_state(5,7)
    by (simp add: busyAt_def deadlines_none plans_none isDueTimer_def napEnv_def workerItems_def localReady_def withinInFlightLimit_def)
qed

lemma nap_loaded:
  "loadRun napEnv ''r'' napWorld = Some (napWorld\<lparr>wk_tick := 2\<rparr>, Inr napCursor)"
proof -
  have "tailOf napStore ''r'' = 2" by code_simp
  then show ?thesis
  by (simp add: loadRun_def othersWrite_def wbind_def askWorld_def napEnv_def napWorld_def loadCursor_def cacheGet_def viewOf_def Let_def napCursor_def numeral_2_eq_2)
qed

lemma nap_env: "we_maxWakeIterations napEnv = Suc 8" "we_clock napEnv n = of_nat n"
  by (simp_all add: napEnv_def)

lemma nap_iteration:
  "wakeIteration napEnv ''r'' \<lparr>lp_cursor = napCursor, lp_dispatched = [], lp_started = [], lp_plannedAt = None\<rparr> (napWorld\<lparr>wk_tick := 2\<rparr>)
     = Some (napWorld\<lparr>wk_tick := 4\<rparr>, Inr (Break \<lparr>lp_cursor = napCursor, lp_dispatched = [], lp_started = [], lp_plannedAt = Some 2\<rparr>))"
proof -
  have "(2 :: rat) \<le> 9" by simp
  from nap_idle [OF this] show ?thesis
    by (simp add: busyAt_def wakeIteration_def clockNow_def freshStamps_def askWorld_def wbind_def wreturn_def nap_env Let_def)
qed

lemma nap_park:
  "park napEnv ''r'' \<lparr>lp_cursor = napCursor, lp_dispatched = [], lp_started = [], lp_plannedAt = Some 2\<rparr> (napWorld\<lparr>wk_tick := 4\<rparr>)
     = Some (napWorld\<lparr>wk_tick := 6, wk_outputs := [Scheduled ''r'' 100]\<rparr>, Inr (cu_state napCursor))"
proof -
  have "endRun napEnv ''r'' napCursor = wreturn napCursor"
    using nap_state(3) by (auto simp: endRun_def split: option.split)
  moreover have "persistRun napEnv ''r'' napCursor (napWorld\<lparr>wk_tick := 4\<rparr>) = Some (napWorld\<lparr>wk_tick := 6\<rparr>, Inr napCursor)"
    by (simp add: persistRun_def clockNow_def askWorld_def wbind_def wreturn_def persistSnapshot_def napWorld_def) (simp add: napCursor_def)
  moreover have "nextRuntimeDeadline (cu_state napCursor) (Some 2) = Some 100"
    by (simp add: nextRuntimeDeadline_def nap_state laterThan_def minOf_def)
  moreover have "cacheSet 4 ''r'' napCursor (wk_cache napWorld) = wk_cache napWorld"
    by (simp add: napWorld_def cacheSet_def Let_def cacheDelete_def evict.simps)
  ultimately show ?thesis
    by (simp add: park_def wbind_def wreturn_def nap_state scheduleNext_def report_def keepCached_def) (simp add: napWorld_def napEnv_def)
qed

lemma nap_round:
  "wakeRound napEnv ''r'' napWorld = Some (napWorld\<lparr>wk_tick := 6, wk_outputs := [Scheduled ''r'' 100]\<rparr>, Inr (cu_state napCursor))"
proof -
  have "resetLive (napWorld\<lparr>wk_tick := 2\<rparr>) = Some (napWorld\<lparr>wk_tick := 2\<rparr>, Inr ())"
    by (simp add: resetLive_def napWorld_def)
  then show ?thesis
    by (simp add: wakeRound_def wbind_def nap_loaded closeWaited_def nap_state wreturn_def wakeLoop.simps nap_env nap_iteration nap_park)
qed

lemma nap_hypotheses: "steady napEnv ''r''" "startedOnce napEnv ''r''" "undisturbed napEnv"
proof -
  show "steady napEnv ''r''"
    unfolding steady_def
  proof (intro conjI allI impI)
    fix n st hist h
    assume "keepsFrom st ''r'' hist h"
    then have "keepsFrom (we_others napEnv n st) ''r'' (hist @ []) h" by (simp add: napEnv_def)
    then show "\<exists>later. keepsFrom (we_others napEnv n st) ''r'' (hist @ later) h" by blast
  qed (auto simp: napEnv_def neverFails_def keepOne_def)
  show "startedOnce napEnv ''r''" by (auto simp: startedOnce_def napEnv_def keepsFrom_def calm_def)
  show "undisturbed napEnv" by (simp add: undisturbed_def napEnv_def sampleHost_def)
qed

lemma nap_log: "runLog napEnv ''r'' napHist 2 napWorld"
proof -
  have "append_events noBytes emptyStore ''r'' napEvents noOptions
      = Inr (\<lparr>ar_sequences = fst (appendLog emptyStore ''r'' napEvents noOptions), ar_tail = tailOf napStore ''r'', ar_deduplicated = False\<rparr>, napStore)"
    by (simp add: napStore_def append_events_def appendGuard_def fencingGuard_def case_prod_unfold Let_def)
  from keepsFrom_append(1) [OF _ _ this, of "[]" 1] have "keepsFrom napStore ''r'' napHist 1"
    by (simp add: keepsFrom_def napHist_def emptyStore_def tailOf_def)
  moreover have "length napHist = 2" by code_simp
  moreover have "we_registry napEnv = napRegistry" "we_cacheLimit napEnv = 4" by (simp_all add: napEnv_def)
  ultimately show ?thesis
    by (auto simp: runLog_def napWorld_def napCursor_def cursorAt_def snapshotsOf_def)
qed



text \<open>A root thread that failed with an empty error ends its run as completed.\<close>

lemma empty_error_completes:
  assumes "thr_status rootThread = Failed" and "thr_error rootThread = Some ''''"
  shows "rs_status (foldEvent reg s (createEvent st r (runEndedInput rootThread) 0)) = RunCompleted"
  using assms by (simp add: foldEvent_status runEndedInput_def applyProtocol_def runCompleted_def completedRunStatus_def
      payloadObject_def asObject_def readString_def truthy_def Let_def)

end
