(* ===== verification/Workflow_Graph.thy ===== *)
theory Workflow_Graph
  imports Fold Runtime_Helpers
begin

text \<open>
  \<open>packages/workflow/src/graph.ts\<close> and \<open>definitions.ts\<close>: workflow definitions, the topological order of
  their nodes, and which nodes may run, are skipped or report a result. A definition that is refused is
  a value of \<open>graph_error\<close>. \<open>isSettled\<close> follows fallbacks and would not return on a cycle of them; then
  it and what calls it are \<open>None\<close>.

  The \<open>run\<close> of a node and the \<open>output\<close> of a workflow are user code: fields of the definition. Sizes of
  JSON values are an argument (\<open>bytes\<close>).
\<close>

section \<open>Definitions and states of nodes\<close>

datatype node_status = NodePending | NodeRunning | NodeCompleted | NodeFailed | NodeSkipped

datatype skip_cause = Inactive | Policy

record node_state =
  ns_status :: node_status
  ns_result :: json
  ns_error :: "string option"
  ns_attempts :: "nat option"
  ns_branch :: "string option"
  ns_skipCause :: "skip_cause option"
  ns_iteration :: "(nat \<times> json) option"
    \<comment> \<open>index and previous output\<close>

record workflow_edge =
  eg_source :: string
  eg_target :: string
  eg_label :: "string option"

datatype node_type = Task | Switch | WorkflowNode

datatype failure_policy = FailWorkflow | SkipNode | RetryNode number | FallbackTo string

record workflow_child =
  ch_kind :: string
  ch_name :: string
  ch_version :: string

datatype node_result =
    ValueResult json
  | SpawnResult workflow_child json "string option"
    \<comment> \<open>child, input, child thread id\<close>
  | SleepResult number
  | EffectsResult "runtime_effect list"
  | SwitchResult string "json option"
    \<comment> \<open>branch, value\<close>
  | MapResult workflow_child "json list" number
    \<comment> \<open>child, items, concurrency\<close>
  | LoopResult workflow_child json nat
    \<comment> \<open>child, input, max iterations\<close>

record node_context =
  nc_threadId :: string
  nc_nodeId :: string
  nc_input :: json
  nc_results :: "json dict"
  nc_iteration :: "(nat \<times> json) option"

text \<open>\<open>run\<close> is what the promise of the user's function settles to: a message or a result.\<close>

record workflow_node =
  nd_id :: string
  nd_deps :: "string list option"
  nd_type :: "node_type option"
  nd_failure :: "failure_policy option"
  nd_run :: "node_context \<Rightarrow> string + node_result"

datatype child_execution = InThread | InRun

record workflow_definition =
  wd_name :: string
  wd_version :: "string option"
  wd_nodes :: "workflow_node list"
  wd_edges :: "workflow_edge list option"
  wd_concurrency :: "number option"
  wd_inputLimitBytes :: "nat option"
  wd_outputLimitBytes :: "nat option"
  wd_checkpointLimitBytes :: "nat option"
  wd_childExecution :: "child_execution option"
  wd_childClose :: "child_close option"
  wd_output :: "(json \<Rightarrow> json dict \<Rightarrow> json) option"

datatype graph_error =
    DuplicateNode string
  | UnknownSource string
  | UnknownTarget string
  | HasCycle
  | BadConcurrency
  | BadMaxAttempts string
  | UnknownFallback string string

section \<open>Keys and limits\<close>

definition minGraphConcurrency :: number where "minGraphConcurrency = 1"
definition maxGraphConcurrency :: number where "maxGraphConcurrency = 64"
definition defaultGraphConcurrency :: number where "defaultGraphConcurrency = 8"
definition defaultValueSizeLimitBytes :: nat where "defaultValueSizeLimitBytes = 2000000"
definition defaultCheckpointSizeLimitBytes :: nat where "defaultCheckpointSizeLimitBytes = 4000000"

definition nodeRunKey :: "string \<Rightarrow> nat \<Rightarrow> nat option \<Rightarrow> string" where
  "nodeRunKey nodeId attempt iteration = (case iteration of
     None \<Rightarrow> nodeId @ ''_'' @ showNat attempt
   | Some i \<Rightarrow> nodeId @ ''_'' @ showNat attempt @ ''_'' @ showNat i)"

definition iterationChildWorkflowId :: "string \<Rightarrow> string \<Rightarrow> string \<Rightarrow> nat \<Rightarrow> nat \<Rightarrow> string" where
  "iterationChildWorkflowId parentThreadId nodeId kind attempt index =
     deterministicThreadId [parentThreadId, nodeId, kind, showNat attempt, showNat index]"

definition nodeChildWorkflowId :: "string \<Rightarrow> string \<Rightarrow> nat \<Rightarrow> string" where
  "nodeChildWorkflowId parentThreadId nodeId attempt =
     deterministicThreadId [parentThreadId, nodeId, ''workflow'', showNat attempt]"

text \<open>The size when it is over the limit.\<close>

definition assertJsonWithinLimit :: "(json \<Rightarrow> nat) \<Rightarrow> json \<Rightarrow> nat option \<Rightarrow> (nat \<times> nat) option" where
  "assertJsonWithinLimit bytes value limitBytes =
     (let limit = withDefault limitBytes defaultValueSizeLimitBytes
      in if limit < bytes value then Some (bytes value, limit) else None)"

definition isInteger :: "number \<Rightarrow> bool" where
  "isInteger n \<longleftrightarrow> of_int \<lfloor>n\<rfloor> = n"

definition resolveGraphConcurrency :: "number option \<Rightarrow> graph_error + number" where
  "resolveGraphConcurrency value =
     (let concurrency = withDefault value defaultGraphConcurrency
      in if \<not> isInteger concurrency \<or> concurrency < minGraphConcurrency \<or> maxGraphConcurrency < concurrency
         then Inl BadConcurrency else Inr concurrency)"

definition workflowEdges :: "workflow_definition \<Rightarrow> workflow_edge list" where
  "workflowEdges d = (case wd_edges d of
     Some edges \<Rightarrow> edges
   | None \<Rightarrow> concat (map (\<lambda>n. map (\<lambda>source. \<lparr>eg_source = source, eg_target = nd_id n, eg_label = None\<rparr>)
       (withDefault (nd_deps n) [])) (wd_nodes d)))"

section \<open>Topological order\<close>

text \<open>The first id that occurred before.\<close>

fun firstDuplicate :: "string list \<Rightarrow> string list \<Rightarrow> string option" where
  "firstDuplicate seen [] = None"
| "firstDuplicate seen (i # is) =
     (if List.member seen i then Some i else firstDuplicate (seen @ [i]) is)"

text \<open>The outgoing edges and the indegree of every node, edge by edge.\<close>

definition addEdge ::
  "string list dict \<times> int dict \<Rightarrow> workflow_edge \<Rightarrow> string list dict \<times> int dict" where
  "addEdge tables edge =
     (let (outgoing, indegree) = tables
      in (dput (eg_source edge) (withDefault (dget outgoing (eg_source edge)) [] @ [eg_target edge]) outgoing,
          dput (eg_target edge) (withDefault (dget indegree (eg_target edge)) 0 + 1) indegree))"

fun addEdges ::
  "string list \<Rightarrow> workflow_edge list \<Rightarrow> string list dict \<times> int dict \<Rightarrow>
     graph_error + string list dict \<times> int dict" where
  "addEdges ids [] tables = Inr tables"
| "addEdges ids (edge # edges) tables =
     (if \<not> List.member ids (eg_source edge) then Inl (UnknownSource (eg_source edge))
      else if \<not> List.member ids (eg_target edge) then Inl (UnknownTarget (eg_target edge))
      else addEdges ids edges (addEdge tables edge))"

text \<open>
  One target of a sorted node: its indegree drops, and when it reaches zero the target is ready; the
  ready nodes stay in input order.
\<close>

definition releaseTarget ::
  "nat dict \<Rightarrow> string list \<times> int dict \<Rightarrow> string \<Rightarrow> string list \<times> int dict" where
  "releaseTarget inputOrder state target =
     (let (ready, indegree) = state;
          remaining = withDefault (dget indegree target) 0 - 1;
          indegree' = dput target remaining indegree
      in if remaining = 0
         then (sort_key (\<lambda>i. withDefault (dget inputOrder i) 0) (ready @ [target]), indegree')
         else (ready, indegree'))"

text \<open>
  The loop ends: a target becomes ready only when its indegree falls to zero, so each node taken from
  the queue leaves fewer ready nodes and nodes of positive indegree together.
\<close>

abbreviation positives :: "int dict \<Rightarrow> nat" where
  "positives d \<equiv> length (filter (\<lambda>(k, v). 0 < v) d)"

lemma positives_zero: "dget d k = Some v \<Longrightarrow> 0 < v \<Longrightarrow> Suc (positives (dput k 0 d)) = positives d"
  by (induction d) (auto split: if_splits)

lemma positives_dput: "w \<le> 0 \<or> (\<exists>v. dget d k = Some v \<and> 0 < v) \<Longrightarrow> positives (dput k w d) \<le> positives d"
  by (induction d) (auto split: if_splits)

lemma releaseTarget_measure:
  assumes "releaseTarget order (ready, indegree) t = (ready', indegree')"
  shows "length ready' + positives indegree' \<le> length ready + positives indegree"
proof (cases "\<exists>v. dget indegree t = Some v \<and> 0 < v")
  case True
  then obtain v where v: "dget indegree t = Some v" "0 < v" by blast
  with assms positives_zero [OF v] positives_dput [of "v - 1" indegree t] show ?thesis
    by (auto simp: releaseTarget_def Let_def split: if_splits)
next
  case False
  define w where "w = withDefault (dget indegree t) 0 - 1"
  from False have "w < 0" by (cases "dget indegree t") (auto simp: w_def)
  with assms positives_dput [of w indegree t] show ?thesis
    unfolding w_def by (auto simp: releaseTarget_def Let_def split: if_splits)
qed

lemma releaseTargets_measure:
  "foldl (releaseTarget order) (ready, indegree) ts = (ready', indegree')
   \<Longrightarrow> length ready' + positives indegree' \<le> length ready + positives indegree"
proof (induction ts arbitrary: ready indegree)
  case (Cons t ts)
  obtain r d where step: "releaseTarget order (ready, indegree) t = (r, d)" by fastforce
  with Cons.prems have "foldl (releaseTarget order) (r, d) ts = (ready', indegree')" by simp
  from Cons.IH [OF this] releaseTarget_measure [OF step] show ?case by simp
qed simp

function sortLoop ::
  "nat dict \<Rightarrow> string list dict \<Rightarrow> string list \<times> int dict \<Rightarrow> string list \<Rightarrow> string list" where
  "sortLoop inputOrder outgoing ([], indegree) placed = placed"
| "sortLoop inputOrder outgoing (nodeId # ready, indegree) placed =
     sortLoop inputOrder outgoing
       (foldl (releaseTarget inputOrder) (ready, indegree) (withDefault (dget outgoing nodeId) []))
       (placed @ [nodeId])"
  by pat_completeness auto

termination
proof (relation "measure (\<lambda>(_, _, (ready, indegree), _). length ready + positives indegree)")
  fix order :: "nat dict" and outgoing nodeId ready indegree and done_nodes :: "string list"
  obtain r d where "foldl (releaseTarget order) (ready, indegree) (withDefault (dget outgoing nodeId) []) = (r, d)"
    by fastforce
  with releaseTargets_measure [OF this]
  show "((order, outgoing,
          foldl (releaseTarget order) (ready, indegree) (withDefault (dget outgoing nodeId) []), done_nodes @ [nodeId]),
         (order, outgoing, (nodeId # ready, indegree), done_nodes))
        \<in> measure (\<lambda>(_, _, (ready, indegree), _). length ready + positives indegree)"
    by simp
qed simp

definition topologicalSort :: "string list \<Rightarrow> workflow_edge list \<Rightarrow> graph_error + string list" where
  "topologicalSort ids edges =
     (case firstDuplicate [] ids of
        Some i \<Rightarrow> Inl (DuplicateNode i)
      | None \<Rightarrow>
          (case addEdges ids edges (map (\<lambda>i. (i, [])) ids, map (\<lambda>i. (i, 0)) ids) of
             Inl e \<Rightarrow> Inl e
           | Inr (outgoing, indegree) \<Rightarrow>
               (let ready = filter (\<lambda>i. dget indegree i = Some 0) ids;
                    ordered = sortLoop (zip ids [0..<length ids]) outgoing (ready, indegree) []
                in if length ordered \<noteq> length ids then Inl HasCycle else Inr ordered)))"

section \<open>Which nodes may run\<close>

definition selectedBranch :: "node_state option \<Rightarrow> string option" where
  "selectedBranch state = (case state of
     None \<Rightarrow> None
   | Some st \<Rightarrow>
       if ns_status st \<noteq> NodeCompleted then None
       else (case ns_branch st of
               Some branch \<Rightarrow> Some branch
             | None \<Rightarrow> (case ns_result st of JStr s \<Rightarrow> Some s | _ \<Rightarrow> None)))"

definition isEdgeActive :: "workflow_edge \<Rightarrow> workflow_node list \<Rightarrow> node_state dict \<Rightarrow> bool" where
  "isEdgeActive edge nodes states =
     (let state = dget states (eg_source edge) in
      if map_option ns_status state = Some NodeSkipped then Option.bind state ns_skipCause = Some Policy
      else if Option.bind (find (\<lambda>n. nd_id n = eg_source edge) nodes) nd_type \<noteq> Some Switch then True
      else eg_label edge \<noteq> None \<and> selectedBranch state = eg_label edge)"

text \<open>The node that stands in for a node whose failure policy handed over to it.\<close>

definition activeFallback :: "workflow_node \<Rightarrow> node_state option \<Rightarrow> string option" where
  "activeFallback node state =
     (case (nd_failure node, state) of
        (Some (FallbackTo target), Some st) \<Rightarrow>
          if ns_status st = NodeSkipped \<and> ns_skipCause st = Some Policy then Some target else None
      | _ \<Rightarrow> None)"

definition findNode :: "workflow_definition \<Rightarrow> string \<Rightarrow> workflow_node option" where
  "findNode d nodeId = find (\<lambda>n. nd_id n = nodeId) (wd_nodes d)"

partial_function (option) isSettled ::
  "workflow_definition \<Rightarrow> node_state dict \<Rightarrow> string \<Rightarrow> bool option" where
  "isSettled d states nodeId =
     (if map_option ns_status (dget states nodeId) = Some NodeCompleted then Some True
      else if map_option ns_status (dget states nodeId) \<noteq> Some NodeSkipped then Some False
      else (case Option.bind (findNode d nodeId) (\<lambda>n. activeFallback n (dget states nodeId)) of
              None \<Rightarrow> Some True
            | Some fallback \<Rightarrow> isSettled d states fallback))"

declare isSettled.simps [code]

definition fallbackTargets :: "workflow_definition \<Rightarrow> string list" where
  "fallbackTargets d = insertionSet (List.map_filter
     (\<lambda>n. case nd_failure n of Some (FallbackTo target) \<Rightarrow> Some target | _ \<Rightarrow> None) (wd_nodes d))"

definition nodeStatusOf :: "node_state dict \<Rightarrow> string \<Rightarrow> node_status" where
  "nodeStatusOf states nodeId = (case dget states nodeId of None \<Rightarrow> NodePending | Some st \<Rightarrow> ns_status st)"

text \<open>\<open>every\<close> and \<open>filter\<close> of a test that may not return.\<close>

fun everyReturns :: "('a \<Rightarrow> bool option) \<Rightarrow> 'a list \<Rightarrow> bool option" where
  "everyReturns P [] = Some True"
| "everyReturns P (x # xs) = (case P x of
     None \<Rightarrow> None | Some False \<Rightarrow> Some False | Some True \<Rightarrow> everyReturns P xs)"

fun filterReturns :: "('a \<Rightarrow> bool option) \<Rightarrow> 'a list \<Rightarrow> 'a list option" where
  "filterReturns P [] = Some []"
| "filterReturns P (x # xs) = (case P x of
     None \<Rightarrow> None | Some b \<Rightarrow> map_option (\<lambda>ys. if b then x # ys else ys) (filterReturns P xs))"

definition incomingEdges :: "workflow_edge list \<Rightarrow> string \<Rightarrow> workflow_edge list" where
  "incomingEdges edges nodeId = filter (\<lambda>edge. eg_target edge = nodeId) edges"

definition isReady :: "workflow_definition \<Rightarrow> node_state dict \<Rightarrow> workflow_edge list \<Rightarrow> string \<Rightarrow> bool option" where
  "isReady d states edges nodeId =
     (if nodeStatusOf states nodeId \<noteq> NodePending \<or> List.member (fallbackTargets d) nodeId then Some False
      else let incoming = incomingEdges edges nodeId in
        if incoming = [] then Some True
        else map_option (\<lambda>settled. settled \<and> list_ex (\<lambda>edge. isEdgeActive edge (wd_nodes d) states) incoming)
          (everyReturns (\<lambda>edge. isSettled d states (eg_source edge)) incoming))"

definition isSkippable :: "workflow_definition \<Rightarrow> node_state dict \<Rightarrow> workflow_edge list \<Rightarrow> string \<Rightarrow> bool option" where
  "isSkippable d states edges nodeId =
     (if nodeStatusOf states nodeId \<noteq> NodePending then Some False
      else let incoming = incomingEdges edges nodeId in
        if incoming = [] then Some False
        else map_option (\<lambda>settled. settled \<and> \<not> list_ex (\<lambda>edge. isEdgeActive edge (wd_nodes d) states) incoming)
          (everyReturns (\<lambda>edge. isSettled d states (eg_source edge)) incoming))"

definition inOrder ::
  "workflow_definition \<Rightarrow> (workflow_edge list \<Rightarrow> string \<Rightarrow> bool option) \<Rightarrow> (graph_error + string list) option" where
  "inOrder d P =
     (let edges = workflowEdges d in
      case topologicalSort (map nd_id (wd_nodes d)) edges of
        Inl e \<Rightarrow> Some (Inl e)
      | Inr order \<Rightarrow> map_option Inr (filterReturns (P edges) order))"

definition getReadyNodeIds :: "workflow_definition \<Rightarrow> node_state dict \<Rightarrow> (graph_error + string list) option" where
  "getReadyNodeIds d states = inOrder d (isReady d states)"

definition getSkippableNodeIds :: "workflow_definition \<Rightarrow> node_state dict \<Rightarrow> (graph_error + string list) option" where
  "getSkippableNodeIds d states = inOrder d (isSkippable d states)"

definition getUnusedFallbackIds :: "workflow_definition \<Rightarrow> node_state dict \<Rightarrow> string list" where
  "getUnusedFallbackIds d states = filter (\<lambda>target.
     nodeStatusOf states target = NodePending
     \<and> list_all (\<lambda>n. (nodeStatusOf states (nd_id n) = NodeCompleted \<or> nodeStatusOf states (nd_id n) = NodeSkipped)
         \<and> activeFallback n (dget states (nd_id n)) = None)
       (filter (\<lambda>n. nd_failure n = Some (FallbackTo target)) (wd_nodes d))) (fallbackTargets d)"

text \<open>The results as dependents see them: a node that fell back shows the result of its fallback.\<close>

definition nodeResults :: "workflow_definition \<Rightarrow> node_state dict \<Rightarrow> json dict" where
  "nodeResults d states =
     foldl (\<lambda>results n. case activeFallback n (dget states (nd_id n)) of
         None \<Rightarrow> results
       | Some fallback \<Rightarrow> dput (nd_id n) (case dget states fallback of None \<Rightarrow> JNull | Some st \<Rightarrow> ns_result st) results)
       (map (\<lambda>(id, st). (id, ns_result st)) states) (wd_nodes d)"

section \<open>Defining a workflow\<close>

text \<open>The first node whose failure policy is not possible.\<close>

fun checkPolicies :: "workflow_definition \<Rightarrow> workflow_node list \<Rightarrow> graph_error option" where
  "checkPolicies d [] = None"
| "checkPolicies d (n # ns) =
     (case nd_failure n of
        Some (RetryNode m) \<Rightarrow>
          if \<not> isInteger m \<or> m < 1 \<or> 64 < m then Some (BadMaxAttempts (nd_id n)) else checkPolicies d ns
      | Some (FallbackTo target) \<Rightarrow>
          if findNode d target = None then Some (UnknownFallback (nd_id n) target) else checkPolicies d ns
      | _ \<Rightarrow> checkPolicies d ns)"

definition defineWorkflow :: "workflow_definition \<Rightarrow> graph_error + workflow_definition" where
  "defineWorkflow def =
     (case resolveGraphConcurrency (wd_concurrency def) of
        Inl e \<Rightarrow> Inl e
      | Inr concurrency \<Rightarrow>
          (let d = def\<lparr>wd_version := Some (withDefault (wd_version def) defaultDefinitionVersion), wd_concurrency := Some concurrency\<rparr> in
           case topologicalSort (map nd_id (wd_nodes d)) (workflowEdges d) of
             Inl e \<Rightarrow> Inl e
           | Inr _ \<Rightarrow> (case checkPolicies d (wd_nodes d) of Some e \<Rightarrow> Inl e | None \<Rightarrow> Inr d)))"

definition compatibleNodeStatus :: "string option \<Rightarrow> node_status" where
  "compatibleNodeStatus status =
     (if status = Some ''running'' then NodeRunning
      else if status = Some ''completed'' then NodeCompleted
      else if status = Some ''failed'' then NodeFailed
      else if status = Some ''skipped'' then NodeSkipped
      else NodePending)"

definition freshNode :: "node_status \<Rightarrow> node_state" where
  "freshNode status = \<lparr>ns_status = status, ns_result = JNull, ns_error = None, ns_attempts = None,
     ns_branch = None, ns_skipCause = None, ns_iteration = None\<rparr>"

definition readyNodes :: "workflow_definition \<Rightarrow> string dict \<Rightarrow> (graph_error + string list) option" where
  "readyNodes d nodeStates = getReadyNodeIds d
     (foldl (\<lambda>states n. dput (nd_id n) (freshNode (compatibleNodeStatus (dget nodeStates (nd_id n)))) states)
       [] (wd_nodes d))"

section \<open>What the run of a node may return\<close>

definition childRef :: "string \<Rightarrow> string \<Rightarrow> string option \<Rightarrow> workflow_child" where
  "childRef kind name version = \<lparr>ch_kind = kind, ch_name = name, ch_version = withDefault version defaultDefinitionVersion\<rparr>"

definition iterations :: "workflow_child \<Rightarrow> json list \<Rightarrow> number \<Rightarrow> graph_error + node_result" where
  "iterations child items concurrency =
     (case resolveGraphConcurrency (Some concurrency) of
        Inl e \<Rightarrow> Inl e | Inr c \<Rightarrow> Inr (MapResult child items c))"

section \<open>The order is topological\<close>

abbreviation degree :: "int dict \<Rightarrow> string \<Rightarrow> int" where
  "degree indegree t \<equiv> withDefault (dget indegree t) 0"

abbreviation targetsOf :: "string list dict \<Rightarrow> string \<Rightarrow> string list" where
  "targetsOf outgoing i \<equiv> withDefault (dget outgoing i) []"

definition validEdges :: "string list \<Rightarrow> workflow_edge list \<Rightarrow> bool" where
  "validEdges ids edges \<longleftrightarrow> (\<forall>e \<in> set edges. eg_source e \<in> set ids \<and> eg_target e \<in> set ids)"

definition edgeRel :: "workflow_edge list \<Rightarrow> (string \<times> string) set" where
  "edgeRel edges = (\<lambda>e. (eg_source e, eg_target e)) ` set edges"

text \<open>Every edge into a listed node comes from a node listed before it.\<close>

definition ordered :: "workflow_edge list \<Rightarrow> string list \<Rightarrow> bool" where
  "ordered edges xs \<longleftrightarrow>
     (\<forall>i < length xs. \<forall>e \<in> set edges. eg_target e = xs ! i \<longrightarrow> eg_source e \<in> set (take i xs))"

lemma ordered_snoc:
  "ordered edges xs \<Longrightarrow> (\<And>e. e \<in> set edges \<Longrightarrow> eg_target e = n \<Longrightarrow> eg_source e \<in> set xs) \<Longrightarrow> ordered edges (xs @ [n])"
  by (auto simp: ordered_def nth_append less_Suc_eq)

lemma firstDuplicate_None: "firstDuplicate seen ids = None \<longleftrightarrow> distinct ids \<and> set ids \<inter> set seen = {}"
  by (induction ids arbitrary: seen) auto

lemma addEdges_Inr:
  "addEdges ids edges (outgoing, indegree) = Inr (outgoing', indegree') \<Longrightarrow>
   validEdges ids edges
   \<and> (\<forall>t. degree indegree' t = degree indegree t + int (length (filter (\<lambda>e. eg_target e = t) edges)))
   \<and> (\<forall>i. targetsOf outgoing' i = targetsOf outgoing i @ map eg_target (filter (\<lambda>e. eg_source e = i) edges))
   \<and> dom (map_of indegree) \<subseteq> dom (map_of indegree')"
proof (induction edges arbitrary: outgoing indegree)
  case (Cons e es)
  from Cons.prems have mem: "eg_source e \<in> set ids" "eg_target e \<in> set ids"
    and rec: "addEdges ids es (addEdge (outgoing, indegree) e) = Inr (outgoing', indegree')"
    by (auto split: if_splits)
  note IH = Cons.IH [OF rec [unfolded addEdge_def Let_def split]]
  have "dom (map_of indegree) \<subseteq> dom (map_of (dput (eg_target e) (degree indegree (eg_target e) + 1) indegree))"
    by (auto simp: dom_def)
  with IH have "dom (map_of indegree) \<subseteq> dom (map_of indegree')" by blast
  with IH mem show ?case by (simp add: validEdges_def)
qed (simp add: validEdges_def)

lemma addEdges_Inl:
  "addEdges ids edges tables = Inl err \<Longrightarrow>
   \<exists>e \<in> set edges. err = UnknownSource (eg_source e) \<and> eg_source e \<notin> set ids
     \<or> err = UnknownTarget (eg_target e) \<and> eg_target e \<notin> set ids"
  by (induction edges arbitrary: tables) (auto split: if_splits)

lemma releaseTargets_spec:
  assumes "foldl (releaseTarget order) (ready, indegree) ts = (ready', indegree')"
    and "\<forall>t. int (count_list ts t) \<le> degree indegree t" and "distinct ready"
    and "\<forall>t \<in> set ready. degree indegree t = 0"
  shows "(\<forall>t. degree indegree' t = degree indegree t - int (count_list ts t))
    \<and> set ready' = set ready \<union> {t \<in> set ts. degree indegree' t = 0} \<and> distinct ready'"
  using assms
proof (induction ts arbitrary: ready indegree)
  case (Cons t ts)
  define w where "w = degree indegree t - 1"
  define d where "d = dput t w indegree"
  define r where "r = (if w = 0 then sort_key (\<lambda>i. withDefault (dget order i) 0) (ready @ [t]) else ready)"
  have "releaseTarget order (ready, indegree) t = (r, d)"
    by (simp add: releaseTarget_def Let_def r_def d_def w_def)
  with Cons.prems(1) have rec: "foldl (releaseTarget order) (r, d) ts = (ready', indegree')" by simp
  have pos: "1 \<le> degree indegree t" using Cons.prems(2) [rule_format, of t] by simp
  then have fresh: "t \<notin> set ready" using Cons.prems(4) by auto
  have deg: "degree d k = (if k = t then w else degree indegree k)" for k by (simp add: d_def)
  have counts: "\<forall>k. int (count_list ts k) \<le> degree d k"
  proof
    fix k
    show "int (count_list ts k) \<le> degree d k"
      using Cons.prems(2) [rule_format, of k] by (cases "k = t") (simp_all add: deg w_def)
  qed
  have set_r: "set r = (if w = 0 then insert t (set ready) else set ready)" by (simp add: r_def)
  have "distinct r" using fresh Cons.prems(3) by (simp add: r_def)
  moreover have "\<forall>k \<in> set r. degree d k = 0" using Cons.prems(4) fresh by (auto simp: set_r deg)
  ultimately have IH: "\<forall>k. degree indegree' k = degree d k - int (count_list ts k)"
      "set ready' = set r \<union> {k \<in> set ts. degree indegree' k = 0}" "distinct ready'"
    using Cons.IH [OF rec counts] by simp_all
  have "degree indegree' k = degree indegree k - int (count_list (t # ts) k)" for k
    using IH(1) by (simp add: deg w_def)
  moreover have "set ready' = set ready \<union> {k \<in> set (t # ts). degree indegree' k = 0}"
  proof -
    have at_t: "degree indegree' t = w - int (count_list ts t)" "int (count_list ts t) \<le> w"
      using IH(1) [rule_format, of t] counts [rule_format, of t] deg [of t] by simp_all
    have "w = 0 \<Longrightarrow> degree indegree' t = 0 \<and> t \<notin> set ts"
      using at_t count_list_0_iff [of ts t] by simp
    moreover have "w \<noteq> 0 \<Longrightarrow> degree indegree' t = 0 \<Longrightarrow> t \<in> set ts"
      using at_t count_list_0_iff [of ts t] by linarith
    ultimately show ?thesis by (auto simp: IH(2) set_r split: if_splits)
  qed
  ultimately show ?case using IH(3) by blast
qed simp

definition pendingEdges :: "workflow_edge list \<Rightarrow> string list \<Rightarrow> string \<Rightarrow> workflow_edge list" where
  "pendingEdges edges placed t = filter (\<lambda>e. eg_target e = t \<and> eg_source e \<notin> set placed) edges"

definition sortInv ::
  "string list \<Rightarrow> workflow_edge list \<Rightarrow> string list \<times> int dict \<Rightarrow> string list \<Rightarrow> bool" where
  "sortInv ids edges state placed \<longleftrightarrow>
     (let (ready, indegree) = state in
      distinct (placed @ ready) \<and> set (placed @ ready) \<subseteq> set ids \<and> ordered edges placed
      \<and> (\<forall>t. degree indegree t = int (length (pendingEdges edges placed t)))
      \<and> (\<forall>t \<in> set ids. degree indegree t = 0 \<longleftrightarrow> t \<in> set (placed @ ready)))"

lemma pendingEdges_snoc:
  "n \<notin> set placed \<Longrightarrow> length (pendingEdges edges placed t)
     = length (pendingEdges edges (placed @ [n]) t)
       + count_list (map eg_target (filter (\<lambda>e. eg_source e = n) edges)) t"
  by (induction edges) (auto simp: pendingEdges_def)

lemma sortInv_step:
  assumes "sortInv ids edges (n # ready, indegree) placed" and "validEdges ids edges"
    and "foldl (releaseTarget order) (ready, indegree) (map eg_target (filter (\<lambda>e. eg_source e = n) edges))
      = (ready', indegree')"
  shows "sortInv ids edges (ready', indegree') (placed @ [n])"
proof -
  let ?ts = "map eg_target (filter (\<lambda>e. eg_source e = n) edges)"
  from assms(1) have dist: "distinct (placed @ n # ready)" and sub: "set (placed @ n # ready) \<subseteq> set ids"
    and ord: "ordered edges placed"
    and deg: "\<And>t. degree indegree t = int (length (pendingEdges edges placed t))"
    and zero: "\<And>t. t \<in> set ids \<Longrightarrow> degree indegree t = 0 \<longleftrightarrow> t \<in> set (placed @ n # ready)"
    by (auto simp: sortInv_def)
  have split: "length (pendingEdges edges placed t)
      = length (pendingEdges edges (placed @ [n]) t) + count_list ?ts t" for t
    using dist by (intro pendingEdges_snoc) simp
  have counts: "\<forall>t. int (count_list ?ts t) \<le> degree indegree t" by (simp add: deg split)
  have "\<forall>t \<in> set ready. degree indegree t = 0" using sub zero by auto
  note spec = releaseTargets_spec [OF assms(3) counts _ this]
  have deg': "degree indegree' t = int (length (pendingEdges edges (placed @ [n]) t))" for t
    using spec dist by (simp add: deg split)
  have ready': "set ready' = set ready \<union> {t \<in> set ?ts. degree indegree' t = 0}" "distinct ready'"
    using spec dist by simp_all
  have targets: "set ?ts \<subseteq> set ids" using assms(2) by (auto simp: validEdges_def)
  have later: "t \<notin> set (placed @ n # ready)" if "t \<in> set ?ts" for t
  proof -
    have "0 < count_list ?ts t" using that count_list_0_iff [of ?ts t] by (metis gr0I)
    then have "0 < degree indegree t" by (simp add: deg split)
    then show ?thesis using zero [of t] that targets by auto
  qed
  have "pendingEdges edges placed n = []" using zero [of n] sub deg [of n] by simp
  then have "ordered edges (placed @ [n])"
    using ord by (intro ordered_snoc) (auto simp: pendingEdges_def filter_empty_conv)
  moreover have "distinct ((placed @ [n]) @ ready')" "set ((placed @ [n]) @ ready') \<subseteq> set ids"
  proof -
    obtain U where "set ready' = set ready \<union> U" "U \<subseteq> set ids" "U \<inter> set (placed @ n # ready) = {}"
      using ready'(1) targets later by blast
    then show "distinct ((placed @ [n]) @ ready')" "set ((placed @ [n]) @ ready') \<subseteq> set ids"
      using dist sub ready'(2) by auto
  qed
  moreover have "degree indegree' t = 0 \<longleftrightarrow> t \<in> set ((placed @ [n]) @ ready')" if "t \<in> set ids" for t
  proof -
    have mem: "t \<in> set ready' \<longleftrightarrow> t \<in> set ready \<or> t \<in> set ?ts \<and> degree indegree' t = 0"
      unfolding ready'(1) by blast
    show ?thesis
    proof (cases "t \<in> set ?ts")
      case True
      with mem later [OF True] show ?thesis by (simp del: set_map)
    next
      case False
      then have "degree indegree' t = degree indegree t"
        using count_list_0_iff [of ?ts t] by (simp add: deg deg' split)
      with False mem zero [OF \<open>t \<in> set ids\<close>] show ?thesis by (simp del: set_map)
    qed
  qed
  ultimately show ?thesis using deg' by (simp add: sortInv_def)
qed

lemma sortLoop_inv:
  "sortInv ids edges state placed \<Longrightarrow> validEdges ids edges \<Longrightarrow>
   (\<And>i. targetsOf outgoing i = map eg_target (filter (\<lambda>e. eg_source e = i) edges)) \<Longrightarrow>
   \<exists>indegree. sortInv ids edges ([], indegree) (sortLoop order outgoing state placed)"
proof (induction order outgoing state placed rule: sortLoop.induct)
  case (2 order outgoing n ready indegree placed)
  obtain r d where "foldl (releaseTarget order) (ready, indegree) (targetsOf outgoing n) = (r, d)" by fastforce
  with 2 sortInv_step [OF 2(2,3)] show ?case by simp
qed auto

lemma sortInv_start:
  assumes "distinct ids" and "addEdges ids edges (map (\<lambda>i. (i, [])) ids, map (\<lambda>i. (i, 0)) ids) = Inr (outgoing, indegree)"
  shows "sortInv ids edges (filter (\<lambda>i. dget indegree i = Some 0) ids, indegree) []"
    and "targetsOf outgoing i = map eg_target (filter (\<lambda>e. eg_source e = i) edges)"
    and "validEdges ids edges"
proof -
  note spec = addEdges_Inr [OF assms(2)]
  have none: "degree (map (\<lambda>i. (i, 0)) ids) t = 0" for t
    by (simp add: map_of_map_restrict restrict_map_def)
  have empty: "targetsOf (map (\<lambda>i. (i, [])) ids) t = []" for t
    by (simp add: map_of_map_restrict restrict_map_def)
  have known: "\<exists>v. dget indegree t = Some v" if "t \<in> set ids" for t
  proof -
    have "t \<in> dom (map_of (map (\<lambda>i. (i, 0 :: int)) ids))" using that by (simp add: dom_def map_of_map_restrict restrict_map_def)
    then show ?thesis using spec by blast
  qed
  have "degree indegree t = 0 \<longleftrightarrow> dget indegree t = Some 0" if "t \<in> set ids" for t
    using known [OF that] by auto
  moreover have "degree indegree t = int (length (pendingEdges edges [] t))" for t
    using spec by (simp add: none pendingEdges_def)
  ultimately show "sortInv ids edges (filter (\<lambda>i. dget indegree i = Some 0) ids, indegree) []"
    using assms(1) by (auto simp: sortInv_def ordered_def)
  show "targetsOf outgoing i = map eg_target (filter (\<lambda>e. eg_source e = i) edges)"
    using spec by (simp add: empty)
  show "validEdges ids edges" using spec by simp
qed

definition rank :: "string list \<Rightarrow> string \<Rightarrow> nat" where
  "rank xs x = length (takeWhile (\<lambda>y. y \<noteq> x) xs)"

lemma rank_nth: "distinct xs \<Longrightarrow> i < length xs \<Longrightarrow> rank xs (xs ! i) = i"
proof (induction xs arbitrary: i)
  case (Cons x xs)
  then show ?case by (cases i) (auto simp: rank_def)
qed simp

lemma rank_less: "x \<in> set xs \<Longrightarrow> rank xs x < length xs"
  by (induction xs) (auto simp: rank_def)

lemma rank_edge:
  assumes "ordered edges xs" and "distinct xs" and "e \<in> set edges" and "eg_target e \<in> set xs"
  shows "rank xs (eg_source e) < rank xs (eg_target e)"
proof -
  from assms(4) obtain i where i: "i < length xs" "eg_target e = xs ! i" by (auto simp: in_set_conv_nth)
  with assms(1,3) have "eg_source e \<in> set (take i xs)" by (auto simp: ordered_def)
  then obtain j where "j < i" "eg_source e = xs ! j" by (auto simp: in_set_conv_nth)
  with i assms(2) show ?thesis by (simp add: rank_nth)
qed

lemma ordered_acyclic:
  assumes "ordered edges xs" and "distinct xs" and "validEdges ids edges" and "set xs = set ids"
  shows "acyclic (edgeRel edges)"
proof -
  have "acyclic ((edgeRel edges)\<inverse>)"
    using assms rank_edge [OF assms(1,2)]
    by (intro acyclicI_order [where f = "rank xs"]) (auto simp: edgeRel_def validEdges_def)
  then show ?thesis by (simp add: acyclic_converse)
qed

lemma stuck_cyclic:
  assumes "t \<in> S" and "\<And>t. t \<in> S \<Longrightarrow> \<exists>e \<in> set edges. eg_target e = t \<and> eg_source e \<in> S"
  shows "\<not> acyclic (edgeRel edges)"
proof
  assume "acyclic (edgeRel edges)"
  moreover have "finite (edgeRel edges)" by (simp add: edgeRel_def)
  ultimately have "wf (edgeRel edges)" by (intro finite_acyclic_wf)
  from wfE_min [OF this assms(1)] obtain z where "z \<in> S" "\<And>y. (y, z) \<in> edgeRel edges \<Longrightarrow> y \<notin> S" by blast
  with assms(2) [of z] show False by (auto simp: edgeRel_def)
qed

text \<open>What each outcome of the sort says about the graph.\<close>

definition sortOutcome :: "string list \<Rightarrow> workflow_edge list \<Rightarrow> graph_error + string list \<Rightarrow> bool" where
  "sortOutcome ids edges outcome \<longleftrightarrow> (case outcome of
     Inr xs \<Rightarrow> distinct ids \<and> validEdges ids edges \<and> acyclic (edgeRel edges)
       \<and> set xs = set ids \<and> distinct xs \<and> ordered edges xs
   | Inl HasCycle \<Rightarrow> distinct ids \<and> validEdges ids edges \<and> \<not> acyclic (edgeRel edges)
   | Inl (DuplicateNode i) \<Rightarrow> \<not> distinct ids
   | Inl (UnknownSource i) \<Rightarrow> distinct ids \<and> i \<notin> set ids \<and> (\<exists>e \<in> set edges. eg_source e = i)
   | Inl (UnknownTarget i) \<Rightarrow> distinct ids \<and> i \<notin> set ids \<and> (\<exists>e \<in> set edges. eg_target e = i)
   | Inl _ \<Rightarrow> False)"

lemma topologicalSort_outcome: "sortOutcome ids edges (topologicalSort ids edges)"
proof (cases "firstDuplicate [] ids")
  case (Some i)
  then have "\<not> distinct ids" using firstDuplicate_None [of "[]" ids] by auto
  with Some show ?thesis by (simp add: topologicalSort_def sortOutcome_def)
next
  case None
  then have dist: "distinct ids" using firstDuplicate_None [of "[]" ids] by simp
  let ?start = "(map (\<lambda>i. (i, [])) ids, map (\<lambda>i. (i, 0)) ids)"
  show ?thesis
  proof (cases "addEdges ids edges ?start")
    case (Inl e)
    from addEdges_Inl [OF Inl] None Inl dist show ?thesis by (auto simp: topologicalSort_def sortOutcome_def)
  next
    case (Inr tables)
    obtain outgoing indegree where tables: "tables = (outgoing, indegree)" by fastforce
    note start = sortInv_start [OF dist Inr [unfolded tables]]
    define xs where "xs = sortLoop (zip ids [0..<length ids]) outgoing
      (filter (\<lambda>i. dget indegree i = Some 0) ids, indegree) []"
    from sortLoop_inv [OF start(1,3,2)] obtain d where "sortInv ids edges ([], d) xs" unfolding xs_def by blast
    then have xs: "distinct xs" "set xs \<subseteq> set ids" "ordered edges xs"
      and left: "\<And>t. t \<in> set ids \<Longrightarrow> t \<notin> set xs \<Longrightarrow> pendingEdges edges xs t \<noteq> []"
      by (auto simp: sortInv_def)
    have result: "topologicalSort ids edges = (if length xs \<noteq> length ids then Inl HasCycle else Inr xs)"
      by (simp add: topologicalSort_def None Inr tables Let_def xs_def)
    show ?thesis
    proof (cases "set xs = set ids")
      case True
      then have "length xs = length ids" using xs(1) dist by (metis distinct_card)
      with True xs start(3) dist ordered_acyclic [OF xs(3,1) start(3) True] result show ?thesis
        by (simp add: sortOutcome_def)
    next
      case False
      then obtain t where t: "t \<in> set ids - set xs" using xs(2) by blast
      have "length xs \<noteq> length ids" using False xs(1,2) dist
        by (metis card_subset_eq distinct_card finite_set)
      moreover have "\<not> acyclic (edgeRel edges)"
      proof (rule stuck_cyclic [OF t])
        fix u assume "u \<in> set ids - set xs"
        with left [of u] start(3) show "\<exists>e \<in> set edges. eg_target e = u \<and> eg_source e \<in> set ids - set xs"
          by (auto simp: pendingEdges_def filter_empty_conv validEdges_def)
      qed
      ultimately show ?thesis using dist start(3) result by (simp add: sortOutcome_def)
    qed
  qed
qed

text \<open>
  C33. The topological sort is right on every graph: it returns an order exactly of graphs with distinct
  node ids, edges between known nodes and no cycle, the order lists every node once and puts the source
  of every edge before its target; any other graph is refused with an error that names what is wrong.
\<close>

theorem topologicalSort_correct: "sortOutcome ids edges (topologicalSort ids edges)"
  by (rule topologicalSort_outcome)

end
