(* ===== verification/Workflow_Schedule.thy ===== *)
theory Workflow_Schedule
  imports Workflow_Graph
begin

text \<open>
  \<open>packages/workflow/src/effects.ts\<close>: the two effects of a workflow thread. \<open>scheduleEvents\<close> decides what
  a workflow does next from the states of its nodes; \<open>runNode\<close> runs one node and turns what it returns into
  events. The events are the typed payloads of \<open>events.ts\<close>. An error thrown by the graph functions
  is \<open>Inl\<close>.
\<close>

section \<open>Events\<close>

record pending_spawn =
  ps_childThreadId :: string
  ps_kind :: string
  ps_definitionName :: string
  ps_definitionVersion :: string
  ps_nodeId :: string
  ps_attempt :: nat
  ps_input :: json
  ps_loopIndex :: "nat option"
  ps_execution :: child_execution
  ps_close :: child_close

record map_request =
  mr_nodeId :: string
  mr_attempt :: nat
  mr_kind :: string
  mr_definitionName :: string
  mr_definitionVersion :: string
  mr_items :: "json list"
  mr_concurrency :: number
  mr_limitBytes :: nat
  mr_execution :: child_execution
  mr_close :: child_close

datatype workflow_event =
    NodeStarted string
  | NodeFinished string json "string option" "string option"
    \<comment> \<open>node id, result, error, branch\<close>
  | NodeSkippedEvent string string skip_cause
    \<comment> \<open>node id, reason, cause\<close>
  | SpawnRequested pending_spawn
  | MapRequested map_request
  | SleepRequested string string number
    \<comment> \<open>node id, wait id, wake time\<close>
  | EffectsRequested string "runtime_effect list"
  | WorkflowFailed string
  | WorkflowCompleted json

section \<open>Scheduling\<close>

definition tooLarge :: "string \<Rightarrow> nat \<times> nat \<Rightarrow> string" where
  "tooLarge label excess = label @ '' is '' @ showNat (fst excess) @ '' UTF-8 bytes; limit is '' @ showNat (snd excess) @ '' bytes''"

definition failurePolicyEvents :: "workflow_definition \<Rightarrow> node_state dict \<Rightarrow> workflow_event list option" where
  "failurePolicyEvents d states =
     (case find (\<lambda>n. map_option ns_status (dget states (nd_id n)) = Some NodeFailed) (wd_nodes d) of
        None \<Rightarrow> None
      | Some failed \<Rightarrow>
          (let state = dget states (nd_id failed);
               error = withDefault (Option.bind state ns_error) (''Node '' @ nd_id failed @ '' failed'')
           in Some (case withDefault (nd_failure failed) FailWorkflow of
                RetryNode maxAttempts \<Rightarrow>
                  if of_nat (withDefault (Option.bind state ns_attempts) 0) < maxAttempts
                  then [NodeStarted (nd_id failed)] else [WorkflowFailed error]
              | SkipNode \<Rightarrow> [NodeSkippedEvent (nd_id failed) error Policy]
              | FallbackTo target \<Rightarrow>
                  [NodeSkippedEvent (nd_id failed) (''fallback:'' @ target) Policy, NodeStarted target]
              | FailWorkflow \<Rightarrow> [WorkflowFailed error])))"

definition runningCount :: "node_state dict \<Rightarrow> nat" where
  "runningCount states = length (filter (\<lambda>st. ns_status st = NodeRunning) (dvals states))"

definition freeSlots :: "workflow_definition \<Rightarrow> node_state dict \<Rightarrow> nat" where
  "freeSlots d states = nat \<lfloor>max 0 (withDefault (wd_concurrency d) defaultGraphConcurrency - of_nat (runningCount states))\<rfloor>"

definition workflowOutput :: "workflow_definition \<Rightarrow> node_state dict \<Rightarrow> json \<Rightarrow> json" where
  "workflowOutput d states input =
     (let results = nodeResults d states in
      case wd_output d of Some f \<Rightarrow> f input results | None \<Rightarrow> JObj results)"

text \<open>What happens once no node has failed and none can be skipped.\<close>

definition startOrFinish ::
  "(json \<Rightarrow> nat) \<Rightarrow> workflow_definition \<Rightarrow> node_state dict \<Rightarrow> json \<Rightarrow> (graph_error + workflow_event list) option" where
  "startOrFinish bytes d states input =
     (case getReadyNodeIds d states of
        None \<Rightarrow> None
      | Some (Inl e) \<Rightarrow> Some (Inl e)
      | Some (Inr ids) \<Rightarrow>
          (let ready = take (freeSlots d states) ids in
           if ready \<noteq> [] then Some (Inr (map NodeStarted ready))
           else if list_ex (\<lambda>st. ns_status st = NodePending \<or> ns_status st = NodeRunning) (dvals states)
           then Some (Inr [])
           else let output = workflowOutput d states input in
             Some (Inr (case assertJsonWithinLimit bytes output (wd_outputLimitBytes d) of
               Some excess \<Rightarrow> [WorkflowFailed (tooLarge ''Workflow output'' excess)]
             | None \<Rightarrow> [WorkflowCompleted output]))))"

definition scheduleEvents ::
  "(json \<Rightarrow> nat) \<Rightarrow> workflow_definition \<Rightarrow> node_state dict \<Rightarrow> json \<Rightarrow> (graph_error + workflow_event list) option" where
  "scheduleEvents bytes d states input =
     (case assertJsonWithinLimit bytes input (wd_inputLimitBytes d) of
        Some excess \<Rightarrow> Some (Inr [WorkflowFailed (tooLarge ''Workflow input'' excess)])
      | None \<Rightarrow>
          (case failurePolicyEvents d states of
             Some events \<Rightarrow> Some (Inr events)
           | None \<Rightarrow>
               (case getSkippableNodeIds d states of
                  None \<Rightarrow> None
                | Some (Inl e) \<Rightarrow> Some (Inl e)
                | Some (Inr inactive) \<Rightarrow>
                    (let skipped = map (\<lambda>i. NodeSkippedEvent i ''inactive branch'' Inactive) inactive
                           @ map (\<lambda>i. NodeSkippedEvent i ''fallback not needed'' Inactive) (getUnusedFallbackIds d states)
                     in if skipped \<noteq> [] then Some (Inr skipped) else startOrFinish bytes d states input))))"

text \<open>\<open>nodes[node.id] ??= ...\<close> for every node of the definition.\<close>

definition withPendingNodes :: "workflow_definition \<Rightarrow> node_state dict \<Rightarrow> node_state dict" where
  "withPendingNodes d states =
     foldl (\<lambda>m n. if dget m (nd_id n) = None
                  then dput (nd_id n) ((freshNode NodePending)\<lparr>ns_attempts := Some 0\<rparr>) m else m)
       states (wd_nodes d)"

text \<open>\<open>resolve\<close> stands for the definition store.\<close>

definition scheduleEffect ::
  "(string \<Rightarrow> string \<Rightarrow> workflow_definition option) \<Rightarrow> (json \<Rightarrow> nat) \<Rightarrow> string option \<Rightarrow> string \<Rightarrow> node_state dict \<Rightarrow>
     json option \<Rightarrow> (graph_error + workflow_event list) option" where
  "scheduleEffect resolve bytes definitionName version states input =
     (case truthy definitionName of
        None \<Rightarrow> Some (Inr [])
      | Some name \<Rightarrow>
          (case resolve name version of
             None \<Rightarrow> Some (Inr [WorkflowFailed (''Unknown workflow definition '' @ name @ ''@'' @ version)])
           | Some d \<Rightarrow> scheduleEvents bytes d (withPendingNodes d states) (withDefault input JNull)))"

section \<open>Running a node\<close>

record node_run =
  nr_threadId :: string
  nr_nodeId :: string
  nr_attempt :: nat
  nr_iteration :: "(nat \<times> json) option"
  nr_input :: json
  nr_nodes :: "node_state dict"

definition finishedEvent :: "node_run \<Rightarrow> json \<Rightarrow> string option \<Rightarrow> workflow_event list" where
  "finishedEvent run result error = [NodeFinished (nr_nodeId run) result error None]"

definition spawnRequested ::
  "workflow_definition \<Rightarrow> node_run \<Rightarrow> string \<Rightarrow> workflow_child \<Rightarrow> json \<Rightarrow> nat option \<Rightarrow> workflow_event list" where
  "spawnRequested d run childThreadId child input loopIndex =
     [SpawnRequested \<lparr>ps_childThreadId = childThreadId, ps_kind = ch_kind child, ps_definitionName = ch_name child,
        ps_definitionVersion = ch_version child, ps_nodeId = nr_nodeId run, ps_attempt = nr_attempt run, ps_input = input,
        ps_loopIndex = loopIndex, ps_execution = withDefault (wd_childExecution d) InThread,
        ps_close = withDefault (wd_childClose d) Terminate\<rparr>]"

text \<open>The events, or the message of an output that is too large. \<open>fresh\<close> is the random thread id.\<close>

definition nodeResultEvents ::
  "(json \<Rightarrow> nat) \<Rightarrow> string \<Rightarrow> number \<Rightarrow> workflow_definition \<Rightarrow> node_type option \<Rightarrow> node_run \<Rightarrow> node_result \<Rightarrow>
     string + workflow_event list" where
  "nodeResultEvents bytes fresh now d nodeType run result =
     (let outputLabel = ''Node '' @ nr_nodeId run @ '' output'' in
      case result of
        ValueResult v \<Rightarrow>
          (case assertJsonWithinLimit bytes v (wd_outputLimitBytes d) of
             Some excess \<Rightarrow> Inl (tooLarge outputLabel excess)
           | None \<Rightarrow> Inr (finishedEvent run v None))
      | SwitchResult branch v \<Rightarrow>
          (let value = (case v of Some x \<Rightarrow> if x = JNull then JStr branch else x | None \<Rightarrow> JStr branch) in
           case assertJsonWithinLimit bytes value (wd_outputLimitBytes d) of
             Some excess \<Rightarrow> Inl (tooLarge outputLabel excess)
           | None \<Rightarrow> Inr [NodeFinished (nr_nodeId run) value None (Some branch)])
      | SpawnResult child input childThreadId \<Rightarrow>
          Inr (spawnRequested d run
            (withDefault childThreadId
              (if nodeType = Some WorkflowNode then nodeChildWorkflowId (nr_threadId run) (nr_nodeId run) (nr_attempt run)
               else fresh)) child input None)
      | SleepResult ms \<Rightarrow>
          Inr [SleepRequested (nr_nodeId run)
            (createWaitId (nr_threadId run)
              (''sleep_'' @ nodeRunKey (nr_nodeId run) (nr_attempt run) (map_option fst (nr_iteration run)))) (now + ms)]
      | EffectsResult effects \<Rightarrow> Inr [EffectsRequested (nr_nodeId run) effects]
      | MapResult child items concurrency \<Rightarrow>
          if items = [] then Inr (finishedEvent run (JArr []) None)
          else let limit = withDefault (wd_checkpointLimitBytes d) defaultCheckpointSizeLimitBytes in
            (case assertJsonWithinLimit bytes (JArr items) (Some limit) of
               Some excess \<Rightarrow> Inl (tooLarge (''Node '' @ nr_nodeId run @ '' items'') excess)
             | None \<Rightarrow> Inr [MapRequested \<lparr>mr_nodeId = nr_nodeId run, mr_attempt = nr_attempt run, mr_kind = ch_kind child,
                 mr_definitionName = ch_name child, mr_definitionVersion = ch_version child, mr_items = items,
                 mr_concurrency = concurrency, mr_limitBytes = limit,
                 mr_execution = withDefault (wd_childExecution d) InThread,
                 mr_close = withDefault (wd_childClose d) Terminate\<rparr>])
      | LoopResult child input maxIterations \<Rightarrow>
          (let index = (case nr_iteration run of Some (i, _) \<Rightarrow> i | None \<Rightarrow> 0) in
           if maxIterations \<le> index
           then Inr (finishedEvent run (case nr_iteration run of Some (_, previous) \<Rightarrow> previous | None \<Rightarrow> JNull) None)
           else Inr (spawnRequested d run
             (iterationChildWorkflowId (nr_threadId run) (nr_nodeId run) ''loop'' (nr_attempt run) index)
             child input (Some index))))"

definition runNode ::
  "(json \<Rightarrow> nat) \<Rightarrow> string \<Rightarrow> number \<Rightarrow> workflow_definition \<Rightarrow> node_run \<Rightarrow> workflow_event list" where
  "runNode bytes fresh now d run =
     (case findNode d (nr_nodeId run) of
        None \<Rightarrow> finishedEvent run JNull (Some (''Unknown node: '' @ nr_nodeId run))
      | Some node \<Rightarrow>
          (case nd_run node \<lparr>nc_threadId = nr_threadId run, nc_nodeId = nr_nodeId run, nc_input = nr_input run,
                  nc_results = nodeResults d (nr_nodes run), nc_iteration = nr_iteration run\<rparr> of
             Inl message \<Rightarrow> finishedEvent run JNull (Some message)
           | Inr result \<Rightarrow>
               (case nodeResultEvents bytes fresh now d (nd_type node) run result of
                  Inl message \<Rightarrow> finishedEvent run JNull (Some message)
                | Inr events \<Rightarrow> events)))"

definition runNodeEffect ::
  "(string \<Rightarrow> string \<Rightarrow> workflow_definition option) \<Rightarrow> (json \<Rightarrow> nat) \<Rightarrow> string \<Rightarrow> number \<Rightarrow> string option \<Rightarrow> string \<Rightarrow>
     node_run \<Rightarrow> workflow_event list" where
  "runNodeEffect resolve bytes fresh now definitionName version run =
     (case Option.bind (truthy definitionName) (\<lambda>name. resolve name version) of
        None \<Rightarrow> finishedEvent run JNull (Some ''Unknown workflow definition'')
      | Some d \<Rightarrow> runNode bytes fresh now d run)"

section \<open>Scheduling makes progress\<close>

lemma everyReturns_total: "(\<And>x. x \<in> set xs \<Longrightarrow> P x = Some (p x)) \<Longrightarrow> everyReturns P xs = Some (list_all p xs)"
  by (induction xs) (auto split: bool.splits)

lemma filterReturns_total: "(\<And>x. x \<in> set xs \<Longrightarrow> P x = Some (p x)) \<Longrightarrow> filterReturns P xs = Some (filter p xs)"
  by (induction xs) auto

lemma filterReturns_mem: "filterReturns P xs = Some ys \<Longrightarrow> x \<in> set ys \<longleftrightarrow> x \<in> set xs \<and> P x = Some True"
  by (induction xs arbitrary: ys) (auto split: option.splits bool.splits if_splits)

abbreviation nodeIdsOf :: "workflow_definition \<Rightarrow> string list" where
  "nodeIdsOf d \<equiv> map nd_id (wd_nodes d)"

text \<open>A fallback drawn as an edge from a node to the node that stands in for it.\<close>

definition fallbackEdges :: "workflow_definition \<Rightarrow> workflow_edge list" where
  "fallbackEdges d = List.map_filter (\<lambda>n. case nd_failure n of
     Some (FallbackTo target) \<Rightarrow> Some \<lparr>eg_source = nd_id n, eg_target = target, eg_label = None\<rparr> | _ \<Rightarrow> None) (wd_nodes d)"

text \<open>No cycle, not even one through fallbacks.\<close>

definition fallbacksInOrder :: "workflow_definition \<Rightarrow> string list \<Rightarrow> bool" where
  "fallbacksInOrder d order \<longleftrightarrow> topologicalSort (nodeIdsOf d) (workflowEdges d @ fallbackEdges d) = Inr order"

text \<open>A node that stands in for another was started with it.\<close>

definition fallbacksStarted :: "workflow_definition \<Rightarrow> node_state dict \<Rightarrow> bool" where
  "fallbacksStarted d states \<longleftrightarrow> list_all (\<lambda>n. case activeFallback n (dget states (nd_id n)) of
     None \<Rightarrow> True | Some target \<Rightarrow> nodeStatusOf states target \<noteq> NodePending) (wd_nodes d)"

definition knownNodes :: "workflow_definition \<Rightarrow> node_state dict \<Rightarrow> bool" where
  "knownNodes d states \<longleftrightarrow> distinct (dkeys states) \<and> set (dkeys states) \<subseteq> set (nodeIdsOf d)"

lemma fallbacksInOrder_facts:
  assumes "fallbacksInOrder d order"
  shows "distinct (nodeIdsOf d)" and "set order = set (nodeIdsOf d)"
    and "\<And>e. e \<in> set (workflowEdges d) \<union> set (fallbackEdges d) \<Longrightarrow>
      eg_source e \<in> set (nodeIdsOf d) \<and> eg_target e \<in> set (nodeIdsOf d) \<and> rank order (eg_source e) < rank order (eg_target e)"
    and "\<exists>xs. topologicalSort (nodeIdsOf d) (workflowEdges d) = Inr xs \<and> set xs = set (nodeIdsOf d)"
proof -
  let ?edges = "workflowEdges d @ fallbackEdges d"
  have out: "distinct (nodeIdsOf d)" "validEdges (nodeIdsOf d) ?edges" "acyclic (edgeRel ?edges)"
      "set order = set (nodeIdsOf d)" "distinct order" "ordered ?edges order"
    using topologicalSort_outcome [of "nodeIdsOf d" ?edges] assms
    by (simp_all add: fallbacksInOrder_def sortOutcome_def)
  show "distinct (nodeIdsOf d)" "set order = set (nodeIdsOf d)" by (fact out)+
  show "eg_source e \<in> set (nodeIdsOf d) \<and> eg_target e \<in> set (nodeIdsOf d) \<and> rank order (eg_source e) < rank order (eg_target e)"
    if "e \<in> set (workflowEdges d) \<union> set (fallbackEdges d)" for e
  proof -
    have e: "e \<in> set ?edges" using that by simp
    then have "eg_source e \<in> set (nodeIdsOf d)" "eg_target e \<in> set (nodeIdsOf d)"
      using out(2) by (simp_all add: validEdges_def)
    with rank_edge [OF out(6,5) e] out(4) show ?thesis by simp
  qed
  have "edgeRel (workflowEdges d) \<subseteq> edgeRel ?edges" by (auto simp: edgeRel_def)
  then have "acyclic (edgeRel (workflowEdges d))" by (rule acyclic_subset [OF out(3)])
  moreover have "validEdges (nodeIdsOf d) (workflowEdges d)" using out(2) by (simp add: validEdges_def)
  ultimately show "\<exists>xs. topologicalSort (nodeIdsOf d) (workflowEdges d) = Inr xs \<and> set xs = set (nodeIdsOf d)"
    using topologicalSort_outcome [of "nodeIdsOf d" "workflowEdges d"] out(1)
    by (auto simp: sortOutcome_def validEdges_def split: sum.splits graph_error.splits)
qed

lemma findNode_Some: "findNode d i = Some n \<Longrightarrow> n \<in> set (wd_nodes d) \<and> nd_id n = i"
  by (auto simp: findNode_def find_Some_iff)

lemma findNode_known: "i \<in> set (nodeIdsOf d) \<Longrightarrow> \<exists>n. findNode d i = Some n"
  by (cases "findNode d i") (auto simp: findNode_def find_None_iff)

lemma activeFallback_Some:
  "activeFallback n st = Some t \<Longrightarrow> nd_failure n = Some (FallbackTo t) \<and> map_option ns_status st = Some NodeSkipped"
  by (auto simp: activeFallback_def split: option.splits failure_policy.splits if_splits)

lemma fallbackEdges_mem:
  "n \<in> set (wd_nodes d) \<Longrightarrow> nd_failure n = Some (FallbackTo t) \<Longrightarrow>
   \<lparr>eg_source = nd_id n, eg_target = t, eg_label = None\<rparr> \<in> set (fallbackEdges d)"
  by (force simp: fallbackEdges_def List.map_filter_def)

lemma settled_unless_pending:
  assumes "fallbacksInOrder d order" and "fallbacksStarted d states"
    and "\<And>i. i \<in> set (nodeIdsOf d) \<Longrightarrow> nodeStatusOf states i \<in> {NodePending, NodeCompleted, NodeSkipped}"
    and "i \<in> set (nodeIdsOf d)"
  shows "isSettled d states i = Some (nodeStatusOf states i \<noteq> NodePending)"
  using assms(4)
proof (induction "length order - rank order i" arbitrary: i rule: less_induct)
  case less
  note facts = fallbacksInOrder_facts [OF assms(1)]
  show ?case
  proof (cases "nodeStatusOf states i = NodeSkipped")
    case False
    with assms(3) [OF less.prems] show ?thesis
      by (subst isSettled.simps) (auto simp: nodeStatusOf_def split: option.splits)
  next
    case True
    then obtain st where st: "dget states i = Some st" "ns_status st = NodeSkipped"
      by (auto simp: nodeStatusOf_def split: option.splits)
    obtain n where n: "findNode d i = Some n" "n \<in> set (wd_nodes d)" "nd_id n = i"
      using findNode_known [OF less.prems] findNode_Some by blast
    show ?thesis
    proof (cases "activeFallback n (Some st)")
      case None
      with st n True show ?thesis by (subst isSettled.simps) simp
    next
      case (Some t)
      then have "nd_failure n = Some (FallbackTo t)" by (rule activeFallback_Some [THEN conjunct1])
      from facts(3) [of "\<lparr>eg_source = nd_id n, eg_target = t, eg_label = None\<rparr>"] fallbackEdges_mem [OF n(2) this] n(3)
      have t: "t \<in> set (nodeIdsOf d)" "rank order i < rank order t" by auto
      have "rank order t < length order"
        using t(1) facts(2) by (intro rank_less) simp
      moreover have "nodeStatusOf states t \<noteq> NodePending"
        using assms(2) n(2,3) st Some by (auto simp: fallbacksStarted_def list_all_iff split: option.splits)
      ultimately have "isSettled d states t = Some True" using less.hyps [of t] t by simp
      with st n Some True show ?thesis by (subst isSettled.simps) simp
    qed
  qed
qed

lemma failurePolicyEvents_None:
  "failurePolicyEvents d states = None
   \<longleftrightarrow> (\<forall>n \<in> set (wd_nodes d). map_option ns_status (dget states (nd_id n)) \<noteq> Some NodeFailed)"
  unfolding failurePolicyEvents_def Let_def by (auto simp: find_None_iff find_Some_iff dest: nth_mem split: option.splits)

lemma nodeStatusOf_known:
  "knownNodes d states \<Longrightarrow> st \<in> set (dvals states) \<Longrightarrow> \<exists>i \<in> set (nodeIdsOf d). dget states i = Some st"
  by (force simp: knownNodes_def)

lemma minimal_pending:
  assumes "i \<in> set (nodeIdsOf d)" and "nodeStatusOf states i = NodePending"
  shows "\<exists>i \<in> set (nodeIdsOf d). nodeStatusOf states i = NodePending
    \<and> (\<forall>j \<in> set (nodeIdsOf d). rank order j < rank order i \<longrightarrow> nodeStatusOf states j \<noteq> NodePending)"
proof -
  let ?P = "\<lambda>i. i \<in> set (nodeIdsOf d) \<and> nodeStatusOf states i = NodePending"
  from assms have "?P i" by blast
  from ex_has_least_nat [of ?P, OF this, of "rank order"]
  obtain k where "?P k" "\<forall>j. ?P j \<longrightarrow> rank order k \<le> rank order j" by blast
  then show ?thesis by (intro bexI [of _ k] conjI ballI impI notI) (blast dest: leD)+
qed

text \<open>A pending node with nothing pending before it is unused, ready or to be skipped.\<close>

lemma pending_resolved:
  assumes order: "fallbacksInOrder d order" and started: "fallbacksStarted d states"
    and calm: "\<And>i. i \<in> set (nodeIdsOf d) \<Longrightarrow> nodeStatusOf states i \<in> {NodePending, NodeCompleted, NodeSkipped}"
    and i: "i \<in> set (nodeIdsOf d)" "nodeStatusOf states i = NodePending"
    and least: "\<forall>j \<in> set (nodeIdsOf d). rank order j < rank order i \<longrightarrow> nodeStatusOf states j \<noteq> NodePending"
  shows "i \<in> set (getUnusedFallbackIds d states)
    \<or> isReady d states (workflowEdges d) i = Some True \<or> isSkippable d states (workflowEdges d) i = Some True"
proof -
  note facts = fallbacksInOrder_facts [OF order]
  let ?incoming = "incomingEdges (workflowEdges d) i"
  have settled: "everyReturns (\<lambda>e. isSettled d states (eg_source e)) ?incoming = Some True"
  proof -
    have "isSettled d states (eg_source e) = Some True" if "e \<in> set ?incoming" for e
    proof -
      from that have "e \<in> set (workflowEdges d)" "eg_target e = i" by (simp_all add: incomingEdges_def)
      with facts(3) [of e] least have "eg_source e \<in> set (nodeIdsOf d)" "nodeStatusOf states (eg_source e) \<noteq> NodePending"
        by auto
      with settled_unless_pending [OF order started calm] show ?thesis by simp
    qed
    then show ?thesis using everyReturns_total [of ?incoming _ "\<lambda>_. True"] by (simp add: list_all_iff)
  qed
  show ?thesis
  proof (cases "i \<in> set (fallbackTargets d)")
    case True
    have "(nodeStatusOf states (nd_id n) = NodeCompleted \<or> nodeStatusOf states (nd_id n) = NodeSkipped)
        \<and> activeFallback n (dget states (nd_id n)) = None"
      if n: "n \<in> set (wd_nodes d)" "nd_failure n = Some (FallbackTo i)" for n
    proof
      from facts(3) [of "\<lparr>eg_source = nd_id n, eg_target = i, eg_label = None\<rparr>"] fallbackEdges_mem [OF n] least n(1)
      have "nodeStatusOf states (nd_id n) \<noteq> NodePending" by auto
      with calm [of "nd_id n"] n(1)
      show "nodeStatusOf states (nd_id n) = NodeCompleted \<or> nodeStatusOf states (nd_id n) = NodeSkipped" by auto
      show "activeFallback n (dget states (nd_id n)) = None"
      proof (rule ccontr)
        assume "activeFallback n (dget states (nd_id n)) \<noteq> None"
        then obtain t where t: "activeFallback n (dget states (nd_id n)) = Some t" by blast
        with activeFallback_Some [OF t] n(2) have "t = i" by simp
        with t started n(1) i(2) show False by (auto simp: fallbacksStarted_def list_all_iff split: option.splits)
      qed
    qed
    with True i(2) have "i \<in> set (getUnusedFallbackIds d states)" by (simp add: getUnusedFallbackIds_def list_all_iff)
    then show ?thesis by blast
  next
    case False
    then show ?thesis
      using i(2) settled by (cases "?incoming = []") (auto simp: isReady_def isSkippable_def Let_def)
  qed
qed

lemma isReady_returns:
  assumes "\<And>e. e \<in> set edges \<Longrightarrow> \<exists>b. isSettled d states (eg_source e) = Some b"
  shows "\<exists>b. isReady d states edges i = Some b" and "\<exists>b. isSkippable d states edges i = Some b"
proof -
  have "everyReturns (\<lambda>e. isSettled d states (eg_source e)) (incomingEdges edges i)
      = Some (list_all (\<lambda>e. the (isSettled d states (eg_source e))) (incomingEdges edges i))"
    by (rule everyReturns_total) (use assms in \<open>auto simp: incomingEdges_def\<close>)
  then show "\<exists>b. isReady d states edges i = Some b" "\<exists>b. isSkippable d states edges i = Some b"
    by (auto simp: isReady_def isSkippable_def Let_def)
qed

lemma inOrder_returns:
  assumes "topologicalSort (nodeIdsOf d) (workflowEdges d) = Inr xs"
    and "\<And>i. \<exists>b. P (workflowEdges d) i = Some b"
  shows "inOrder d P = Some (Inr (filter (\<lambda>i. P (workflowEdges d) i = Some True) xs))"
proof -
  have "filterReturns (P (workflowEdges d)) xs = Some (filter (\<lambda>i. P (workflowEdges d) i = Some True) xs)"
    by (rule filterReturns_total) (use assms(2) in \<open>metis (full_types)\<close>)
  with assms(1) show ?thesis by (simp add: inOrder_def)
qed

lemma schedule_returns_work:
  assumes "fallbacksInOrder d order" and "fallbacksStarted d states" and "knownNodes d states"
    and "1 \<le> withDefault (wd_concurrency d) defaultGraphConcurrency" and "runningCount states = 0"
  shows "\<exists>evs. scheduleEvents bytes d states input = Some (Inr evs) \<and> evs \<noteq> []"
proof (cases "assertJsonWithinLimit bytes input (wd_inputLimitBytes d) \<noteq> None \<or> failurePolicyEvents d states \<noteq> None")
  case True
  then show ?thesis
    by (auto simp: scheduleEvents_def failurePolicyEvents_def Let_def split: option.splits failure_policy.splits)
next
  case False
  then have fine: "assertJsonWithinLimit bytes input (wd_inputLimitBytes d) = None" "failurePolicyEvents d states = None"
    by blast+
  note facts = fallbacksInOrder_facts [OF assms(1)]
  obtain xs where xs: "topologicalSort (nodeIdsOf d) (workflowEdges d) = Inr xs" "set xs = set (nodeIdsOf d)"
    using facts(4) by blast
  have calm: "nodeStatusOf states i \<in> {NodePending, NodeCompleted, NodeSkipped}" if "i \<in> set (nodeIdsOf d)" for i
  proof -
    from fine(2) that have "map_option ns_status (dget states i) \<noteq> Some NodeFailed"
      by (auto simp: failurePolicyEvents_None)
    moreover have "dget states i = Some st \<Longrightarrow> ns_status st \<noteq> NodeRunning" for st
      using assms(5) dget_val [of states i st] by (auto simp: runningCount_def filter_empty_conv)
    ultimately show ?thesis by (cases "nodeStatusOf states i") (auto simp: nodeStatusOf_def split: option.splits)
  qed
  have "isSettled d states (eg_source e) = Some (nodeStatusOf states (eg_source e) \<noteq> NodePending)"
    if "e \<in> set (workflowEdges d)" for e
    using settled_unless_pending [OF assms(1,2) calm] facts(3) that by blast
  then have returns: "\<exists>b. isReady d states (workflowEdges d) i = Some b" "\<exists>b. isSkippable d states (workflowEdges d) i = Some b" for i
    by (intro isReady_returns, blast)+
  let ?skip = "filter (\<lambda>i. isSkippable d states (workflowEdges d) i = Some True) xs"
  let ?ready = "filter (\<lambda>i. isReady d states (workflowEdges d) i = Some True) xs"
  have skip: "getSkippableNodeIds d states = Some (Inr ?skip)"
    unfolding getSkippableNodeIds_def by (rule inOrder_returns [where P = "isSkippable d states", OF xs(1)]) (rule returns(2))
  have ready: "getReadyNodeIds d states = Some (Inr ?ready)"
    unfolding getReadyNodeIds_def by (rule inOrder_returns [where P = "isReady d states", OF xs(1)]) (rule returns(1))
  show ?thesis
  proof (cases "?skip = [] \<and> getUnusedFallbackIds d states = []")
    case False
    with fine skip show ?thesis by (simp add: scheduleEvents_def Let_def)
  next
    case idle: True
    have slots: "0 < freeSlots d states" using assms(4,5) by (simp add: freeSlots_def)
    have pending: "?ready \<noteq> []" if "\<exists>i \<in> set (nodeIdsOf d). nodeStatusOf states i = NodePending"
    proof -
      from that obtain j where j: "j \<in> set (nodeIdsOf d)" "nodeStatusOf states j = NodePending" by blast
      from minimal_pending [OF j, of order] obtain i where i: "i \<in> set (nodeIdsOf d)" "nodeStatusOf states i = NodePending"
          "\<forall>j \<in> set (nodeIdsOf d). rank order j < rank order i \<longrightarrow> nodeStatusOf states j \<noteq> NodePending" by blast
      from pending_resolved [OF assms(1,2) calm i] idle i(1) xs(2) have "isReady d states (workflowEdges d) i = Some True"
        by (auto simp: filter_empty_conv)
      with i(1) xs(2) show ?thesis by (auto simp: filter_empty_conv)
    qed
    have "\<exists>evs. startOrFinish bytes d states input = Some (Inr evs) \<and> evs \<noteq> []"
    proof (cases "?ready = []")
      case False
      with slots ready show ?thesis by (simp add: startOrFinish_def Let_def)
    next
      case True
      have "\<not> list_ex (\<lambda>st. ns_status st = NodePending \<or> ns_status st = NodeRunning) (dvals states)"
      proof
        assume "list_ex (\<lambda>st. ns_status st = NodePending \<or> ns_status st = NodeRunning) (dvals states)"
        then obtain st where st: "st \<in> set (dvals states)" "ns_status st = NodePending \<or> ns_status st = NodeRunning"
          by (auto simp: list_ex_iff)
        from nodeStatusOf_known [OF assms(3) st(1)] obtain i where i: "i \<in> set (nodeIdsOf d)" "dget states i = Some st" by blast
        then have "nodeStatusOf states i = ns_status st" by (simp add: nodeStatusOf_def)
        with st(2) calm [OF i(1)] have "nodeStatusOf states i = NodePending" by auto
        with i(1) have "?ready \<noteq> []" by (intro pending) blast
        with True show False by blast
      qed
      with True ready show ?thesis by (simp add: startOrFinish_def Let_def split: option.splits)
    qed
    with fine skip idle show ?thesis by (simp add: scheduleEvents_def Let_def)
  qed
qed

section \<open>A definition that is accepted and never runs\<close>

definition plainNode :: "string \<Rightarrow> string list \<Rightarrow> failure_policy option \<Rightarrow> workflow_node" where
  "plainNode i deps policy = \<lparr>nd_id = i, nd_deps = Some deps, nd_type = None, nd_failure = policy,
     nd_run = (\<lambda>_. Inr (ValueResult JNull))\<rparr>"

definition plainWorkflow :: "workflow_node list \<Rightarrow> workflow_definition" where
  "plainWorkflow nodes = \<lparr>wd_name = ''w'', wd_version = None, wd_nodes = nodes, wd_edges = None, wd_concurrency = None,
     wd_inputLimitBytes = None, wd_outputLimitBytes = None, wd_checkpointLimitBytes = None, wd_childExecution = None,
     wd_childClose = None, wd_output = None\<rparr>"

definition pendingStates :: "workflow_definition \<Rightarrow> node_state dict" where
  "pendingStates d = map (\<lambda>n. (nd_id n, freshNode NodePending)) (wd_nodes d)"

text \<open>
  Fallbacks take no part in the search for cycles. Node \<open>d\<close> needs \<open>f\<close>, node \<open>p\<close> needs \<open>d\<close>, and \<open>p\<close> falls back
  to \<open>f\<close>: \<open>f\<close> waits to see whether \<open>p\<close> falls back, \<open>d\<close> waits for \<open>f\<close> and \<open>p\<close> for \<open>d\<close>.
\<close>

definition deadlocked :: workflow_definition where
  "deadlocked = plainWorkflow [plainNode ''f'' [] None, plainNode ''d'' [''f''] None,
     plainNode ''p'' [''d''] (Some (FallbackTo ''f''))]"

abbreviation "definedDeadlock \<equiv> deadlocked\<lparr>wd_version := Some ''v1'', wd_concurrency := Some 8\<rparr>"

lemma deadlocked_stuck:
  "resolveGraphConcurrency (wd_concurrency deadlocked) = Inr 8"
  "topologicalSort (nodeIdsOf definedDeadlock) (workflowEdges definedDeadlock) = Inr [''f'', ''d'', ''p'']"
  "checkPolicies definedDeadlock (wd_nodes definedDeadlock) = None"
  "wd_version deadlocked = None"
  "failurePolicyEvents definedDeadlock (pendingStates deadlocked) = None"
  "getSkippableNodeIds definedDeadlock (pendingStates deadlocked) = Some (Inr [])"
  "getUnusedFallbackIds definedDeadlock (pendingStates deadlocked) = []"
  "getReadyNodeIds definedDeadlock (pendingStates deadlocked) = Some (Inr [])"
  "list_ex (\<lambda>st. ns_status st = NodePending \<or> ns_status st = NodeRunning) (dvals (pendingStates deadlocked))"
  by code_simp+

lemma fallback_deadlock:
  "\<exists>d. defineWorkflow deadlocked = Inr d \<and> scheduleEvents (\<lambda>_. 0) d (pendingStates deadlocked) JNull = Some (Inr [])"
proof (intro exI conjI)
  show "defineWorkflow deadlocked = Inr definedDeadlock"
    using deadlocked_stuck(1-4) by (simp add: defineWorkflow_def Let_def defaultDefinitionVersion_def)
  show "scheduleEvents (\<lambda>_. 0) definedDeadlock (pendingStates deadlocked) JNull = Some (Inr [])"
    using deadlocked_stuck(5-9) by (simp add: scheduleEvents_def startOrFinish_def assertJsonWithinLimit_def Let_def)
qed

end
