(* ===== verification/Workflow_Threads.thy ===== *)
theory Workflow_Threads
  imports Workflow_Schedule
begin

text \<open>
  \<open>packages/workflow/src/threads.ts\<close>: the workflow thread. Its state holds the states of the nodes and the
  work each running node waits for; \<open>workflowStep\<close> takes a typed event, \<open>workflowEffects\<close> lists what the
  thread asks the host for. An index in the tag of a wait is one the thread wrote: a natural number. The
  outputs of a map are keyed by the index of the item. A tag that the thread puts on an effect without a
  tag of its own is kept where the effect has a place for one.
\<close>

section \<open>State\<close>

record pending_map = map_request +
  pm_nextIndex :: nat
  pm_outputs :: "(nat \<times> json) list"

record pending_sleep =
  pz_waitId :: string
  pz_wakeAt :: number
  pz_nodeId :: string

record pending_effects =
  pe_nodeId :: string
  pe_effects :: "runtime_effect list"

record pending_emit =
  pt_id :: string
  pt_event :: event_input

datatype workflow_status = WorkflowRunning | WorkflowDone | WorkflowBroken

record workflow_state =
  ws_definitionName :: "string option"
  ws_definitionVersion :: "string option"
  ws_nodes :: "node_state dict"
  ws_concurrency :: number
  ws_input :: json
  ws_nodeIds :: "string list"
  ws_needsSchedule :: bool
  ws_runningNodes :: "string list"
  ws_pendingSpawns :: "pending_spawn list"
  ws_pendingMaps :: "pending_map list"
  ws_pendingSleeps :: "pending_sleep list"
  ws_pendingEffects :: "pending_effects list"
  ws_pendingEmits :: "pending_emit list"
  ws_pendingCancels :: "string list"
  ws_status :: workflow_status
  ws_error :: "string option"

definition initialState :: "string option \<Rightarrow> string option \<Rightarrow> json \<Rightarrow> workflow_state" where
  "initialState definitionName definitionVersion input = \<lparr>ws_definitionName = definitionName,
     ws_definitionVersion = definitionVersion, ws_nodes = [], ws_concurrency = 8, ws_input = input, ws_nodeIds = [],
     ws_needsSchedule = False, ws_runningNodes = [], ws_pendingSpawns = [], ws_pendingMaps = [], ws_pendingSleeps = [],
     ws_pendingEffects = [], ws_pendingEmits = [], ws_pendingCancels = [], ws_status = WorkflowRunning, ws_error = None\<rparr>"

section \<open>Invocations\<close>

definition statusName :: "node_status \<Rightarrow> string" where
  "statusName st = (case st of NodePending \<Rightarrow> ''pending'' | NodeRunning \<Rightarrow> ''running''
     | NodeCompleted \<Rightarrow> ''completed'' | NodeFailed \<Rightarrow> ''failed'' | NodeSkipped \<Rightarrow> ''skipped'')"

definition iterationJson :: "nat \<times> json \<Rightarrow> json" where
  "iterationJson i = JObj [(''index'', JNum (of_nat (fst i))), (''previous'', snd i)]"

definition causeName :: "skip_cause \<Rightarrow> string" where
  "causeName c = (case c of Inactive \<Rightarrow> ''inactive'' | Policy \<Rightarrow> ''policy'')"

definition nodeStateJson :: "node_state \<Rightarrow> json" where
  "nodeStateJson st = JObj
     ([(''status'', JStr (statusName (ns_status st))), (''result'', ns_result st),
       (''error'', case ns_error st of None \<Rightarrow> JNull | Some e \<Rightarrow> JStr e)]
      @ optField ''attempts'' (\<lambda>n. JNum (of_nat n)) (ns_attempts st)
      @ optField ''branch'' JStr (ns_branch st)
      @ optField ''skipCause'' (\<lambda>c. JStr (causeName c)) (ns_skipCause st)
      @ optField ''iteration'' iterationJson (ns_iteration st))"

definition nodesJson :: "node_state dict \<Rightarrow> json" where
  "nodesJson states = JObj (map (\<lambda>(i, st). (i, nodeStateJson st)) states)"

definition scheduleInvocation :: "workflow_state \<Rightarrow> runtime_effect" where
  "scheduleInvocation s = InvokeEffect ''workflow.schedule''
     (JObj (optField ''definitionName'' JStr (ws_definitionName s)
       @ [(''definitionVersion'', JStr (withDefault (ws_definitionVersion s) defaultDefinitionVersion)),
          (''nodes'', nodesJson (ws_nodes s)), (''input'', ws_input s)])) None None"

definition runNodeInvocation :: "workflow_state \<Rightarrow> string \<Rightarrow> runtime_effect" where
  "runNodeInvocation s nodeId =
     (let node = dget (ws_nodes s) nodeId;
          attempts = withDefault (Option.bind node ns_attempts) 1;
          iteration = Option.bind node ns_iteration
      in InvokeEffect ''workflow.runNode''
        (JObj (optField ''definitionName'' JStr (ws_definitionName s)
          @ [(''definitionVersion'', JStr (withDefault (ws_definitionVersion s) defaultDefinitionVersion)),
             (''nodeId'', JStr nodeId), (''attempt'', JNum (of_nat attempts))]
          @ optField ''iteration'' iterationJson iteration
          @ [(''input'', ws_input s), (''nodes'', nodesJson (ws_nodes s))]))
        (Some (''runNode_'' @ nodeRunKey nodeId attempts (map_option fst iteration))) None)"

text \<open>\<open>kind\<close>, name and version of a child with how it runs and closes.\<close>

record child_spec =
  cs_kind :: string
  cs_definitionName :: string
  cs_definitionVersion :: string
  cs_execution :: child_execution
  cs_close :: child_close

definition spawnSpec :: "pending_spawn \<Rightarrow> child_spec" where
  "spawnSpec p = \<lparr>cs_kind = ps_kind p, cs_definitionName = ps_definitionName p,
     cs_definitionVersion = ps_definitionVersion p, cs_execution = ps_execution p, cs_close = ps_close p\<rparr>"

definition mapSpec :: "'a map_request_scheme \<Rightarrow> child_spec" where
  "mapSpec m = \<lparr>cs_kind = mr_kind m, cs_definitionName = mr_definitionName m,
     cs_definitionVersion = mr_definitionVersion m, cs_execution = mr_execution m, cs_close = mr_close m\<rparr>"

definition spawnAndWait ::
  "string \<Rightarrow> string \<Rightarrow> child_spec \<Rightarrow> string \<Rightarrow> json \<Rightarrow> json \<Rightarrow> runtime_effect list" where
  "spawnAndWait runId threadId child childThreadId input tag =
     (case cs_execution child of
        InRun \<Rightarrow>
          (let childRunId = deterministicRunId [runId, childThreadId] in
           [LaunchEffect childRunId (cs_kind child) (cs_definitionName child) (cs_definitionVersion child) input
              (cs_close child) (Some (''launch_'' @ childRunId)),
            WaitEffect (createWaitId threadId (''spawn_'' @ childRunId))
              (WaitOnEvent (OneType ''runtime.child.settled'') (Some (JObj [(''runId'', JStr childRunId)]))) (Some tag)])
      | InThread \<Rightarrow>
          [SpawnEffect childThreadId (cs_kind child) (cs_definitionName child) (cs_definitionVersion child) input,
           WaitEffect (createWaitId threadId (''spawn_'' @ childThreadId))
             (WaitOnEvent (AnyType [''runtime.thread.completed'', ''runtime.thread.failed''])
               (Some (JObj [(''threadId'', JStr childThreadId)]))) (Some tag)])"

definition mapChildThreadId :: "string \<Rightarrow> 'a map_request_scheme \<Rightarrow> nat \<Rightarrow> string" where
  "mapChildThreadId threadId m index = iterationChildWorkflowId threadId (mr_nodeId m) ''map'' (mr_attempt m) index"

text \<open>The items of a map that have a child and no output yet.\<close>

definition openIndexes :: "pending_map \<Rightarrow> nat list" where
  "openIndexes m = filter (\<lambda>i. map_of (pm_outputs m) i = None) [0..<pm_nextIndex m]"

section \<open>What a node needs\<close>

definition spawnEffects :: "string \<Rightarrow> string \<Rightarrow> pending_spawn \<Rightarrow> runtime_effect list" where
  "spawnEffects runId threadId p = spawnAndWait runId threadId (spawnSpec p) (ps_childThreadId p) (ps_input p)
     (JObj [(''nodeId'', JStr (ps_nodeId p)), (''attempt'', JNum (of_nat (ps_attempt p))),
       (''loopIndex'', case ps_loopIndex p of None \<Rightarrow> JNull | Some i \<Rightarrow> JNum (of_nat i))])"

definition itemEffects :: "string \<Rightarrow> string \<Rightarrow> pending_map \<Rightarrow> nat \<Rightarrow> runtime_effect list" where
  "itemEffects runId threadId m index = spawnAndWait runId threadId (mapSpec m) (mapChildThreadId threadId m index)
     (if index < length (mr_items m) then mr_items m ! index else JNull)
     (JObj [(''nodeId'', JStr (mr_nodeId m)), (''attempt'', JNum (of_nat (mr_attempt m))), (''index'', JNum (of_nat index))])"

definition nodeEffects :: "workflow_state \<Rightarrow> string \<Rightarrow> string \<Rightarrow> (string \<times> runtime_effect) list" where
  "nodeEffects s threadId runId =
     map (\<lambda>i. (i, runNodeInvocation s i)) (ws_runningNodes s)
     @ concat (map (\<lambda>p. map (Pair (ps_nodeId p)) (spawnEffects runId threadId p)) (ws_pendingSpawns s))
     @ concat (map (\<lambda>m. concat (map (\<lambda>i. map (Pair (mr_nodeId m)) (itemEffects runId threadId m i)) (openIndexes m)))
         (ws_pendingMaps s))
     @ map (\<lambda>z. (pz_nodeId z, WaitEffect (pz_waitId z) (WaitOnTimer (pz_wakeAt z))
         (Some (JObj [(''nodeId'', JStr (pz_nodeId z))])))) (ws_pendingSleeps s)
     @ concat (map (\<lambda>p. map (Pair (pe_nodeId p)) (pe_effects p)) (ws_pendingEffects s))"

definition nodeIdForEffect :: "workflow_state \<Rightarrow> string \<Rightarrow> string \<Rightarrow> string \<Rightarrow> string option" where
  "nodeIdForEffect s threadId runId effectId =
     map_option fst (find (\<lambda>(_, e). stableEffectId threadId e = Some effectId) (nodeEffects s threadId runId))"

definition childTarget :: "string \<Rightarrow> string \<Rightarrow> child_execution \<Rightarrow> string" where
  "childTarget runId childThreadId execution =
     (if execution = InRun then deterministicRunId [runId, childThreadId] else childThreadId)"

text \<open>The children a node started that have not reported back, by what names them.\<close>

definition unsettledChildren :: "workflow_state \<Rightarrow> string \<Rightarrow> string \<Rightarrow> string \<Rightarrow> string list" where
  "unsettledChildren s nodeId threadId runId =
     map (\<lambda>p. childTarget runId (ps_childThreadId p) (ps_execution p))
       (filter (\<lambda>p. ps_nodeId p = nodeId) (ws_pendingSpawns s))
     @ concat (map (\<lambda>m. map (\<lambda>i. childTarget runId (mapChildThreadId threadId m i) (mr_execution m)) (openIndexes m))
         (filter (\<lambda>m. mr_nodeId m = nodeId) (ws_pendingMaps s)))"

section \<open>Ending the work of a node\<close>

definition withoutPendingWork ::
  "workflow_state \<Rightarrow> string \<Rightarrow> string \<Rightarrow> string \<Rightarrow> string option \<Rightarrow> workflow_state" where
  "withoutPendingWork s nodeId threadId runId settled =
     (let cancels = filter (\<lambda>t. Some t \<noteq> settled \<and> \<not> List.member (ws_pendingCancels s) t)
            (unsettledChildren s nodeId threadId runId)
      in s\<lparr>ws_pendingCancels := ws_pendingCancels s @ cancels,
           ws_pendingSpawns := filter (\<lambda>p. ps_nodeId p \<noteq> nodeId) (ws_pendingSpawns s),
           ws_pendingMaps := filter (\<lambda>m. mr_nodeId m \<noteq> nodeId) (ws_pendingMaps s),
           ws_pendingSleeps := filter (\<lambda>z. pz_nodeId z \<noteq> nodeId) (ws_pendingSleeps s),
           ws_pendingEffects := filter (\<lambda>p. pe_nodeId p \<noteq> nodeId) (ws_pendingEffects s)\<rparr>)"

definition stopNode :: "workflow_state \<Rightarrow> string \<Rightarrow> string \<Rightarrow> string \<Rightarrow> workflow_state" where
  "stopNode s nodeId threadId runId =
     (let t = withoutPendingWork s nodeId threadId runId None
      in t\<lparr>ws_runningNodes := filter (\<lambda>i. i \<noteq> nodeId) (ws_runningNodes s)\<rparr>)"

definition finishedId :: "string \<Rightarrow> string" where
  "finishedId nodeId = ''finished_'' @ nodeId"

definition finishedInput :: "string \<Rightarrow> string \<Rightarrow> json \<Rightarrow> string option \<Rightarrow> event_input" where
  "finishedInput threadId nodeId result error =
     (eventInput ''workflow.node.finished'' (JObj
        [(''nodeId'', JStr nodeId), (''result'', result),
         (''error'', case error of None \<Rightarrow> JNull | Some e \<Rightarrow> JStr e)]))\<lparr>in_threadId := Val threadId\<rparr>"

definition finishNode ::
  "workflow_state \<Rightarrow> string \<Rightarrow> json \<Rightarrow> string option \<Rightarrow> string \<Rightarrow> string \<Rightarrow> string option \<Rightarrow> workflow_state" where
  "finishNode s nodeId result error threadId runId settled =
     (withoutPendingWork s nodeId threadId runId settled)
       \<lparr>ws_pendingEmits := filter (\<lambda>p. pt_id p \<noteq> finishedId nodeId) (ws_pendingEmits s)
          @ [\<lparr>pt_id = finishedId nodeId, pt_event = finishedInput threadId nodeId result error\<rparr>]\<rparr>"

definition outputsJson :: "(nat \<times> json) list \<Rightarrow> json" where
  "outputsJson outputs = JObj (map (\<lambda>(i, out). (showNat i, out)) outputs)"

definition orderedOutputs :: "pending_map \<Rightarrow> (nat \<times> json) list \<Rightarrow> json" where
  "orderedOutputs m outputs = JArr (map (\<lambda>i. withDefault (map_of outputs i) JNull) [0..<length (mr_items m)])"

text \<open>The pending map of the node of \<open>m\<close> with one more output, and one more item started if one is left.\<close>

definition advanceMap :: "pending_map \<Rightarrow> (nat \<times> json) list \<Rightarrow> pending_map \<Rightarrow> pending_map" where
  "advanceMap m outputs item =
     (if mr_nodeId item = mr_nodeId m
      then item\<lparr>pm_outputs := outputs, pm_nextIndex := min (length (mr_items m)) (pm_nextIndex m + 1)\<rparr> else item)"

definition recordMapOutput ::
  "(json \<Rightarrow> nat) \<Rightarrow> workflow_state \<Rightarrow> pending_map \<Rightarrow> nat \<Rightarrow> json \<Rightarrow> string \<Rightarrow> string \<Rightarrow> workflow_state" where
  "recordMapOutput bytes s m index output threadId runId =
     (if map_of (pm_outputs m) index \<noteq> None then s
      else let settled = childTarget runId (mapChildThreadId threadId m index) (mr_execution m);
               outputs = pm_outputs m @ [(index, output)];
               total = bytes (outputsJson outputs)
           in if mr_limitBytes m < total
              then finishNode s (mr_nodeId m) JNull
                (Some (tooLarge (''Node '' @ mr_nodeId m @ '' outputs'') (total, mr_limitBytes m))) threadId runId (Some settled)
              else if length outputs = length (mr_items m)
              then finishNode s (mr_nodeId m) (orderedOutputs m outputs) None threadId runId (Some settled)
              else s\<lparr>ws_pendingMaps := map (advanceMap m outputs) (ws_pendingMaps s)\<rparr>)"

definition isCurrentAttempt :: "workflow_state \<Rightarrow> string \<Rightarrow> json option \<Rightarrow> bool" where
  "isCurrentAttempt s nodeId attempt =
     (case dget (ws_nodes s) nodeId of
        None \<Rightarrow> False
      | Some node \<Rightarrow> ns_status node = NodeRunning
          \<and> (attempt = None \<or> attempt = map_option (\<lambda>n. JNum (of_nat n)) (ns_attempts node)))"

section \<open>The step\<close>

text \<open>What a workflow thread is delivered, decoded by the schemas of the events.\<close>

datatype thread_event =
    ThreadStartedEvent string "string option" "json option"
    \<comment> \<open>definition name, version, input\<close>
  | WorkflowEvent workflow_event
  | EffectFailedEvent "string option" string
    \<comment> \<open>effect id, error\<close>
  | WaitSatisfiedEvent "json option" "json option"
    \<comment> \<open>tag, event\<close>
  | OtherEvent

definition workflowThreadStarted :: "workflow_state \<Rightarrow> string \<Rightarrow> string option \<Rightarrow> json option \<Rightarrow> workflow_state" where
  "workflowThreadStarted s definitionName definitionVersion input =
     (let nodeIds = (case dget (asObject (withDefault input JNull)) ''nodeIds'' of
            Some (JArr items) \<Rightarrow> List.map_filter (\<lambda>j. case j of JStr i \<Rightarrow> Some i | _ \<Rightarrow> None) items
          | _ \<Rightarrow> ws_nodeIds s)
      in s\<lparr>ws_definitionName := orElse (truthy (Some definitionName)) (ws_definitionName s),
           ws_definitionVersion := Some (withDefault (orElse definitionVersion (ws_definitionVersion s)) defaultDefinitionVersion),
           ws_nodes := foldl (\<lambda>m i. dput i (freshNode NodePending) m) [] nodeIds,
           ws_nodeIds := nodeIds,
           ws_input := (if withDefault input JNull = JNull then ws_input s else withDefault input JNull), ws_needsSchedule := True\<rparr>)"

definition nodeStarted :: "workflow_state \<Rightarrow> string \<Rightarrow> workflow_state" where
  "nodeStarted s nodeId =
     (if nodeId = '''' then s
      else s\<lparr>ws_nodes := dput nodeId ((freshNode NodeRunning)
               \<lparr>ns_attempts := Some (withDefault (Option.bind (dget (ws_nodes s) nodeId) ns_attempts) 0 + 1)\<rparr>) (ws_nodes s),
             ws_runningNodes := (if List.member (ws_runningNodes s) nodeId then ws_runningNodes s
               else ws_runningNodes s @ [nodeId]),
             ws_needsSchedule := False\<rparr>)"

definition nodeFinished ::
  "workflow_state \<Rightarrow> string \<Rightarrow> string \<Rightarrow> string \<Rightarrow> json \<Rightarrow> string option \<Rightarrow> string option \<Rightarrow> workflow_state" where
  "nodeFinished s threadId runId nodeId result error branch =
     (if nodeId = '''' then s
      else let failure = truthy error in
        (stopNode s nodeId threadId runId)
          \<lparr>ws_nodes := dput nodeId \<lparr>ns_status = (if failure \<noteq> None then NodeFailed else NodeCompleted),
               ns_result = result, ns_error = failure,
               ns_attempts = Some (withDefault (Option.bind (dget (ws_nodes s) nodeId) ns_attempts) 1),
               ns_branch = branch, ns_skipCause = None, ns_iteration = None\<rparr> (ws_nodes s),
             ws_pendingEmits := filter (\<lambda>p. pt_id p \<noteq> finishedId nodeId) (ws_pendingEmits s),
             ws_error := orElse failure (ws_error s), ws_needsSchedule := True\<rparr>)"

definition nodeSkipped ::
  "workflow_state \<Rightarrow> string \<Rightarrow> string \<Rightarrow> string \<Rightarrow> string \<Rightarrow> skip_cause \<Rightarrow> workflow_state" where
  "nodeSkipped s threadId runId nodeId reason cause =
     (stopNode s nodeId threadId runId)
       \<lparr>ws_nodes := dput nodeId \<lparr>ns_status = NodeSkipped, ns_result = JNull, ns_error = Some reason,
            ns_attempts = Some (withDefault (Option.bind (dget (ws_nodes s) nodeId) ns_attempts) 0),
            ns_branch = None, ns_skipCause = Some cause, ns_iteration = None\<rparr> (ws_nodes s),
          ws_needsSchedule := True\<rparr>"

definition spawnWanted :: "workflow_state \<Rightarrow> pending_spawn \<Rightarrow> workflow_state" where
  "spawnWanted s p =
     (if \<not> isCurrentAttempt s (ps_nodeId p) (Some (JNum (of_nat (ps_attempt p)))) then s
      else s\<lparr>ws_pendingSpawns := filter (\<lambda>q. ps_nodeId q \<noteq> ps_nodeId p) (ws_pendingSpawns s) @ [p]\<rparr>)"

definition startedMap :: "map_request \<Rightarrow> pending_map" where
  "startedMap m = map_request.extend m
     (pending_map.fields (min (nat \<lceil>mr_concurrency m\<rceil>) (length (mr_items m))) [])"

definition mapWanted :: "workflow_state \<Rightarrow> map_request \<Rightarrow> workflow_state" where
  "mapWanted s m =
     (if \<not> isCurrentAttempt s (mr_nodeId m) (Some (JNum (of_nat (mr_attempt m)))) then s
      else s\<lparr>ws_pendingMaps := filter (\<lambda>q. mr_nodeId q \<noteq> mr_nodeId m) (ws_pendingMaps s) @ [startedMap m]\<rparr>)"

definition sleepWanted :: "workflow_state \<Rightarrow> string \<Rightarrow> string \<Rightarrow> number \<Rightarrow> workflow_state" where
  "sleepWanted s nodeId waitId wakeAt =
     (if waitId = '''' \<or> nodeId = '''' then s
      else s\<lparr>ws_pendingSleeps := filter (\<lambda>z. pz_nodeId z \<noteq> nodeId) (ws_pendingSleeps s)
        @ [\<lparr>pz_waitId = waitId, pz_wakeAt = wakeAt, pz_nodeId = nodeId\<rparr>]\<rparr>)"

text \<open>A wait carries the node and its attempt in its tag; another effect without a tag gets one.\<close>

definition scopedEffect :: "string \<Rightarrow> nat \<Rightarrow> string \<Rightarrow> nat \<Rightarrow> runtime_effect \<Rightarrow> runtime_effect" where
  "scopedEffect nodeId attempts key idx e =
     (let tag = Some (key @ ''_'' @ effectType e @ ''_'' @ showNat idx) in
      case e of
        WaitEffect w on old \<Rightarrow> WaitEffect w on (Some (JObj
          (dput ''attempt'' (JNum (of_nat attempts)) (dput ''nodeId'' (JStr nodeId) (asObject (withDefault old JNull))))))
      | EmitEffect ev None \<Rightarrow> EmitEffect ev tag
      | CancelEffect t None \<Rightarrow> CancelEffect t tag
      | LaunchEffect r k n v i c None \<Rightarrow> LaunchEffect r k n v i c tag
      | CancelRunEffect r None \<Rightarrow> CancelRunEffect r tag
      | InvokeEffect t i None due \<Rightarrow> InvokeEffect t i tag due
      | _ \<Rightarrow> e)"

definition effectsWanted :: "workflow_state \<Rightarrow> string \<Rightarrow> runtime_effect list \<Rightarrow> workflow_state" where
  "effectsWanted s nodeId effects =
     (if nodeId = '''' then s
      else let node = dget (ws_nodes s) nodeId;
               attempts = withDefault (Option.bind node ns_attempts) 1;
               key = nodeRunKey nodeId attempts (map_option fst (Option.bind node ns_iteration))
           in s\<lparr>ws_pendingEffects := filter (\<lambda>p. pe_nodeId p \<noteq> nodeId) (ws_pendingEffects s)
                @ [\<lparr>pe_nodeId = nodeId,
                    pe_effects = map (\<lambda>(idx, e). scopedEffect nodeId attempts key idx e) (enumerate 0 effects)\<rparr>]\<rparr>)"

definition effectFailed ::
  "workflow_state \<Rightarrow> string \<Rightarrow> string \<Rightarrow> string option \<Rightarrow> string \<Rightarrow> workflow_state" where
  "effectFailed s threadId runId effectId error' =
     (let error = (if error' = '''' then ''effect failed'' else error') in
      if isWithdrawnError error then s
      else (case truthy (Option.bind effectId (nodeIdForEffect s threadId runId)) of
              None \<Rightarrow> s
            | Some nodeId \<Rightarrow>
                (let message = ''Node '' @ nodeId @ '' failed: '' @ error in
                 (finishNode (stopNode s nodeId threadId runId) nodeId JNull (Some message) threadId runId None)
                   \<lparr>ws_nodes := dput nodeId ((freshNode NodeFailed)\<lparr>ns_error := Some message,
                        ns_attempts := Option.bind (dget (ws_nodes s) nodeId) ns_attempts\<rparr>) (ws_nodes s)\<rparr>)))"

text \<open>The thread or run that a satisfying event says has ended.\<close>

definition settledBy :: "json option \<Rightarrow> string option" where
  "settledBy event =
     (let payload = asObject (withDefault (dget (asObject (withDefault event JNull)) ''payload'') JNull)
      in orElse (readString payload ''runId'') (readString payload ''threadId''))"

definition readIndex :: "json dict \<Rightarrow> string \<Rightarrow> nat option" where
  "readIndex p k = map_option (\<lambda>n. nat \<lfloor>n\<rfloor>) (readNumber p k)"

definition waitDone ::
  "(json \<Rightarrow> nat) \<Rightarrow> workflow_state \<Rightarrow> string \<Rightarrow> string \<Rightarrow> json option \<Rightarrow> json option \<Rightarrow> workflow_state" where
  "waitDone bytes s threadId runId tag event =
     (case tag of
        Some (JObj fs) \<Rightarrow>
          (case readString fs ''nodeId'' of
             None \<Rightarrow> s
           | Some nodeId \<Rightarrow>
               if \<not> isCurrentAttempt s nodeId (dget fs ''attempt'') then s
               else (case waitOutcome event tag (Some (JObj [(''waited'', JBool True)])) of
                 Inl error \<Rightarrow> finishNode s nodeId JNull (Some error) threadId runId (settledBy event)
               | Inr result \<Rightarrow>
                   (case (find (\<lambda>m. mr_nodeId m = nodeId) (ws_pendingMaps s), readIndex fs ''index'') of
                      (Some m, Some index) \<Rightarrow> recordMapOutput bytes s m index result threadId runId
                    | _ \<Rightarrow>
                        (case (dget (ws_nodes s) nodeId, readIndex fs ''loopIndex'') of
                           (Some node, Some loopIndex) \<Rightarrow>
                             s\<lparr>ws_nodes := dput nodeId (node\<lparr>ns_iteration := Some (loopIndex + 1, result)\<rparr>) (ws_nodes s),
                               ws_pendingSpawns := filter (\<lambda>p. ps_nodeId p \<noteq> nodeId) (ws_pendingSpawns s)\<rparr>
                         | _ \<Rightarrow> finishNode s nodeId result None threadId runId (settledBy event)))))
      | _ \<Rightarrow> s)"

definition workflowStep ::
  "(json \<Rightarrow> nat) \<Rightarrow> string \<Rightarrow> string \<Rightarrow> workflow_state \<Rightarrow> thread_event \<Rightarrow> workflow_state" where
  "workflowStep bytes threadId runId s event = (case event of
     ThreadStartedEvent name version input \<Rightarrow> workflowThreadStarted s name version input
   | WorkflowEvent (NodeStarted nodeId) \<Rightarrow> nodeStarted s nodeId
   | WorkflowEvent (NodeFinished nodeId result error branch) \<Rightarrow> nodeFinished s threadId runId nodeId result error branch
   | WorkflowEvent (NodeSkippedEvent nodeId reason cause) \<Rightarrow> nodeSkipped s threadId runId nodeId reason cause
   | WorkflowEvent (SpawnRequested p) \<Rightarrow> spawnWanted s p
   | WorkflowEvent (MapRequested m) \<Rightarrow> mapWanted s m
   | WorkflowEvent (SleepRequested nodeId waitId wakeAt) \<Rightarrow> sleepWanted s nodeId waitId wakeAt
   | WorkflowEvent (EffectsRequested nodeId effects) \<Rightarrow> effectsWanted s nodeId effects
   | WorkflowEvent (WorkflowFailed _) \<Rightarrow> s
   | WorkflowEvent (WorkflowCompleted _) \<Rightarrow> s
   | EffectFailedEvent effectId error \<Rightarrow> effectFailed s threadId runId effectId error
   | WaitSatisfiedEvent tag event \<Rightarrow> waitDone bytes s threadId runId tag event
   | OtherEvent \<Rightarrow> s)"

section \<open>The effects\<close>

definition cancelChild :: "string \<Rightarrow> runtime_effect" where
  "cancelChild childId =
     (if startsWith childId ''run_'' then CancelRunEffect childId (Some (''cancel_'' @ childId)) else CancelEffect childId None)"

definition workflowEffects :: "workflow_state \<Rightarrow> string \<Rightarrow> string \<Rightarrow> runtime_effect list" where
  "workflowEffects s threadId runId =
     (if ws_needsSchedule s then [scheduleInvocation s] else [])
     @ map snd (nodeEffects s threadId runId)
     @ map (\<lambda>p. EmitEffect (pt_event p) None) (ws_pendingEmits s)
     @ map cancelChild (ws_pendingCancels s)
     @ (if ws_status s = WorkflowBroken then [FailEffect (withDefault (ws_error s) ''Workflow execution failed'')] else [])"

end
