(* ===== verification/Workflow_Properties.thy ===== *)
theory Workflow_Properties
  imports Workflow_Threads
begin

text \<open>
  What the workflow thread promises over every run. \<open>workflow_step\<close> is one event of a workflow: the events
  the schedule effect plans from the current states, the end of a running or failed node, what a running
  node asks for, the failure of an effect and the satisfaction of a wait. \<open>workflow_ok\<close> is what every
  reachable state keeps.
\<close>

section \<open>Frames\<close>

lemma withoutPendingWork_simps [simp]:
  "ws_nodes (withoutPendingWork s i t r c) = ws_nodes s"
  "ws_input (withoutPendingWork s i t r c) = ws_input s"
  "ws_needsSchedule (withoutPendingWork s i t r c) = ws_needsSchedule s"
  "ws_runningNodes (withoutPendingWork s i t r c) = ws_runningNodes s"
  "ws_pendingEmits (withoutPendingWork s i t r c) = ws_pendingEmits s"
  "ws_pendingSpawns (withoutPendingWork s i t r c) = filter (\<lambda>p. ps_nodeId p \<noteq> i) (ws_pendingSpawns s)"
  "ws_pendingMaps (withoutPendingWork s i t r c) = filter (\<lambda>m. mr_nodeId m \<noteq> i) (ws_pendingMaps s)"
  "ws_pendingSleeps (withoutPendingWork s i t r c) = filter (\<lambda>z. pz_nodeId z \<noteq> i) (ws_pendingSleeps s)"
  "ws_pendingEffects (withoutPendingWork s i t r c) = filter (\<lambda>p. pe_nodeId p \<noteq> i) (ws_pendingEffects s)"
  by (simp_all add: withoutPendingWork_def Let_def)

lemma stopNode_simps [simp]:
  "ws_nodes (stopNode s i t r) = ws_nodes s"
  "ws_input (stopNode s i t r) = ws_input s"
  "ws_needsSchedule (stopNode s i t r) = ws_needsSchedule s"
  "ws_runningNodes (stopNode s i t r) = filter (\<lambda>j. j \<noteq> i) (ws_runningNodes s)"
  "ws_pendingEmits (stopNode s i t r) = ws_pendingEmits s"
  "ws_pendingSpawns (stopNode s i t r) = filter (\<lambda>p. ps_nodeId p \<noteq> i) (ws_pendingSpawns s)"
  "ws_pendingMaps (stopNode s i t r) = filter (\<lambda>m. mr_nodeId m \<noteq> i) (ws_pendingMaps s)"
  "ws_pendingSleeps (stopNode s i t r) = filter (\<lambda>z. pz_nodeId z \<noteq> i) (ws_pendingSleeps s)"
  "ws_pendingEffects (stopNode s i t r) = filter (\<lambda>p. pe_nodeId p \<noteq> i) (ws_pendingEffects s)"
  by (simp_all add: stopNode_def Let_def)

lemma finishNode_simps [simp]:
  "ws_nodes (finishNode s i result error t r c) = ws_nodes s"
  "ws_needsSchedule (finishNode s i result error t r c) = ws_needsSchedule s"
  "ws_runningNodes (finishNode s i result error t r c) = ws_runningNodes s"
  "ws_pendingEmits (finishNode s i result error t r c) \<noteq> []"
  "ws_pendingSpawns (finishNode s i result error t r c) = filter (\<lambda>p. ps_nodeId p \<noteq> i) (ws_pendingSpawns s)"
  "ws_pendingMaps (finishNode s i result error t r c) = filter (\<lambda>m. mr_nodeId m \<noteq> i) (ws_pendingMaps s)"
  "ws_pendingSleeps (finishNode s i result error t r c) = filter (\<lambda>z. pz_nodeId z \<noteq> i) (ws_pendingSleeps s)"
  "ws_pendingEffects (finishNode s i result error t r c) = filter (\<lambda>p. pe_nodeId p \<noteq> i) (ws_pendingEffects s)"
  by (simp_all add: finishNode_def)

lemma freshNode_simps [simp]: "ns_status (freshNode st) = st" "ns_skipCause (freshNode st) = None"
  by (simp_all add: freshNode_def)

section \<open>Statuses\<close>

definition isBusy :: "node_state \<Rightarrow> bool" where
  "isBusy st \<longleftrightarrow> ns_status st = NodeRunning \<or> ns_status st = NodeFailed"

definition busyCount :: "node_state dict \<Rightarrow> nat" where
  "busyCount states = length (filter isBusy (dvals states))"

lemma busyCount_dput:
  "busyCount (dput k v d) + (if (case dget d k of None \<Rightarrow> False | Some w \<Rightarrow> isBusy w) then 1 else 0)
   = busyCount d + (if isBusy v then 1 else 0)"
  by (induction d) (auto simp: busyCount_def)

lemma nodeStatusOf_dput [simp]: "nodeStatusOf (dput k v d) i = (if i = k then ns_status v else nodeStatusOf d i)"
  by (simp add: nodeStatusOf_def)

lemma busyCount_le: "busyCount (dput k v d) \<le> busyCount d + (if isBusy v then 1 else 0)"
  using busyCount_dput [of k v d] by (auto split: if_splits)

lemma busyCount_Suc: "busyCount (dput k v d) \<le> Suc (busyCount d)"
  using busyCount_le [of k v d] by (auto split: if_splits)

lemma busyCount_same:
  assumes "nodeStatusOf d k = NodeRunning \<or> nodeStatusOf d k = NodeFailed"
  shows "busyCount (dput k v d) \<le> busyCount d"
  using busyCount_dput [of k v d] assms by (auto simp: nodeStatusOf_def isBusy_def split: option.splits if_splits)

lemma busyCount_drop:
  assumes "nodeStatusOf d k = NodeRunning \<or> nodeStatusOf d k = NodeFailed" and "\<not> isBusy v"
  shows "Suc (busyCount (dput k v d)) = busyCount d"
  using busyCount_dput [of k v d] assms by (auto simp: nodeStatusOf_def isBusy_def split: option.splits if_splits)

lemma dkeys_dput: "set (dkeys (dput k v d)) = insert k (set (dkeys d))"
  by (induction d) auto

lemma knownNodes_dput: "knownNodes d states \<Longrightarrow> i \<in> set (nodeIdsOf d) \<Longrightarrow> knownNodes d (dput i v states)"
  unfolding knownNodes_def dkeys_dput by (simp add: distinct_update)

text \<open>An update keeps that fallbacks are started, unless it makes a node pending or hands it over.\<close>

lemma fallbacksStarted_dput:
  assumes "fallbacksStarted d states" and "ns_status v \<noteq> NodePending"
    and "\<And>n. n \<in> set (wd_nodes d) \<Longrightarrow> nd_id n = i \<Longrightarrow> activeFallback n (Some v) = None"
  shows "fallbacksStarted d (dput i v states)"
  using assms by (fastforce simp: fallbacksStarted_def list_all_iff split: option.splits)

lemma activeFallback_live: "ns_status v \<noteq> NodeSkipped \<or> ns_skipCause v \<noteq> Some Policy \<Longrightarrow> activeFallback n (Some v) = None"
  by (auto simp: activeFallback_def split: option.splits failure_policy.splits)

section \<open>The invariant\<close>

definition workIds :: "workflow_state \<Rightarrow> string list" where
  "workIds s = ws_runningNodes s @ map ps_nodeId (ws_pendingSpawns s) @ map mr_nodeId (ws_pendingMaps s)
     @ map pz_nodeId (ws_pendingSleeps s) @ map pe_nodeId (ws_pendingEffects s)"

definition concurrencyOf :: "workflow_definition \<Rightarrow> number" where
  "concurrencyOf d = withDefault (wd_concurrency d) defaultGraphConcurrency"

definition workflow_ok :: "workflow_definition \<Rightarrow> workflow_state \<Rightarrow> bool" where
  "workflow_ok d s \<longleftrightarrow>
     knownNodes d (ws_nodes s) \<and> fallbacksStarted d (ws_nodes s)
     \<and> of_nat (busyCount (ws_nodes s)) \<le> concurrencyOf d
     \<and> (\<forall>i \<in> set (workIds s). nodeStatusOf (ws_nodes s) i = NodeRunning)
     \<and> (\<forall>i. nodeStatusOf (ws_nodes s) i = NodeRunning \<longrightarrow> i \<in> set (ws_runningNodes s))
     \<and> (ws_needsSchedule s \<or> ws_pendingEmits s \<noteq> [] \<or> (\<exists>i. nodeStatusOf (ws_nodes s) i = NodeRunning))"

lemma status_known: "knownNodes d states \<Longrightarrow> nodeStatusOf states i \<noteq> NodePending \<Longrightarrow> i \<in> set (nodeIdsOf d)"
  by (auto simp: knownNodes_def nodeStatusOf_def split: option.splits dest: map_of_SomeD)

lemma find_SomeD: "find P xs = Some x \<Longrightarrow> x \<in> set xs \<and> P x"
  by (induction xs) (auto split: if_splits)

lemma nodeEffects_work: "(i, e) \<in> set (nodeEffects s t r) \<Longrightarrow> i \<in> set (workIds s)"
  by (auto simp: nodeEffects_def workIds_def)

lemma nodeIdForEffect_work: "nodeIdForEffect s t r e = Some i \<Longrightarrow> i \<in> set (workIds s)"
  by (auto simp: nodeIdForEffect_def dest!: find_SomeD nodeEffects_work)

section \<open>Steps of a workflow\<close>

text \<open>The node a request comes from.\<close>

definition requester :: "workflow_event \<Rightarrow> string option" where
  "requester e = (case e of
     SpawnRequested p \<Rightarrow> Some (ps_nodeId p)
   | MapRequested m \<Rightarrow> Some (mr_nodeId m)
   | SleepRequested i _ _ \<Rightarrow> Some i
   | EffectsRequested i _ \<Rightarrow> Some i
   | _ \<Rightarrow> None)"

text \<open>A map has items and room for one child, as \<open>runNode\<close> and the builders ensure.\<close>

definition wellAsked :: "workflow_event \<Rightarrow> bool" where
  "wellAsked e \<longleftrightarrow> (case e of MapRequested m \<Rightarrow> mr_items m \<noteq> [] \<and> 1 \<le> mr_concurrency m | _ \<Rightarrow> True)"

text \<open>The index in the tag of a satisfied wait is of an item whose child was started.\<close>

definition knownIndex :: "workflow_state \<Rightarrow> json option \<Rightarrow> bool" where
  "knownIndex s tag \<longleftrightarrow> (case tag of
     Some (JObj fs) \<Rightarrow>
       (case (readString fs ''nodeId'', readIndex fs ''index'') of
          (Some i, Some index) \<Rightarrow> list_all (\<lambda>m. mr_nodeId m = i \<longrightarrow> index < pm_nextIndex m) (ws_pendingMaps s)
        | _ \<Rightarrow> True)
   | _ \<Rightarrow> True)"

abbreviation foldWorkflow ::
  "(json \<Rightarrow> nat) \<Rightarrow> string \<Rightarrow> string \<Rightarrow> workflow_state \<Rightarrow> workflow_event list \<Rightarrow> workflow_state" where
  "foldWorkflow bytes threadId runId s events \<equiv>
     foldl (\<lambda>u e. workflowStep bytes threadId runId u (WorkflowEvent e)) s events"

inductive workflow_step ::
  "(json \<Rightarrow> nat) \<Rightarrow> workflow_definition \<Rightarrow> string \<Rightarrow> string \<Rightarrow> workflow_state \<Rightarrow> workflow_state \<Rightarrow> bool"
  for bytes d threadId runId where
  planned: "scheduleEvents bytes d (withPendingNodes d (ws_nodes s)) (ws_input s) = Some (Inr events) \<Longrightarrow>
    workflow_step bytes d threadId runId s (foldWorkflow bytes threadId runId s events)"
| finished: "nodeStatusOf (ws_nodes s) i = NodeRunning \<or> nodeStatusOf (ws_nodes s) i = NodeFailed \<Longrightarrow>
    workflow_step bytes d threadId runId s
      (workflowStep bytes threadId runId s (WorkflowEvent (NodeFinished i result error branch)))"
| asked: "requester e = Some i \<Longrightarrow> nodeStatusOf (ws_nodes s) i = NodeRunning \<Longrightarrow> wellAsked e \<Longrightarrow>
    workflow_step bytes d threadId runId s (workflowStep bytes threadId runId s (WorkflowEvent e))"
| broken: "workflow_step bytes d threadId runId s (workflowStep bytes threadId runId s (EffectFailedEvent effectId error))"
| waited: "knownIndex s tag \<Longrightarrow>
    workflow_step bytes d threadId runId s (workflowStep bytes threadId runId s (WaitSatisfiedEvent tag event))"

inductive workflow_reachable ::
  "(json \<Rightarrow> nat) \<Rightarrow> workflow_definition \<Rightarrow> string \<Rightarrow> string \<Rightarrow> workflow_state \<Rightarrow> bool"
  for bytes d threadId runId where
  start: "s = workflowStep bytes threadId runId (initialState name version input) (ThreadStartedEvent name' version' input') \<Longrightarrow>
    set (ws_nodeIds s) \<subseteq> set (nodeIdsOf d) \<Longrightarrow> workflow_reachable bytes d threadId runId s"
| step: "workflow_reachable bytes d threadId runId s \<Longrightarrow> workflow_step bytes d threadId runId s s' \<Longrightarrow>
    workflow_reachable bytes d threadId runId s'"

section \<open>The operations keep the invariant\<close>

definition shape_ok :: "workflow_definition \<Rightarrow> workflow_state \<Rightarrow> bool" where
  "shape_ok d s \<longleftrightarrow> knownNodes d (ws_nodes s)
     \<and> (\<forall>i \<in> set (workIds s). nodeStatusOf (ws_nodes s) i = NodeRunning)
     \<and> (\<forall>i. nodeStatusOf (ws_nodes s) i = NodeRunning \<longrightarrow> i \<in> set (ws_runningNodes s))
     \<and> (ws_needsSchedule s \<or> ws_pendingEmits s \<noteq> [] \<or> (\<exists>i. nodeStatusOf (ws_nodes s) i = NodeRunning))"

lemma workflow_ok_shape:
  "workflow_ok d s \<longleftrightarrow> shape_ok d s \<and> fallbacksStarted d (ws_nodes s) \<and> of_nat (busyCount (ws_nodes s)) \<le> concurrencyOf d"
  by (auto simp: workflow_ok_def shape_ok_def)

lemma shape_ok_nodeStarted:
  assumes "shape_ok d s" and "i \<in> set (nodeIdsOf d)"
  shows "shape_ok d (nodeStarted s i)"
proof (cases "i = ''''")
  case False
  let ?u = "nodeStarted s i"
  have status: "nodeStatusOf (ws_nodes ?u) j = (if j = i then NodeRunning else nodeStatusOf (ws_nodes s) j)" for j
    using False by (simp add: nodeStarted_def)
  have running: "set (ws_runningNodes ?u) = insert i (set (ws_runningNodes s))"
    and work: "set (workIds ?u) = insert i (set (workIds s))"
    using False by (auto simp: nodeStarted_def workIds_def)
  have "knownNodes d (ws_nodes ?u)"
    using assms(1) False knownNodes_dput [OF _ assms(2)] by (simp add: nodeStarted_def shape_ok_def)
  then show ?thesis using assms(1) unfolding shape_ok_def status running work by auto
qed (use assms in \<open>simp add: nodeStarted_def\<close>)

text \<open>A node that ends: its status changes, its work is gone and the thread asks for a schedule.\<close>

lemma shape_ok_ended:
  assumes "shape_ok d s" and "i \<in> set (nodeIdsOf d)"
    and "ws_nodes u = dput i v (ws_nodes s)" and "ns_status v \<noteq> NodeRunning"
    and "set (workIds u) = set (workIds s) - {i}" and "set (ws_runningNodes u) = set (ws_runningNodes s) - {i}"
    and "ws_needsSchedule u \<or> ws_pendingEmits u \<noteq> []"
  shows "shape_ok d u"
  using assms(1,4,7) knownNodes_dput [OF _ assms(2), of "ws_nodes s" v]
  unfolding shape_ok_def assms(3,5,6) nodeStatusOf_dput by auto

lemma stopNode_work:
  "set (workIds (stopNode s i t r)) = set (workIds s) - {i}"
  "set (ws_runningNodes (stopNode s i t r)) = set (ws_runningNodes s) - {i}"
  by (auto simp: workIds_def)

lemma workIds_update [simp]:
  "workIds (s\<lparr>ws_nodes := ns\<rparr>) = workIds s" "workIds (s\<lparr>ws_pendingEmits := es\<rparr>) = workIds s"
  "workIds (s\<lparr>ws_error := e\<rparr>) = workIds s" "workIds (s\<lparr>ws_needsSchedule := b\<rparr>) = workIds s"
  by (simp_all add: workIds_def)

lemma shape_ok_nodeFinished:
  assumes "shape_ok d s" and "i \<in> set (nodeIdsOf d)"
  shows "shape_ok d (nodeFinished s t r i result error branch)"
proof (cases "i = ''''")
  case False
  show ?thesis
    by (rule shape_ok_ended [OF assms])
       (auto simp: nodeFinished_def Let_def False stopNode_work simp del: stopNode_simps(4) split: if_splits)
qed (use assms in \<open>simp add: nodeFinished_def\<close>)

lemma shape_ok_nodeSkipped:
  assumes "shape_ok d s" and "i \<in> set (nodeIdsOf d)"
  shows "shape_ok d (nodeSkipped s t r i reason cause)"
  by (rule shape_ok_ended [OF assms])
     (auto simp: nodeSkipped_def Let_def stopNode_work simp del: stopNode_simps(4))

lemma finishNode_ok: "shape_ok d s \<Longrightarrow> shape_ok d (finishNode s i result error t r c)"
  by (auto simp: shape_ok_def workIds_def)

lemma advanceMap_simps [simp]:
  "mr_nodeId (advanceMap m outs item) = mr_nodeId item" "mr_items (advanceMap m outs item) = mr_items item"
  "mr_concurrency (advanceMap m outs item) = mr_concurrency item"
  by (simp_all add: advanceMap_def)

lemma recordMapOutput_frame:
  assumes "u = recordMapOutput bytes s m index out t r"
  shows "ws_nodes u = ws_nodes s" and "set (workIds u) \<subseteq> set (workIds s)"
    and "ws_needsSchedule u = ws_needsSchedule s" and "ws_pendingEmits s \<noteq> [] \<Longrightarrow> ws_pendingEmits u \<noteq> []"
    and "ws_runningNodes u = ws_runningNodes s"
proof -
  show "set (workIds u) \<subseteq> set (workIds s)"
    unfolding assms recordMapOutput_def Let_def workIds_def
    by (auto simp: image_image)
qed (simp_all add: assms recordMapOutput_def Let_def)

lemma recordMapOutput_ok: "shape_ok d s \<Longrightarrow> shape_ok d (recordMapOutput bytes s m index out t r)"
  using recordMapOutput_frame [where u = "recordMapOutput bytes s m index out t r", OF refl]
  unfolding shape_ok_def by (metis subsetD)

text \<open>A request adds work for the running node it comes from and changes nothing else.\<close>

lemma request_frame:
  assumes "requester e = Some i" and "u = workflowStep bytes t r s (WorkflowEvent e)"
  shows "ws_nodes u = ws_nodes s" and "ws_runningNodes u = ws_runningNodes s"
    and "ws_needsSchedule u = ws_needsSchedule s" and "ws_pendingEmits u = ws_pendingEmits s"
    and "set (workIds u) \<subseteq> insert i (set (workIds s))"
proof -
  show "set (workIds u) \<subseteq> insert i (set (workIds s))"
    unfolding assms(2) workIds_def
    using assms(1) by (cases e) (auto simp: requester_def workflowStep_def spawnWanted_def mapWanted_def sleepWanted_def
      effectsWanted_def Let_def startedMap_def map_request.defs)
qed (use assms in \<open>cases e; simp add: requester_def workflowStep_def spawnWanted_def mapWanted_def sleepWanted_def
      effectsWanted_def Let_def\<close>)+

lemma shape_ok_request:
  assumes "shape_ok d s" and "requester e = Some i" and "nodeStatusOf (ws_nodes s) i = NodeRunning"
  shows "shape_ok d (workflowStep bytes t r s (WorkflowEvent e))"
  using assms(1,3) request_frame [OF assms(2) refl, of bytes t r s] unfolding shape_ok_def by auto

text \<open>A property of what a failed effect or a satisfied wait leaves, branch by branch.\<close>

lemma effectFailed_rule:
  assumes "P s" and "\<And>i message. i \<in> set (workIds s) \<Longrightarrow> P ((finishNode (stopNode s i t r) i JNull (Some message) t r None)
      \<lparr>ws_nodes := dput i ((freshNode NodeFailed)\<lparr>ns_error := Some message,
         ns_attempts := Option.bind (dget (ws_nodes s) i) ns_attempts\<rparr>) (ws_nodes s)\<rparr>)"
  shows "P (effectFailed s t r effectId error)"
proof -
  have "i \<in> set (workIds s)" if "truthy (Option.bind effectId (nodeIdForEffect s t r)) = Some i" for i
    using that by (auto simp: truthy_eq_Some bind_eq_Some_conv dest: nodeIdForEffect_work)
  with assms show ?thesis by (simp add: effectFailed_def Let_def split: option.split)
qed

lemma waitDone_rule:
  assumes "P s" and "\<And>i result error c. P (finishNode s i result error t r c)"
    and "\<And>fs m index result. tag = Some (JObj fs) \<Longrightarrow> readString fs ''nodeId'' = Some (mr_nodeId m) \<Longrightarrow>
      readIndex fs ''index'' = Some index \<Longrightarrow> m \<in> set (ws_pendingMaps s) \<Longrightarrow> P (recordMapOutput bytes s m index result t r)"
    and "\<And>i node k. dget (ws_nodes s) i = Some node \<Longrightarrow> P (s\<lparr>ws_nodes := dput i (node\<lparr>ns_iteration := k\<rparr>) (ws_nodes s),
      ws_pendingSpawns := filter (\<lambda>p. ps_nodeId p \<noteq> i) (ws_pendingSpawns s)\<rparr>)"
  shows "P (waitDone bytes s t r tag event)"
proof -
  have find: "m \<in> set (ws_pendingMaps s) \<and> mr_nodeId m = i" if "find (\<lambda>m. mr_nodeId m = i) (ws_pendingMaps s) = Some m" for i m
    using find_SomeD [OF that] .
  show ?thesis
    unfolding waitDone_def
    by (simp add: assms(1,2,4) split: option.split json.split sum.split) (auto dest!: find intro!: assms(3))
qed

lemma nodes_frames [simp]:
  "ws_nodes (nodeFinished s t r i result error branch) = (if i = '''' then ws_nodes s
     else dput i \<lparr>ns_status = (if truthy error \<noteq> None then NodeFailed else NodeCompleted),
               ns_result = result, ns_error = truthy error,
               ns_attempts = Some (withDefault (Option.bind (dget (ws_nodes s) i) ns_attempts) 1),
               ns_branch = branch, ns_skipCause = None, ns_iteration = None\<rparr> (ws_nodes s))"
  "ws_nodes (nodeSkipped s t r i reason cause) = dput i \<lparr>ns_status = NodeSkipped, ns_result = JNull,
     ns_error = Some reason, ns_attempts = Some (withDefault (Option.bind (dget (ws_nodes s) i) ns_attempts) 0),
     ns_branch = None, ns_skipCause = Some cause, ns_iteration = None\<rparr> (ws_nodes s)"
  by (simp_all add: nodeFinished_def nodeSkipped_def Let_def)

lemma nodeStarted_nodes: "i \<noteq> '''' \<Longrightarrow> ws_nodes (nodeStarted s i) = dput i ((freshNode NodeRunning)
    \<lparr>ns_attempts := Some (withDefault (Option.bind (dget (ws_nodes s) i) ns_attempts) 0 + 1)\<rparr>) (ws_nodes s)"
  by (simp add: nodeStarted_def)

lemma isBusy_simps [simp]: "isBusy st \<longleftrightarrow> ns_status st = NodeRunning \<or> ns_status st = NodeFailed"
  by (simp add: isBusy_def)

lemma workflow_ok_finished:
  assumes "workflow_ok d s" and "nodeStatusOf (ws_nodes s) i = NodeRunning \<or> nodeStatusOf (ws_nodes s) i = NodeFailed"
  shows "workflow_ok d (nodeFinished s t r i result error branch)"
proof -
  have i: "i \<in> set (nodeIdsOf d)" using assms status_known [of d "ws_nodes s" i] by (auto simp: workflow_ok_def)
  show ?thesis
    using assms shape_ok_nodeFinished [OF _ i] busyCount_same [OF assms(2)]
    by (auto simp: workflow_ok_shape intro!: fallbacksStarted_dput activeFallback_live elim: order_trans [rotated])
qed

lemma workflow_ok_broken:
  assumes "workflow_ok d s"
  shows "workflow_ok d (effectFailed s t r effectId error)"
proof (rule effectFailed_rule [where P = "workflow_ok d"])
  fix i message assume work: "i \<in> set (workIds s)"
  then have running: "nodeStatusOf (ws_nodes s) i = NodeRunning" using assms by (simp add: workflow_ok_def)
  have i: "i \<in> set (nodeIdsOf d)" using running assms status_known [of d "ws_nodes s" i] by (auto simp: workflow_ok_def)
  let ?v = "(freshNode NodeFailed)\<lparr>ns_error := Some message, ns_attempts := Option.bind (dget (ws_nodes s) i) ns_attempts\<rparr>"
  let ?u = "(finishNode (stopNode s i t r) i JNull (Some message) t r None)\<lparr>ws_nodes := dput i ?v (ws_nodes s)\<rparr>"
  have "shape_ok d ?u"
    using assms knownNodes_dput [OF _ i] by (auto simp: workflow_ok_shape shape_ok_def workIds_def)
  moreover have "fallbacksStarted d (dput i ?v (ws_nodes s))"
    using assms by (intro fallbacksStarted_dput activeFallback_live) (simp_all add: workflow_ok_def)
  moreover have "busyCount (dput i ?v (ws_nodes s)) \<le> busyCount (ws_nodes s)"
    using running by (intro busyCount_same) simp
  ultimately show "workflow_ok d ?u"
    using assms by (auto simp: workflow_ok_shape elim: order_trans [rotated])
qed (fact assms)

lemma workflow_ok_waited:
  assumes "workflow_ok d s"
  shows "workflow_ok d (waitDone bytes s t r tag event)"
proof (rule waitDone_rule [where P = "workflow_ok d"])
  fix i node k assume node: "dget (ws_nodes s) i = Some node"
  let ?v = "node\<lparr>ns_iteration := k\<rparr>"
  let ?u = "s\<lparr>ws_nodes := dput i ?v (ws_nodes s), ws_pendingSpawns := filter (\<lambda>p. ps_nodeId p \<noteq> i) (ws_pendingSpawns s)\<rparr>"
  have i: "i \<in> set (nodeIdsOf d)" using assms node by (auto simp: workflow_ok_def knownNodes_def dest: map_of_SomeD)
  have status: "nodeStatusOf (dput i ?v (ws_nodes s)) j = nodeStatusOf (ws_nodes s) j" for j
    using node by (simp add: nodeStatusOf_def)
  have active: "activeFallback n (dget (dput i ?v (ws_nodes s)) j) = activeFallback n (dget (ws_nodes s) j)" for n j
    using node by (auto simp: activeFallback_def split: option.splits failure_policy.splits)
  have "busyCount (dput i ?v (ws_nodes s)) = busyCount (ws_nodes s)"
    using busyCount_dput [of i ?v "ws_nodes s"] node by (auto split: if_splits)
  moreover have "knownNodes d (dput i ?v (ws_nodes s))" using assms i by (intro knownNodes_dput) (simp_all add: workflow_ok_def)
  moreover have "fallbacksStarted d (dput i ?v (ws_nodes s)) = fallbacksStarted d (ws_nodes s)"
    unfolding fallbacksStarted_def active status ..
  ultimately show "workflow_ok d ?u"
    using assms by (auto simp: workflow_ok_def status workIds_def simp del: dget_dput nodeStatusOf_dput)
next
  fix fs m index result
  show "workflow_ok d (recordMapOutput bytes s m index result t r)"
    using assms recordMapOutput_ok recordMapOutput_frame [where u = "recordMapOutput bytes s m index result t r", OF refl]
    by (auto simp: workflow_ok_shape)
qed (use assms in \<open>auto simp: workflow_ok_shape finishNode_ok\<close>)

section \<open>What the schedule plans\<close>

lemma withPendingNodes_facts:
  assumes "knownNodes d states"
  shows "nodeStatusOf (withPendingNodes d states) i = nodeStatusOf states i"
    and "busyCount (withPendingNodes d states) = busyCount states"
    and "runningCount (withPendingNodes d states) = runningCount states"
    and "knownNodes d (withPendingNodes d states)"
    and "fallbacksStarted d (withPendingNodes d states) = fallbacksStarted d states"
proof -
  let ?fresh = "(freshNode NodePending)\<lparr>ns_attempts := Some 0\<rparr>"
  let ?I = "\<lambda>m. (\<forall>i. dget m i = dget states i \<or> dget states i = None \<and> dget m i = Some ?fresh)
    \<and> busyCount m = busyCount states \<and> runningCount m = runningCount states \<and> knownNodes d m"
  have grow: "runningCount (dput k ?fresh m) = runningCount m" if "dget m k = None" for k m
    using that by (induction m) (auto simp: runningCount_def split: if_splits)
  have I: "?I (withPendingNodes d states)"
    unfolding withPendingNodes_def
  proof (rule foldl_invariant)
    show "?I states" using assms by simp
    fix m n assume m: "?I m" and n: "n \<in> set (wd_nodes d)"
    show "?I (if dget m (nd_id n) = None then dput (nd_id n) ?fresh m else m)"
    proof (cases "dget m (nd_id n) = None")
      case True
      have "knownNodes d (dput (nd_id n) ?fresh m)" using m n by (intro knownNodes_dput) auto
      moreover have "busyCount (dput (nd_id n) ?fresh m) = busyCount m"
        using busyCount_dput [of "nd_id n" ?fresh m] True by simp
      moreover have "dget states (nd_id n) = None" using m [THEN conjunct1, rule_format, of "nd_id n"] True by auto
      ultimately show ?thesis using m True grow [OF True] by simp
    next
      case False
      show ?thesis unfolding if_not_P [OF False] by (rule m)
    qed
  qed
  then have get: "dget (withPendingNodes d states) i = dget states i
      \<or> dget states i = None \<and> dget (withPendingNodes d states) i = Some ?fresh" for i by blast
  show status: "nodeStatusOf (withPendingNodes d states) i = nodeStatusOf states i" for i
    using get [of i] by (auto simp: nodeStatusOf_def)
  have active: "activeFallback n (dget (withPendingNodes d states) i) = activeFallback n (dget states i)" for n i
    using get [of i] by (auto simp: activeFallback_def split: option.splits failure_policy.splits)
  show "fallbacksStarted d (withPendingNodes d states) = fallbacksStarted d states"
    unfolding fallbacksStarted_def active status ..
  show "busyCount (withPendingNodes d states) = busyCount states"
    and "runningCount (withPendingNodes d states) = runningCount states" and "knownNodes d (withPendingNodes d states)"
    using I by blast+
qed

lemma inOrder_mem:
  assumes "inOrder d P = Some (Inr ids)"
  shows "set ids \<subseteq> set (nodeIdsOf d)"
proof -
  from assms obtain xs where xs: "topologicalSort (nodeIdsOf d) (workflowEdges d) = Inr xs"
      "filterReturns (P (workflowEdges d)) xs = Some ids"
    by (auto simp: inOrder_def Let_def split: sum.splits)
  with topologicalSort_outcome [of "nodeIdsOf d" "workflowEdges d"] filterReturns_mem [OF xs(2)]
  show ?thesis by (auto simp: sortOutcome_def)
qed

lemma inOrder_distinct:
  assumes "inOrder d P = Some (Inr ids)"
  shows "distinct ids"
proof -
  have sub: "filterReturns Q xs = Some ys \<Longrightarrow> distinct xs \<Longrightarrow> distinct ys" for Q and xs ys :: "string list"
  proof (induction xs arbitrary: ys)
    case (Cons x xs)
    then show ?case by (auto split: option.splits if_splits simp: filterReturns_mem)
  qed simp
  from assms obtain xs where xs: "topologicalSort (nodeIdsOf d) (workflowEdges d) = Inr xs"
      "filterReturns (P (workflowEdges d)) xs = Some ids"
    by (auto simp: inOrder_def Let_def split: sum.splits)
  with topologicalSort_outcome [of "nodeIdsOf d" "workflowEdges d"] sub [OF xs(2)]
  show ?thesis by (simp add: sortOutcome_def)
qed

lemma schedule_rule:
  assumes "scheduleEvents bytes d states input = Some (Inr events)"
    and "\<And>m. Q [WorkflowFailed m]" and "Q []" and "\<And>out. Q [WorkflowCompleted out]"
    and "\<And>evs. failurePolicyEvents d states = Some evs \<Longrightarrow> Q evs"
    and "\<And>A B. set A \<subseteq> set (nodeIdsOf d) \<Longrightarrow> set B \<subseteq> set (fallbackTargets d) \<Longrightarrow>
      Q (map (\<lambda>i. NodeSkippedEvent i ''inactive branch'' Inactive) A
         @ map (\<lambda>i. NodeSkippedEvent i ''fallback not needed'' Inactive) B)"
    and "\<And>ids. failurePolicyEvents d states = None \<Longrightarrow> set ids \<subseteq> set (nodeIdsOf d) \<Longrightarrow> length ids \<le> freeSlots d states \<Longrightarrow>
      Q (map NodeStarted ids)"
  shows "Q events"
proof -
  have skips: "set A \<subseteq> set (nodeIdsOf d)" if "getSkippableNodeIds d states = Some (Inr A)" for A
    using that unfolding getSkippableNodeIds_def by (rule inOrder_mem)
  have unused: "set (getUnusedFallbackIds d states) \<subseteq> set (fallbackTargets d)" by (auto simp: getUnusedFallbackIds_def)
  have start: "Q (map NodeStarted (take (freeSlots d states) ids))"
    if "failurePolicyEvents d states = None" "getReadyNodeIds d states = Some (Inr ids)" for ids
    using inOrder_mem [OF that(2) [unfolded getReadyNodeIds_def]] set_take_subset [of "freeSlots d states" ids]
    by (intro assms(7) [OF that(1)]) auto
  have finish: "Q events" if "failurePolicyEvents d states = None" "startOrFinish bytes d states input = Some (Inr events)"
  proof (cases "getReadyNodeIds d states")
    case (Some r)
    with that start assms(2-4) show ?thesis
      by (cases r) (auto simp: startOrFinish_def Let_def split: if_splits option.splits)
  qed (use that in \<open>simp add: startOrFinish_def\<close>)
  show ?thesis
  proof (cases "assertJsonWithinLimit bytes input (wd_inputLimitBytes d) = None \<and> failurePolicyEvents d states = None")
    case False
    with assms(1,2,5) show ?thesis by (auto simp: scheduleEvents_def split: option.splits)
  next
    case fine: True
    then obtain r where r: "getSkippableNodeIds d states = Some r"
      using assms(1) by (auto simp: scheduleEvents_def split: option.splits)
    with fine assms(1) finish skips unused assms(6) show ?thesis
      by (cases r) (auto simp: scheduleEvents_def Let_def split: if_splits)
  qed
qed

text \<open>What an accepted definition satisfies.\<close>

lemma fallbackTargets_mem:
  assumes "t \<in> set (fallbackTargets d)"
  shows "\<exists>n \<in> set (wd_nodes d). nd_failure n = Some (FallbackTo t)"
proof -
  let ?f = "\<lambda>n. case nd_failure n of Some (FallbackTo target) \<Rightarrow> Some target | _ \<Rightarrow> None"
  from assms obtain n where "n \<in> set (wd_nodes d)" "?f n = Some t"
    by (auto simp: fallbackTargets_def insertionSet_def List.map_filter_def)
  then show ?thesis by (auto split: option.splits failure_policy.splits)
qed

lemma defineWorkflow_facts:
  assumes "defineWorkflow def = Inr d"
  shows "1 \<le> concurrencyOf d" and "set (fallbackTargets d) \<subseteq> set (nodeIdsOf d)" and "distinct (nodeIdsOf d)"
proof -
  obtain c where c: "resolveGraphConcurrency (wd_concurrency def) = Inr c" "wd_concurrency d = Some c" "wd_nodes d = wd_nodes def"
    and order: "\<exists>xs. topologicalSort (nodeIdsOf d) (workflowEdges d) = Inr xs" and policies: "checkPolicies d (wd_nodes d) = None"
    using assms by (auto simp: defineWorkflow_def Let_def split: sum.splits option.splits)
  show "1 \<le> concurrencyOf d"
    using c(1,2) by (auto simp: concurrencyOf_def resolveGraphConcurrency_def Let_def minGraphConcurrency_def split: if_splits)
  show "distinct (nodeIdsOf d)"
    using order topologicalSort_outcome [of "nodeIdsOf d" "workflowEdges d"] by (auto simp: sortOutcome_def)
  have "findNode d t \<noteq> None" if "checkPolicies d ns = None" "n \<in> set ns" "nd_failure n = Some (FallbackTo t)" for ns n t
    using that by (induction ns) (auto split: option.splits failure_policy.splits if_splits)
  note found = this
  show "set (fallbackTargets d) \<subseteq> set (nodeIdsOf d)"
  proof
    fix t assume "t \<in> set (fallbackTargets d)"
    then obtain n where "n \<in> set (wd_nodes d)" "nd_failure n = Some (FallbackTo t)" using fallbackTargets_mem by blast
    with found [OF policies] obtain m where "findNode d t = Some m" by blast
    from findNode_Some [OF this] show "t \<in> set (nodeIdsOf d)" by auto
  qed
qed

lemma workflow_ok_skipped:
  assumes "workflow_ok d s" and "i \<in> set (nodeIdsOf d)"
    and "\<And>n v. n \<in> set (wd_nodes d) \<Longrightarrow> nd_id n = i \<Longrightarrow> ns_skipCause v = Some cause \<Longrightarrow> activeFallback n (Some v) = None"
  shows "workflow_ok d (nodeSkipped s t r i reason cause)"
proof -
  define v where "v = \<lparr>ns_status = NodeSkipped, ns_result = JNull, ns_error = Some reason,
    ns_attempts = Some (withDefault (Option.bind (dget (ws_nodes s) i) ns_attempts) 0),
    ns_branch = None, ns_skipCause = Some cause, ns_iteration = None\<rparr>"
  have nodes: "ws_nodes (nodeSkipped s t r i reason cause) = dput i v (ws_nodes s)" by (simp add: v_def)
  have "busyCount (dput i v (ws_nodes s)) \<le> busyCount (ws_nodes s)"
    using busyCount_le [of i v "ws_nodes s"] by (simp add: v_def)
  moreover have "fallbacksStarted d (dput i v (ws_nodes s))"
    using assms by (intro fallbacksStarted_dput) (simp_all add: workflow_ok_def v_def)
  ultimately show ?thesis
    using assms(1) shape_ok_nodeSkipped [OF _ assms(2), of s t r reason cause]
    unfolding workflow_ok_shape nodes by (auto elim: order_trans [rotated])
qed

lemma workflow_ok_started:
  assumes "workflow_ok d s" and "i \<in> set (nodeIdsOf d)" and "i \<noteq> ''''"
    and "of_nat (busyCount (ws_nodes (nodeStarted s i))) \<le> concurrencyOf d"
  shows "workflow_ok d (nodeStarted s i)"
  using assms shape_ok_nodeStarted [OF _ assms(2), of s]
  by (auto simp: workflow_ok_shape nodeStarted_nodes intro!: fallbacksStarted_dput activeFallback_live)

lemma inactive_fallback: "ns_skipCause v = Some Inactive \<Longrightarrow> activeFallback n (Some v) = None"
  by (rule activeFallback_live) simp

lemma workflow_ok_skips:
  "workflow_ok d s \<Longrightarrow> set ids \<subseteq> set (nodeIdsOf d) \<Longrightarrow>
   workflow_ok d (foldWorkflow bytes t r s (map (\<lambda>i. NodeSkippedEvent i reason Inactive) ids))"
proof (induction ids arbitrary: s)
  case (Cons i ids)
  have "workflow_ok d (nodeSkipped s t r i reason Inactive)"
    using Cons.prems by (intro workflow_ok_skipped inactive_fallback) auto
  with Cons.IH Cons.prems show ?case by (simp add: workflowStep_def)
qed simp

lemma workflow_ok_starts:
  "workflow_ok d s \<Longrightarrow> set ids \<subseteq> set (nodeIdsOf d) \<Longrightarrow> '''' \<notin> set (nodeIdsOf d) \<Longrightarrow>
   of_nat (busyCount (ws_nodes s) + length ids) \<le> concurrencyOf d \<Longrightarrow>
   workflow_ok d (foldWorkflow bytes t r s (map NodeStarted ids))"
proof (induction ids arbitrary: s)
  case (Cons i ids)
  have i: "i \<in> set (nodeIdsOf d)" "i \<noteq> ''''" using Cons.prems(2,3) by (auto simp del: set_map)
  have "busyCount (ws_nodes (nodeStarted s i)) \<le> Suc (busyCount (ws_nodes s))"
    unfolding nodeStarted_nodes [OF i(2)] by (rule busyCount_Suc)
  then have count: "busyCount (ws_nodes (nodeStarted s i)) + length ids \<le> busyCount (ws_nodes s) + length (i # ids)" by simp
  then have room: "of_nat (busyCount (ws_nodes (nodeStarted s i)) + length ids) \<le> concurrencyOf d"
    using Cons.prems(4) of_nat_mono [OF count, where ?'a = rat] by linarith
  then have "of_nat (busyCount (ws_nodes (nodeStarted s i))) \<le> concurrencyOf d" by simp
  with Cons.prems i have "workflow_ok d (nodeStarted s i)" by (intro workflow_ok_started)
  with Cons.IH Cons.prems room show ?case by (simp add: workflowStep_def)
qed simp

lemma failurePolicy_rule:
  assumes "failurePolicyEvents d states = Some events"
    and "\<And>n. n \<in> set (wd_nodes d) \<Longrightarrow> nodeStatusOf states (nd_id n) = NodeFailed \<Longrightarrow> Q [NodeStarted (nd_id n)]"
    and "\<And>m. Q [WorkflowFailed m]"
    and "\<And>n error. n \<in> set (wd_nodes d) \<Longrightarrow> nodeStatusOf states (nd_id n) = NodeFailed \<Longrightarrow> nd_failure n = Some SkipNode \<Longrightarrow>
      Q [NodeSkippedEvent (nd_id n) error Policy]"
    and "\<And>n error target. n \<in> set (wd_nodes d) \<Longrightarrow> nodeStatusOf states (nd_id n) = NodeFailed \<Longrightarrow>
      nd_failure n = Some (FallbackTo target) \<Longrightarrow> Q [NodeSkippedEvent (nd_id n) error Policy, NodeStarted target]"
  shows "Q events"
proof -
  obtain n where n: "find (\<lambda>n. map_option ns_status (dget states (nd_id n)) = Some NodeFailed) (wd_nodes d) = Some n"
    using assms(1) by (auto simp: failurePolicyEvents_def split: option.splits)
  from find_SomeD [OF this] have mem: "n \<in> set (wd_nodes d)" "nodeStatusOf states (nd_id n) = NodeFailed"
    by (auto simp: nodeStatusOf_def)
  with n assms show ?thesis
    by (cases "nd_failure n")
       (auto simp: failurePolicyEvents_def Let_def split: failure_policy.splits if_splits)
qed

lemma fallbacksStarted_handover:
  assumes "fallbacksStarted d states" and "ns_status w = NodeRunning" and "ns_status v = NodeSkipped"
    and "\<And>n. n \<in> set (wd_nodes d) \<Longrightarrow> nd_id n = i \<Longrightarrow> nd_failure n = Some (FallbackTo target)"
  shows "fallbacksStarted d (dput target w (dput i v states))"
  unfolding fallbacksStarted_def list_all_iff
proof
  fix n assume n: "n \<in> set (wd_nodes d)"
  have old: "activeFallback n (dget states (nd_id n)) = Some t \<Longrightarrow> nodeStatusOf states t \<noteq> NodePending" for t
    using assms(1) n by (auto simp: fallbacksStarted_def list_all_iff split: option.splits)
  have "nodeStatusOf (dput target w (dput i v states)) t \<noteq> NodePending"
    if t: "activeFallback n (dget (dput target w (dput i v states)) (nd_id n)) = Some t" for t
  proof (cases "nd_id n = i")
    case True
    with activeFallback_Some [OF t] assms(4) [OF n] have "t = target" by simp
    then show ?thesis using assms(2) by simp
  next
    case False
    have "nd_id n \<noteq> target" using activeFallback_Some [OF t] assms(2) by auto
    with False t old [of t] assms(2,3) show ?thesis by simp
  qed
  then show "case activeFallback n (dget (dput target w (dput i v states)) (nd_id n)) of
      None \<Rightarrow> True | Some t \<Rightarrow> nodeStatusOf (dput target w (dput i v states)) t \<noteq> NodePending"
    by (auto simp del: dget_dput nodeStatusOf_dput split: option.split)
qed

lemma workflow_ok_handover:
  assumes "workflow_ok d s" and "i \<in> set (nodeIdsOf d)" and "target \<in> set (nodeIdsOf d)" and "target \<noteq> ''''"
    and "nodeStatusOf (ws_nodes s) i = NodeFailed"
    and "\<And>n. n \<in> set (wd_nodes d) \<Longrightarrow> nd_id n = i \<Longrightarrow> nd_failure n = Some (FallbackTo target)"
  shows "workflow_ok d (nodeStarted (nodeSkipped s t r i reason cause) target)"
proof -
  let ?u = "nodeSkipped s t r i reason cause"
  obtain v where v: "ws_nodes ?u = dput i v (ws_nodes s)" "ns_status v = NodeSkipped" by simp
  obtain w where w: "ws_nodes (nodeStarted ?u target) = dput target w (ws_nodes ?u)" "ns_status w = NodeRunning"
    using nodeStarted_nodes [OF assms(4), of ?u] by simp
  have "shape_ok d (nodeStarted ?u target)"
    using assms(1-3) by (intro shape_ok_nodeStarted shape_ok_nodeSkipped) (simp_all add: workflow_ok_shape)
  moreover have "fallbacksStarted d (ws_nodes (nodeStarted ?u target))"
    unfolding w(1) v(1) using assms(1,6) w(2) v(2) by (intro fallbacksStarted_handover) (simp_all add: workflow_ok_def)
  moreover have "busyCount (ws_nodes (nodeStarted ?u target)) \<le> busyCount (ws_nodes s)"
    using busyCount_Suc [of target w "dput i v (ws_nodes s)"] busyCount_drop [of "ws_nodes s" i v] assms(5) v(2)
    unfolding w(1) v(1) by simp
  ultimately show ?thesis
    using assms(1) by (auto simp: workflow_ok_shape elim: order_trans [rotated])
qed

lemma busy_running:
  assumes "knownNodes d states" and "failurePolicyEvents d states = None"
  shows "busyCount states = runningCount states"
proof -
  have "ns_status st \<noteq> NodeFailed" if "st \<in> set (dvals states)" for st
    using nodeStatusOf_known [OF assms(1) that] assms(2) by (auto simp: failurePolicyEvents_None)
  then show ?thesis
    unfolding busyCount_def runningCount_def by (intro arg_cong [where f = length] filter_cong) (auto simp: isBusy_def)
qed

lemma nat_floor_le:
  fixes x :: rat
  assumes "n \<le> nat \<lfloor>x\<rfloor>" and "0 \<le> x"
  shows "of_nat n \<le> x"
proof -
  have "int n \<le> \<lfloor>x\<rfloor>" using assms by linarith
  then have "(of_int (int n) :: rat) \<le> x" by (simp add: le_floor_iff)
  then show ?thesis by simp
qed

lemma workflow_ok_planned:
  assumes def: "defineWorkflow def = Inr d" and named: "'''' \<notin> set (nodeIdsOf d)" and ok: "workflow_ok d s"
    and plan: "scheduleEvents bytes d (withPendingNodes d (ws_nodes s)) input = Some (Inr events)"
  shows "workflow_ok d (foldWorkflow bytes t r s events)"
proof -
  note facts = defineWorkflow_facts [OF def]
  have known: "knownNodes d (ws_nodes s)" using ok by (simp add: workflow_ok_def)
  note pend = withPendingNodes_facts [OF known]
  let ?Q = "\<lambda>evs. workflow_ok d (foldWorkflow bytes t r s evs)"
  have same: "n' = n" if "n \<in> set (wd_nodes d)" "n' \<in> set (wd_nodes d)" "nd_id n' = nd_id n" for n n'
    using that facts(3) by (metis distinct_map inj_onD)
  show ?thesis
  proof (rule schedule_rule [where Q = ?Q, OF plan])
    fix evs assume "failurePolicyEvents d (withPendingNodes d (ws_nodes s)) = Some evs"
    then show "?Q evs"
    proof (rule failurePolicy_rule [where Q = ?Q])
      fix n assume n: "n \<in> set (wd_nodes d)" "nodeStatusOf (withPendingNodes d (ws_nodes s)) (nd_id n) = NodeFailed"
      then have failed: "nodeStatusOf (ws_nodes s) (nd_id n) = NodeFailed" by (simp add: pend(1))
      have i1: "nd_id n \<in> set (nodeIdsOf d)" using n(1) by simp
      with named have "nd_id n \<noteq> ''''" by metis
      note i = i1 this
      have "busyCount (ws_nodes (nodeStarted s (nd_id n))) \<le> busyCount (ws_nodes s)"
        unfolding nodeStarted_nodes [OF i(2)] using failed by (intro busyCount_same) simp
      with ok have "of_nat (busyCount (ws_nodes (nodeStarted s (nd_id n)))) \<le> concurrencyOf d"
        by (auto simp: workflow_ok_def elim: order_trans [rotated])
      from workflow_ok_started [OF ok i this] show "?Q [NodeStarted (nd_id n)]" by (simp add: workflowStep_def)
      fix error
      show "?Q [NodeSkippedEvent (nd_id n) error Policy]" if "nd_failure n = Some SkipNode"
      proof -
        have "activeFallback n' (Some v) = None" if "n' \<in> set (wd_nodes d)" "nd_id n' = nd_id n" for n' v
          using same [OF n(1) that] \<open>nd_failure n = Some SkipNode\<close> by (simp add: activeFallback_def split: option.splits)
        with ok i(1) show ?thesis by (simp add: workflowStep_def) (intro workflow_ok_skipped, auto)
      qed
      show "?Q [NodeSkippedEvent (nd_id n) error Policy, NodeStarted target]"
        if "nd_failure n = Some (FallbackTo target)" for target
      proof -
        have "target \<in> set (fallbackTargets d)"
          using n(1) that by (force simp: fallbackTargets_def insertionSet_def List.map_filter_def)
        with facts(2) have t1: "target \<in> set (nodeIdsOf d)" by blast
        with named have "target \<noteq> ''''" by metis
        note t = t1 this
        have "nd_failure n' = Some (FallbackTo target)" if "n' \<in> set (wd_nodes d)" "nd_id n' = nd_id n" for n'
          using same [OF n(1) that] \<open>nd_failure n = Some (FallbackTo target)\<close> by simp
        from workflow_ok_handover [OF ok i(1) t failed this] show ?thesis by (simp add: workflowStep_def)
      qed
    qed (use ok in \<open>simp add: workflowStep_def\<close>)
  next
    fix A B assume "set A \<subseteq> set (nodeIdsOf d)" "set B \<subseteq> set (fallbackTargets d)"
    then show "?Q (map (\<lambda>i. NodeSkippedEvent i ''inactive branch'' Inactive) A
        @ map (\<lambda>i. NodeSkippedEvent i ''fallback not needed'' Inactive) B)"
      using facts(2) by (auto intro!: workflow_ok_skips ok)
  next
    fix ids assume none: "failurePolicyEvents d (withPendingNodes d (ws_nodes s)) = None"
      and ids: "set ids \<subseteq> set (nodeIdsOf d)" "length ids \<le> freeSlots d (withPendingNodes d (ws_nodes s))"
    have busy: "busyCount (ws_nodes s) = runningCount (ws_nodes s)"
      using busy_running [OF pend(4) none] by (simp add: pend(2,3))
    have "of_nat (length ids) \<le> max 0 (concurrencyOf d - of_nat (busyCount (ws_nodes s)))"
      using ids(2) unfolding freeSlots_def pend(3) busy concurrencyOf_def by (rule nat_floor_le) simp
    with ok have "of_nat (busyCount (ws_nodes s) + length ids) \<le> concurrencyOf d" by (simp add: workflow_ok_def)
    with ok ids(1) named show "?Q (map NodeStarted ids)" by (intro workflow_ok_starts)
  qed (use ok in \<open>simp_all add: workflowStep_def\<close>)
qed

section \<open>Maps\<close>

text \<open>
  A pending map has an item without output, has outputs only for started items and keeps as many items
  open as its concurrency and its items allow.
\<close>

definition map_ok :: "pending_map \<Rightarrow> bool" where
  "map_ok m \<longleftrightarrow> 1 \<le> mr_concurrency m \<and> length (pm_outputs m) < length (mr_items m)
     \<and> pm_nextIndex m = min (length (mr_items m)) (nat \<lceil>mr_concurrency m\<rceil> + length (pm_outputs m))
     \<and> distinct (map fst (pm_outputs m)) \<and> (\<forall>i \<in> set (map fst (pm_outputs m)). i < pm_nextIndex m)"

definition maps_ok :: "workflow_state \<Rightarrow> bool" where
  "maps_ok s \<longleftrightarrow> distinct (map mr_nodeId (ws_pendingMaps s)) \<and> (\<forall>m \<in> set (ws_pendingMaps s). map_ok m)"

lemma maps_ok_filter: "maps_ok s \<Longrightarrow> ws_pendingMaps u = filter P (ws_pendingMaps s) \<Longrightarrow> maps_ok u"
  by (auto simp: maps_ok_def distinct_map_filter)

lemma startedMap_ok: "mr_items m \<noteq> [] \<Longrightarrow> 1 \<le> mr_concurrency m \<Longrightarrow> map_ok (startedMap m)"
  by (simp add: map_ok_def startedMap_def map_request.defs pending_map.defs min.commute)

lemma openIndexes_length:
  assumes "map_ok m"
  shows "length (openIndexes m) = min (length (mr_items m) - length (pm_outputs m)) (nat \<lceil>mr_concurrency m\<rceil>)"
proof -
  let ?taken = "set (map fst (pm_outputs m))"
  have "set (openIndexes m) = {..<pm_nextIndex m} - ?taken"
    by (auto simp: openIndexes_def map_of_eq_None_iff)
  moreover have "?taken \<subseteq> {..<pm_nextIndex m}" using assms by (auto simp: map_ok_def)
  ultimately have "card (set (openIndexes m)) = pm_nextIndex m - card ?taken"
    by (metis card_Diff_subset card_lessThan finite_set)
  moreover have "card ?taken = length (pm_outputs m)" using assms by (simp add: map_ok_def distinct_card del: set_map)
  moreover have "distinct (openIndexes m)" by (simp add: openIndexes_def)
  ultimately show ?thesis using assms by (simp add: distinct_card map_ok_def min_def split: if_splits)
qed

lemma advanceMap_ok:
  assumes "map_ok m" and "map_of (pm_outputs m) index = None" and "index < pm_nextIndex m"
    and "Suc (length (pm_outputs m)) \<noteq> length (mr_items m)"
  shows "map_ok (advanceMap m (pm_outputs m @ [(index, out)]) m)"
proof -
  have "Suc (length (pm_outputs m)) < length (mr_items m)" using assms(1,4) by (simp add: map_ok_def)
  moreover have "index \<notin> fst ` set (pm_outputs m)" using assms(2) by (simp add: map_of_eq_None_iff)
  moreover have "min (length (mr_items m)) (pm_nextIndex m + 1)
      = min (length (mr_items m)) (nat \<lceil>mr_concurrency m\<rceil> + Suc (length (pm_outputs m)))"
    using assms(1) by (simp add: map_ok_def min_def)
  moreover have "pm_nextIndex m \<le> length (mr_items m)" using assms(1) by (simp add: map_ok_def)
  moreover have "i < min (length (mr_items m)) (pm_nextIndex m + 1)"
    if "i = index \<or> i \<in> fst ` set (pm_outputs m)" for i
  proof -
    have "pm_nextIndex m < length (mr_items m) \<or> pm_nextIndex m = length (mr_items m)"
      using assms(1) by (auto simp: map_ok_def min_def)
    moreover have "i < pm_nextIndex m" using that assms(1,3) by (auto simp: map_ok_def)
    ultimately show ?thesis by auto
  qed
  ultimately show ?thesis using assms(1) by (simp add: map_ok_def advanceMap_def)
qed

lemma recordMapOutput_maps:
  assumes "maps_ok s" and "m \<in> set (ws_pendingMaps s)" and "index < pm_nextIndex m"
  shows "maps_ok (recordMapOutput bytes s m index out t r)"
proof -
  let ?outs = "pm_outputs m @ [(index, out)]"
  have only: "item = m" if "item \<in> set (ws_pendingMaps s)" "mr_nodeId item = mr_nodeId m" for item
    using assms(1,2) that by (auto simp: maps_ok_def distinct_map dest: inj_onD)
  have same: "maps_ok (s\<lparr>ws_pendingMaps := map (advanceMap m ?outs) (ws_pendingMaps s)\<rparr>)"
    if "map_of (pm_outputs m) index = None" "Suc (length (pm_outputs m)) \<noteq> length (mr_items m)"
  proof -
    have "map_ok (advanceMap m ?outs item)" if "item \<in> set (ws_pendingMaps s)" for item
    proof (cases "mr_nodeId item = mr_nodeId m")
      case True
      with only [OF that] assms \<open>map_of (pm_outputs m) index = None\<close> \<open>Suc (length (pm_outputs m)) \<noteq> length (mr_items m)\<close>
      show ?thesis by (simp add: advanceMap_ok maps_ok_def)
    qed (use assms(1) that in \<open>simp add: advanceMap_def maps_ok_def\<close>)
    then show ?thesis using assms(1) by (auto simp: maps_ok_def comp_def)
  qed
  have "maps_ok (finishNode s i result error t r c)" for i result error c
    using assms(1) by (rule maps_ok_filter) simp
  with same assms(1) show ?thesis by (simp add: recordMapOutput_def Let_def)
qed

lemma maps_ok_waited:
  assumes "maps_ok s" and "knownIndex s tag"
  shows "maps_ok (waitDone bytes s t r tag event)"
proof (rule waitDone_rule [where P = maps_ok])
  fix fs m index result
  assume "tag = Some (JObj fs)" "readString fs ''nodeId'' = Some (mr_nodeId m)" "readIndex fs ''index'' = Some index"
    and m: "m \<in> set (ws_pendingMaps s)"
  with assms(2) have "index < pm_nextIndex m" by (auto simp: knownIndex_def list_all_iff)
  with assms(1) m show "maps_ok (recordMapOutput bytes s m index result t r)" by (intro recordMapOutput_maps)
qed (use assms(1) in \<open>auto elim: maps_ok_filter simp: maps_ok_def distinct_map_filter\<close>)

lemma maps_ok_plain:
  assumes "maps_ok s" and "requester e = None"
  shows "maps_ok (workflowStep bytes t r s (WorkflowEvent e))"
proof -
  have "\<exists>P. ws_pendingMaps (workflowStep bytes t r s (WorkflowEvent e)) = filter P (ws_pendingMaps s)"
    using assms(2) by (cases e) (auto simp: requester_def workflowStep_def nodeStarted_def nodeFinished_def nodeSkipped_def
      Let_def intro: exI [of _ "\<lambda>_. True"])
  with assms(1) show ?thesis using maps_ok_filter by blast
qed

lemma maps_ok_asked:
  assumes "maps_ok s" and "wellAsked e"
  shows "maps_ok (workflowStep bytes t r s (WorkflowEvent e))"
proof (cases "requester e")
  case (Some i)
  show ?thesis
  proof (cases e)
    case (MapRequested m)
    with assms(2) have "map_ok (startedMap m)" by (intro startedMap_ok) (simp_all add: wellAsked_def)
    moreover have "mr_nodeId (startedMap m) = mr_nodeId m" by (simp add: startedMap_def map_request.defs)
    ultimately show ?thesis
      using assms(1) MapRequested by (auto simp: workflowStep_def mapWanted_def maps_ok_def distinct_map_filter)
  qed (use Some assms(1) in \<open>auto simp: requester_def workflowStep_def spawnWanted_def sleepWanted_def effectsWanted_def
      Let_def maps_ok_def\<close>)
qed (rule maps_ok_plain [OF assms(1)])

lemma maps_ok_planned:
  assumes "maps_ok s" and "scheduleEvents bytes d states input = Some (Inr events)"
  shows "maps_ok (foldWorkflow bytes t r s events)"
proof -
  have "\<forall>e \<in> set events. requester e = None"
  proof (rule schedule_rule [where Q = "\<lambda>evs. \<forall>e \<in> set evs. requester e = None", OF assms(2)])
    show "\<forall>e \<in> set evs. requester e = None" if "failurePolicyEvents d states = Some evs" for evs
      by (rule failurePolicy_rule [where Q = "\<lambda>evs. \<forall>e \<in> set evs. requester e = None", OF that])
         (simp_all add: requester_def)
  qed (auto simp: requester_def)
  with assms(1) show ?thesis by (intro foldl_invariant [where I = maps_ok] maps_ok_plain) auto
qed

section \<open>Every reachable state\<close>

lemma pending_noFallback: "nodeStatusOf m j = NodePending \<Longrightarrow> activeFallback n (dget m j) = None"
  by (cases "dget m j") (auto simp: activeFallback_def nodeStatusOf_def split: option.splits failure_policy.splits)

lemma start_ok:
  assumes "s = workflowStep bytes t r (initialState name version input) (ThreadStartedEvent name' version' input')"
    and "set (ws_nodeIds s) \<subseteq> set (nodeIdsOf d)" and "1 \<le> concurrencyOf d"
  shows "workflow_ok d s" and "maps_ok s"
proof -
  have pending: "knownNodes d m \<and> fallbacksStarted d m \<and> busyCount m = 0 \<and> (\<forall>i. nodeStatusOf m i = NodePending)"
    if "m = foldl (\<lambda>m i. dput i (freshNode NodePending) m) m0 ids" "set ids \<subseteq> set (nodeIdsOf d)"
      "knownNodes d m0 \<and> fallbacksStarted d m0 \<and> busyCount m0 = 0 \<and> (\<forall>i. nodeStatusOf m0 i = NodePending)" for m m0 ids
    using that
  proof (induction ids arbitrary: m0)
    case (Cons i ids)
    let ?m = "dput i (freshNode NodePending) m0"
    have idle: "\<forall>j. nodeStatusOf ?m j = NodePending" using Cons.prems(3) by simp
    have "activeFallback n (dget ?m j) = None" for n j
      by (rule pending_noFallback) (use idle in blast)
    then have "fallbacksStarted d ?m" by (simp add: fallbacksStarted_def list_all_iff del: dget_dput)
    moreover have "knownNodes d ?m" using Cons.prems by (intro knownNodes_dput) simp_all
    moreover have "busyCount ?m = 0" using busyCount_le [of i "freshNode NodePending" m0] Cons.prems(3) by simp
    ultimately show ?case using Cons idle by simp
  qed simp
  have nodes: "ws_nodes s = foldl (\<lambda>m i. dput i (freshNode NodePending) m) [] (ws_nodeIds s)"
    unfolding assms(1) by (simp add: workflowStep_def workflowThreadStarted_def Let_def)
  have "knownNodes d [] \<and> fallbacksStarted d [] \<and> busyCount [] = 0 \<and> (\<forall>i. nodeStatusOf [] i = NodePending)"
    by (auto simp: knownNodes_def fallbacksStarted_def list_all_iff busyCount_def nodeStatusOf_def activeFallback_def
      split: option.splits failure_policy.splits)
  from pending [OF nodes assms(2) this] have "knownNodes d (ws_nodes s)" "fallbacksStarted d (ws_nodes s)"
      "busyCount (ws_nodes s) = 0" "\<forall>i. nodeStatusOf (ws_nodes s) i = NodePending" by blast+
  moreover have "workIds s = []" "ws_needsSchedule s" "ws_pendingMaps s = []"
    unfolding assms(1) by (simp_all add: workflowStep_def workflowThreadStarted_def Let_def initialState_def workIds_def)
  ultimately show "workflow_ok d s" "maps_ok s" using assms(3) by (simp_all add: workflow_ok_def maps_ok_def)
qed

lemma workflow_step_ok:
  assumes "workflow_step bytes d t r s s'" and "defineWorkflow def = Inr d" and "'''' \<notin> set (nodeIdsOf d)"
    and "workflow_ok d s" and "maps_ok s"
  shows "workflow_ok d s' \<and> maps_ok s'"
  using assms(1)
proof cases
  case (planned events)
  from workflow_ok_planned [OF assms(2-4) planned(2)] maps_ok_planned [OF assms(5) planned(2)]
  show ?thesis by (simp add: planned(1))
next
  case (finished i result error branch)
  from workflow_ok_finished [OF assms(4) finished(2)] maps_ok_plain [OF assms(5), of "NodeFinished i result error branch"]
  show ?thesis by (simp add: finished(1) workflowStep_def requester_def)
next
  case (asked e i)
  have "workflow_ok d s'"
    using assms(4) shape_ok_request [OF _ asked(2,3)] request_frame(1) [OF asked(2) refl]
    by (simp add: asked(1) workflow_ok_shape)
  with maps_ok_asked [OF assms(5) asked(4)] show ?thesis by (simp add: asked(1))
next
  case (broken effectId error)
  have "maps_ok (effectFailed s t r effectId error)"
    by (rule effectFailed_rule [where P = maps_ok]) (use assms(5) in \<open>auto simp: maps_ok_def distinct_map_filter\<close>)
  with workflow_ok_broken [OF assms(4)] show ?thesis by (simp add: broken workflowStep_def)
next
  case (waited tag event)
  from workflow_ok_waited [OF assms(4)] maps_ok_waited [OF assms(5) waited(2)]
  show ?thesis by (simp add: waited(1) workflowStep_def)
qed

lemma workflow_reachable_ok:
  assumes "workflow_reachable bytes d t r s" and "defineWorkflow def = Inr d" and "'''' \<notin> set (nodeIdsOf d)"
  shows "workflow_ok d s \<and> maps_ok s"
  using assms(1)
proof induction
  case (start s name version input name' version' input')
  from start_ok [OF start defineWorkflow_facts(1) [OF assms(2)]] show ?case by blast
next
  case (step s s')
  then show ?case using workflow_step_ok [OF step(2) assms(2,3)] by blast
qed

text \<open>
  C35. A workflow never runs more nodes than its concurrency: in every reachable state of an accepted
  definition the running nodes, together with the failed ones that a retry or a fallback may start
  again, are at most as many as the definition allows.
\<close>

theorem running_within_concurrency:
  assumes "defineWorkflow def = Inr d" and "'''' \<notin> set (nodeIdsOf d)" and "workflow_reachable bytes d t r s"
  shows "runningCount (ws_nodes s) \<le> busyCount (ws_nodes s)
    \<and> of_nat (busyCount (ws_nodes s)) \<le> concurrencyOf d \<and> concurrencyOf d \<le> 64"
proof -
  have "runningCount states \<le> busyCount states" for states
    by (induction states) (auto simp: runningCount_def busyCount_def isBusy_def)
  moreover have "concurrencyOf d \<le> 64"
    using assms(1) by (auto simp: defineWorkflow_def resolveGraphConcurrency_def concurrencyOf_def Let_def
      maxGraphConcurrency_def split: if_splits sum.splits option.splits)
  ultimately show ?thesis using workflow_reachable_ok [OF assms(3,1,2)] by (simp add: workflow_ok_def)
qed

text \<open>
  C38. A map keeps its window full and never stalls: in every reachable state a pending map has between one
  and its concurrency of items whose children have not reported, as many as are left when fewer are.
\<close>

theorem map_window:
  assumes "defineWorkflow def = Inr d" and "'''' \<notin> set (nodeIdsOf d)" and "workflow_reachable bytes d t r s"
    and "m \<in> set (ws_pendingMaps s)"
  shows "length (openIndexes m) = min (length (mr_items m) - length (pm_outputs m)) (nat \<lceil>mr_concurrency m\<rceil>)
    \<and> openIndexes m \<noteq> []"
proof -
  have ok: "map_ok m" using workflow_reachable_ok [OF assms(3,1,2)] assms(4) by (simp add: maps_ok_def)
  note len = openIndexes_length [OF ok]
  moreover have "0 < min (length (mr_items m) - length (pm_outputs m)) (nat \<lceil>mr_concurrency m\<rceil>)"
    using ok by (simp add: map_ok_def)
  ultimately show ?thesis by (metis length_0_conv less_irrefl)
qed

text \<open>
  C34. A workflow is never stuck when fallbacks make no cycle with the edges: in every reachable state the
  thread asks for something, a node is running with its invocation outstanding, its end waits to be
  emitted, or a schedule is asked for; and whenever no node is running, scheduling the current states
  returns and plans at least one event.
\<close>

theorem workflow_never_stuck:
  assumes "defineWorkflow def = Inr d" and "'''' \<notin> set (nodeIdsOf d)" and "fallbacksInOrder d order"
    and "workflow_reachable bytes d t r s"
  shows "workflowEffects s t r \<noteq> []
    \<and> (runningCount (ws_nodes s) = 0 \<longrightarrow>
        (\<exists>events. scheduleEvents bytes d (withPendingNodes d (ws_nodes s)) (ws_input s) = Some (Inr events) \<and> events \<noteq> []))"
proof (intro conjI impI)
  have ok: "workflow_ok d s" using workflow_reachable_ok [OF assms(4,1,2)] by blast
  then consider "ws_needsSchedule s" | "ws_pendingEmits s \<noteq> []" | i where "i \<in> set (ws_runningNodes s)"
    by (auto simp: workflow_ok_def)
  then show "workflowEffects s t r \<noteq> []"
    by cases (auto simp: workflowEffects_def nodeEffects_def)
  assume idle: "runningCount (ws_nodes s) = 0"
  have known: "knownNodes d (ws_nodes s)" using ok by (simp add: workflow_ok_def)
  note pend = withPendingNodes_facts [OF known]
  show "\<exists>events. scheduleEvents bytes d (withPendingNodes d (ws_nodes s)) (ws_input s) = Some (Inr events) \<and> events \<noteq> []"
    using ok defineWorkflow_facts(1) [OF assms(1)] idle
    by (intro schedule_returns_work [OF assms(3)]) (simp_all add: pend workflow_ok_def concurrencyOf_def)
qed

section \<open>Ending a node\<close>

lemma filter_other: "j \<noteq> i \<Longrightarrow> filter (\<lambda>x. f x = j) (filter (\<lambda>x. f x \<noteq> i) xs) = filter (\<lambda>x. f x = j) xs"
  by (induction xs) auto

lemma unsettledChildren_other:
  assumes "j \<noteq> i"
    and "ws_pendingSpawns u = filter (\<lambda>p. ps_nodeId p \<noteq> i) (ws_pendingSpawns s)"
    and "ws_pendingMaps u = filter (\<lambda>m. mr_nodeId m \<noteq> i) (ws_pendingMaps s)"
  shows "unsettledChildren u j t r = unsettledChildren s j t r"
  unfolding unsettledChildren_def assms(2,3) by (simp only: filter_other [OF assms(1)])

lemma stopNode_cancels:
  "set (ws_pendingCancels (stopNode s i t r)) = set (ws_pendingCancels s) \<union> set (unsettledChildren s i t r)"
  by (auto simp: stopNode_def withoutPendingWork_def Let_def)


section \<open>Collecting the outputs of a map\<close>

text \<open>The wait of one item is satisfied by the end of its child.\<close>

definition itemDone :: "string \<Rightarrow> nat \<Rightarrow> nat \<times> json \<Rightarrow> thread_event" where
  "itemDone nodeId attempt x = WaitSatisfiedEvent
     (Some (JObj [(''nodeId'', JStr nodeId), (''attempt'', JNum (of_nat attempt)), (''index'', JNum (of_nat (fst x)))]))
     (Some (JObj [(''payload'', JObj [(''output'', snd x)])]))"

lemma itemDone_step:
  assumes "dget (ws_nodes s) i = Some node" and "ns_status node = NodeRunning" and "ns_attempts node = Some a"
    and "find (\<lambda>m. mr_nodeId m = i) (ws_pendingMaps s) = Some m" and "snd x \<noteq> JNull"
  shows "workflowStep bytes t r s (itemDone i a x) = recordMapOutput bytes s m (fst x) (snd x) t r"
  using assms
  by (simp add: workflowStep_def itemDone_def waitDone_def readString_def isCurrentAttempt_def waitOutcome_def Let_def
      readIndex_def readNumber_def)

lemma filter_only: "distinct (map f xs) \<Longrightarrow> x \<in> set xs \<Longrightarrow> filter (\<lambda>y. f y = f x) xs = [x]"
proof (induction xs)
  case (Cons y ys)
  show ?case
  proof (cases "y = x")
    case True
    with Cons.prems(1) have "\<forall>z \<in> set ys. f z \<noteq> f x" by (metis distinct.simps(2) imageI list.set_map list.simps(9))
    with True show ?thesis by (simp add: filter_empty_conv)
  next
    case False
    with Cons.prems have "x \<in> set ys" "f y \<noteq> f x" by auto
    with Cons show ?thesis by simp
  qed
qed simp

lemma filter_advance:
  "filter (\<lambda>q. mr_nodeId q \<noteq> mr_nodeId m) (map (advanceMap m outs) ms) = filter (\<lambda>q. mr_nodeId q \<noteq> mr_nodeId m) ms"
  by (induction ms) (auto simp: advanceMap_def)

lemma find_advance:
  "find (\<lambda>q. mr_nodeId q = i) ms = Some m \<Longrightarrow>
   find (\<lambda>q. mr_nodeId q = i) (map (advanceMap m0 outs) ms) = Some (advanceMap m0 outs m)"
  by (induction ms) (auto split: if_splits)

lemma finishNode_emits:
  "ws_pendingEmits (finishNode s i result error t r c) = filter (\<lambda>p. pt_id p \<noteq> finishedId i) (ws_pendingEmits s)
     @ [\<lparr>pt_id = finishedId i, pt_event = finishedInput t i result error\<rparr>]"
  by (simp add: finishNode_def)

lemma collect_items:
  assumes "dget (ws_nodes s) i = Some node" and "ns_status node = NodeRunning" and "ns_attempts node = Some a"
    and "find (\<lambda>m. mr_nodeId m = i) (ws_pendingMaps s) = Some m" and "distinct (map mr_nodeId (ws_pendingMaps s))"
    and "\<forall>p \<in> set (ws_pendingSpawns s). ps_nodeId p \<noteq> i" and "pm_nextIndex m \<le> length (mr_items m)"
    and "xs \<noteq> []" and "distinct (map fst (pm_outputs m @ xs))" and "set (map fst (pm_outputs m @ xs)) = {..<length (mr_items m)}"
    and "\<forall>x \<in> set xs. snd x \<noteq> JNull" and "\<forall>k. bytes (outputsJson (pm_outputs m @ take k xs)) \<le> mr_limitBytes m"
  shows "\<exists>u. foldl (workflowStep bytes t r) s (map (itemDone i a) xs) = u
    \<and> ws_pendingEmits u = filter (\<lambda>p. pt_id p \<noteq> finishedId i) (ws_pendingEmits s)
        @ [\<lparr>pt_id = finishedId i, pt_event = finishedInput t i (orderedOutputs m (pm_outputs m @ xs)) None\<rparr>]
    \<and> ws_pendingMaps u = filter (\<lambda>m. mr_nodeId m \<noteq> i) (ws_pendingMaps s) \<and> ws_pendingCancels u = ws_pendingCancels s"
  using assms
proof (induction xs arbitrary: s m)
  case (Cons x xs)
  let ?outs = "pm_outputs m @ [x]"
  from find_SomeD [OF Cons.prems(4)] have m: "m \<in> set (ws_pendingMaps s)" "mr_nodeId m = i" by auto
  have step: "workflowStep bytes t r s (itemDone i a x) = recordMapOutput bytes s m (fst x) (snd x) t r"
    using Cons.prems by (intro itemDone_step) simp_all
  have fresh: "map_of (pm_outputs m) (fst x) = None" using Cons.prems(9) by (auto simp: map_of_eq_None_iff)
  have small: "\<not> mr_limitBytes m < bytes (outputsJson ?outs)"
    using Cons.prems(12) [rule_format, of 1] by simp
  have count: "length (pm_outputs m) + Suc (length xs) = length (mr_items m)"
  proof -
    have "card (set (map fst (pm_outputs m @ x # xs))) = length (pm_outputs m @ x # xs)"
      using distinct_card [OF Cons.prems(9)] by simp
    then show ?thesis unfolding Cons.prems(10) by simp
  qed
  show ?case
  proof (cases "xs = []")
    case True
    let ?settled = "childTarget r (mapChildThreadId t m (fst x)) (mr_execution m)"
    have last: "recordMapOutput bytes s m (fst x) (snd x) t r
        = finishNode s i (orderedOutputs m ?outs) None t r (Some ?settled)"
      using fresh small count True m(2) by (simp add: recordMapOutput_def Let_def)
    have only: "k = fst x" if "k \<in> set (openIndexes m)" for k
    proof -
      from that have k: "k \<notin> fst ` set (pm_outputs m)" "k < pm_nextIndex m"
        by (auto simp: openIndexes_def map_of_eq_None_iff)
      with Cons.prems(7) have "k \<in> set (map fst (pm_outputs m @ [x]))" using Cons.prems(10) True by simp
      with k(1) show ?thesis by simp
    qed
    have "filter (\<lambda>q. mr_nodeId q = i) (ws_pendingMaps s) = [m]"
      using filter_only [OF Cons.prems(5) m(1)] m(2) by simp
    then have "set (unsettledChildren s i t r) \<subseteq> {?settled}"
      using Cons.prems(6) only by (auto simp: unsettledChildren_def)
    then have "filter (\<lambda>c. Some c \<noteq> Some ?settled \<and> \<not> List.member (ws_pendingCancels s) c) (unsettledChildren s i t r) = []"
      by (auto simp: filter_empty_conv)
    then have "ws_pendingCancels (finishNode s i out None t r (Some ?settled)) = ws_pendingCancels s" for out
      by (simp add: finishNode_def withoutPendingWork_def Let_def)
    with step last True show ?thesis by (simp add: finishNode_emits)
  next
    case False
    let ?u = "s\<lparr>ws_pendingMaps := map (advanceMap m ?outs) (ws_pendingMaps s)\<rparr>"
    let ?m = "advanceMap m ?outs m"
    have u: "recordMapOutput bytes s m (fst x) (snd x) t r = ?u"
    proof -
      have "Suc (length (pm_outputs m)) \<noteq> length (mr_items m)" using count False by (cases xs) auto
      with fresh small show ?thesis by (simp add: recordMapOutput_def Let_def)
    qed
    have m': "pm_outputs ?m = ?outs" "mr_items ?m = mr_items m" "mr_limitBytes ?m = mr_limitBytes m"
        "pm_nextIndex ?m \<le> length (mr_items m)"
      by (simp_all add: advanceMap_def)
    have found: "find (\<lambda>q. mr_nodeId q = i) (ws_pendingMaps ?u) = Some ?m"
      using find_advance [OF Cons.prems(4)] by simp
    have size: "\<forall>k. bytes (outputsJson (?outs @ take k xs)) \<le> mr_limitBytes m"
    proof
      fix k show "bytes (outputsJson (?outs @ take k xs)) \<le> mr_limitBytes m"
        using Cons.prems(12) [rule_format, of "Suc k"] by simp
    qed
    have rest: "filter (\<lambda>q. mr_nodeId q \<noteq> i) (ws_pendingMaps ?u) = filter (\<lambda>q. mr_nodeId q \<noteq> i) (ws_pendingMaps s)"
      using filter_advance [of m ?outs "ws_pendingMaps s"] m(2) by simp
    have "orderedOutputs ?m outs = orderedOutputs m outs" for outs by (simp add: orderedOutputs_def)
    then show ?thesis
      using Cons.IH [of ?u ?m] Cons.prems False found size step u m'
      by (simp add: rest [simplified] comp_def)
  qed
qed simp


section \<open>A workflow of one node\<close>

definition oneNode :: workflow_definition where
  "oneNode = plainWorkflow [plainNode ''a'' [] None]"

abbreviation "definedOne \<equiv> oneNode\<lparr>wd_version := Some ''v1'', wd_concurrency := Some 8\<rparr>"

definition exampleInput :: json where "exampleInput = JObj [(''nodeIds'', JArr [JStr ''a''])]"

definition exampleStart :: workflow_state where
  "exampleStart = workflowStep (\<lambda>_. 0) ''t'' ''r'' (initialState None None JNull)
     (ThreadStartedEvent ''w'' None (Some exampleInput))"

definition exampleRunning :: workflow_state where
  "exampleRunning = foldWorkflow (\<lambda>_. 0) ''t'' ''r'' exampleStart [NodeStarted ''a'']"

definition exampleMap :: map_request where
  "exampleMap = \<lparr>mr_nodeId = ''a'', mr_attempt = 1, mr_kind = ''workflow'', mr_definitionName = ''c'',
     mr_definitionVersion = ''v1'', mr_items = [JNum 5, JNum 6, JNum 7], mr_concurrency = 2, mr_limitBytes = 10,
     mr_execution = InThread, mr_close = Terminate\<rparr>"

definition exampleMapped :: workflow_state where
  "exampleMapped = workflowStep (\<lambda>_. 0) ''t'' ''r'' exampleRunning (WorkflowEvent (MapRequested exampleMap))"

lemma example_facts:
  "resolveGraphConcurrency (wd_concurrency oneNode) = Inr 8"
  "topologicalSort (nodeIdsOf definedOne) (workflowEdges definedOne) = Inr [''a'']"
  "topologicalSort (nodeIdsOf definedOne) (workflowEdges definedOne @ fallbackEdges definedOne) = Inr [''a'']"
  "checkPolicies definedOne (wd_nodes definedOne) = None"
  "wd_version oneNode = None"
  "list_all (\<lambda>i. i \<noteq> '''') (nodeIdsOf definedOne)"
  "ws_nodeIds exampleStart = [''a'']"
  "nodeIdsOf definedOne = [''a'']"
  "failurePolicyEvents definedOne (withPendingNodes definedOne (ws_nodes exampleStart)) = None"
  "getSkippableNodeIds definedOne (withPendingNodes definedOne (ws_nodes exampleStart)) = Some (Inr [])"
  "getUnusedFallbackIds definedOne (withPendingNodes definedOne (ws_nodes exampleStart)) = []"
  "getReadyNodeIds definedOne (withPendingNodes definedOne (ws_nodes exampleStart)) = Some (Inr [''a''])"
  "freeSlots definedOne (withPendingNodes definedOne (ws_nodes exampleStart)) = 8"
  "nodeStatusOf (ws_nodes exampleRunning) ''a'' = NodeRunning"
  by code_simp+

lemma example_defined: "defineWorkflow oneNode = Inr definedOne" "'''' \<notin> set (nodeIdsOf definedOne)"
  using example_facts by (simp_all add: defineWorkflow_def Let_def defaultDefinitionVersion_def)

lemma example_reachable:
  "workflow_reachable (\<lambda>_. 0) definedOne ''t'' ''r'' exampleRunning"
  "workflow_reachable (\<lambda>_. 0) definedOne ''t'' ''r'' exampleMapped"
proof -
  have "workflow_reachable (\<lambda>_. 0) definedOne ''t'' ''r'' exampleStart"
    by (rule workflow_reachable.start [OF exampleStart_def]) (simp only: example_facts(7,8))
  moreover have "scheduleEvents (\<lambda>_. 0) definedOne (withPendingNodes definedOne (ws_nodes exampleStart)) (ws_input exampleStart)
      = Some (Inr [NodeStarted ''a''])"
    using example_facts(9-13) by (simp add: scheduleEvents_def startOrFinish_def assertJsonWithinLimit_def Let_def)
  then have "workflow_step (\<lambda>_. 0) definedOne ''t'' ''r'' exampleStart exampleRunning"
    unfolding exampleRunning_def by (rule workflow_step.planned)
  ultimately show running: "workflow_reachable (\<lambda>_. 0) definedOne ''t'' ''r'' exampleRunning"
    by (rule workflow_reachable.step)
  have "requester (MapRequested exampleMap) = Some ''a''" "wellAsked (MapRequested exampleMap)"
    by (simp_all add: requester_def wellAsked_def exampleMap_def)
  then have "workflow_step (\<lambda>_. 0) definedOne ''t'' ''r'' exampleRunning exampleMapped"
    unfolding exampleMapped_def by (intro workflow_step.asked [OF _ example_facts(14)])
  with running show "workflow_reachable (\<lambda>_. 0) definedOne ''t'' ''r'' exampleMapped"
    by (rule workflow_reachable.step)
qed

lemma example_map:
  "find (\<lambda>m. mr_nodeId m = ''a'') (ws_pendingMaps exampleMapped) = Some (startedMap exampleMap)"
  "map mr_nodeId (ws_pendingMaps exampleMapped) = [''a'']" "ws_pendingSpawns exampleMapped = []"
  "dget (ws_nodes exampleMapped) ''a'' = Some ((freshNode NodeRunning)\<lparr>ns_attempts := Some 1\<rparr>)"
  "ws_pendingMaps exampleMapped = [startedMap exampleMap]" "length (mr_items exampleMap) = 3"
  by code_simp+

lemma running_within_concurrency_witness:
  "runningCount (ws_nodes exampleRunning) = 1
    \<and> of_nat (busyCount (ws_nodes exampleRunning)) \<le> concurrencyOf definedOne"
  using running_within_concurrency [OF example_defined example_reachable(1)] by (intro conjI) (code_simp, blast)

lemma map_window_witness: "length (openIndexes (startedMap exampleMap)) = 2"
proof -
  have "startedMap exampleMap \<in> set (ws_pendingMaps exampleMapped)" by (simp add: example_map(5))
  from map_window [OF example_defined example_reachable(2) this]
  show ?thesis by (simp add: startedMap_def exampleMap_def map_request.defs pending_map.defs)
qed

lemma workflow_never_stuck_witness:
  "ws_needsSchedule exampleMapped = False \<and> workflowEffects exampleMapped ''t'' ''r'' \<noteq> []"
proof
  show "ws_needsSchedule exampleMapped = False" by code_simp
  have "fallbacksInOrder definedOne [''a'']" using example_facts(3) by (simp add: fallbacksInOrder_def)
  from workflow_never_stuck [OF example_defined this example_reachable(2)]
  show "workflowEffects exampleMapped ''t'' ''r'' \<noteq> []" by blast
qed



end
