(* ===== verification/Run_Contexts.thy ===== *)
theory Run_Contexts
  imports Looms_Prelude
begin

text \<open>
  \<open>packages/runtime/src/run-execution-context.ts\<close>, \<open>ingress.ts\<close> and the claim of a wake in \<open>wake-engine.ts\<close>:
  what the fibres of one process share about a run. Operations on a run are admitted one at a time through a
  chain of promises; one fibre wakes the run and the others join its wake.

  A context is an object that fibres hold while the map of contexts may forget it, so contexts are kept in a
  heap and the map gives addresses. A promise is a number.
\<close>

section \<open>Contexts\<close>

record run_ingress =
  ri_pending :: nat
  ri_tail :: "nat option"
    \<comment> \<open>\<open>None\<close> for \<open>Promise.resolve()\<close>\<close>

record run_context =
  rc_activeEffects :: "string dict"
    \<comment> \<open>the thread of each active effect; its controller is the signal of the handler\<close>
  rc_waking :: bool
  rc_wakeAgain :: bool
  rc_wakeCompletion :: "nat option"
  rc_resolves :: bool
  rc_ingress :: "run_ingress option"
  rc_liveStore :: bool
  rc_liveCount :: nat

record contexts =
  cs_heap :: "nat \<Rightarrow> run_context"
  cs_next :: nat
  cs_runs :: "nat dict"

definition createRunExecutionContext :: run_context where
  "createRunExecutionContext = \<lparr>rc_activeEffects = [], rc_waking = False, rc_wakeAgain = False, rc_wakeCompletion = None,
     rc_resolves = False, rc_ingress = None, rc_liveStore = False, rc_liveCount = 0\<rparr>"

definition isIdle :: "run_context \<Rightarrow> bool" where
  "isIdle c \<longleftrightarrow> \<not> rc_waking c \<and> \<not> rc_wakeAgain c \<and> rc_wakeCompletion c = None \<and> \<not> rc_resolves c \<and> rc_ingress c = None
     \<and> \<not> rc_liveStore c \<and> rc_liveCount c = 0 \<and> rc_activeEffects c = []"

definition emptyContexts :: contexts where
  "emptyContexts = \<lparr>cs_heap = (\<lambda>_. createRunExecutionContext), cs_next = 0, cs_runs = []\<rparr>"

definition getContext :: "string \<Rightarrow> contexts \<Rightarrow> nat \<times> contexts" where
  "getContext runId cs = (case dget (cs_runs cs) runId of
     Some a \<Rightarrow> (a, cs)
   | None \<Rightarrow> (cs_next cs, \<lparr>cs_heap = (cs_heap cs)(cs_next cs := createRunExecutionContext), cs_next = Suc (cs_next cs),
       cs_runs = dput runId (cs_next cs) (cs_runs cs)\<rparr>))"

definition peekContext :: "string \<Rightarrow> contexts \<Rightarrow> run_context option" where
  "peekContext runId cs = map_option (cs_heap cs) (dget (cs_runs cs) runId)"

definition updateContext :: "nat \<Rightarrow> (run_context \<Rightarrow> run_context) \<Rightarrow> contexts \<Rightarrow> contexts" where
  "updateContext a f cs = cs\<lparr>cs_heap := (cs_heap cs)(a := f (cs_heap cs a))\<rparr>"

text \<open>\<open>abort\<close>: the effects whose controller is aborted.\<close>

definition abortedEffects :: "string \<Rightarrow> string list \<Rightarrow> contexts \<Rightarrow> string list" where
  "abortedEffects runId threadIds cs = (case peekContext runId cs of
     None \<Rightarrow> []
   | Some c \<Rightarrow> if threadIds = [] then []
               else dkeys (filter (\<lambda>(_, threadId). List.member threadIds threadId) (rc_activeEffects c)))"

definition releaseIfIdle :: "string \<Rightarrow> contexts \<Rightarrow> contexts" where
  "releaseIfIdle runId cs = (case peekContext runId cs of
     None \<Rightarrow> cs
   | Some c \<Rightarrow> if isIdle c then cs\<lparr>cs_runs := ddel runId (cs_runs cs)\<rparr> else cs)"

section \<open>Ingress\<close>

text \<open>
  Admission: an error when the queue is full, or the context, what the operation waits for, and the queue with
  its own promise at the end.
\<close>

definition admitOperation :: "nat \<Rightarrow> string \<Rightarrow> nat \<Rightarrow> contexts \<Rightarrow> (nat + nat \<times> nat option) \<times> contexts" where
  "admitOperation limit runId own cs =
     (let (a, cs1) = getContext runId cs;
          current = withDefault (rc_ingress (cs_heap cs1 a)) \<lparr>ri_pending = 0, ri_tail = None\<rparr>
      in if limit \<le> ri_pending current then (Inl limit, cs1)
         else (Inr (a, ri_tail current),
               updateContext a (\<lambda>c. c\<lparr>rc_ingress := Some \<lparr>ri_pending = ri_pending current + 1, ri_tail = Some own\<rparr>\<rparr>) cs1))"

definition leaveIngress :: "string \<Rightarrow> nat \<Rightarrow> contexts \<Rightarrow> contexts" where
  "leaveIngress runId a cs = (case rc_ingress (cs_heap cs a) of
     None \<Rightarrow> cs
   | Some latest \<Rightarrow> releaseIfIdle runId (updateContext a (\<lambda>c. c\<lparr>rc_ingress :=
       (if ri_pending latest \<le> 1 then None else Some (latest\<lparr>ri_pending := ri_pending latest - 1\<rparr>))\<rparr>) cs))"

section \<open>The claim of a wake\<close>

text \<open>A wake that finds the run waking asks for another round and waits for the completion.\<close>

definition claimWake :: "string \<Rightarrow> nat \<Rightarrow> contexts \<Rightarrow> (nat option + nat) \<times> contexts" where
  "claimWake runId completion cs =
     (let (a, cs1) = getContext runId cs; c = cs_heap cs1 a
      in if rc_waking c then (Inl (rc_wakeCompletion c), updateContext a (\<lambda>c. c\<lparr>rc_wakeAgain := True\<rparr>) cs1)
         else (Inr a, updateContext a (\<lambda>c. c\<lparr>rc_wakeCompletion := Some completion, rc_resolves := True,
                 rc_waking := True\<rparr>) cs1))"

text \<open>The waking fibre makes its store known, for the live events of handlers.\<close>

definition attachStore :: "nat \<Rightarrow> contexts \<Rightarrow> contexts" where
  "attachStore a = updateContext a (\<lambda>c. c\<lparr>rc_liveStore := True\<rparr>)"

definition releaseWake :: "string \<Rightarrow> nat \<Rightarrow> contexts \<Rightarrow> contexts" where
  "releaseWake runId a cs = releaseIfIdle runId (updateContext a (\<lambda>c. c\<lparr>rc_waking := False, rc_wakeAgain := False,
     rc_wakeCompletion := None, rc_resolves := False, rc_liveStore := False, rc_liveCount := 0\<rparr>) cs)"

definition releaseUnlessWokenAgain :: "string \<Rightarrow> nat \<Rightarrow> contexts \<Rightarrow> bool \<times> contexts" where
  "releaseUnlessWokenAgain runId a cs =
     (if rc_wakeAgain (cs_heap cs a) then (False, updateContext a (\<lambda>c. c\<lparr>rc_wakeAgain := False\<rparr>) cs)
      else (True, releaseWake runId a cs))"

text \<open>
  A signal that coalesces leaves the wake to the fibre that is waking the run (\<open>appendAndWake\<close> of
  \<open>runtime.ts\<close>); the result tells whether there was one.
\<close>

definition coalesceWake :: "string \<Rightarrow> contexts \<Rightarrow> bool \<times> contexts" where
  "coalesceWake runId cs =
     (let (a, cs1) = getContext runId cs
      in if rc_waking (cs_heap cs1 a) then (True, updateContext a (\<lambda>c. c\<lparr>rc_wakeAgain := True\<rparr>) cs1) else (False, cs1))"

text \<open>The executor keeps the effects it runs in the context.\<close>

definition effectBegins :: "nat \<Rightarrow> string \<Rightarrow> string \<Rightarrow> contexts \<Rightarrow> contexts" where
  "effectBegins a effectId threadId = updateContext a (\<lambda>c. c\<lparr>rc_activeEffects := dput effectId threadId (rc_activeEffects c)\<rparr>)"

definition effectEnds :: "nat \<Rightarrow> string \<Rightarrow> contexts \<Rightarrow> contexts" where
  "effectEnds a effectId = updateContext a (\<lambda>c. c\<lparr>rc_activeEffects := ddel effectId (rc_activeEffects c)\<rparr>)"

section \<open>The fibres of a run\<close>

text \<open>
  The fibres of the run \<open>r\<close> of one process, interleaved step by step. \<open>fb_queue\<close> holds the operations admitted
  and not left, in the order they came: the promise of each, its context, what it waits for, and whether it
  runs. \<open>fb_wake\<close> holds the fibres that wake the run: the context, the completion, and the moment the round
  in progress began. A wake that released its claim resolves its completion in a later step (\<open>fb_exiting\<close>: the
  completion and, when it succeeded, the moment its last round began). \<open>fb_joined\<close> are the wakes that wait
  for a completion, with the moment they asked, and \<open>fb_served\<close> those that got one.

  Moments count the steps. \<open>fb_asked\<close> are the moments at which someone asked for a wake, \<open>fb_round\<close> the moment
  the last round began, \<open>fb_failed\<close> the moment the last wake failed, \<open>fb_withdrawn\<close> whether an operation was
  interrupted before it ran.
\<close>

record queued =
  qd_own :: nat
  qd_context :: nat
  qd_previous :: "nat option"
  qd_runs :: bool

record waker =
  wk_context :: nat
  wk_completion :: nat
  wk_round :: nat
  wk_effects :: "string list"

record fibres =
  fb_contexts :: contexts
  fb_promises :: nat
  fb_resolved :: "nat list"
  fb_queue :: "queued list"
  fb_wake :: "waker list"
  fb_exiting :: "(nat \<times> nat option) list"
  fb_joined :: "(nat \<times> nat) list"
  fb_served :: "(nat \<times> nat option) list"
  fb_now :: nat
  fb_asked :: "nat list"
  fb_round :: nat
  fb_failed :: nat
  fb_withdrawn :: bool

definition idleFibres :: fibres where
  "idleFibres = \<lparr>fb_contexts = emptyContexts, fb_promises = 0, fb_resolved = [], fb_queue = [], fb_wake = [], fb_exiting = [],
     fb_joined = [], fb_served = [], fb_now = 0, fb_asked = [], fb_round = 0, fb_failed = 0, fb_withdrawn = False\<rparr>"

text \<open>The next moment.\<close>

definition ticked :: "fibres \<Rightarrow> fibres" where
  "ticked m = m\<lparr>fb_now := Suc (fb_now m)\<rparr>"

text \<open>An operation arrives; it is admitted, or the run is overloaded.\<close>

definition arrive :: "nat \<Rightarrow> string \<Rightarrow> fibres \<Rightarrow> fibres" where
  "arrive limit r m = (case admitOperation limit r (fb_promises m) (fb_contexts m) of
     (Inl _, cs) \<Rightarrow> m\<lparr>fb_contexts := cs\<rparr>
   | (Inr (a, previous), cs) \<Rightarrow> m\<lparr>fb_contexts := cs, fb_promises := Suc (fb_promises m),
       fb_queue := fb_queue m @ [\<lparr>qd_own = fb_promises m, qd_context = a, qd_previous = previous, qd_runs = False\<rparr>]\<rparr>)"

definition mayRun :: "fibres \<Rightarrow> queued \<Rightarrow> bool" where
  "mayRun m q \<longleftrightarrow> (case qd_previous q of None \<Rightarrow> True | Some p \<Rightarrow> List.member (fb_resolved m) p)"

definition startRunning :: "queued \<Rightarrow> fibres \<Rightarrow> fibres" where
  "startRunning q m = m\<lparr>fb_queue := map (\<lambda>x. if x = q then x\<lparr>qd_runs := True\<rparr> else x) (fb_queue m)\<rparr>"

text \<open>An operation leaves: it ended, or it was interrupted while it waited or ran.\<close>

definition leave :: "string \<Rightarrow> queued \<Rightarrow> fibres \<Rightarrow> fibres" where
  "leave r q m = m\<lparr>fb_resolved := qd_own q # fb_resolved m, fb_contexts := leaveIngress r (qd_context q) (fb_contexts m),
     fb_queue := filter (\<lambda>x. x \<noteq> q) (fb_queue m), fb_withdrawn := (fb_withdrawn m \<or> \<not> qd_runs q)\<rparr>"

definition askWake :: "string \<Rightarrow> fibres \<Rightarrow> fibres" where
  "askWake r m = (case claimWake r (fb_promises m) (fb_contexts m) of
     (Inl completion, cs) \<Rightarrow> m\<lparr>fb_contexts := cs, fb_asked := fb_now m # fb_asked m,
       fb_joined := (case completion of None \<Rightarrow> fb_joined m | Some p \<Rightarrow> (fb_now m, p) # fb_joined m)\<rparr>
   | (Inr a, cs) \<Rightarrow> m\<lparr>fb_contexts := cs, fb_promises := Suc (fb_promises m), fb_asked := fb_now m # fb_asked m,
       fb_round := Suc (fb_now m),
       fb_wake := \<lparr>wk_context = a, wk_completion = fb_promises m, wk_round = Suc (fb_now m), wk_effects = []\<rparr> # fb_wake m\<rparr>)"

definition askCoalesced :: "string \<Rightarrow> fibres \<Rightarrow> fibres" where
  "askCoalesced r m = (case coalesceWake r (fb_contexts m) of
     (True, cs) \<Rightarrow> m\<lparr>fb_contexts := cs, fb_asked := fb_now m # fb_asked m\<rparr>
   | (False, cs) \<Rightarrow> askWake r (m\<lparr>fb_contexts := cs\<rparr>))"

definition effectOf :: "waker \<Rightarrow> string \<Rightarrow> string \<Rightarrow> fibres \<Rightarrow> fibres" where
  "effectOf w effectId threadId m = m\<lparr>fb_contexts := effectBegins (wk_context w) effectId threadId (fb_contexts m),
     fb_wake := map (\<lambda>x. if x = w then x\<lparr>wk_effects := effectId # wk_effects x\<rparr> else x) (fb_wake m)\<rparr>"

definition effectOver :: "waker \<Rightarrow> string \<Rightarrow> fibres \<Rightarrow> fibres" where
  "effectOver w effectId m = m\<lparr>fb_contexts := effectEnds (wk_context w) effectId (fb_contexts m),
     fb_wake := map (\<lambda>x. if x = w then x\<lparr>wk_effects := filter (\<lambda>e. e \<noteq> effectId) (wk_effects x)\<rparr> else x) (fb_wake m)\<rparr>"

text \<open>A round ends well: another one, or the end of the wake.\<close>

definition roundEnds :: "string \<Rightarrow> waker \<Rightarrow> fibres \<Rightarrow> fibres" where
  "roundEnds r w m = (case releaseUnlessWokenAgain r (wk_context w) (fb_contexts m) of
     (False, cs) \<Rightarrow> m\<lparr>fb_contexts := cs, fb_round := Suc (fb_now m),
       fb_wake := map (\<lambda>x. if x = w then x\<lparr>wk_round := Suc (fb_now m)\<rparr> else x) (fb_wake m)\<rparr>
   | (True, cs) \<Rightarrow> m\<lparr>fb_contexts := cs, fb_wake := filter (\<lambda>x. x \<noteq> w) (fb_wake m),
       fb_exiting := (wk_completion w, Some (wk_round w)) # fb_exiting m\<rparr>)"

definition wakeFails :: "string \<Rightarrow> waker \<Rightarrow> fibres \<Rightarrow> fibres" where
  "wakeFails r w m = m\<lparr>fb_contexts := releaseWake r (wk_context w) (fb_contexts m), fb_wake := filter (\<lambda>x. x \<noteq> w) (fb_wake m),
     fb_exiting := (wk_completion w, None) # fb_exiting m, fb_failed := Suc (fb_now m)\<rparr>"

definition resolveCompletion :: "nat \<times> nat option \<Rightarrow> fibres \<Rightarrow> fibres" where
  "resolveCompletion x m = m\<lparr>fb_exiting := filter (\<lambda>y. y \<noteq> x) (fb_exiting m),
     fb_served := map (\<lambda>(asked, _). (asked, snd x)) (filter (\<lambda>(_, p). p = fst x) (fb_joined m)) @ fb_served m,
     fb_joined := filter (\<lambda>(_, p). p \<noteq> fst x) (fb_joined m)\<rparr>"

inductive fibre_step :: "nat \<Rightarrow> string \<Rightarrow> fibres \<Rightarrow> fibres \<Rightarrow> bool" for limit r where
  arrives: "fibre_step limit r m (ticked (arrive limit r m))"
| runs: "q \<in> set (fb_queue m) \<Longrightarrow> mayRun m q \<Longrightarrow> fibre_step limit r m (ticked (startRunning q m))"
| leaves: "q \<in> set (fb_queue m) \<Longrightarrow> fibre_step limit r m (ticked (leave r q m))"
| asks: "fibre_step limit r m (ticked (askWake r m))"
| coalesces: "fibre_step limit r m (ticked (askCoalesced r m))"
| effect: "w \<in> set (fb_wake m) \<Longrightarrow> fibre_step limit r m (ticked (effectOf w effectId threadId m))"
| effect_over: "w \<in> set (fb_wake m) \<Longrightarrow> fibre_step limit r m (ticked (effectOver w effectId m))"
| store: "w \<in> set (fb_wake m) \<Longrightarrow>
    fibre_step limit r m (ticked (m\<lparr>fb_contexts := attachStore (wk_context w) (fb_contexts m)\<rparr>))"
| round_over: "w \<in> set (fb_wake m) \<Longrightarrow> wk_effects w = [] \<Longrightarrow> fibre_step limit r m (ticked (roundEnds r w m))"
| fails: "w \<in> set (fb_wake m) \<Longrightarrow> wk_effects w = [] \<Longrightarrow> fibre_step limit r m (ticked (wakeFails r w m))"
| resolves: "x \<in> set (fb_exiting m) \<Longrightarrow> fibre_step limit r m (ticked (resolveCompletion x m))"

inductive fibres_reach :: "nat \<Rightarrow> string \<Rightarrow> fibres \<Rightarrow> bool" for limit r where
  begins: "fibres_reach limit r idleFibres"
| goes: "fibres_reach limit r m \<Longrightarrow> fibre_step limit r m m' \<Longrightarrow> fibres_reach limit r m'"

section \<open>One context per run\<close>

lemma idle_fresh: "isIdle c \<longleftrightarrow> c = createRunExecutionContext"
  by (cases c) (auto simp: isIdle_def createRunExecutionContext_def)

definition viewContext :: "string \<Rightarrow> contexts \<Rightarrow> run_context" where
  "viewContext r cs = withDefault (peekContext r cs) createRunExecutionContext"

definition present :: "string \<Rightarrow> contexts \<Rightarrow> nat \<Rightarrow> bool" where
  "present r cs a \<longleftrightarrow> dget (cs_runs cs) r = Some a"

lemma present_view: "present r cs a \<Longrightarrow> viewContext r cs = cs_heap cs a"
  by (simp add: present_def viewContext_def peekContext_def)

lemma get_present: "getContext r cs = (a, cs') \<Longrightarrow> present r cs' a \<and> viewContext r cs' = viewContext r cs"
  by (auto simp: getContext_def present_def viewContext_def peekContext_def split: option.splits)

lemma get_same: "present r cs a \<Longrightarrow> getContext r cs = (a, cs)"
  by (simp add: getContext_def present_def)

lemma update_present [simp]: "present r (updateContext a f cs) b = present r cs b"
  by (simp add: updateContext_def present_def)

lemma update_view: "present r cs a \<Longrightarrow> viewContext r (updateContext a f cs) = f (viewContext r cs)"
  by (auto simp: updateContext_def present_def viewContext_def peekContext_def)

lemma release_view: "viewContext r (releaseIfIdle r cs) = viewContext r cs"
  by (auto simp: releaseIfIdle_def viewContext_def peekContext_def idle_fresh split: option.split)

lemma release_present: "present r (releaseIfIdle r cs) a \<longleftrightarrow> present r cs a \<and> \<not> isIdle (viewContext r cs)"
  by (auto simp: releaseIfIdle_def viewContext_def peekContext_def present_def split: option.split)

lemma view_empty [simp]: "viewContext r emptyContexts = createRunExecutionContext" "\<not> present r emptyContexts a"
  by (simp_all add: viewContext_def peekContext_def emptyContexts_def present_def)

lemma fresh_fields [simp]:
  "rc_waking createRunExecutionContext = False" "rc_wakeAgain createRunExecutionContext = False"
  "rc_wakeCompletion createRunExecutionContext = None" "rc_resolves createRunExecutionContext = False"
  "rc_ingress createRunExecutionContext = None" "rc_liveStore createRunExecutionContext = False"
  "rc_liveCount createRunExecutionContext = 0" "rc_activeEffects createRunExecutionContext = []"
  by (simp_all add: createRunExecutionContext_def)

text \<open>What the operations on a context do to the context of the run.\<close>

lemma admit_view:
  assumes "admitOperation limit r own cs = (result, cs')"
  obtains a where "present r cs' a" "\<And>b. present r cs b \<Longrightarrow> b = a"
    "case result of
       Inl _ \<Rightarrow> (case rc_ingress (viewContext r cs) of None \<Rightarrow> limit = 0 | Some i \<Rightarrow> limit \<le> ri_pending i) \<and> viewContext r cs' = viewContext r cs
     | Inr (b, previous) \<Rightarrow> b = a
         \<and> (case rc_ingress (viewContext r cs) of
              None \<Rightarrow> 0 < limit \<and> previous = None
                \<and> viewContext r cs' = (viewContext r cs)\<lparr>rc_ingress := Some \<lparr>ri_pending = 1, ri_tail = Some own\<rparr>\<rparr>
            | Some i \<Rightarrow> ri_pending i < limit \<and> previous = ri_tail i
                \<and> viewContext r cs' = (viewContext r cs)\<lparr>rc_ingress := Some \<lparr>ri_pending = ri_pending i + 1, ri_tail = Some own\<rparr>\<rparr>)"
proof -
  obtain a cs1 where got: "getContext r cs = (a, cs1)" by fastforce
  note at = get_present [OF got]
  have same: "b = a" if "present r cs b" for b using get_same [OF that] got by simp
  have heap: "cs_heap cs1 a = viewContext r cs" using at present_view by metis
  show thesis
    by (rule that [of a]) (use assms got at same heap update_view [of r cs1 a] in
      \<open>auto simp: admitOperation_def Let_def withDefault_def split: if_splits option.splits\<close>)
qed

lemma leave_view:
  assumes "present r cs a"
  shows "viewContext r (leaveIngress r a cs) = (viewContext r cs)\<lparr>rc_ingress := (case rc_ingress (viewContext r cs) of
      None \<Rightarrow> None | Some i \<Rightarrow> if ri_pending i \<le> 1 then None else Some (i\<lparr>ri_pending := ri_pending i - 1\<rparr>))\<rparr>"
    and "present r (leaveIngress r a cs) b \<longleftrightarrow> present r cs b
      \<and> (rc_ingress (viewContext r cs) = None \<or> \<not> isIdle (viewContext r (leaveIngress r a cs)))"
  using present_view [OF assms] update_view [OF assms]
  by (cases "cs_heap cs a"; auto simp: leaveIngress_def release_view release_present split: option.split)+

lemma claim_view:
  assumes "claimWake r p cs = (result, cs')"
  obtains a where "present r cs' a" "\<And>b. present r cs b \<Longrightarrow> b = a"
    "result = (if rc_waking (viewContext r cs) then Inl (rc_wakeCompletion (viewContext r cs)) else Inr a)"
    "viewContext r cs' = (if rc_waking (viewContext r cs) then (viewContext r cs)\<lparr>rc_wakeAgain := True\<rparr>
       else (viewContext r cs)\<lparr>rc_wakeCompletion := Some p, rc_resolves := True, rc_waking := True\<rparr>)"
proof -
  obtain a cs1 where got: "getContext r cs = (a, cs1)" by fastforce
  note at = get_present [OF got]
  have same: "b = a" if "present r cs b" for b using get_same [OF that] got by simp
  have heap: "cs_heap cs1 a = viewContext r cs" using at present_view by metis
  show thesis
    by (rule that [of a]) (use assms got at same heap update_view [of r cs1 a] in
      \<open>auto simp: claimWake_def Let_def split: if_splits\<close>)
qed

lemma coalesce_view:
  assumes "coalesceWake r cs = (joined, cs')"
  obtains a where "present r cs' a" "\<And>b. present r cs b \<Longrightarrow> b = a" "joined = rc_waking (viewContext r cs)"
    "viewContext r cs' = (if joined then (viewContext r cs)\<lparr>rc_wakeAgain := True\<rparr> else viewContext r cs)"
proof -
  obtain a cs1 where got: "getContext r cs = (a, cs1)" by fastforce
  note at = get_present [OF got]
  have same: "b = a" if "present r cs b" for b using get_same [OF that] got by simp
  have heap: "cs_heap cs1 a = viewContext r cs" using at present_view by metis
  show thesis
    by (rule that [of a]) (use assms got at same heap update_view [of r cs1 a] in
      \<open>auto simp: coalesceWake_def Let_def split: if_splits\<close>)
qed

lemma releaseWake_view:
  assumes "present r cs a"
  shows "viewContext r (releaseWake r a cs) = (viewContext r cs)\<lparr>rc_waking := False, rc_wakeAgain := False,
      rc_wakeCompletion := None, rc_resolves := False, rc_liveStore := False, rc_liveCount := 0\<rparr>"
    and "present r (releaseWake r a cs) b \<longleftrightarrow> present r cs b \<and> \<not> isIdle (viewContext r (releaseWake r a cs))"
  using update_view [OF assms] by (simp_all add: releaseWake_def release_view release_present)

section \<open>What holds of the fibres\<close>

text \<open>Whoever holds a context holds the one of the map.\<close>

definition holdsContext :: "string \<Rightarrow> fibres \<Rightarrow> bool" where
  "holdsContext r m \<longleftrightarrow> (\<forall>q \<in> set (fb_queue m). present r (fb_contexts m) (qd_context q))
     \<and> (\<forall>w \<in> set (fb_wake m). present r (fb_contexts m) (wk_context w))"

text \<open>Each operation waits for the one before it, and only the first may run.\<close>

fun follows :: "queued \<Rightarrow> queued list \<Rightarrow> bool" where
  "follows q [] \<longleftrightarrow> True"
| "follows q (x # xs) \<longleftrightarrow> qd_previous x = Some (qd_own q) \<and> \<not> qd_runs x \<and> follows x xs"

definition chained :: "fibres \<Rightarrow> bool" where
  "chained m \<longleftrightarrow> (case fb_queue m of [] \<Rightarrow> True | q # qs \<Rightarrow> mayRun m q \<and> follows q qs)"

definition queueOk :: "nat \<Rightarrow> string \<Rightarrow> fibres \<Rightarrow> bool" where
  "queueOk limit r m \<longleftrightarrow>
     (case rc_ingress (viewContext r (fb_contexts m)) of
        None \<Rightarrow> fb_queue m = []
      | Some i \<Rightarrow> fb_queue m \<noteq> [] \<and> ri_pending i = length (fb_queue m)
          \<and> (\<not> fb_withdrawn m \<longrightarrow> ri_tail i = Some (qd_own (last (fb_queue m)))))
     \<and> length (fb_queue m) \<le> limit \<and> distinct (map qd_own (fb_queue m))
     \<and> (\<forall>q \<in> set (fb_queue m). qd_own q < fb_promises m \<and> qd_own q \<notin> set (fb_resolved m))
     \<and> (\<forall>p \<in> set (fb_resolved m). p < fb_promises m)
     \<and> (\<not> fb_withdrawn m \<longrightarrow> chained m)"

definition wakeOk :: "string \<Rightarrow> fibres \<Rightarrow> bool" where
  "wakeOk r m \<longleftrightarrow> (let c = viewContext r (fb_contexts m) in
     (case fb_wake m of
        [] \<Rightarrow> c\<lparr>rc_ingress := None\<rparr> = createRunExecutionContext
      | w # ws \<Rightarrow> ws = [] \<and> rc_waking c \<and> rc_resolves c \<and> rc_wakeCompletion c = Some (wk_completion w)
          \<and> set (dkeys (rc_activeEffects c)) \<subseteq> set (wk_effects w) \<and> rc_liveCount c = 0)
     \<and> (\<forall>w \<in> set (fb_wake m). wk_completion w < fb_promises m \<and> wk_completion w \<notin> fst ` set (fb_exiting m))
     \<and> (\<forall>x \<in> set (fb_exiting m). fst x < fb_promises m) \<and> distinct (map fst (fb_exiting m)))"

definition asksOk :: "string \<Rightarrow> fibres \<Rightarrow> bool" where
  "asksOk r m \<longleftrightarrow> (let again = rc_wakeAgain (viewContext r (fb_contexts m)) in
     (\<forall>t \<in> set (fb_asked m). t < fb_now m \<and> (t < fb_round m \<or> t < fb_failed m \<or> fb_wake m \<noteq> [] \<and> again))
     \<and> (\<forall>t p. (t, p) \<in> set (fb_joined m) \<longrightarrow> t < fb_now m
          \<and> ((\<exists>w \<in> set (fb_wake m). wk_completion w = p \<and> (t < wk_round w \<or> again))
            \<or> (\<exists>k. (p, k) \<in> set (fb_exiting m) \<and> (\<forall>n. k = Some n \<longrightarrow> t < n))))
     \<and> (\<forall>t k n. (t, k) \<in> set (fb_served m) \<longrightarrow> k = Some n \<longrightarrow> t < n))"

definition releasedOk :: "nat \<Rightarrow> string \<Rightarrow> fibres \<Rightarrow> bool" where
  "releasedOk limit r m \<longleftrightarrow> (\<forall>a. 0 < limit \<longrightarrow> present r (fb_contexts m) a \<longrightarrow> \<not> isIdle (viewContext r (fb_contexts m)))"

definition fibresOk :: "nat \<Rightarrow> string \<Rightarrow> fibres \<Rightarrow> bool" where
  "fibresOk limit r m \<longleftrightarrow> holdsContext r m \<and> queueOk limit r m \<and> wakeOk r m \<and> asksOk r m \<and> releasedOk limit r m"

lemma follows_snoc: "follows q qs \<Longrightarrow> qd_previous x = Some (qd_own (last (q # qs))) \<Longrightarrow> \<not> qd_runs x \<Longrightarrow> follows q (qs @ [x])"
  by (induction qs arbitrary: q) auto

lemma follows_waits: "follows q qs \<Longrightarrow> x \<in> set qs \<Longrightarrow> \<not> qd_runs x"
  by (induction qs arbitrary: q) auto

lemma mayRun_cong: "fb_resolved m' = fb_resolved m \<Longrightarrow> qd_previous x' = qd_previous x \<Longrightarrow> mayRun m' x' = mayRun m x"
  by (simp add: mayRun_def split: option.split)

lemma fibres_idle: "fibresOk limit r idleFibres"
  by (auto simp: fibresOk_def holdsContext_def queueOk_def wakeOk_def asksOk_def releasedOk_def chained_def idleFibres_def
      createRunExecutionContext_def)

lemma chained_cong: "fb_resolved m' = fb_resolved m \<Longrightarrow> fb_queue m' = fb_queue m \<Longrightarrow> chained m' = chained m"
  using mayRun_cong [of m' m] by (simp add: chained_def split: list.split)

lemma ticked_ok:
  assumes "fibresOk limit r m"
  shows "fibresOk limit r (ticked m)"
proof -
  have "chained (ticked m) = chained m" by (rule chained_cong) (simp_all add: ticked_def)
  then have "holdsContext r (ticked m) = holdsContext r m" "queueOk limit r (ticked m) = queueOk limit r m"
      "wakeOk r (ticked m) = wakeOk r m" "releasedOk limit r (ticked m) = releasedOk limit r m"
    by (simp_all add: holdsContext_def queueOk_def wakeOk_def releasedOk_def ticked_def split: option.split list.split)
  moreover have "asksOk r m \<Longrightarrow> asksOk r (ticked m)"
    by (fastforce simp: asksOk_def ticked_def Let_def)
  ultimately show ?thesis using assms by (simp add: fibresOk_def)
qed

lemma arrive_ok:
  assumes "fibresOk limit r m"
  shows "fibresOk limit r (arrive limit r m)"
proof -
  obtain result cs where admitted: "admitOperation limit r (fb_promises m) (fb_contexts m) = (result, cs)" by fastforce
  obtain a where a: "present r cs a" "\<And>b. present r (fb_contexts m) b \<Longrightarrow> b = a"
    and view: "case result of
       Inl _ \<Rightarrow> (case rc_ingress (viewContext r (fb_contexts m)) of None \<Rightarrow> limit = 0 | Some i \<Rightarrow> limit \<le> ri_pending i)
         \<and> viewContext r cs = viewContext r (fb_contexts m)
     | Inr (b, previous) \<Rightarrow> b = a
         \<and> (case rc_ingress (viewContext r (fb_contexts m)) of
              None \<Rightarrow> 0 < limit \<and> previous = None
                \<and> viewContext r cs = (viewContext r (fb_contexts m))\<lparr>rc_ingress := Some \<lparr>ri_pending = 1, ri_tail = Some (fb_promises m)\<rparr>\<rparr>
            | Some i \<Rightarrow> ri_pending i < limit \<and> previous = ri_tail i
                \<and> viewContext r cs = (viewContext r (fb_contexts m))\<lparr>rc_ingress := Some \<lparr>ri_pending = ri_pending i + 1, ri_tail = Some (fb_promises m)\<rparr>\<rparr>)"
    by (rule admit_view [OF admitted]) (rule that)
  have held: "present r cs b" if "present r (fb_contexts m) b" for b using a that by metis
  have only: "present r cs b \<Longrightarrow> b = a" for b using a(1) by (simp add: present_def)
  show ?thesis
  proof (cases result)
    case (Inl n)
    then have full: "0 < limit \<Longrightarrow> rc_ingress (viewContext r (fb_contexts m)) \<noteq> None" and same: "viewContext r cs = viewContext r (fb_contexts m)"
      using view by (auto split: option.splits)
    have "\<not> isIdle (viewContext r cs)" if "0 < limit" using full [OF that] same by (auto simp: isIdle_def)
    moreover have "arrive limit r m = m\<lparr>fb_contexts := cs\<rparr>" using Inl admitted by (simp add: arrive_def)
    ultimately show ?thesis using assms same held
      by (auto simp: fibresOk_def holdsContext_def queueOk_def wakeOk_def asksOk_def releasedOk_def chained_def mayRun_def Let_def
          cong: list.case_cong option.case_cong)
  next
    case (Inr x)
    then obtain previous where x: "result = Inr (a, previous)" using view by (cases x) auto
    let ?q = "\<lparr>qd_own = fb_promises m, qd_context = a, qd_previous = previous, qd_runs = False\<rparr>"
    let ?c = "viewContext r (fb_contexts m)"
    have m': "arrive limit r m = m\<lparr>fb_contexts := cs, fb_promises := Suc (fb_promises m), fb_queue := fb_queue m @ [?q]\<rparr>"
      using admitted x by (simp add: arrive_def)
    have view': "viewContext r cs = ?c\<lparr>rc_ingress := Some \<lparr>ri_pending = length (fb_queue m) + 1, ri_tail = Some (fb_promises m)\<rparr>\<rparr>"
        "length (fb_queue m) < limit" "fb_queue m = [] \<Longrightarrow> previous = None"
        "fb_queue m \<noteq> [] \<Longrightarrow> \<not> fb_withdrawn m \<Longrightarrow> previous = Some (qd_own (last (fb_queue m)))"
      using view x assms by (auto simp: fibresOk_def queueOk_def split: option.splits)
    have "holdsContext r (arrive limit r m)" using assms held a(1) by (auto simp: m' fibresOk_def holdsContext_def)
    moreover have "chained (arrive limit r m)" if "chained m" "\<not> fb_withdrawn m"
    proof (cases "fb_queue m")
      case Nil
      then show ?thesis using view'(3) by (simp add: m' chained_def mayRun_def)
    next
      case (Cons q qs)
      then have "follows q (qs @ [?q])" using that view'(4) by (intro follows_snoc) (auto simp: chained_def)
      moreover have "mayRun (arrive limit r m) q" using that(1) Cons mayRun_cong [of "arrive limit r m" m q q] by (simp add: chained_def m')
      ultimately show ?thesis using Cons by (simp add: m' chained_def)
    qed
    then have "queueOk limit r (arrive limit r m)"
      using assms view'(1,2) by (fastforce simp: m' fibresOk_def queueOk_def)
    moreover have "wakeOk r (arrive limit r m)"
      using assms by (auto simp: m' fibresOk_def wakeOk_def view'(1) Let_def less_Suc_eq split: list.splits)
    moreover have "asksOk r (arrive limit r m)" using assms by (simp add: m' fibresOk_def asksOk_def view'(1))
    moreover have "releasedOk limit r (arrive limit r m)" by (simp add: m' releasedOk_def view'(1) isIdle_def)
    ultimately show ?thesis by (simp add: fibresOk_def)
  qed
qed

lemma startRunning_ok:
  assumes "fibresOk limit r m" and "q \<in> set (fb_queue m)" and "mayRun m q"
  shows "fibresOk limit r (startRunning q m)"
proof -
  let ?f = "\<lambda>x. if x = q then x\<lparr>qd_runs := True\<rparr> else x"
  have own: "map qd_own (map ?f qs) = map qd_own qs" for qs by simp
  have keeps: "qd_own (?f x) = qd_own x" "qd_context (?f x) = qd_context x" "qd_previous (?f x) = qd_previous x" for x by simp_all
  have "chained (startRunning q m)" if "chained m" and unresolved: "\<forall>q \<in> set (fb_queue m). qd_own q \<notin> set (fb_resolved m)"
  proof (cases "fb_queue m")
    case (Cons h hs)
    have "follows (?f h) (map ?f hs)"
      if "follows h hs" "set (h # hs) \<subseteq> set (fb_queue m)" for h hs
      using that
    proof (induction hs arbitrary: h)
      case (Cons x xs)
      have "x \<noteq> q" using Cons.prems assms(3) unresolved by (auto simp: mayRun_def)
      moreover have "follows (?f x) (map ?f xs)" by (rule Cons.IH) (use Cons.prems in auto)
      ultimately show ?case using Cons.prems by simp
    qed simp
    from this [of h hs] have "follows (?f h) (map ?f hs)" using that(1) Cons by (simp add: chained_def)
    moreover have "mayRun (startRunning q m) (?f h)"
      using that(1) Cons mayRun_cong [of "startRunning q m" m "?f h" h] by (simp add: chained_def startRunning_def)
    ultimately show ?thesis using Cons by (simp add: chained_def startRunning_def)
  qed (simp add: chained_def startRunning_def)
  then have "queueOk limit r (startRunning q m)"
    using assms(1) own [of "fb_queue m"] keeps last_map [of "fb_queue m" ?f]
    by (auto simp: fibresOk_def queueOk_def startRunning_def simp del: map_map split: option.splits)
  then show ?thesis using assms(1)
    by (auto simp: fibresOk_def holdsContext_def wakeOk_def asksOk_def releasedOk_def startRunning_def)
qed

lemma follows_filter:
  assumes "follows q qs" and "distinct (map qd_own (q # qs))"
  shows "filter (\<lambda>x. x \<noteq> q) (q # qs) = qs"
  using assms by (auto simp: filter_id_conv)

lemma leave_ok:
  assumes "fibresOk limit r m" and "q \<in> set (fb_queue m)"
  shows "fibresOk limit r (leave r q m)"
proof -
  let ?cs = "fb_contexts m" and ?cs' = "leaveIngress r (qd_context q) (fb_contexts m)" and ?m = "leave r q m"
  let ?rest = "filter (\<lambda>x. x \<noteq> q) (fb_queue m)"
  have ok: "holdsContext r m" "queueOk limit r m" "wakeOk r m" "asksOk r m" "releasedOk limit r m"
    using assms(1) by (simp_all add: fibresOk_def)
  have at: "present r ?cs (qd_context q)" using ok(1) assms(2) by (auto simp: holdsContext_def)
  obtain i where i: "rc_ingress (viewContext r ?cs) = Some i" "ri_pending i = length (fb_queue m)"
      "\<not> fb_withdrawn m \<Longrightarrow> ri_tail i = Some (qd_own (last (fb_queue m)))"
    using ok(2) assms(2) by (auto simp: queueOk_def split: option.splits)
  have distinct: "distinct (fb_queue m)" using ok(2) by (auto simp: queueOk_def distinct_map)
  have "?rest = remove1 q (fb_queue m)"
    unfolding distinct_remove1_removeAll [OF distinct] removeAll_filter_not_eq by (rule filter_cong) auto
  then have len: "length ?rest = length (fb_queue m) - 1" using assms(2) by (simp add: length_remove1)
  have m': "fb_queue ?m = ?rest" "fb_resolved ?m = qd_own q # fb_resolved m" "fb_contexts ?m = ?cs'" "fb_wake ?m = fb_wake m"
      "fb_promises ?m = fb_promises m" "fb_withdrawn ?m \<longleftrightarrow> fb_withdrawn m \<or> \<not> qd_runs q"
    by (simp_all add: leave_def)
  have view: "viewContext r ?cs' = (viewContext r ?cs)\<lparr>rc_ingress :=
      (if ?rest = [] then None else Some (i\<lparr>ri_pending := length ?rest\<rparr>))\<rparr>"
  proof -
    have "ri_pending i \<le> 1 \<longleftrightarrow> ?rest = []" "ri_pending i - 1 = length ?rest" using i(2) len by (cases ?rest; simp)+
    then show ?thesis using leave_view(1) [OF at] i(1) by simp
  qed
  have left: "present r ?cs' b \<longleftrightarrow> present r ?cs b \<and> \<not> isIdle (viewContext r ?cs')" for b
    using leave_view(2) [OF at, of b] i(1) by simp
  have busy: "\<not> isIdle (viewContext r ?cs')" if "?rest \<noteq> [] \<or> fb_wake m \<noteq> []"
    using that ok(3) by (auto simp: view isIdle_def wakeOk_def Let_def split: list.splits)
  have keeps: "present r ?cs' b" if "present r ?cs b" "?rest \<noteq> [] \<or> fb_wake m \<noteq> []" for b
    using left busy that by blast
  have "holdsContext r ?m"
    unfolding holdsContext_def m'
  proof (intro conjI ballI)
    fix x assume x: "x \<in> set ?rest"
    then have "?rest \<noteq> []" by (metis list.set(1) empty_iff)
    moreover have "present r ?cs (qd_context x)" using x ok(1) by (simp add: holdsContext_def)
    ultimately show "present r ?cs' (qd_context x)" using keeps by blast
  next
    fix w assume w: "w \<in> set (fb_wake m)"
    then have "fb_wake m \<noteq> []" by auto
    moreover have "present r ?cs (wk_context w)" using w ok(1) by (simp add: holdsContext_def)
    ultimately show "present r ?cs' (wk_context w)" using keeps by blast
  qed
  moreover have head: "fb_queue m = q # ?rest \<and> chained ?m" if "\<not> fb_withdrawn ?m"
  proof -
    have run: "qd_runs q" "chained m" using that ok(2) by (auto simp: m' queueOk_def)
    obtain h hs where hs: "fb_queue m = h # hs" using assms(2) by (cases "fb_queue m") auto
    then have f: "follows h hs" using run(2) by (simp add: chained_def)
    then have h: "h = q" using follows_waits [OF f] run(1) assms(2) hs by auto
    then have rest: "?rest = hs" using hs distinct by (auto simp: filter_id_conv)
    have "chained ?m" using f h by (cases hs) (simp_all add: chained_def m' rest mayRun_def)
    then show ?thesis using hs h rest by simp
  qed
  have "queueOk limit r ?m"
    unfolding queueOk_def m' view
  proof (intro conjI)
    show "length ?rest \<le> limit" using ok(2) len by (auto simp: queueOk_def)
    show "distinct (map qd_own ?rest)" using ok(2) by (simp add: queueOk_def distinct_map_filter)
    show "\<forall>x \<in> set ?rest. qd_own x < fb_promises m \<and> qd_own x \<notin> set (qd_own q # fb_resolved m)"
      using ok(2) assms(2) by (auto simp: queueOk_def distinct_map inj_on_def)
    show "\<forall>p \<in> set (qd_own q # fb_resolved m). p < fb_promises m" using ok(2) assms(2) by (auto simp: queueOk_def)
    show "\<not> (fb_withdrawn m \<or> \<not> qd_runs q) \<longrightarrow> chained ?m" using head by (simp add: m')
    have tail: "?rest \<noteq> [] \<Longrightarrow> \<not> (fb_withdrawn m \<or> \<not> qd_runs q) \<Longrightarrow> ri_tail i = Some (qd_own (last ?rest))"
      using i(3) head by (metis last_ConsR m'(6))
    show "case rc_ingress (viewContext r ?cs\<lparr>rc_ingress := if ?rest = [] then None else Some (i\<lparr>ri_pending := length ?rest\<rparr>)\<rparr>) of
        None \<Rightarrow> ?rest = []
      | Some j \<Rightarrow> ?rest \<noteq> [] \<and> ri_pending j = length ?rest
          \<and> (\<not> (fb_withdrawn m \<or> \<not> qd_runs q) \<longrightarrow> ri_tail j = Some (qd_own (last ?rest)))"
      using tail by (auto split: option.splits if_splits)
  qed
  moreover have "wakeOk r ?m" using ok(3) by (simp add: wakeOk_def m' view leave_def Let_def split: list.splits)
  moreover have "asksOk r ?m" using ok(4) by (simp add: asksOk_def m' view leave_def Let_def)
  moreover have "releasedOk limit r ?m" using left by (simp add: releasedOk_def m')
  ultimately show ?thesis by (simp add: fibresOk_def)
qed

text \<open>Operations that leave the queue alone.\<close>

lemma queue_frame:
  assumes "queueOk limit r m" and "rc_ingress (viewContext r (fb_contexts m')) = rc_ingress (viewContext r (fb_contexts m))"
    and "fb_queue m' = fb_queue m" and "fb_resolved m' = fb_resolved m" and "fb_withdrawn m' = fb_withdrawn m"
    and "fb_promises m \<le> fb_promises m'"
  shows "queueOk limit r m'"
  using assms(1,6) chained_cong [OF assms(4,3)] by (fastforce simp: queueOk_def assms(2-5) split: option.splits)

lemma asksOkI:
  assumes "\<And>t. t \<in> set (fb_asked m) \<Longrightarrow> t < fb_now m
      \<and> (t < fb_round m \<or> t < fb_failed m \<or> fb_wake m \<noteq> [] \<and> rc_wakeAgain (viewContext r (fb_contexts m)))"
    and "\<And>t p. (t, p) \<in> set (fb_joined m) \<Longrightarrow> t < fb_now m
      \<and> ((\<exists>w \<in> set (fb_wake m). wk_completion w = p \<and> (t < wk_round w \<or> rc_wakeAgain (viewContext r (fb_contexts m))))
        \<or> (\<exists>k. (p, k) \<in> set (fb_exiting m) \<and> (\<forall>n. k = Some n \<longrightarrow> t < n)))"
    and "\<And>t k n. (t, k) \<in> set (fb_served m) \<Longrightarrow> k = Some n \<Longrightarrow> t < n"
  shows "asksOk r m"
  using assms unfolding asksOk_def Let_def by auto

lemma asksOkD:
  assumes "asksOk r m"
  shows "t \<in> set (fb_asked m) \<Longrightarrow> t < fb_now m
      \<and> (t < fb_round m \<or> t < fb_failed m \<or> fb_wake m \<noteq> [] \<and> rc_wakeAgain (viewContext r (fb_contexts m)))"
    and "(t, p) \<in> set (fb_joined m) \<Longrightarrow> t < fb_now m
      \<and> ((\<exists>w \<in> set (fb_wake m). wk_completion w = p \<and> (t < wk_round w \<or> rc_wakeAgain (viewContext r (fb_contexts m))))
        \<or> (\<exists>k. (p, k) \<in> set (fb_exiting m) \<and> (\<forall>n. k = Some n \<longrightarrow> t < n)))"
    and "(t, k) \<in> set (fb_served m) \<Longrightarrow> k = Some n \<Longrightarrow> t < n"
  using assms unfolding asksOk_def Let_def by simp_all

lemma askWake_ok:
  assumes ok: "holdsContext r m" "queueOk limit r m" "wakeOk r m" "asksOk r m"
  shows "fibresOk limit r (ticked (askWake r m))"
proof -
  let ?c = "viewContext r (fb_contexts m)" and ?m = "ticked (askWake r m)"
  obtain result cs where claim: "claimWake r (fb_promises m) (fb_contexts m) = (result, cs)" by fastforce
  obtain a where a: "present r cs a" "\<And>b. present r (fb_contexts m) b \<Longrightarrow> b = a"
      "result = (if rc_waking ?c then Inl (rc_wakeCompletion ?c) else Inr a)"
      "viewContext r cs = (if rc_waking ?c then ?c\<lparr>rc_wakeAgain := True\<rparr>
         else ?c\<lparr>rc_wakeCompletion := Some (fb_promises m), rc_resolves := True, rc_waking := True\<rparr>)"
    by (rule claim_view [OF claim]) (rule that)
  have keeps: "present r cs b" if "present r (fb_contexts m) b" for b using a(1,2) that by metis
  show ?thesis
  proof (cases "fb_wake m")
    case Nil
    then have idle: "?c\<lparr>rc_ingress := None\<rparr> = createRunExecutionContext" using ok(3) by (simp add: wakeOk_def)
    then have fields: "\<not> rc_waking ?c" "\<not> rc_wakeAgain ?c" "rc_activeEffects ?c = []" "rc_liveCount ?c = 0"
      by (cases ?c; simp add: createRunExecutionContext_def)+
    let ?w = "\<lparr>wk_context = a, wk_completion = fb_promises m, wk_round = Suc (fb_now m), wk_effects = []\<rparr>"
    have m': "?m = m\<lparr>fb_contexts := cs, fb_promises := Suc (fb_promises m), fb_asked := fb_now m # fb_asked m,
        fb_round := Suc (fb_now m), fb_wake := [?w], fb_now := Suc (fb_now m)\<rparr>"
      using claim a(3) fields(1) Nil by (simp add: askWake_def ticked_def)
    have view: "viewContext r cs = ?c\<lparr>rc_wakeCompletion := Some (fb_promises m), rc_resolves := True, rc_waking := True\<rparr>"
      using a(4) fields(1) by simp
    have "holdsContext r ?m" using ok(1) a(1) keeps by (auto simp: holdsContext_def m')
    moreover have "queueOk limit r ?m" by (rule queue_frame [OF ok(2)]) (simp_all add: m' view)
    moreover have "wakeOk r ?m" using ok(3) fields by (auto simp: wakeOk_def m' view Let_def less_Suc_eq)
    moreover have "asksOk r ?m" using ok(4) Nil by (fastforce simp: asksOk_def m' view Let_def)
    moreover have "releasedOk limit r ?m" by (simp add: releasedOk_def m' view isIdle_def)
    ultimately show ?thesis by (simp add: fibresOk_def)
  next
    case (Cons w ws)
    then have w: "ws = []" "rc_waking ?c" "rc_wakeCompletion ?c = Some (wk_completion w)" using ok(3) by (auto simp: wakeOk_def Let_def)
    have m': "?m = m\<lparr>fb_contexts := cs, fb_asked := fb_now m # fb_asked m,
        fb_joined := (fb_now m, wk_completion w) # fb_joined m, fb_now := Suc (fb_now m)\<rparr>"
      using claim a(3) w by (simp add: askWake_def ticked_def)
    have view: "viewContext r cs = ?c\<lparr>rc_wakeAgain := True\<rparr>" using a(4) w(2) by simp
    have "holdsContext r ?m" using ok(1) keeps by (auto simp: holdsContext_def m')
    moreover have "queueOk limit r ?m" by (rule queue_frame [OF ok(2)]) (simp_all add: m' view)
    moreover have "wakeOk r ?m" using ok(3) Cons by (simp add: wakeOk_def m' view Let_def)
    moreover have "asksOk r ?m" using ok(4) Cons w(1) by (fastforce simp: asksOk_def m' view Let_def)
    moreover have "releasedOk limit r ?m" using w(2) by (simp add: releasedOk_def m' view isIdle_def)
    ultimately show ?thesis by (simp add: fibresOk_def)
  qed
qed

lemma askCoalesced_ok:
  assumes "fibresOk limit r m"
  shows "fibresOk limit r (ticked (askCoalesced r m))"
proof -
  have ok: "holdsContext r m" "queueOk limit r m" "wakeOk r m" "asksOk r m" "releasedOk limit r m"
    using assms by (simp_all add: fibresOk_def)
  let ?c = "viewContext r (fb_contexts m)"
  obtain joined cs where coalesce: "coalesceWake r (fb_contexts m) = (joined, cs)" by fastforce
  obtain a where a: "present r cs a" "\<And>b. present r (fb_contexts m) b \<Longrightarrow> b = a" "joined = rc_waking ?c"
      "viewContext r cs = (if joined then ?c\<lparr>rc_wakeAgain := True\<rparr> else ?c)"
    by (rule coalesce_view [OF coalesce]) (rule that)
  have keeps: "present r cs b" if "present r (fb_contexts m) b" for b using a(1,2) that by metis
  show ?thesis
  proof (cases joined)
    case True
    let ?m = "ticked (askCoalesced r m)"
    obtain w where w: "fb_wake m = [w]" using ok(3) True a(3) by (auto simp: wakeOk_def Let_def createRunExecutionContext_def split: list.splits)
        (metis (no_types, lifting) run_context.select_convs(2) run_context.ext_inject run_context.surjective run_context.update_convs(6))
    have m': "?m = m\<lparr>fb_contexts := cs, fb_asked := fb_now m # fb_asked m, fb_now := Suc (fb_now m)\<rparr>"
      using coalesce True by (simp add: askCoalesced_def ticked_def)
    have view: "viewContext r cs = ?c\<lparr>rc_wakeAgain := True\<rparr>" using a(4) True by simp
    have "holdsContext r ?m" using ok(1) keeps by (auto simp: holdsContext_def m')
    moreover have "queueOk limit r ?m" by (rule queue_frame [OF ok(2)]) (simp_all add: m' view)
    moreover have "wakeOk r ?m" using ok(3) w by (simp add: wakeOk_def m' view Let_def)
    moreover have "asksOk r ?m" using ok(4) w by (fastforce simp: asksOk_def m' view Let_def)
    moreover have "releasedOk limit r ?m" by (simp add: releasedOk_def m' view isIdle_def)
    ultimately show ?thesis by (simp add: fibresOk_def)
  next
    case False
    let ?m = "m\<lparr>fb_contexts := cs\<rparr>"
    have view: "viewContext r cs = ?c" using a(4) False by simp
    have "holdsContext r ?m" using ok(1) keeps by (auto simp: holdsContext_def)
    moreover have "queueOk limit r ?m" by (rule queue_frame [OF ok(2)]) (simp_all add: view)
    moreover have "wakeOk r ?m" using ok(3) by (simp add: wakeOk_def view cong: list.case_cong)
    moreover have "asksOk r ?m" using ok(4) by (simp add: asksOk_def view)
    ultimately have "fibresOk limit r (ticked (askWake r ?m))" by (rule askWake_ok)
    then show ?thesis using coalesce False by (simp add: askCoalesced_def)
  qed
qed

text \<open>The fibre that wakes the run.\<close>

lemma the_waker:
  assumes "fibresOk limit r m" and "w \<in> set (fb_wake m)"
  shows "fb_wake m = [w]" "present r (fb_contexts m) (wk_context w)" "rc_waking (viewContext r (fb_contexts m))"
    "set (dkeys (rc_activeEffects (viewContext r (fb_contexts m)))) \<subseteq> set (wk_effects w)"
proof -
  have "wakeOk r m" "holdsContext r m" using assms(1) by (simp_all add: fibresOk_def)
  then show "fb_wake m = [w]" "present r (fb_contexts m) (wk_context w)" "rc_waking (viewContext r (fb_contexts m))"
      "set (dkeys (rc_activeEffects (viewContext r (fb_contexts m)))) \<subseteq> set (wk_effects w)"
    using assms(2) by (auto simp: wakeOk_def holdsContext_def Let_def split: list.splits)
qed

text \<open>While a wake goes on it may change what is its own in the context.\<close>

lemma waking_ok:
  assumes "fibresOk limit r m" and "fb_wake m = [w]"
    and "viewContext r cs = f (viewContext r (fb_contexts m))" and "\<And>b. present r cs b = present r (fb_contexts m) b"
    and "wk_context w' = wk_context w" and "wk_completion w' = wk_completion w" and "wk_round w' = wk_round w"
    and "\<And>c. rc_ingress (f c) = rc_ingress c \<and> rc_waking (f c) = rc_waking c \<and> rc_wakeAgain (f c) = rc_wakeAgain c
      \<and> rc_resolves (f c) = rc_resolves c \<and> rc_wakeCompletion (f c) = rc_wakeCompletion c \<and> rc_liveCount (f c) = rc_liveCount c"
    and "set (dkeys (rc_activeEffects (f (viewContext r (fb_contexts m))))) \<subseteq> set (wk_effects w')"
  shows "fibresOk limit r (m\<lparr>fb_contexts := cs, fb_wake := [w']\<rparr>)"
proof -
  have ok: "holdsContext r m" "queueOk limit r m" "wakeOk r m" "asksOk r m" "releasedOk limit r m"
    using assms(1) by (simp_all add: fibresOk_def)
  let ?m = "m\<lparr>fb_contexts := cs, fb_wake := [w']\<rparr>"
  have "holdsContext r ?m" using ok(1) assms(2,4,5) by (auto simp: holdsContext_def)
  moreover have "queueOk limit r ?m" by (rule queue_frame [OF ok(2)]) (simp_all add: assms(3,8))
  moreover have "wakeOk r ?m" using ok(3) assms(2,6,8,9) by (simp add: wakeOk_def assms(3) Let_def)
  moreover have "asksOk r ?m" using ok(4) assms(2,6,7,8) by (fastforce simp: asksOk_def assms(3) Let_def)
  moreover have "releasedOk limit r ?m"
    using ok(3) assms(2,8) by (auto simp: releasedOk_def wakeOk_def assms(3) Let_def isIdle_def)
  ultimately show ?thesis by (simp add: fibresOk_def)
qed

lemma set_dkeys_dput: "set (dkeys (dput k v d)) = insert k (set (dkeys d))"
  by (induction d) auto

lemma set_dkeys_ddel: "set (dkeys (ddel k d)) = set (dkeys d) - {k}"
  by (induction d) auto

lemma effectOf_ok:
  assumes "fibresOk limit r m" and "w \<in> set (fb_wake m)"
  shows "fibresOk limit r (effectOf w effectId threadId m)"
proof -
  note w = the_waker [OF assms]
  have "fibresOk limit r (m\<lparr>fb_contexts := effectBegins (wk_context w) effectId threadId (fb_contexts m),
      fb_wake := [w\<lparr>wk_effects := effectId # wk_effects w\<rparr>]\<rparr>)"
    by (rule waking_ok [OF assms(1) w(1), where f = "\<lambda>c. c\<lparr>rc_activeEffects := dput effectId threadId (rc_activeEffects c)\<rparr>"])
       (use w(4) in \<open>auto simp: effectBegins_def update_view [OF w(2)] set_dkeys_dput simp del: set_map\<close>)
  then show ?thesis using w(1) by (simp add: effectOf_def)
qed

lemma effectOver_ok:
  assumes "fibresOk limit r m" and "w \<in> set (fb_wake m)"
  shows "fibresOk limit r (effectOver w effectId m)"
proof -
  note w = the_waker [OF assms]
  have "fibresOk limit r (m\<lparr>fb_contexts := effectEnds (wk_context w) effectId (fb_contexts m),
      fb_wake := [w\<lparr>wk_effects := filter (\<lambda>e. e \<noteq> effectId) (wk_effects w)\<rparr>]\<rparr>)"
    by (rule waking_ok [OF assms(1) w(1), where f = "\<lambda>c. c\<lparr>rc_activeEffects := ddel effectId (rc_activeEffects c)\<rparr>"])
       (use w(4) in \<open>auto simp: effectEnds_def update_view [OF w(2)] set_dkeys_ddel simp del: set_map\<close>)
  then show ?thesis using w(1) by (simp add: effectOver_def)
qed

lemma store_ok:
  assumes "fibresOk limit r m" and "w \<in> set (fb_wake m)"
  shows "fibresOk limit r (m\<lparr>fb_contexts := attachStore (wk_context w) (fb_contexts m)\<rparr>)"
proof -
  note w = the_waker [OF assms]
  have "fibresOk limit r (m\<lparr>fb_contexts := attachStore (wk_context w) (fb_contexts m), fb_wake := [w]\<rparr>)"
    by (rule waking_ok [OF assms(1) w(1), where f = "\<lambda>c. c\<lparr>rc_liveStore := True\<rparr>"])
       (use w(4) in \<open>auto simp: attachStore_def update_view [OF w(2)]\<close>)
  then show ?thesis using w(1) by (metis (no_types, lifting) fibres.surjective fibres.update_convs(1,5))
qed

text \<open>The wake gives up its claim; its completion is resolved later.\<close>

lemma released_ok:
  assumes "fibresOk limit r m" and "w \<in> set (fb_wake m)" and "wk_effects w = []"
    and "outcome = None \<and> failed = Suc (fb_now m)
      \<or> outcome = Some (wk_round w) \<and> failed = fb_failed m \<and> \<not> rc_wakeAgain (viewContext r (fb_contexts m))"
  shows "fibresOk limit r (ticked (m\<lparr>fb_contexts := releaseWake r (wk_context w) (fb_contexts m),
    fb_wake := filter (\<lambda>x. x \<noteq> w) (fb_wake m), fb_exiting := (wk_completion w, outcome) # fb_exiting m, fb_failed := failed\<rparr>))"
proof -
  note w = the_waker [OF assms(1,2)]
  have ok: "holdsContext r m" "queueOk limit r m" "wakeOk r m" "asksOk r m" "releasedOk limit r m"
    using assms(1) by (simp_all add: fibresOk_def)
  let ?c = "viewContext r (fb_contexts m)"
  let ?m = "ticked (m\<lparr>fb_contexts := releaseWake r (wk_context w) (fb_contexts m), fb_wake := filter (\<lambda>x. x \<noteq> w) (fb_wake m),
    fb_exiting := (wk_completion w, outcome) # fb_exiting m, fb_failed := failed\<rparr>)"
  have m': "?m = m\<lparr>fb_contexts := releaseWake r (wk_context w) (fb_contexts m), fb_wake := [],
      fb_exiting := (wk_completion w, outcome) # fb_exiting m, fb_failed := failed, fb_now := Suc (fb_now m)\<rparr>"
    using w(1) by (simp add: ticked_def)
  have effects: "rc_activeEffects ?c = []" using w(4) assms(3) by simp
  let ?v = "?c\<lparr>rc_waking := False, rc_wakeAgain := False, rc_wakeCompletion := None, rc_resolves := False, rc_liveStore := False, rc_liveCount := 0\<rparr>"
  have view: "viewContext r (releaseWake r (wk_context w) (fb_contexts m)) = ?v" by (rule releaseWake_view(1) [OF w(2)])
  have there: "present r (releaseWake r (wk_context w) (fb_contexts m)) b \<longleftrightarrow> present r (fb_contexts m) b \<and> \<not> isIdle ?v" for b
    using releaseWake_view [OF w(2)] by simp
  have busy: "\<not> isIdle ?v" if "q \<in> set (fb_queue m)" for q using that ok(2) by (auto simp: queueOk_def isIdle_def split: option.splits)
  have "holdsContext r ?m" using ok(1) busy unfolding holdsContext_def m' by (auto simp: there)
  moreover have "queueOk limit r ?m" by (rule queue_frame [OF ok(2)]) (simp_all add: m' view)
  moreover have "wakeOk r ?m"
    unfolding m' using ok(3) w(1) effects by (auto simp: wakeOk_def view Let_def createRunExecutionContext_def)
  moreover have "asksOk r ?m"
  proof (rule asksOkI)
    let ?again = "rc_wakeAgain ?c"
    fix t assume "t \<in> set (fb_asked ?m)"
    then have "t < fb_now m" "t < fb_round m \<or> t < fb_failed m \<or> ?again" using asksOkD(1) [OF ok(4)] by (auto simp: m')
    then show "t < fb_now ?m \<and> (t < fb_round ?m \<or> t < fb_failed ?m \<or> fb_wake ?m \<noteq> [] \<and> rc_wakeAgain (viewContext r (fb_contexts ?m)))"
      using assms(4) by (auto simp: m')
  next
    fix t p assume "(t, p) \<in> set (fb_joined ?m)"
    then have t: "(t, p) \<in> set (fb_joined m)" by (simp add: m')
    note j = asksOkD(2) [OF ok(4) t]
    have "\<exists>k. (p, k) \<in> set (fb_exiting ?m) \<and> (\<forall>n. k = Some n \<longrightarrow> t < n)"
    proof (cases "p = wk_completion w")
      case True
      have "wk_completion w \<notin> fst ` set (fb_exiting m)" using ok(3) w(1) by (simp add: wakeOk_def Let_def)
      then have "t < wk_round w \<or> rc_wakeAgain ?c" using j True w(1) by force
      then have "\<forall>n. outcome = Some n \<longrightarrow> t < n" using assms(4) by auto
      then show ?thesis using True by (auto simp: m')
    next
      case False
      then obtain k where "(p, k) \<in> set (fb_exiting m)" "\<forall>n. k = Some n \<longrightarrow> t < n" using j w(1) by auto
      then show ?thesis unfolding m' by auto
    qed
    then show "t < fb_now ?m \<and> ((\<exists>w \<in> set (fb_wake ?m). wk_completion w = p \<and> (t < wk_round w \<or> rc_wakeAgain (viewContext r (fb_contexts ?m))))
        \<or> (\<exists>k. (p, k) \<in> set (fb_exiting ?m) \<and> (\<forall>n. k = Some n \<longrightarrow> t < n)))"
      using j by (auto simp: m')
  next
    fix t k n assume "(t, k) \<in> set (fb_served ?m)" "k = Some n"
    then show "t < n" using asksOkD(3) [OF ok(4)] by (simp add: m')
  qed
  moreover have "releasedOk limit r ?m" by (simp add: releasedOk_def m' there view)
  ultimately show ?thesis by (simp add: fibresOk_def)
qed

lemma roundEnds_ok:
  assumes "fibresOk limit r m" and "w \<in> set (fb_wake m)" and "wk_effects w = []"
  shows "fibresOk limit r (ticked (roundEnds r w m))"
proof (cases "rc_wakeAgain (viewContext r (fb_contexts m))")
  case False
  note w = the_waker [OF assms(1,2)]
  have same: "m\<lparr>fb_failed := fb_failed m\<rparr> = m" by simp
  have "roundEnds r w m = m\<lparr>fb_contexts := releaseWake r (wk_context w) (fb_contexts m),
      fb_wake := filter (\<lambda>x. x \<noteq> w) (fb_wake m), fb_exiting := (wk_completion w, Some (wk_round w)) # fb_exiting m, fb_failed := fb_failed m\<rparr>"
    using False present_view [OF w(2)] by (simp add: roundEnds_def releaseUnlessWokenAgain_def)
  with released_ok [OF assms, of "Some (wk_round w)" "fb_failed m"] False show ?thesis by simp
next
  case True
  note w = the_waker [OF assms(1,2)]
  have ok: "holdsContext r m" "queueOk limit r m" "wakeOk r m" "asksOk r m" "releasedOk limit r m"
    using assms(1) by (simp_all add: fibresOk_def)
  let ?cs = "updateContext (wk_context w) (\<lambda>c. c\<lparr>rc_wakeAgain := False\<rparr>) (fb_contexts m)"
  let ?m = "ticked (roundEnds r w m)"
  have m': "?m = m\<lparr>fb_contexts := ?cs, fb_round := Suc (fb_now m), fb_wake := [w\<lparr>wk_round := Suc (fb_now m)\<rparr>], fb_now := Suc (fb_now m)\<rparr>"
    using True present_view [OF w(2)] w(1) by (simp add: roundEnds_def releaseUnlessWokenAgain_def ticked_def)
  have view: "viewContext r ?cs = (viewContext r (fb_contexts m))\<lparr>rc_wakeAgain := False\<rparr>" by (rule update_view [OF w(2)])
  have "holdsContext r ?m" using ok(1) w(1) by (auto simp: holdsContext_def m')
  moreover have "queueOk limit r ?m" by (rule queue_frame [OF ok(2)]) (simp_all add: m' view)
  moreover have "wakeOk r ?m" using ok(3) w(1) by (simp add: wakeOk_def m' view Let_def)
  moreover have "asksOk r ?m" using ok(4) w(1) by (fastforce simp: asksOk_def m' view Let_def)
  moreover have "releasedOk limit r ?m" using w(3) by (auto simp: releasedOk_def m' view isIdle_def)
  ultimately show ?thesis by (simp add: fibresOk_def)
qed

lemma resolve_ok:
  assumes "fibresOk limit r m" and "x \<in> set (fb_exiting m)"
  shows "fibresOk limit r (resolveCompletion x m)"
proof -
  have ok: "holdsContext r m" "queueOk limit r m" "wakeOk r m" "asksOk r m" "releasedOk limit r m"
    using assms(1) by (simp_all add: fibresOk_def)
  let ?m = "resolveCompletion x m"
  have distinct: "distinct (map fst (fb_exiting m))" using ok(3) by (simp add: wakeOk_def Let_def)
  have one: "(p, k) = x" if "(p, k) \<in> set (fb_exiting m)" "p = fst x" for p k
    using that assms(2) distinct by (metis eq_key_imp_eq_value fst_conv prod.collapse snd_conv)
  have other: "fst w \<noteq> fst x \<or> w = x" if "w \<in> set (fb_exiting m)" for w using one that by (metis prod.collapse)
  have fields: "fb_contexts ?m = fb_contexts m" "fb_queue ?m = fb_queue m" "fb_wake ?m = fb_wake m" "fb_promises ?m = fb_promises m"
      "fb_resolved ?m = fb_resolved m" "fb_withdrawn ?m = fb_withdrawn m"
    by (simp_all add: resolveCompletion_def)
  have "holdsContext r ?m" using ok(1) by (simp add: holdsContext_def fields)
  moreover have "queueOk limit r ?m" by (rule queue_frame [OF ok(2)]) (simp_all add: fields)
  moreover have "wakeOk r ?m"
    using ok(3) by (auto simp: wakeOk_def fields Let_def resolveCompletion_def distinct_map_filter split: list.splits)
  moreover have "releasedOk limit r ?m" using ok(5) by (simp add: releasedOk_def fields)
  moreover have "asksOk r ?m"
  proof (rule asksOkI)
    fix t assume "t \<in> set (fb_asked ?m)"
    then show "t < fb_now ?m \<and> (t < fb_round ?m \<or> t < fb_failed ?m \<or> fb_wake ?m \<noteq> [] \<and> rc_wakeAgain (viewContext r (fb_contexts ?m)))"
      using asksOkD(1) [OF ok(4)] by (simp add: resolveCompletion_def)
  next
    fix t p assume "(t, p) \<in> set (fb_joined ?m)"
    then have "(t, p) \<in> set (fb_joined m)" "p \<noteq> fst x" by (auto simp: resolveCompletion_def)
    then show "t < fb_now ?m \<and> ((\<exists>w \<in> set (fb_wake ?m). wk_completion w = p \<and> (t < wk_round w \<or> rc_wakeAgain (viewContext r (fb_contexts ?m))))
        \<or> (\<exists>k. (p, k) \<in> set (fb_exiting ?m) \<and> (\<forall>n. k = Some n \<longrightarrow> t < n)))"
      using asksOkD(2) [OF ok(4)] by (force simp: resolveCompletion_def)
  next
    fix t k n assume "(t, k) \<in> set (fb_served ?m)" and k: "k = Some n"
    then consider "(t, k) \<in> set (fb_served m)" | "(t, fst x) \<in> set (fb_joined m)" "k = snd x" by (auto simp: resolveCompletion_def)
    then show "t < n"
    proof cases
      case 2
      have "wk_completion w \<noteq> fst x" if "w \<in> set (fb_wake m)" for w using that ok(3) assms(2) by (auto simp: wakeOk_def Let_def)
      then obtain k' where "(fst x, k') \<in> set (fb_exiting m)" "\<forall>n. k' = Some n \<longrightarrow> t < n" using asksOkD(2) [OF ok(4) 2(1)] by blast
      then show ?thesis using one [of "fst x" k'] 2(2) k by (metis snd_conv)
    qed (use asksOkD(3) [OF ok(4)] k in simp)
  qed
  ultimately show ?thesis by (simp add: fibresOk_def)
qed

lemma fibres_step:
  assumes "fibre_step limit r m m'" and "fibresOk limit r m"
  shows "fibresOk limit r m'"
  using assms(1)
proof cases
  case arrives
  then show ?thesis using assms(2) by (simp add: ticked_ok arrive_ok)
next
  case (runs q)
  then show ?thesis using assms(2) by (simp add: ticked_ok startRunning_ok)
next
  case (leaves q)
  then show ?thesis using assms(2) by (simp add: ticked_ok leave_ok)
next
  case asks
  moreover have "fibresOk limit r (ticked (askWake r m))" by (rule askWake_ok) (use assms(2) in \<open>simp_all add: fibresOk_def\<close>)
  ultimately show ?thesis by simp
next
  case coalesces
  then show ?thesis using assms(2) by (simp add: askCoalesced_ok)
next
  case (effect w effectId threadId)
  then show ?thesis using assms(2) by (simp add: ticked_ok effectOf_ok)
next
  case (effect_over w effectId)
  then show ?thesis using assms(2) by (simp add: ticked_ok effectOver_ok)
next
  case (store w)
  then show ?thesis using assms(2) by (simp add: ticked_ok store_ok)
next
  case (round_over w)
  then show ?thesis using assms(2) by (simp add: roundEnds_ok)
next
  case (fails w)
  then show ?thesis using released_ok [OF assms(2), of w None "Suc (fb_now m)"] by (simp add: wakeFails_def)
next
  case (resolves x)
  then show ?thesis using assms(2) by (simp add: ticked_ok resolve_ok)
qed

lemma fibres_reach_ok: "fibres_reach limit r m \<Longrightarrow> fibresOk limit r m"
  by (induction rule: fibres_reach.induct) (auto intro: fibres_idle fibres_step)

section \<open>What the fibres can rely on\<close>

text \<open>
  C20. Operations on a run are admitted in order and bounded: never more than the limit are pending, the first
  one may always run, and as long as none was interrupted before it ran, no other runs beside it.
\<close>

theorem ingress_serial:
  assumes "fibres_reach limit r m"
  shows "length (fb_queue m) \<le> limit
    \<and> (\<not> fb_withdrawn m \<longrightarrow> (\<forall>q \<in> set (tl (fb_queue m)). \<not> qd_runs q) \<and> (fb_queue m \<noteq> [] \<longrightarrow> mayRun m (hd (fb_queue m))))"
proof -
  have ok: "queueOk limit r m" using fibres_reach_ok [OF assms] by (simp add: fibresOk_def)
  have "(\<forall>q \<in> set (tl (fb_queue m)). \<not> qd_runs q) \<and> (fb_queue m \<noteq> [] \<longrightarrow> mayRun m (hd (fb_queue m)))" if "\<not> fb_withdrawn m"
    using that ok by (auto simp: queueOk_def chained_def dest: follows_waits split: list.splits)
  then show ?thesis using ok by (simp add: queueOk_def)
qed

text \<open>
  C19. No wake is lost while wakes succeed: at most one fibre wakes the run; whoever joined its wake is served
  by it, by a round that began after the request when the wake succeeds; and when no fibre wakes the run, every
  request, a coalesced one included, was followed by the start of a round or by the failure of a wake.
\<close>

theorem no_wake_lost:
  assumes "fibres_reach limit r m"
  shows "length (fb_wake m) \<le> 1
    \<and> (\<forall>t n. (t, Some n) \<in> set (fb_served m) \<longrightarrow> t < n)
    \<and> (\<forall>t p. (t, p) \<in> set (fb_joined m) \<longrightarrow> p \<in> wk_completion ` set (fb_wake m) \<union> fst ` set (fb_exiting m))
    \<and> (fb_wake m = [] \<longrightarrow> (\<forall>t \<in> set (fb_asked m). t < fb_round m \<or> t < fb_failed m))"
proof -
  have ok: "wakeOk r m" "asksOk r m" using fibres_reach_ok [OF assms] by (simp_all add: fibresOk_def)
  have "length (fb_wake m) \<le> 1" using ok(1) by (auto simp: wakeOk_def Let_def split: list.splits)
  moreover have "p \<in> wk_completion ` set (fb_wake m) \<union> fst ` set (fb_exiting m)" if "(t, p) \<in> set (fb_joined m)" for t p
    using asksOkD(2) [OF ok(2) that] by force
  ultimately show ?thesis using asksOkD(1,3) [OF ok(2)] by blast
qed


section \<open>What they cannot rely on\<close>

text \<open>
  An operation that is interrupted while it waits resolves its promise at once, and the one behind it runs
  beside the one before it. A coalesced request is forgotten when the wake it relies on fails.
\<close>

definition threeArrived :: fibres where
  "threeArrived = ticked (arrive 9 ''r'' (ticked (arrive 9 ''r'' (ticked (arrive 9 ''r'' idleFibres)))))"

lemmas fibre_moves = arrive_def admitOperation_def getContext_def updateContext_def emptyContexts_def idleFibres_def ticked_def
  createRunExecutionContext_def startRunning_def leave_def leaveIngress_def releaseIfIdle_def peekContext_def isIdle_def

lemma threeArrived_eq:
  "threeArrived = \<lparr>fb_contexts = \<lparr>cs_heap = (\<lambda>_. createRunExecutionContext)(0 := createRunExecutionContext\<lparr>rc_ingress := Some \<lparr>ri_pending = 3, ri_tail = Some 2\<rparr>\<rparr>),
       cs_next = 1, cs_runs = [(''r'', 0)]\<rparr>, fb_promises = 3, fb_resolved = [],
     fb_queue = [\<lparr>qd_own = 0, qd_context = 0, qd_previous = None, qd_runs = False\<rparr>,
       \<lparr>qd_own = 1, qd_context = 0, qd_previous = Some 0, qd_runs = False\<rparr>, \<lparr>qd_own = 2, qd_context = 0, qd_previous = Some 1, qd_runs = False\<rparr>],
     fb_wake = [], fb_exiting = [], fb_joined = [], fb_served = [], fb_now = 3, fb_asked = [], fb_round = 0, fb_failed = 0, fb_withdrawn = False\<rparr>"
  by (simp add: threeArrived_def fibre_moves eval_nat_numeral)

lemma threeArrived_reach: "fibres_reach 9 ''r'' threeArrived"
  unfolding threeArrived_def by (intro fibres_reach.goes [OF _ arrives] begins)

text \<open>The first runs, the second is withdrawn, the third runs too.\<close>

definition firstRuns :: fibres where
  "firstRuns = ticked (startRunning \<lparr>qd_own = 0, qd_context = 0, qd_previous = None, qd_runs = False\<rparr> threeArrived)"

definition secondWithdrawn :: fibres where
  "secondWithdrawn = ticked (leave ''r'' \<lparr>qd_own = 1, qd_context = 0, qd_previous = Some 0, qd_runs = False\<rparr> firstRuns)"

definition thirdRuns :: fibres where
  "thirdRuns = ticked (startRunning \<lparr>qd_own = 2, qd_context = 0, qd_previous = Some 1, qd_runs = False\<rparr> secondWithdrawn)"

lemma firstRuns_reach: "fibres_reach 9 ''r'' firstRuns"
  unfolding firstRuns_def by (rule fibres_reach.goes [OF threeArrived_reach runs]) (simp_all add: threeArrived_eq mayRun_def)

lemma withdrawn_operation_overlaps:
  "fibres_reach 9 ''r'' thirdRuns \<and> map qd_runs (fb_queue thirdRuns) = [True, True]"
proof -
  have "fibres_reach 9 ''r'' secondWithdrawn"
    unfolding secondWithdrawn_def
    by (rule fibres_reach.goes [OF firstRuns_reach leaves]) (simp add: firstRuns_def threeArrived_eq startRunning_def ticked_def)
  moreover have "fb_queue secondWithdrawn = [\<lparr>qd_own = 0, qd_context = 0, qd_previous = None, qd_runs = True\<rparr>,
      \<lparr>qd_own = 2, qd_context = 0, qd_previous = Some 1, qd_runs = False\<rparr>]" "fb_resolved secondWithdrawn = [1]"
    by (simp_all add: secondWithdrawn_def firstRuns_def threeArrived_eq startRunning_def ticked_def leave_def)
  ultimately show ?thesis
    unfolding thirdRuns_def
    by (auto intro!: fibres_reach.goes [OF _ runs] simp: mayRun_def) (simp add: startRunning_def ticked_def)
qed

definition wokenTwice :: fibres where
  "wokenTwice = ticked (askCoalesced ''r'' (ticked (askWake ''r'' idleFibres)))"

definition sampleWaker :: waker where
  "sampleWaker = \<lparr>wk_context = 0, wk_completion = 0, wk_round = 1, wk_effects = []\<rparr>"

definition failedWake :: fibres where
  "failedWake = ticked (wakeFails ''r'' sampleWaker wokenTwice)"

lemma wokenTwice_fields:
  "fb_wake wokenTwice = [sampleWaker]" "fb_joined wokenTwice = []" "fb_asked wokenTwice = [1, 0]" "fb_round wokenTwice = 1"
  "fb_queue wokenTwice = []"
  by (simp_all add: wokenTwice_def askCoalesced_def askWake_def coalesceWake_def claimWake_def fibre_moves sampleWaker_def)

lemma coalesced_wake_lost:
  "fibres_reach 9 ''r'' failedWake \<and> fb_wake failedWake = [] \<and> fb_joined failedWake = [] \<and> 1 \<in> set (fb_asked failedWake)
   \<and> fb_round failedWake = 1"
proof -
  have "fibres_reach 9 ''r'' wokenTwice"
    unfolding wokenTwice_def by (intro fibres_reach.goes [OF _ coalesces] fibres_reach.goes [OF _ asks] begins)
  then have "fibres_reach 9 ''r'' failedWake"
    unfolding failedWake_def by (rule fibres_reach.goes [OF _ fails]) (simp_all add: wokenTwice_fields, simp add: sampleWaker_def)
  then show ?thesis by (simp add: failedWake_def wakeFails_def ticked_def wokenTwice_fields)
qed

lemma ingress_serial_witness: "length (fb_queue firstRuns) \<le> 9 \<and> list_all (\<lambda>q. \<not> qd_runs q) (tl (fb_queue firstRuns)) \<and> qd_runs (hd (fb_queue firstRuns))"
proof -
  have "\<not> fb_withdrawn firstRuns" "qd_runs (hd (fb_queue firstRuns))"
    by (simp_all add: firstRuns_def threeArrived_eq startRunning_def ticked_def)
  with ingress_serial [OF firstRuns_reach] show ?thesis unfolding list_all_iff by blast
qed

lemma no_wake_lost_witness: "list_all (\<lambda>t. t < fb_round failedWake \<or> t < fb_failed failedWake) (fb_asked failedWake)"
  unfolding list_all_iff using no_wake_lost [of 9 "''r''" failedWake] coalesced_wake_lost by blast


end
