(* ===== verification/Fork.thy ===== *)
theory Fork
  imports Repository
begin

text \<open>
  \<open>packages/core/src/fork.ts\<close>: a new run that continues where another one ended. The fork copies the log of
  the source up to the point where its root thread ended, or up to the effect outcome that started the failure,
  keeps the sequence numbers, and ends with a marker; its next wake issues again what was outstanding there.

  A cut comes from the log when a cancellation recorded where it began, so it is a number; \<open>None\<close> is the
  exception of an index outside the log.
\<close>

section \<open>The scan of the source\<close>

record fork_plan =
  fp_events :: "envelope list"
  fp_sourceSeq :: number
  fp_rootThreadId :: string

datatype fork_source_error = NoEvents string | MissingHistory string | NoRootThread string

record source_scan =
  sf_cut :: number
  sf_effects :: "runtime_effect dict"
  sf_failedAt :: "nat dict"
  sf_rootFailed :: bool

definition rootOf :: "run_state \<Rightarrow> thread_record option" where
  "rootOf s = Option.bind (truthy (rs_rootThreadId s)) (dget (rs_threads s))"

definition rootTerminal :: "run_state \<Rightarrow> bool" where
  "rootTerminal s \<longleftrightarrow> isRunTerminal s \<or> (case rootOf s of None \<Rightarrow> False | Some r \<Rightarrow> isTerminalStatus (thr_status r))"

definition cancellationStart :: "envelope \<Rightarrow> number option" where
  "cancellationStart event =
     (if ev_type event = ''runtime.thread.cancelled'' then readNumber (payloadObject event) ''resumeSeq'' else None)"

definition notedEffects :: "run_state \<Rightarrow> runtime_effect dict \<Rightarrow> runtime_effect dict" where
  "notedEffects s effects = foldl (\<lambda>m item. dput (oe_effectId item) (oe_effect item) m) effects (rs_outstandingEffects s)"

definition notedFailures :: "run_state \<Rightarrow> nat \<Rightarrow> nat dict \<Rightarrow> nat dict" where
  "notedFailures s index firstFailed =
     foldl (\<lambda>m r. if thr_status r = Failed \<and> dget m (thr_threadId r) = None then dput (thr_threadId r) index m else m)
       firstFailed (dvals (rs_threads s))"

fun scanFrom :: "registry \<Rightarrow> run_state \<Rightarrow> nat \<Rightarrow> runtime_effect dict \<Rightarrow> nat dict \<Rightarrow> envelope list \<Rightarrow> source_scan" where
  "scanFrom reg s index effects firstFailed [] =
     \<lparr>sf_cut = of_nat index, sf_effects = effects, sf_failedAt = firstFailed, sf_rootFailed = False\<rparr>"
| "scanFrom reg s index effects firstFailed (event # events) =
     (let s' = foldEvent reg s event;
          effects' = notedEffects s' effects;
          firstFailed' = notedFailures s' index firstFailed
      in if rootTerminal s'
         then \<lparr>sf_cut = withDefault (cancellationStart event) (of_nat index), sf_effects = effects', sf_failedAt = firstFailed',
                sf_rootFailed = (map_option thr_status (rootOf s') = Some Failed \<or> rs_status s' = RunFailed)\<rparr>
         else scanFrom reg s' (Suc index) effects' firstFailed' events)"

definition scanSource :: "envelope list \<Rightarrow> registry \<Rightarrow> source_scan" where
  "scanSource events reg = scanFrom reg (emptyRunState (case events of [] \<Rightarrow> '''' | e # _ \<Rightarrow> ev_runId e)) 0 [] [] events"

section \<open>Where a failure started\<close>

text \<open>The last event with an id wins, as in \<open>new Map(...)\<close>.\<close>

definition indexById :: "envelope list \<Rightarrow> string \<Rightarrow> nat option" where
  "indexById events = map_of (rev (zip (map ev_id events) [0..<length events]))"

text \<open>A failed thread leads back to where the fold failed it, anything else to its cause.\<close>

definition previousCause :: "envelope list \<Rightarrow> source_scan \<Rightarrow> nat \<Rightarrow> nat option" where
  "previousCause events scan index =
     (let event = events ! index;
          failed = (if ev_type event = ''runtime.thread.failed''
                    then Option.bind (truthy (orElse (readString (payloadObject event) ''threadId'') (ev_threadId event))) (dget (sf_failedAt scan))
                    else None);
          cause = Option.bind (truthy (ev_causationId event)) (indexById events);
          next_index = (case failed of Some f \<Rightarrow> if f < index then Some f else cause | None \<Rightarrow> cause)
      in case next_index of None \<Rightarrow> None | Some n \<Rightarrow> if n < index then Some n else None)"

definition startedFailure :: "registry \<Rightarrow> source_scan \<Rightarrow> envelope \<Rightarrow> bool" where
  "startedFailure reg scan event =
     (case Option.bind (truthy (ev_effectId event)) (dget (sf_effects scan)) of
        None \<Rightarrow> False
      | Some e \<Rightarrow>
          \<not> isPrimitiveEffect e
          \<and> \<not> (case dget (rg_effects reg) (effectType e) of None \<Rightarrow> False | Some d \<Rightarrow> ed_deterministic d)
          \<and> \<not> (case readString (payloadObject event) ''error'' of None \<Rightarrow> False | Some error \<Rightarrow> isWithdrawnError error))"

lemma previousCause_less: "previousCause events scan index = Some n \<Longrightarrow> n < index"
  by (auto simp: previousCause_def Let_def split: option.splits if_splits)

function failureWalk :: "envelope list \<Rightarrow> source_scan \<Rightarrow> registry \<Rightarrow> nat \<Rightarrow> number" where
  "failureWalk events scan reg index =
     (if startedFailure reg scan (events ! index) then of_nat index
      else case previousCause events scan index of None \<Rightarrow> sf_cut scan | Some n \<Rightarrow> failureWalk events scan reg n)"
  by pat_completeness auto

termination
  by (relation "measure (\<lambda>(_, _, _, index). index)") (simp_all add: previousCause_less)

declare failureWalk.simps [simp del]

text \<open>The walk begins at the cut, which is an index of the log unless a cancellation wrote something else.\<close>

definition indexOf :: "number \<Rightarrow> nat \<Rightarrow> nat option" where
  "indexOf q n = (let i = nat \<lfloor>q\<rfloor> in if of_nat i = q \<and> i < n then Some i else None)"

definition failureOrigin :: "envelope list \<Rightarrow> source_scan \<Rightarrow> registry \<Rightarrow> number option" where
  "failureOrigin events scan reg = map_option (failureWalk events scan reg) (indexOf (sf_cut scan) (length events))"

section \<open>The plan\<close>

definition copyEvent :: "envelope \<Rightarrow> string \<Rightarrow> string list \<Rightarrow> envelope" where
  "copyEvent event runId reissued =
     (if ev_ephemeral event \<and> (case truthy (ev_effectId event) of None \<Rightarrow> False | Some i \<Rightarrow> List.member reissued i)
      then event\<lparr>ev_runId := runId, ev_type := ''runtime.fork.elided'', ev_payload := JObj [(''type'', JStr (ev_type event))]\<rparr>
      else if ev_type event = ''runtime.snapshot.taken'' \<and> (case ev_payload event of JObj _ \<Rightarrow> True | _ \<Rightarrow> False)
      then event\<lparr>ev_runId := runId, ev_payload := JObj (ddel ''state'' (payloadObject event))\<rparr>
      else if ev_type event = ''runtime.run.started'' then event\<lparr>ev_runId := runId, ev_idempotencyKey := None\<rparr>
      else event\<lparr>ev_runId := runId\<rparr>)"

text \<open>\<open>xs.slice(0, end)\<close>: the end is truncated, and counted from the back when it is negative.\<close>

definition sliceTo :: "number \<Rightarrow> 'a list \<Rightarrow> 'a list" where
  "sliceTo q xs = (if 0 \<le> q then take (nat \<lfloor>q\<rfloor>) xs else take (length xs - nat \<lfloor>- q\<rfloor>) xs)"

definition forkedInput :: "string \<Rightarrow> number \<Rightarrow> event_input" where
  "forkedInput sourceRunId cutAt =
     (eventInput ''runtime.run.forked'' (JObj [(''sourceRunId'', JStr sourceRunId), (''sourceSeq'', JNum cutAt)]))
     \<lparr>in_threadId := Null, in_origin := Some OriginSystem\<rparr>"

definition planFork ::
  "string \<Rightarrow> string \<Rightarrow> envelope list \<Rightarrow> registry \<Rightarrow> string \<times> number \<Rightarrow> (fork_source_error + fork_plan) option" where
  "planFork sourceRunId runId events reg stamp =
     (if events = [] then Some (Inl (NoEvents sourceRunId))
      else if list_ex (\<lambda>(event, index). ev_seq event \<noteq> index + 1) (zip events [0..<length events])
      then Some (Inl (MissingHistory sourceRunId))
      else
        (let scan = scanSource events reg in
         case (if sf_rootFailed scan then failureOrigin events scan reg else Some (sf_cut scan)) of
           None \<Rightarrow> None
         | Some cutAt \<Rightarrow>
             (let prefix = sliceTo cutAt events;
                  atCut = foldRun reg (emptyRunState runId) prefix
              in case truthy (rs_rootThreadId atCut) of
                   None \<Rightarrow> Some (Inl (NoRootThread sourceRunId))
                 | Some rootId \<Rightarrow>
                     (let reissued = outstandingIds atCut;
                          marker = createEvent stamp runId (forkedInput sourceRunId cutAt) (nat \<lfloor>cutAt\<rfloor> + 1)
                      in Some (Inr \<lparr>fp_events = map (\<lambda>event. copyEvent event runId reissued) prefix @ [marker],
                           fp_sourceSeq = cutAt, fp_rootThreadId = rootId\<rparr>)))))"

section \<open>Where the scan cuts\<close>

lemma scanFrom_cut:
  assumes "scanFrom reg s index effects firstFailed events = scan"
  shows "\<exists>n \<le> length events. (\<forall>k. 0 < k \<longrightarrow> k \<le> n \<longrightarrow> \<not> rootTerminal (foldRun reg s (take k events)))
    \<and> (n = length events \<and> sf_cut scan = of_nat (index + n) \<and> \<not> sf_rootFailed scan
       \<or> n < length events \<and> rootTerminal (foldRun reg s (take (Suc n) events))
         \<and> sf_cut scan = withDefault (cancellationStart (events ! n)) (of_nat (index + n)))"
  using assms
proof (induction events arbitrary: s index effects firstFailed)
  case (Cons e es)
  let ?s = "foldEvent reg s e"
  show ?case
  proof (cases "rootTerminal ?s")
    case True
    with Cons.prems show ?thesis by (intro exI [of _ 0]) (auto simp: Let_def)
  next
    case False
    with Cons.prems have "scanFrom reg ?s (Suc index) (notedEffects ?s effects) (notedFailures ?s index firstFailed) es = scan"
      by (simp add: Let_def)
    from Cons.IH [OF this] obtain n where n: "n \<le> length es" "\<forall>k. 0 < k \<longrightarrow> k \<le> n \<longrightarrow> \<not> rootTerminal (foldRun reg ?s (take k es))"
        "n = length es \<and> sf_cut scan = of_nat (Suc index + n) \<and> \<not> sf_rootFailed scan
         \<or> n < length es \<and> rootTerminal (foldRun reg ?s (take (Suc n) es))
           \<and> sf_cut scan = withDefault (cancellationStart (es ! n)) (of_nat (Suc index + n))" by blast
    have "\<not> rootTerminal (foldRun reg s (take k (e # es)))" if "0 < k" "k \<le> Suc n" for k
    proof (cases k)
      case (Suc j)
      then show ?thesis using that n(2) False by (cases "j = 0") simp_all
    qed (use that in simp)
    with n(1,3) show ?thesis by (intro exI [of _ "Suc n"]) auto
  qed
qed auto

section \<open>The fold does not see which run it folds\<close>

text \<open>
  What a fork changes in a state that it does not change in its future: the id of the run, the idempotency key
  of the start, and the keys that were processed.
\<close>

definition withoutKey :: "run_start_identity \<Rightarrow> run_start_identity" where
  "withoutKey i = i\<lparr>si_idempotencyKey := None\<rparr>"

definition relabel :: "string \<Rightarrow> string list \<Rightarrow> run_state \<Rightarrow> run_state" where
  "relabel r keys s = s\<lparr>rs_runId := r, rs_startIdentity := map_option withoutKey (rs_startIdentity s), rs_processedIdempotencyKeys := keys\<rparr>"

lemma relabel_fields [simp]:
  "rs_runId (relabel r keys s) = r" "rs_processedIdempotencyKeys (relabel r keys s) = keys"
  "rs_startIdentity (relabel r keys s) = map_option withoutKey (rs_startIdentity s)"
  "rs_status (relabel r keys s) = rs_status s" "rs_rootThreadId (relabel r keys s) = rs_rootThreadId s"
  "rs_threads (relabel r keys s) = rs_threads s" "rs_waits (relabel r keys s) = rs_waits s"
  "rs_outstandingEffects (relabel r keys s) = rs_outstandingEffects s" "rs_effectExecutions (relabel r keys s) = rs_effectExecutions s"
  "rs_completedEffectIds (relabel r keys s) = rs_completedEffectIds s" "rs_launchedRuns (relabel r keys s) = rs_launchedRuns s"
  "rs_forkedFrom (relabel r keys s) = rs_forkedFrom s" "rs_attributes (relabel r keys s) = rs_attributes s"
  "rs_closeWaiting (relabel r keys s) = rs_closeWaiting s" "rs_childCloseSent (relabel r keys s) = rs_childCloseSent s"
  by (simp_all add: relabel_def)

text \<open>Definitions that look neither at run ids nor at what a fork changes in an event.\<close>

definition seesNoRun :: "registry \<Rightarrow> string \<Rightarrow> bool" where
  "seesNoRun reg r \<longleftrightarrow> (\<forall>kind d. dget (rg_threads reg) kind = Some d \<longrightarrow>
     (\<forall>sc. td_initialState d (sc\<lparr>sc_runId := r\<rparr>) = td_initialState d sc)
     \<and> (\<forall>st e reissued ctx. \<not> ev_ephemeral e \<longrightarrow> td_step d st (copyEvent e r reissued) (ctx\<lparr>tc_runId := r\<rparr>) = td_step d st e ctx)
     \<and> (\<forall>st ctx. td_effects d st (ctx\<lparr>tc_runId := r\<rparr>) = td_effects d st ctx))"

lemma copyEvent_fields [simp]:
  "ev_runId (copyEvent e r reissued) = r" "ev_seq (copyEvent e r reissued) = ev_seq e" "ev_id (copyEvent e r reissued) = ev_id e"
  "ev_threadId (copyEvent e r reissued) = ev_threadId e" "ev_effectId (copyEvent e r reissued) = ev_effectId e"
  "ev_origin (copyEvent e r reissued) = ev_origin e" "ev_ephemeral (copyEvent e r reissued) = ev_ephemeral e"
  "ev_ts (copyEvent e r reissued) = ev_ts e" "ev_correlationId (copyEvent e r reissued) = ev_correlationId e"
  by (simp_all add: copyEvent_def)

lemma copyEvent_durable:
  assumes "\<not> ev_ephemeral e"
  shows "ev_type (copyEvent e r reissued) = ev_type e"
    and "ev_type e \<noteq> ''runtime.snapshot.taken'' \<Longrightarrow> ev_payload (copyEvent e r reissued) = ev_payload e"
    and "ev_idempotencyKey (copyEvent e r reissued) = (if ev_type e = ''runtime.run.started'' then None else ev_idempotencyKey e)"
  using assms by (auto simp: copyEvent_def)

lemma payload_copy:
  assumes "\<not> ev_ephemeral e" and "ev_type e \<noteq> ''runtime.snapshot.taken''"
  shows "payloadObject (copyEvent e r reissued) = payloadObject e" "payloadThreadId (copyEvent e r reissued) = payloadThreadId e"
    "payloadEffectId (copyEvent e r reissued) = payloadEffectId e" "payloadAttempt (copyEvent e r reissued) = payloadAttempt e"
  using copyEvent_durable(2) [OF assms]
  by (simp_all add: payloadObject_def payloadThreadId_def payloadEffectId_def payloadAttempt_def cong: option.case_cong)

lemma relabel_update:
  "putThread (relabel r k s) t = relabel r k (putThread s t)" "addWait (relabel r k s) w = relabel r k (addWait s w)"
  "removeWait (relabel r k s) i = relabel r k (removeWait s i)" "dropThreadWork (relabel r k s) i = relabel r k (dropThreadWork s i)"
  "putExecution (relabel r k s) ex = relabel r k (putExecution s ex)" "completeEffect (relabel r k s) i = relabel r k (completeEffect s i)"
  "priorHeartbeatDetails (relabel r k s) i = priorHeartbeatDetails s i" "threadWaits (relabel r k s) i = threadWaits s i"
  by (simp_all add: relabel_def putThread_def addWait_def removeWait_def dropThreadWork_def putExecution_def completeEffect_def
      priorHeartbeatDetails_def threadWaits_def)

lemma relabel_removeRace: "removeRace (relabel r k s) q = relabel r k (removeRace s q)"
proof -
  have "foldl (\<lambda>n w. if tagRace w = Some q then removeWait n (wt_waitId w) else n) (relabel r k s) ws
      = relabel r k (foldl (\<lambda>n w. if tagRace w = Some q then removeWait n (wt_waitId w) else n) s ws)" for ws
    by (induction ws arbitrary: s) (simp_all add: relabel_update)
  then show ?thesis by (simp add: removeRace_def)
qed

lemma relabel_protocol:
  assumes "seesNoRun reg r" and "\<not> ev_ephemeral e"
  shows "applyProtocol reg (relabel r k s) (copyEvent e r reissued) = relabel r k (applyProtocol reg s e)"
proof (cases "ev_type e = ''runtime.snapshot.taken''")
  case True
  then show ?thesis by (simp add: applyProtocol_def copyEvent_durable(1) [OF assms(2)] progressTypes_def)
next
  case False
  let ?e = "copyEvent e r reissued"
  note copy = payload_copy [OF assms(2) False, of r reissued] copyEvent_durable(1) [OF assms(2), of r reissued]
    copyEvent_durable(3) [OF assms(2), of r reissued]
  have initial: "td_initialState d \<lparr>sc_runId = r, sc_threadId = a, sc_parentThreadId = b, sc_definitionName = c, sc_definitionVersion = v, sc_input = i\<rparr>
      = td_initialState d \<lparr>sc_runId = ev_runId e, sc_threadId = a, sc_parentThreadId = b, sc_definitionName = c, sc_definitionVersion = v, sc_input = i\<rparr>"
    if "dget (rg_threads reg) kind = Some d" for kind d a b c v i
    using assms(1) that unfolding seesNoRun_def
    by (metis start_context.update_convs(1))
  note update = relabel_update relabel_removeRace
  have put: "(relabel r k s)\<lparr>rs_status := a\<rparr> = relabel r k (s\<lparr>rs_status := a\<rparr>)"
      "(relabel r k s)\<lparr>rs_rootThreadId := b\<rparr> = relabel r k (s\<lparr>rs_rootThreadId := b\<rparr>)"
      "(relabel r k s)\<lparr>rs_forkedFrom := c, rs_effectExecutions := d\<rparr> = relabel r k (s\<lparr>rs_forkedFrom := c, rs_effectExecutions := d\<rparr>)"
      "(relabel r k s)\<lparr>rs_launchedRuns := e\<rparr> = relabel r k (s\<lparr>rs_launchedRuns := e\<rparr>)"
      "(relabel r k s)\<lparr>rs_closeWaiting := f, rs_childCloseSent := g\<rparr> = relabel r k (s\<lparr>rs_closeWaiting := f, rs_childCloseSent := g\<rparr>)"
      for s a b c d e f g
    by (simp_all add: relabel_def)
  have run: "runCompleted (relabel r k s) ?e = relabel r k (runCompleted s e)" "runCancelled (relabel r k s) = relabel r k (runCancelled s)"
      "runForked (relabel r k s) ?e = relabel r k (runForked s e)" "runLaunched (relabel r k s) ?e = relabel r k (runLaunched s e)"
      "childSettled (relabel r k s) ?e = relabel r k (childSettled s e)"
      "childCloseRequested (relabel r k s) ?e = relabel r k (childCloseRequested s e)"
    by (simp_all add: runCompleted_def runCancelled_def runForked_def runLaunched_def childSettled_def childCloseRequested_def copy put Let_def
        split: option.split)
  have started: "runStarted (relabel r k s) ?e = relabel r k (runStarted s e)" if "ev_type e = ''runtime.run.started''"
    using that by (simp add: runStarted_def copy Let_def relabel_def withoutKey_def split: option.split)
  have threads: "threadStarted reg (relabel r k s) ?e = relabel r k (threadStarted reg s e)"
      "threadCompleted (relabel r k s) ?e = relabel r k (threadCompleted s e)" "threadFailed (relabel r k s) ?e = relabel r k (threadFailed s e)"
      "threadCancelled (relabel r k s) ?e = relabel r k (threadCancelled s e)"
    by (auto simp: threadStarted_def threadCompleted_def threadFailed_def threadCancelled_def eventThread_def copy update put initial Let_def
        split: option.split)
  have executions: "attemptStarted (relabel r k s) ?e = relabel r k (attemptStarted s e)"
      "dispatchDeferred (relabel r k s) ?e = relabel r k (dispatchDeferred s e)"
      "effectCancelled (relabel r k s) ?e = relabel r k (effectCancelled s e)"
      "retryScheduled (relabel r k s) ?e = relabel r k (retryScheduled s e)"
    by (simp_all add: attemptStarted_def dispatchDeferred_def effectCancelled_def retryScheduled_def copy update Let_def split: option.split)
  have "nextHeartbeatDetails (relabel r k s) i ?e p = nextHeartbeatDetails s i e p" for i p
    by (auto simp: nextHeartbeatDetails_def copy update)
  then have progress: "executionProgress (relabel r k s) ?e = relabel r k (executionProgress s e)"
    by (cases "payloadAttempt e") (auto simp: executionProgress_def copy update Let_def)
  have waits: "waitRegistered (relabel r k s) ?e = relabel r k (waitRegistered s e)"
      "waitSatisfied (relabel r k s) ?e = relabel r k (waitSatisfied s e)"
    by (simp_all add: waitRegistered_def waitSatisfied_def copy update Let_def split: option.split json.split)
  show ?thesis
    unfolding applyProtocol_def Let_def copy(5) if_distrib [of "relabel r k"]
    by (simp only: run started threads executions progress waits cong: if_cong)
qed

lemma mapEnabled_copy:
  "mapEnabled t (copyEvent e r reissued) settled n es remaining = mapEnabled t e settled n es remaining"
  by (induction es arbitrary: n remaining) (simp_all add: Let_def case_prod_unfold split: option.split)

lemma relabel_reconcile:
  "reconcileEffects (relabel r k s) t (copyEvent e r reissued) es settled = relabel r k (reconcileEffects s t e es settled)"
  by (simp add: reconcileEffects_def mapEffects_def mapEnabled_copy relabel_def Let_def)

lemma relabel_forget: "forgetCompletedEffects (relabel r k s) t es = relabel r k (forgetCompletedEffects s t es)"
  by (simp add: forgetCompletedEffects_def relabel_def)

lemma relabel_target: "targetThread (relabel r k s) (copyEvent e r reissued) = targetThread s e"
  by (simp add: targetThread_def split: option.split event_origin.split)

lemma relabel_deliver:
  assumes "seesNoRun reg r" and "\<not> ev_ephemeral e"
  shows "deliver reg (relabel r k s) (copyEvent e r reissued) settled = relabel r k (deliver reg s e settled)"
proof (cases "targetThread s e")
  case None
  then show ?thesis by (simp add: deliver_def relabel_target)
next
  case (Some t)
  note target = relabel_target [of r k s e reissued]
  have step: "td_step d st (copyEvent e r reissued) \<lparr>tc_runId = r, tc_threadId = a, tc_parentThreadId = b\<rparr>
        = td_step d st e \<lparr>tc_runId = rs_runId s, tc_threadId = a, tc_parentThreadId = b\<rparr>"
      "td_effects d st' \<lparr>tc_runId = r, tc_threadId = a, tc_parentThreadId = b\<rparr>
        = td_effects d st' \<lparr>tc_runId = rs_runId s, tc_threadId = a, tc_parentThreadId = b\<rparr>"
    if "dget (rg_threads reg) kind = Some d" for kind d st st' a b
    using assms that unfolding seesNoRun_def by (metis thread_context.update_convs(1))+
  show ?thesis
  proof (cases "dget (rs_threads s) t")
    case None
    then show ?thesis by (simp add: deliver_def target Some)
  next
    case q: (Some q)
    show ?thesis
    proof (cases "dget (rg_threads reg) (thr_kind q)")
      case None
      then show ?thesis by (simp add: deliver_def target Some q)
    next
      case d: (Some d)
      show ?thesis by (simp add: deliver_def target Some q d step [OF d] relabel_update relabel_reconcile relabel_forget Let_def)
    qed
  qed
qed

lemma relabel_fail:
  assumes "\<not> ev_ephemeral e"
  shows "failUnhandledEffect (relabel r k s) (copyEvent e r reissued) before = relabel r k (failUnhandledEffect s e before)"
proof (cases "ev_type e = ''runtime.effect.failed''")
  case True
  then have "payloadObject (copyEvent e r reissued) = payloadObject e" by (intro payload_copy(1) [OF assms]) simp
  then show ?thesis
    by (simp add: failUnhandledEffect_def copyEvent_durable(1) [OF assms] relabel_update Let_def split: option.split)
next
  case False
  then show ?thesis by (simp add: failUnhandledEffect_def copyEvent_durable(1) [OF assms])
qed

definition keysAfter :: "string list \<Rightarrow> envelope \<Rightarrow> string list" where
  "keysAfter keys e = (case if ev_ephemeral e \<or> ev_type e = ''runtime.run.started'' then None else truthy (ev_idempotencyKey e) of
     None \<Rightarrow> keys | Some k \<Rightarrow> if List.member keys k then keys else keys @ [k])"

lemma relabel_foldEvent:
  assumes "seesNoRun reg r"
  shows "foldEvent reg (relabel r k s) (copyEvent e r reissued) = relabel r (keysAfter k e) (foldEvent reg s e)"
proof (cases "ev_ephemeral e")
  case True
  then show ?thesis by (simp add: keysAfter_def)
next
  case False
  let ?e = "copyEvent e r reissued"
  have settled: "settledWithoutOutcome (relabel r k (adoptRunId s e)) ?e = settledWithoutOutcome (adoptRunId s e) e"
    by (simp add: settledWithoutOutcome_def copyEvent_durable(1) [OF False] split: option.split)
  have adopt: "adoptRunId (relabel r k s) ?e = relabel r k (adoptRunId s e)" by (simp add: adoptRunId_def relabel_def)
  have settle: "settleEffect (relabel r k s) ?e = relabel r k (settleEffect s e)" for s
    by (simp add: settleEffect_def relabel_update split: option.split)
  have key: "recordIdempotencyKey (relabel r k s) ?e = relabel r (keysAfter k e) (recordIdempotencyKey s e)" for s
    by (auto simp: recordIdempotencyKey_def keysAfter_def copyEvent_durable(3) [OF False] False relabel_def split: option.split)
  have outstanding: "outstandingIds (relabel r k s) = outstandingIds s" for k s by (simp add: outstandingIds_def)
  show ?thesis
    by (simp add: foldEvent_def False adopt settled settle key relabel_protocol [OF assms False] relabel_deliver [OF assms False]
        relabel_fail [OF False] outstanding Let_def)
qed

lemma relabel_foldRun:
  assumes "seesNoRun reg r"
  shows "foldRun reg (relabel r k s) (map (\<lambda>e. copyEvent e r reissued) es) = relabel r (foldl keysAfter k es) (foldRun reg s es)"
  by (induction es arbitrary: k s) (simp_all add: relabel_foldEvent [OF assms])

section \<open>What a fork is\<close>

lemma planFork_cases:
  assumes "planFork source r events reg stamp = Some (Inr plan)"
  obtains cutAt where "fp_sourceSeq plan = cutAt" "\<forall>i < length events. ev_seq (events ! i) = Suc i" "events \<noteq> []"
    "sf_rootFailed (scanSource events reg) \<Longrightarrow> failureOrigin events (scanSource events reg) reg = Some cutAt"
    "\<not> sf_rootFailed (scanSource events reg) \<Longrightarrow> cutAt = sf_cut (scanSource events reg)"
    "truthy (rs_rootThreadId (foldRun reg (emptyRunState r) (sliceTo cutAt events))) = Some (fp_rootThreadId plan)"
    "fp_events plan = map (\<lambda>e. copyEvent e r (outstandingIds (foldRun reg (emptyRunState r) (sliceTo cutAt events)))) (sliceTo cutAt events)
      @ [createEvent stamp r (forkedInput source cutAt) (nat \<lfloor>cutAt\<rfloor> + 1)]"
proof -
  have "\<forall>i < length events. ev_seq (events ! i) = Suc i"
  proof (intro allI impI)
    fix i assume "i < length events"
    then have "(events ! i, i) \<in> set (zip events [0..<length events])" by (force simp: set_zip)
    moreover have "\<not> list_ex (\<lambda>(event, index). ev_seq event \<noteq> index + 1) (zip events [0..<length events])"
      using assms by (auto simp: planFork_def split: if_splits)
    ultimately show "ev_seq (events ! i) = Suc i" by (auto simp: list_ex_iff)
  qed
  then show thesis using assms that
    by (auto simp: planFork_def Let_def split: if_splits option.splits)
qed

lemma fork_log:
  assumes "planFork source r events reg stamp = Some (Inr plan)" and "seesNoRun reg r" and "source \<noteq> ''''"
  shows "foldRun reg (emptyRunState r) (fp_events plan)
    = (relabel r (foldl keysAfter [] (sliceTo (fp_sourceSeq plan) events))
        (foldRun reg (emptyRunState sourceId) (sliceTo (fp_sourceSeq plan) events)))
      \<lparr>rs_forkedFrom := Some (source, fp_sourceSeq plan), rs_effectExecutions := []\<rparr>"
proof -
  obtain cutAt where plan: "fp_sourceSeq plan = cutAt"
    "fp_events plan = map (\<lambda>e. copyEvent e r (outstandingIds (foldRun reg (emptyRunState r) (sliceTo cutAt events)))) (sliceTo cutAt events)
      @ [createEvent stamp r (forkedInput source cutAt) (nat \<lfloor>cutAt\<rfloor> + 1)]"
    by (rule planFork_cases [OF assms(1)]) (rule that)
  have start: "relabel r [] (emptyRunState sourceId) = emptyRunState r" by (simp add: relabel_def emptyRunState_def)
  have marker: "foldEvent reg (relabel r k s) (createEvent stamp r (forkedInput source cutAt) n)
      = (relabel r k s)\<lparr>rs_forkedFrom := Some (source, cutAt), rs_effectExecutions := []\<rparr>" for k s n
    using assms(3)
    by (simp add: foldEvent_def forkedInput_def adoptRunId_def settleEffect_def recordIdempotencyKey_def applyProtocol_def runForked_def
        payloadObject_def asObject_def readString_def readNumber_def deliver_def targetThread_def failUnhandledEffect_def Let_def)
  show ?thesis
    using relabel_foldRun [OF assms(2), of "[]" "emptyRunState sourceId"] by (simp add: plan start marker)
qed


text \<open>Cancellations record where they began: at an event before the one that records it.\<close>

definition resumesBefore :: "envelope list \<Rightarrow> bool" where
  "resumesBefore events \<longleftrightarrow> (\<forall>e \<in> set events. case cancellationStart e of None \<Rightarrow> True | Some q \<Rightarrow> 0 \<le> q \<and> q < of_nat (ev_seq e))"

lemma failureWalk_back: "failureWalk events scan reg index = sf_cut scan \<or> (\<exists>i \<le> index. failureWalk events scan reg index = of_nat i)"
proof (induction events scan reg index rule: failureWalk.induct)
  case (1 events scan reg index)
  show ?case
  proof (cases "startedFailure reg scan (events ! index)")
    case True
    then show ?thesis by (auto simp: failureWalk.simps [of events scan reg index])
  next
    case False
    show ?thesis
    proof (cases "previousCause events scan index")
      case None
      with False show ?thesis by (simp add: failureWalk.simps [of events scan reg index])
    next
      case (Some n)
      then show ?thesis
        using "1.IH" [OF False Some] previousCause_less [OF Some] False
        by (auto simp: failureWalk.simps [of events scan reg index] intro: order_trans less_imp_le)
    qed
  qed
qed

text \<open>The cut stands before the event that ended the root thread.\<close>

lemma planFork_cut:
  assumes "planFork source r events reg stamp = Some (Inr plan)" and "resumesBefore events"
  obtains k where "0 \<le> fp_sourceSeq plan" "k = nat \<lfloor>fp_sourceSeq plan\<rfloor>" "0 < k" "k \<le> length events"
    "sliceTo (fp_sourceSeq plan) events = take k events"
    "\<not> rootTerminal (foldRun reg (emptyRunState (ev_runId (hd events))) (take k events))"
proof -
  let ?scan = "scanSource events reg" and ?start = "emptyRunState (ev_runId (hd events))"
  obtain cutAt where plan: "fp_sourceSeq plan = cutAt" "\<forall>i < length events. ev_seq (events ! i) = Suc i" "events \<noteq> []"
    "sf_rootFailed ?scan \<Longrightarrow> failureOrigin events ?scan reg = Some cutAt" "\<not> sf_rootFailed ?scan \<Longrightarrow> cutAt = sf_cut ?scan"
    "truthy (rs_rootThreadId (foldRun reg (emptyRunState r) (sliceTo cutAt events))) = Some (fp_rootThreadId plan)"
    by (rule planFork_cases [OF assms(1)]) (rule that)
  have scan: "scanFrom reg ?start 0 [] [] events = ?scan" using plan(3) by (simp add: scanSource_def split: list.split)
  obtain n where n: "n \<le> length events" "\<forall>k. 0 < k \<longrightarrow> k \<le> n \<longrightarrow> \<not> rootTerminal (foldRun reg ?start (take k events))"
      "n = length events \<and> sf_cut ?scan = of_nat n \<and> \<not> sf_rootFailed ?scan
       \<or> n < length events \<and> sf_cut ?scan = withDefault (cancellationStart (events ! n)) (of_nat n)"
    using scanFrom_cut [OF scan] by auto
  have scanned: "0 \<le> sf_cut ?scan \<and> sf_cut ?scan < of_nat (Suc n)"
  proof (cases "n < length events \<and> cancellationStart (events ! n) \<noteq> None")
    case True
    then obtain q where q: "cancellationStart (events ! n) = Some q" by auto
    have "events ! n \<in> set events" "ev_seq (events ! n) = Suc n" using True plan(2) by simp_all
    then have "0 \<le> q" "q < of_nat (Suc n)" using assms(2) q by (auto simp: resumesBefore_def dest!: bspec)
    then show ?thesis using n(3) True q by auto
  next
    case False
    with n(3) show ?thesis by auto
  qed
  have walked: "q = sf_cut ?scan \<or> (\<exists>i. of_nat i = q \<and> i \<le> n)" if q: "failureOrigin events ?scan reg = Some q" for q
  proof -
    obtain i where i: "of_nat i = sf_cut ?scan" "q = failureWalk events ?scan reg i"
      using q by (auto simp: failureOrigin_def indexOf_def Let_def split: if_splits)
    then have "i \<le> n" using scanned by (metis of_nat_less_iff less_Suc_eq_le)
    then show ?thesis using failureWalk_back [of events ?scan reg i] i(2) by (metis order_trans)
  qed
  have cutAt: "0 \<le> cutAt \<and> cutAt < of_nat (Suc n)"
    using plan(4,5) walked [of cutAt] scanned by (cases "sf_rootFailed ?scan") auto
  let ?k = "nat \<lfloor>cutAt\<rfloor>"
  have le: "?k \<le> n" using cutAt by (simp add: floor_le_iff nat_le_iff)
  have slice: "sliceTo cutAt events = take ?k events" using cutAt by (simp add: sliceTo_def)
  have "0 < ?k"
  proof (rule ccontr)
    assume "\<not> 0 < ?k"
    then have "sliceTo cutAt events = []" using slice by simp
    with plan(6) show False by (simp add: emptyRunState_def)
  qed
  with that [of ?k] le n slice plan(1) cutAt show thesis by simp
qed


lemma numberEvents_numbered:
  "map ev_seq es = [Suc t..<Suc (t + length es)] \<Longrightarrow> \<forall>e \<in> set es. ev_runId e = r \<Longrightarrow> numberEvents r t (stripSeq es) = es"
proof (induction es arbitrary: t)
  case (Cons e es)
  then have seqs: "ev_seq e = Suc t" "map ev_seq es = [Suc (Suc t)..<Suc (Suc t + length es)]"
    by (simp_all add: upt_conv_Cons del: upt_Suc)
  have "withAssignedSeq (e\<lparr>ev_seq := 0\<rparr>) r (Suc t) = e" using Cons.prems(2) seqs(1) by (cases e) (simp add: withAssignedSeq_def)
  with Cons.IH [OF seqs(2)] Cons.prems(2) show ?case by (simp add: stripSeq_def)
qed (simp add: stripSeq_def)

lemma fork_numbering:
  assumes "planFork source r events reg stamp = Some (Inr plan)" and "resumesBefore events"
  shows "map ev_seq (fp_events plan) = [1..<Suc (length (fp_events plan))]
    \<and> numberEvents r 0 (stripSeq (fp_events plan)) = fp_events plan"
proof -
  obtain k where k: "k = nat \<lfloor>fp_sourceSeq plan\<rfloor>" "k \<le> length events" "sliceTo (fp_sourceSeq plan) events = take k events"
    by (rule planFork_cut [OF assms]) (rule that)
  obtain reissued where plan: "\<forall>i < length events. ev_seq (events ! i) = Suc i"
    "fp_events plan = map (\<lambda>e. copyEvent e r reissued) (take k events)
      @ [createEvent stamp r (forkedInput source (fp_sourceSeq plan)) (k + 1)]"
    by (rule planFork_cases [OF assms(1)]) (use k in auto)
  have "map ev_seq (take k events) = map Suc [0..<k]"
    by (rule nth_equalityI) (use k(2) plan(1) in simp_all)
  then have "map ev_seq (take k events) = [1..<Suc k]" by (simp add: map_Suc_upt)
  then have seqs: "map ev_seq (fp_events plan) = [1..<Suc (length (fp_events plan))]" using k(2) by (simp add: plan(2) comp_def upt_Suc_append del: upt_Suc)
  moreover have "\<forall>e \<in> set (fp_events plan). ev_runId e = r" by (auto simp: plan(2))
  ultimately show ?thesis using numberEvents_numbered [of "fp_events plan" 0 r] by simp
qed

text \<open>
  A fork keeps the numbers of its source: its events are numbered one after the other from 1 on, and
  appended to an empty log they get those numbers, so the ids of effects stay the same.
\<close>

theorem fork_numbered:
  assumes "planFork source r events reg stamp = Some (Inr plan)" and "resumesBefore events"
  shows "map ev_seq (fp_events plan) = [1..<Suc (length (fp_events plan))]
    \<and> numberEvents r 0 (stripSeq (fp_events plan)) = fp_events plan"
  by (rule fork_numbering [OF assms])

section \<open>A fork of a failed run\<close>

definition copyDefinition :: thread_definition where
  "copyDefinition = \<lparr>td_forgetsCompletedEffects = False, td_initialState = (\<lambda>_. JNull), td_step = (\<lambda>st _ _. st),
     td_effects = (\<lambda>_ _. [InvokeEffect ''fetch'' JNull None None])\<rparr>"

definition copyRegistry :: registry where
  "copyRegistry = \<lparr>rg_threads = [(''copy'', copyDefinition)], rg_effects = []\<rparr>"

text \<open>The root thread asks for \<open>fetch\<close>, which fails, and the thread gives up because of it.\<close>

definition failedLog :: "envelope list" where
  "failedLog =
     [createEvent (''e1'', 0) ''s'' ((eventInput ''runtime.thread.started''
        (JObj [(''threadId'', JStr ''a''), (''kind'', JStr ''copy''), (''definitionName'', JStr ''n'')])) \<lparr>in_threadId := Val ''a''\<rparr>) 1,
      createEvent (''e2'', 1) ''s'' ((eventInput ''note'' JNull) \<lparr>in_threadId := Val ''a''\<rparr>) 2,
      createEvent (''e3'', 2) ''s'' ((eventInput ''runtime.effect.failed'' (JObj [(''error'', JStr ''no'')]))
        \<lparr>in_threadId := Val ''a'', in_effectId := Val ''a:1:0''\<rparr>) 3,
      createEvent (''e4'', 3) ''s'' ((eventInput ''runtime.thread.failed'' (JObj [(''threadId'', JStr ''a''), (''error'', JStr ''no'')]))
        \<lparr>in_threadId := Val ''a'', in_causationId := Val ''e3''\<rparr>) 4]"

definition failedPlan :: fork_plan where
  "failedPlan = \<lparr>fp_events = map (\<lambda>e. e\<lparr>ev_runId := ''f''\<rparr>) (take 2 failedLog) @ [createEvent (''m'', 9) ''f'' (forkedInput ''s'' 2) 3],
     fp_sourceSeq = 2, fp_rootThreadId = ''a''\<rparr>"

lemma failed_plan: "planFork ''s'' ''f'' failedLog copyRegistry (''m'', 9) = Some (Inr failedPlan)"
  by code_simp

lemma copy_sees_no_run: "seesNoRun copyRegistry ''f''"
  by (auto simp: seesNoRun_def copyRegistry_def copyDefinition_def split: if_splits)

lemma failed_log_resumes: "resumesBefore failedLog"
  by code_simp



lemma fork_numbered_witness:
  "map ev_seq (fp_events failedPlan) = [1..<4] \<and> numberEvents ''f'' 0 (stripSeq (fp_events failedPlan)) = fp_events failedPlan"
proof -
  have "length (fp_events failedPlan) = 3" by code_simp
  then show ?thesis using fork_numbered [OF failed_plan failed_log_resumes] by simp
qed

end
