(* ===== verification/Runtime_Operations.thy ===== *)
theory Runtime_Operations
  imports Wake_Properties Fork "HOL-Library.Char_ord" "HOL-Library.List_Lexorder"
begin

text \<open>
  \<open>packages/runtime/src/runtime.ts\<close>, \<open>run-start.ts\<close> and \<open>core/src/validate-event.ts\<close>: what callers do with a
  run. Starting, signalling, retrying an effect and forking each plan a batch against the run as it is, commit
  it, and wake the run. An operation works on the state of a wake and the secrets of the store; \<open>None\<close> is an
  operation that does not return. The queue in front of an operation is in \<open>Run_Contexts\<close>.
\<close>

section \<open>Validation against the catalogs\<close>

text \<open>
  An entry of a catalog is a schema, given by what it does with a payload (\<open>Inl\<close> is the message of its
  issues), or only a type.
\<close>

record event_catalog =
  ca_namespace :: string
  ca_entries :: "(json \<Rightarrow> string + json) option dict"

fun findCatalogAndEntry :: "event_catalog list \<Rightarrow> string \<Rightarrow> (json \<Rightarrow> string + json) option option" where
  "findCatalogAndEntry [] t = None"
| "findCatalogAndEntry (catalog # catalogs) t =
     (let namePrefix = ca_namespace catalog @ ''.''
      in if startsWith t namePrefix
         then (case dget (ca_entries catalog) (drop (length namePrefix) t) of
                 Some entry \<Rightarrow> Some entry | None \<Rightarrow> findCatalogAndEntry catalogs t)
         else findCatalogAndEntry catalogs t)"

definition validateEventInput :: "event_catalog list \<Rightarrow> event_input \<Rightarrow> string + event_input" where
  "validateEventInput catalogs input =
     (case findCatalogAndEntry catalogs (in_type input) of
        Some (Some validate) \<Rightarrow>
          (case validate (in_payload input) of Inl _ \<Rightarrow> Inl (in_type input) | Inr p \<Rightarrow> Inr (input\<lparr>in_payload := p\<rparr>))
      | _ \<Rightarrow> Inr input)"

fun validateEvents :: "event_catalog list \<Rightarrow> event_input list \<Rightarrow> string + event_input list" where
  "validateEvents catalogs [] = Inr []"
| "validateEvents catalogs (input # inputs) =
     (case validateEventInput catalogs input of
        Inl t \<Rightarrow> Inl t
      | Inr v \<Rightarrow> (case validateEvents catalogs inputs of Inl t \<Rightarrow> Inl t | Inr vs \<Rightarrow> Inr (v # vs)))"

definition withEventDefaults :: "event_origin \<Rightarrow> string option \<Rightarrow> event_input \<Rightarrow> event_input" where
  "withEventDefaults origin threadId input = input
     \<lparr>in_threadId := (case in_threadId input of
        Undefined \<Rightarrow> (case threadId of None \<Rightarrow> Null | Some t \<Rightarrow> Val t) | given \<Rightarrow> given),
      in_origin := Some (withDefault (in_origin input) origin)\<rparr>"

definition validateAndCreateEvents ::
  "event_catalog list \<Rightarrow> stamps \<Rightarrow> string \<Rightarrow> event_input list \<Rightarrow> event_origin \<Rightarrow> string option \<Rightarrow> string + envelope list" where
  "validateAndCreateEvents catalogs st runId events origin threadId =
     map_sum id (\<lambda>vs. createEvents st 0 runId (map (withEventDefaults origin threadId) vs)) (validateEvents catalogs events)"

section \<open>The identity of a start\<close>

text \<open>
  The code compares canonical texts of JSON values; a value with the keys of its objects in order stands for
  its text. The keys of an object are distinct.
\<close>

fun canonicalJson :: "json \<Rightarrow> json" where
  "canonicalJson (JArr xs) = JArr (map canonicalJson xs)"
| "canonicalJson (JObj fs) = JObj (sort_key fst (map (\<lambda>(k, v). (k, canonicalJson v)) fs))"
| "canonicalJson v = v"

definition sameStringRecord :: "string dict \<Rightarrow> string dict \<Rightarrow> bool" where
  "sameStringRecord left right \<longleftrightarrow>
     sort (dkeys left) = sort (dkeys right) \<and> list_all (\<lambda>k. dget left k = dget right k) (dkeys left)"

record start_args =
  sa_kind :: string
  sa_definitionName :: string
  sa_definitionVersion :: "string option"
  sa_input :: "json option"
  sa_threadId :: "string option"
  sa_idempotencyKey :: "string option"
  sa_launchedBy :: "run_launch_source option"
  sa_correlationId :: "string option"
  sa_attributes :: "string dict option"
  sa_secrets :: "string dict option"
  sa_trace :: "trace_context option"
    \<comment> \<open>what \<open>readTraceContext\<close> made of the caller's trace\<close>

record requested_start =
  rq_kind :: string
  rq_definitionName :: string
  rq_definitionVersion :: string
  rq_input :: json
  rq_requestedThreadId :: "string option"
  rq_idempotencyKey :: "string option"
  rq_launchedBy :: "run_launch_source option"
  rq_correlationId :: "string option"
  rq_attributes :: "string dict"

text \<open>The fields of the two identities that differ.\<close>

definition startMismatches :: "run_start_identity \<Rightarrow> requested_start \<Rightarrow> string list" where
  "startMismatches existing requested =
     (if si_kind existing \<noteq> rq_kind requested then [''kind''] else [])
     @ (if si_definitionName existing \<noteq> rq_definitionName requested then [''definitionName''] else [])
     @ (if si_definitionVersion existing \<noteq> rq_definitionVersion requested then [''definitionVersion''] else [])
     @ (if canonicalJson (si_input existing) \<noteq> canonicalJson (rq_input requested) then [''input''] else [])
     @ (if si_requestedThreadId existing \<noteq> rq_requestedThreadId requested then [''requestedThreadId''] else [])
     @ (if si_idempotencyKey existing \<noteq> rq_idempotencyKey requested then [''idempotencyKey''] else [])
     @ (if si_launchedBy existing \<noteq> rq_launchedBy requested then [''launchedBy''] else [])
     @ (if si_correlationId existing \<noteq> rq_correlationId requested then [''correlationId''] else [])
     @ (if \<not> sameStringRecord (si_attributes existing) (rq_attributes requested) then [''attributes''] else [])"

datatype operation_error =
    WakeFailed wake_error
  | InvalidEvent string
  | RunTerminal string run_status
  | UnresolvedDefinition effect_failure
  | NoStartIdentity string
  | StartRunConflict string "string list"
  | SecretsUnsupported
  | SecretContextConflict string
  | UnknownOutstandingEffect string
  | NotRetryable string execution_status
  | RunNotFound string
  | RunNotFinished string run_status
  | ForkSource fork_source_error
  | ForkIndexOutside
  | ForkConflict string string

definition assertSameDurableStart :: "string \<Rightarrow> run_state \<Rightarrow> requested_start \<Rightarrow> operation_error + string" where
  "assertSameDurableStart runId s requested = (case rs_startIdentity s of
     None \<Rightarrow> Inl (NoStartIdentity runId)
   | Some existing \<Rightarrow>
       (let mismatches = startMismatches existing requested
        in if mismatches \<noteq> [] then Inl (StartRunConflict runId mismatches) else Inr (si_rootThreadId existing)))"

definition launchSourceJson :: "run_launch_source \<Rightarrow> json" where
  "launchSourceJson by = JObj [(''runId'', JStr (ls_runId by)), (''threadId'', JStr (ls_threadId by)), (''effectId'', JStr (ls_effectId by)),
     (''causationId'', JStr (ls_causationId by)), (''causationSeq'', JNum (ls_causationSeq by))]"

definition traceJson :: "trace_context \<Rightarrow> json" where
  "traceJson t = JObj ((''traceparent'', JStr (tr_traceparent t)) #
     (case tr_tracestate t of None \<Rightarrow> [] | Some st \<Rightarrow> [(''tracestate'', JStr st)]))"

definition orNullJson :: "string option \<Rightarrow> json" where
  "orNullJson x = (case x of None \<Rightarrow> JNull | Some t \<Rightarrow> JStr t)"

definition startedPayload :: "start_args \<Rightarrow> string \<Rightarrow> string \<Rightarrow> json \<Rightarrow> json" where
  "startedPayload args version threadId input = JObj
     ([(''rootThreadId'', JStr threadId), (''kind'', JStr (sa_kind args)), (''definitionName'', JStr (sa_definitionName args)),
       (''definitionVersion'', JStr version), (''input'', input), (''requestedThreadId'', orNullJson (sa_threadId args))]
      @ (case sa_launchedBy args of None \<Rightarrow> [] | Some by \<Rightarrow> [(''launchedBy'', launchSourceJson by)])
      @ (case sa_attributes args of
           None \<Rightarrow> [] | Some attributes \<Rightarrow> if attributes = [] then [] else [(''attributes'', JObj (map (\<lambda>(k, v). (k, JStr v)) attributes))])
      @ (case sa_trace args of None \<Rightarrow> [] | Some t \<Rightarrow> [(''trace'', traceJson t)]))"

section \<open>Operations\<close>

record 'c runtime_env = "'c wake_env" +
  re_catalogs :: "event_catalog list"
  re_resolve :: "nat \<Rightarrow> string \<Rightarrow> string \<Rightarrow> string \<Rightarrow> effect_failure + resolved_definition option"
  re_interruptRules :: "(event_input \<Rightarrow> string list) list"
  re_waking :: "nat \<Rightarrow> bool"
    \<comment> \<open>whether another fibre is waking the run, a question to the contexts\<close>
  re_threadIds :: "nat \<Rightarrow> string"

text \<open>\<open>op_secrets\<close> is \<open>None\<close> for a store without secrets; \<open>op_aborted\<close> are the threads whose effects were interrupted.\<close>

record operation_state =
  op_wake :: wake_state
  op_secrets :: "string dict dict option"
  op_aborted :: "(string \<times> string list) list"

type_synonym 'a operation = "operation_state \<Rightarrow> (operation_state \<times> (operation_error + 'a)) option"

definition oreturn :: "'a \<Rightarrow> 'a operation" where
  "oreturn x s = Some (s, Inr x)"

definition ofail :: "operation_error \<Rightarrow> 'a operation" where
  "ofail e s = Some (s, Inl e)"

definition obind :: "'a operation \<Rightarrow> ('a \<Rightarrow> 'b operation) \<Rightarrow> 'b operation" where
  "obind m f s = (case m s of None \<Rightarrow> None | Some (s', Inl e) \<Rightarrow> Some (s', Inl e) | Some (s', Inr x) \<Rightarrow> f x s')"

definition inWake :: "'a wake \<Rightarrow> 'a operation" where
  "inWake m s = (case m (op_wake s) of
     None \<Rightarrow> None
   | Some (w, Inl e) \<Rightarrow> Some (s\<lparr>op_wake := w\<rparr>, Inl (WakeFailed e))
   | Some (w, Inr x) \<Rightarrow> Some (s\<lparr>op_wake := w\<rparr>, Inr x))"

text \<open>A plan that fails commits nothing.\<close>

definition planOrFail ::
  "(run_cursor \<Rightarrow> operation_error + 'a commit_plan) \<Rightarrow> run_cursor \<Rightarrow> repository_error + (operation_error + 'a) commit_plan" where
  "planOrFail plan c = Inr (case plan c of
     Inl e \<Rightarrow> \<lparr>pl_events = [], pl_value = Inl e, pl_idempotencyKey = None\<rparr>
   | Inr p \<Rightarrow> \<lparr>pl_events = pl_events p, pl_value = Inr (pl_value p), pl_idempotencyKey = pl_idempotencyKey p\<rparr>)"

text \<open>The value of the plan that was committed, and what the append returned, if something was appended.\<close>

definition commitRun ::
  "('c, 'd) wake_env_scheme \<Rightarrow> string \<Rightarrow> (run_cursor \<Rightarrow> operation_error + 'a commit_plan) \<Rightarrow> ('a \<times> append_result option) operation" where
  "commitRun env runId plan = obind (inWake askWorld) (\<lambda>n s.
     let w = op_wake s in
     case commit (we_bytes env) (we_prime env) (we_primeState env) (we_registry env) (we_cacheLimit env) runId
            (if we_snapshotLoads env n then latestSnapshot (wk_snapshots w) runId else None) (planOrFail plan)
            (\<lambda>k. we_others env (Suc n + k)) (wk_store w, wk_cache w) of
       None \<Rightarrow> None
     | Some ((st, cache), result) \<Rightarrow>
         (let s' = s\<lparr>op_wake := w\<lparr>wk_store := st, wk_cache := cache, wk_tick := wk_tick w + maxCommitConflicts\<rparr>\<rparr>
          in Some (s', case result of
               Inl e \<Rightarrow> Inl (WakeFailed (RepositoryFailed e))
             | Inr r \<Rightarrow> map_sum id (\<lambda>v. (v, cr_append r)) (cr_value r))))"

section \<open>Signals\<close>

definition processedKey :: "string list \<Rightarrow> string option \<Rightarrow> bool" where
  "processedKey processed key = (case truthy key of None \<Rightarrow> False | Some k \<Rightarrow> List.member processed k)"

definition unprocessedEvents :: "string option \<Rightarrow> string list \<Rightarrow> event_input list \<Rightarrow> event_input list" where
  "unprocessedEvents signalKey processed events =
     (if processedKey processed signalKey then []
      else filter (\<lambda>input. \<not> processedKey processed (orElse (orNull (in_idempotencyKey input)) signalKey)) events)"

definition withSignalKey :: "string option \<Rightarrow> event_input \<Rightarrow> event_input" where
  "withSignalKey signalKey input = input\<lparr>in_idempotencyKey :=
     (case orNull (in_idempotencyKey input) of Some k \<Rightarrow> Val k
      | None \<Rightarrow> (case signalKey of None \<Rightarrow> Undefined | Some k \<Rightarrow> Val k))\<rparr>"

definition isSettlement :: "string \<Rightarrow> bool" where
  "isSettlement t \<longleftrightarrow> t = ''runtime.child.settled''"

definition planSignal ::
  "('c, 'd) runtime_env_scheme \<Rightarrow> stamps \<Rightarrow> string \<Rightarrow> event_input list \<Rightarrow> string option \<Rightarrow> run_cursor \<Rightarrow>
     operation_error + run_state commit_plan" where
  "planSignal env st runId events signalKey current =
     (let s = cu_state current;
          filtered = unprocessedEvents signalKey (rs_processedIdempotencyKeys s) events
      in if filtered = [] then Inr \<lparr>pl_events = [], pl_value = s, pl_idempotencyKey = None\<rparr>
         else (case validateAndCreateEvents (re_catalogs env) st runId (map (withSignalKey signalKey) filtered)
                      (OriginExternal None) (rs_rootThreadId s) of
                 Inl t \<Rightarrow> Inl (InvalidEvent t)
               | Inr batch \<Rightarrow>
                   if isRunTerminal s \<and> \<not> list_all (\<lambda>e. isSettlement (in_type e)) filtered
                   then Inl (RunTerminal runId (rs_status s))
                   else
                     (let folded = foldRun (we_registry env) s batch;
                          forWaits = (if isRunTerminal s \<or> rs_closeWaiting s
                                      then filter (\<lambda>e. \<not> isSettlement (ev_type e)) batch else batch)
                      in Inr \<lparr>pl_events = batch @ createEvents st (length batch) runId (waitSatisfiedEvents folded forWaits),
                              pl_value = s, pl_idempotencyKey = map_option (\<lambda>k. ''signal:'' @ k) (truthy signalKey)\<rparr>)))"

text \<open>The threads whose effects a signal interrupts; \<open>None\<close> when the parents of a thread form a cycle.\<close>

definition namedThreads :: "(event_input \<Rightarrow> string list) list \<Rightarrow> event_input list \<Rightarrow> string list" where
  "namedThreads rules events = concat (map (\<lambda>event.
     (if in_type event = ''runtime.thread.cancel.requested''
      then (case readString (asObject (in_payload event)) ''threadId'' of None \<Rightarrow> [] | Some t \<Rightarrow> [t]) else [])
     @ concat (map (\<lambda>rule. rule event) rules)) events)"

fun withDescendants :: "run_state \<Rightarrow> string list \<Rightarrow> string list option" where
  "withDescendants s [] = Some []"
| "withDescendants s (t # ts) =
     (case (descendantThreadIds s t, withDescendants s ts) of
        (Some below, Some rest) \<Rightarrow> Some (t # below @ rest) | _ \<Rightarrow> None)"

definition interruptedThreadIds :: "event_input list \<Rightarrow> (event_input \<Rightarrow> string list) list \<Rightarrow> run_state \<Rightarrow> string list option" where
  "interruptedThreadIds events rules s = map_option remdups (withDescendants s (namedThreads rules events))"

definition abortThreads :: "string \<Rightarrow> string list \<Rightarrow> unit operation" where
  "abortThreads runId threadIds s = Some (s\<lparr>op_aborted := op_aborted s @ [(runId, threadIds)]\<rparr>, Inr ())"

definition signalAdmitted ::
  "('c, 'd) runtime_env_scheme \<Rightarrow> string \<Rightarrow> event_input list \<Rightarrow> string option \<Rightarrow> run_state operation" where
  "signalAdmitted env runId events signalKey =
     obind (inWake (freshStamps env)) (\<lambda>st.
     obind (commitRun env runId (planSignal env st runId events signalKey)) (\<lambda>(s, appended).
       case appended of
         None \<Rightarrow> oreturn s
       | Some _ \<Rightarrow> (case interruptedThreadIds events (re_interruptRules env) s of
           None \<Rightarrow> (\<lambda>_. None)
         | Some threadIds \<Rightarrow> obind (abortThreads runId threadIds) (\<lambda>_. oreturn s))))"

definition appendAndWake ::
  "('c, 'd) runtime_env_scheme \<Rightarrow> string \<Rightarrow> event_input list \<Rightarrow> string option \<Rightarrow> bool \<Rightarrow> run_state operation" where
  "appendAndWake env runId events signalKey coalesce =
     obind (signalAdmitted env runId events signalKey) (\<lambda>s.
     obind (inWake askWorld) (\<lambda>n.
       if coalesce \<and> re_waking env n then oreturn s else inWake (wakeRounds env runId)))"

definition signalRun ::
  "('c, 'd) runtime_env_scheme \<Rightarrow> string \<Rightarrow> event_input list \<Rightarrow> string option \<Rightarrow> bool \<Rightarrow> run_state operation" where
  "signalRun env runId events signalKey coalesce = (case admitExternalEvents events of
     Inl t \<Rightarrow> ofail (InvalidEvent t)
   | Inr admitted \<Rightarrow> appendAndWake env runId admitted signalKey coalesce)"

section \<open>Starts\<close>

text \<open>The payload of the event that starts the root thread.\<close>

definition startedInputOf :: "event_input list \<Rightarrow> json \<Rightarrow> json" where
  "startedInputOf events input = (case events of
     [] \<Rightarrow> input
   | started # _ \<Rightarrow> (case in_payload started of JObj fs \<Rightarrow> withDefault (dget fs ''input'') JNull | _ \<Rightarrow> input))"

definition requestedIdentity :: "start_args \<Rightarrow> string \<Rightarrow> json \<Rightarrow> requested_start" where
  "requestedIdentity args version input = \<lparr>rq_kind = sa_kind args, rq_definitionName = sa_definitionName args,
     rq_definitionVersion = version, rq_input = input, rq_requestedThreadId = sa_threadId args,
     rq_idempotencyKey = sa_idempotencyKey args, rq_launchedBy = sa_launchedBy args,
     rq_correlationId = sa_correlationId args, rq_attributes = withDefault (sa_attributes args) []\<rparr>"

definition orUndefined :: "string option \<Rightarrow> string nullable" where
  "orUndefined x = (case x of None \<Rightarrow> Undefined | Some t \<Rightarrow> Val t)"

definition startInputs :: "start_args \<Rightarrow> string \<Rightarrow> string \<Rightarrow> event_input list \<Rightarrow> event_input list" where
  "startInputs args version threadId startedEvents =
     map (\<lambda>event. event\<lparr>in_correlationId := orUndefined (sa_correlationId args)\<rparr>)
       ((eventInput ''runtime.run.started'' (startedPayload args version threadId
            (startedInputOf startedEvents (withDefault (sa_input args) JNull))))
          \<lparr>in_threadId := Null, in_idempotencyKey := orUndefined (sa_idempotencyKey args)\<rparr> # startedEvents)"

definition startOrigin :: "start_args \<Rightarrow> event_origin" where
  "startOrigin args = (case sa_launchedBy args of None \<Rightarrow> OriginSystem | Some by \<Rightarrow> OriginRun (ls_runId by))"

text \<open>A run that exists must have been started the same way; its thread and its state are the result.\<close>

definition planStart ::
  "('c, 'd) runtime_env_scheme \<Rightarrow> stamps \<Rightarrow> string \<Rightarrow> start_args \<Rightarrow> string \<Rightarrow> string \<Rightarrow> event_input list \<Rightarrow> run_cursor \<Rightarrow>
     operation_error + (string \<times> run_state) commit_plan" where
  "planStart env st runId args version threadId startedEvents existing =
     (if 0 < cu_seq existing
      then map_sum id (\<lambda>rootId. \<lparr>pl_events = [], pl_value = (rootId, cu_state existing), pl_idempotencyKey = None\<rparr>)
        (assertSameDurableStart runId (cu_state existing)
          (requestedIdentity args version (startedInputOf startedEvents (withDefault (sa_input args) JNull))))
      else (case validateAndCreateEvents (re_catalogs env) st runId (startInputs args version threadId startedEvents) (startOrigin args) None of
              Inl t \<Rightarrow> Inl (InvalidEvent t)
            | Inr batch \<Rightarrow> Inr \<lparr>pl_events = batch,
                pl_value = (threadId, foldRun (we_registry env) (cu_state existing) batch),
                pl_idempotencyKey = map_option (\<lambda>k. ''start:'' @ k) (truthy (sa_idempotencyKey args))\<rparr>))"

definition reconcileRunSecrets :: "string \<Rightarrow> string dict option \<Rightarrow> unit operation" where
  "reconcileRunSecrets runId requested s =
     (let next_secrets = withDefault requested [] in
      case op_secrets s of
        None \<Rightarrow> if next_secrets \<noteq> [] then Some (s, Inl SecretsUnsupported) else Some (s, Inr ())
      | Some stored \<Rightarrow>
          (let current = withDefault (dget stored runId) []
           in if sameStringRecord current next_secrets \<or> requested = None then Some (s, Inr ())
              else if current = [] then Some (s\<lparr>op_secrets := Some (dput runId next_secrets stored)\<rparr>, Inr ())
              else Some (s, Inl (SecretContextConflict runId))))"

definition loadOperation :: "('c, 'd) wake_env_scheme \<Rightarrow> string \<Rightarrow> run_cursor operation" where
  "loadOperation env runId = inWake (loadRun env runId)"

definition liftResult :: "operation_error + 'a \<Rightarrow> 'a operation" where
  "liftResult r s = Some (s, r)"

definition resolveStart :: "('c, 'd) runtime_env_scheme \<Rightarrow> start_args \<Rightarrow> string \<Rightarrow> string \<Rightarrow> event_input list operation" where
  "resolveStart env args version threadId = obind (inWake askWorld) (\<lambda>n.
     liftResult (map_sum UnresolvedDefinition id
       (threadStartedEvents (re_resolve env n) (sa_kind args) (sa_definitionName args) version (withDefault (sa_input args) JNull) threadId None)))"

definition commitStart :: "('c, 'd) runtime_env_scheme \<Rightarrow> start_args \<Rightarrow> string \<Rightarrow> (string \<times> run_state) operation" where
  "commitStart env args runId =
     (let version = withDefault (sa_definitionVersion args) defaultDefinitionVersion in
      obind (inWake askWorld) (\<lambda>n.
      let threadId = withDefault (sa_threadId args) (re_threadIds env n) in
      obind (resolveStart env args version threadId) (\<lambda>startedEvents.
      obind (inWake (freshStamps env)) (\<lambda>st s.
        if withDefault (sa_secrets args) [] \<noteq> [] \<and> op_secrets s = None then Some (s, Inl SecretsUnsupported)
        else obind (commitRun env runId (planStart env st runId args version threadId startedEvents)) (\<lambda>(started, appended).
             obind (reconcileRunSecrets runId (sa_secrets args)) (\<lambda>_.
               if (case appended of None \<Rightarrow> True | Some a \<Rightarrow> \<not> ar_deduplicated a) then oreturn started
               else obind (loadOperation env runId) (\<lambda>durable.
                    obind (liftResult (assertSameDurableStart runId (cu_state durable)
                        (requestedIdentity args version (startedInputOf startedEvents (withDefault (sa_input args) JNull)))))
                      (\<lambda>rootId. oreturn (rootId, cu_state durable))))) s))))"

text \<open>Results of a start: the thread, and the state.\<close>

definition startRun :: "('c, 'd) runtime_env_scheme \<Rightarrow> start_args \<Rightarrow> string \<Rightarrow> (string \<times> run_state) operation" where
  "startRun env args runId = obind (commitStart env args runId) (\<lambda>(threadId, _).
     obind (inWake (wakeRounds env runId)) (\<lambda>s. oreturn (withDefault (rs_rootThreadId s) threadId, s)))"

definition launchRun :: "('c, 'd) runtime_env_scheme \<Rightarrow> start_args \<Rightarrow> string \<Rightarrow> (string \<times> run_state) operation" where
  "launchRun env args runId = obind (commitStart env args runId) (\<lambda>(threadId, s).
     obind (if isRunTerminal s then oreturn ()
            else obind (inWake (clockNow env)) (\<lambda>now. inWake (report (Scheduled runId now)))) (\<lambda>_.
       oreturn (withDefault (rs_rootThreadId s) threadId, s)))"

section \<open>Operators\<close>

definition retryableStatuses :: "execution_status list" where
  "retryableStatuses = [Ambiguous, TimedOut, CancelRequested, DispatchWait]"

fun executionStatusText :: "execution_status \<Rightarrow> string" where
  "executionStatusText Queued = ''queued''" | "executionStatusText DispatchWait = ''dispatch_wait''"
| "executionStatusText Dispatched = ''dispatched''" | "executionStatusText Started = ''started''"
| "executionStatusText Heartbeat = ''heartbeat''" | "executionStatusText RetryWait = ''retry_wait''"
| "executionStatusText CancelRequested = ''cancel_requested''" | "executionStatusText TimedOut = ''timed_out''"
| "executionStatusText Ambiguous = ''ambiguous''" | "executionStatusText RunningHere = ''running''"

definition operatorRetryInput :: "string \<Rightarrow> number \<Rightarrow> effect_execution \<Rightarrow> outstanding_effect \<Rightarrow> event_input" where
  "operatorRetryInput effectId now execution item =
     (eventInput ''runtime.effect.retry.scheduled'' (JObj
        [(''effectId'', JStr effectId), (''attempt'', JNum (ex_attempt execution)), (''nextAttemptAt'', JNum now),
         (''error'', JStr (''operator retry from '' @ executionStatusText (ex_status execution)))]))
     \<lparr>in_threadId := Val (oe_threadId item), in_causationId := Val (oe_causingEventId item), in_origin := Some (OriginExternal (Some ''operator''))\<rparr>"

definition planRetry ::
  "string \<times> number \<Rightarrow> number \<Rightarrow> string \<Rightarrow> string \<Rightarrow> run_cursor \<Rightarrow> operation_error + unit commit_plan" where
  "planRetry stamp now runId effectId c =
     (case (dget (rs_effectExecutions (cu_state c)) effectId,
            find (\<lambda>candidate. oe_effectId candidate = effectId) (rs_outstandingEffects (cu_state c))) of
        (Some execution, Some item) \<Rightarrow>
          if \<not> List.member retryableStatuses (ex_status execution) then Inl (NotRetryable effectId (ex_status execution))
          else Inr \<lparr>pl_events = [createEvent stamp runId (operatorRetryInput effectId now execution item) 0], pl_value = (),
                 pl_idempotencyKey = None\<rparr>
      | _ \<Rightarrow> Inl (UnknownOutstandingEffect effectId))"

definition retryEffect :: "('c, 'd) wake_env_scheme \<Rightarrow> string \<Rightarrow> string \<Rightarrow> run_state operation" where
  "retryEffect env runId effectId =
     obind (inWake (clockNow env)) (\<lambda>now. obind (inWake (freshStamps env)) (\<lambda>st.
     obind (commitRun env runId (planRetry (st 0) now runId effectId)) (\<lambda>_. inWake (wakeRounds env runId))))"

section \<open>Forks and timers\<close>

definition planForkCommit :: "string \<Rightarrow> string \<Rightarrow> envelope list \<Rightarrow> run_cursor \<Rightarrow> operation_error + unit commit_plan" where
  "planForkCommit sourceRunId runId events existing =
     (if cu_seq existing = 0 then Inr \<lparr>pl_events = events, pl_value = (), pl_idempotencyKey = None\<rparr>
      else if map_option fst (rs_forkedFrom (cu_state existing)) = Some sourceRunId
      then Inr \<lparr>pl_events = [], pl_value = (), pl_idempotencyKey = None\<rparr>
      else Inl (ForkConflict runId sourceRunId))"

definition readAll :: "string \<Rightarrow> envelope list operation" where
  "readAll runId s = Some (s, Inr (readFrom (wk_store (op_wake s)) runId None None))"

definition liftFork :: "(fork_source_error + fork_plan) option \<Rightarrow> fork_plan operation" where
  "liftFork result = (case result of
     None \<Rightarrow> ofail ForkIndexOutside | Some (Inl e) \<Rightarrow> ofail (ForkSource e) | Some (Inr plan) \<Rightarrow> oreturn plan)"

definition secretsOf :: "string \<Rightarrow> string dict operation" where
  "secretsOf runId s = Some (s, Inr (case op_secrets s of None \<Rightarrow> [] | Some stored \<Rightarrow> withDefault (dget stored runId) []))"

definition commitFork :: "('c, 'd) wake_env_scheme \<Rightarrow> string \<Rightarrow> string \<Rightarrow> string operation" where
  "commitFork env sourceRunId runId =
     obind (loadOperation env sourceRunId) (\<lambda>source.
       if cu_seq source = 0 then ofail (RunNotFound sourceRunId)
       else if \<not> isRunTerminal (cu_state source) then ofail (RunNotFinished sourceRunId (rs_status (cu_state source)))
       else
         obind (readAll sourceRunId) (\<lambda>events.
         obind (inWake (freshStamps env)) (\<lambda>st.
         obind (liftFork (planFork sourceRunId runId events (we_registry env) (st 0))) (\<lambda>plan.
         obind (commitRun env runId (planForkCommit sourceRunId runId (fp_events plan))) (\<lambda>_.
         obind (secretsOf sourceRunId) (\<lambda>parentSecrets.
         obind (reconcileRunSecrets runId (if parentSecrets = [] then None else Some parentSecrets)) (\<lambda>_.
           oreturn (fp_rootThreadId plan))))))))"

definition forkRun :: "('c, 'd) wake_env_scheme \<Rightarrow> string \<Rightarrow> string \<Rightarrow> (string \<times> run_state) operation" where
  "forkRun env sourceRunId runId = obind (commitFork env sourceRunId runId) (\<lambda>threadId.
     obind (inWake (wakeRounds env runId)) (\<lambda>s. oreturn (threadId, s)))"

definition getRun :: "('c, 'd) wake_env_scheme \<Rightarrow> string \<Rightarrow> run_state operation" where
  "getRun env runId = obind (loadOperation env runId) (\<lambda>c. oreturn (cu_state c))"

fun rescanFrom :: "('c, 'd) wake_env_scheme \<Rightarrow> string list \<Rightarrow> nat operation" where
  "rescanFrom env [] = oreturn 0"
| "rescanFrom env (runId # runIds) =
     obind (getRun env runId) (\<lambda>s.
     obind (case nextRuntimeDeadline s None of
         None \<Rightarrow> oreturn 0
       | Some deadline \<Rightarrow> obind (inWake (report (Scheduled runId deadline))) (\<lambda>_. oreturn 1)) (\<lambda>n.
     obind (rescanFrom env runIds) (\<lambda>m. oreturn (n + m))))"

definition rescanTimers :: "('c, 'd) wake_env_scheme \<Rightarrow> nat operation" where
  "rescanTimers env s = rescanFrom env (listRuns (wk_store (op_wake s))) s"

record effect_status =
  es_effectId :: string
  es_threadId :: string
  es_type :: string
  es_placement :: "effect_placement option"
  es_attempt :: number
  es_status :: "execution_status option"
    \<comment> \<open>\<open>None\<close> for \<open>pending\<close>\<close>
  es_deadlineAt :: "number option"

definition effectStatus :: "registry \<Rightarrow> run_state \<Rightarrow> outstanding_effect \<Rightarrow> effect_status" where
  "effectStatus reg s item =
     (let execution = dget (rs_effectExecutions s) (oe_effectId item)
      in \<lparr>es_effectId = oe_effectId item, es_threadId = oe_threadId item, es_type = effectType (oe_effect item),
          es_placement = map_option ed_placement (dget (rg_effects reg) (effectType (oe_effect item))),
          es_attempt = withDefault (map_option ex_attempt execution) 0, es_status = map_option ex_status execution,
          es_deadlineAt = Option.bind execution ex_deadlineAt\<rparr>)"

definition inspectRun :: "('c, 'd) wake_env_scheme \<Rightarrow> string \<Rightarrow> (run_state \<times> (nat \<times> nat) \<times> effect_status list) operation" where
  "inspectRun env runId = obind (getRun env runId) (\<lambda>s w.
     Some (w, Inr (s, boundsOf (wk_store (op_wake w)) runId, map (effectStatus (we_registry env) s) (rs_outstandingEffects s))))"

section \<open>The launcher of the host\<close>

text \<open>A launch of a run that was started differently is not an error.\<close>

definition localLaunch :: "('c, 'd) runtime_env_scheme \<Rightarrow> start_args \<Rightarrow> string \<Rightarrow> unit operation" where
  "localLaunch env args runId s = (case launchRun env args runId s of
     None \<Rightarrow> None
   | Some (s', Inl (StartRunConflict r m)) \<Rightarrow> Some (s', Inr ())
   | Some (s', Inl e) \<Rightarrow> Some (s', Inl e)
   | Some (s', Inr _) \<Rightarrow> Some (s', Inr ()))"

definition localStatus :: "('c, 'd) wake_env_scheme \<Rightarrow> string \<Rightarrow> run_status option operation" where
  "localStatus env runId = obind (getRun env runId) (\<lambda>s.
     oreturn (if rs_rootThreadId s = None then None else Some (rs_status s)))"

definition localSignal :: "('c, 'd) runtime_env_scheme \<Rightarrow> string \<Rightarrow> event_input list \<Rightarrow> string option \<Rightarrow> unit operation" where
  "localSignal env runId events signalKey = obind (appendAndWake env runId events signalKey True) (\<lambda>_. oreturn ())"

end
