(* ===== verification/Operation_Properties.thy ===== *)
theory Operation_Properties
  imports Runtime_Operations
begin

text \<open>
  What the operations on a run guarantee, over everything that was ever appended to it: what a commit appends
  and from which state it was planned, starts, signals and forks that are repeated, and what a run that ended
  still accepts.
\<close>

section \<open>Commits\<close>

text \<open>
  Other writers append to the run; what they append satisfies \<open>C\<close>. A commit that returned saw the whole log at
  some moment, \<open>seen\<close>, planned from it, and the log then is \<open>after\<close>.
\<close>

definition keepsLog :: "string \<Rightarrow> (envelope list \<Rightarrow> bool) \<Rightarrow> (memory_store \<Rightarrow> memory_store) \<Rightarrow> bool" where
  "keepsLog r C f \<longleftrightarrow> (\<forall>st hist h. keepsFrom st r hist h \<longrightarrow> (\<exists>later. C later \<and> keepsFrom (f st) r (hist @ later) h))"

lemma keepsLogD: "keepsLog r C f \<Longrightarrow> keepsFrom st r hist h \<Longrightarrow> \<exists>later. C later \<and> keepsFrom (f st) r (hist @ later) h"
  by (simp add: keepsLog_def)

definition closedUnder :: "(envelope list \<Rightarrow> bool) \<Rightarrow> bool" where
  "closedUnder C \<longleftrightarrow> C [] \<and> (\<forall>xs ys. C xs \<longrightarrow> C ys \<longrightarrow> C (xs @ ys))"

definition committedFrom ::
  "registry \<Rightarrow> string \<Rightarrow> (envelope list \<Rightarrow> bool) \<Rightarrow> envelope list \<Rightarrow> (run_cursor \<Rightarrow> repository_error + 'a commit_plan) \<Rightarrow>
     'a commit_result \<Rightarrow> envelope list \<Rightarrow> bool" where
  "committedFrom reg r C seen plan x after \<longleftrightarrow> (\<exists>planned.
       cu_seq (cr_cursor x) = length seen \<and> cu_state (cr_cursor x) = foldRun reg (emptyRunState r) seen
     \<and> plan (cr_cursor x) = Inr planned \<and> cr_value x = pl_value planned
     \<and> (case cr_append x of
          None \<Rightarrow> pl_events planned = [] \<and> after = seen
        | Some a \<Rightarrow> pl_events planned \<noteq> [] \<and>
            (if ar_deduplicated a then truthy (pl_idempotencyKey planned) \<noteq> None \<and> (\<exists>more. C more \<and> after = seen @ more)
             else after = seen @ numberEvents r (length seen) (stripSeq (pl_events planned)))))"

lemma commit_conflict_keeps:
  "append_events bytes st r es opts = Inr (res, st') \<Longrightarrow> ar_deduplicated res \<Longrightarrow> st' = st"
  by (auto simp: append_events_def Let_def split: option.splits sum.splits bool.splits prod.splits)

lemma commit_known:
  "append_events bytes st r es opts = Inr (res, st') \<Longrightarrow> ar_deduplicated res \<Longrightarrow> ao_idempotency opts \<noteq> None"
  by (cases "ao_idempotency opts") (auto simp: append_events_def appendGuard_def fencingGuard_def Let_def split: option.splits sum.splits bool.splits prod.splits if_splits)

lemma commitRounds_follow:
  assumes "neverFails prime" and "neverFails primeState" and "closedUnder C"
    and "\<forall>f \<in> set fs. keepsLog r C f"
    and "keepsFrom st r hist h" and "cursorAt reg r hist (startCursor r snap)" and "h \<le> Suc (cu_seq (startCursor r snap))"
    and "\<forall>c. dget cache r = Some c \<longrightarrow> cursorAt reg r hist c \<and> b \<le> cu_seq c \<and> 0 < limit" and "h \<le> Suc b" and "b \<le> length hist"
    and "commitRounds bytes prime primeState reg limit r snap plan fs (st, cache) = Some ((st', cache'), res)"
  shows "\<exists>later. keepsFrom st' r (hist @ later) h
    \<and> (\<forall>c. dget cache' r = Some c \<longrightarrow> cursorAt reg r (hist @ later) c \<and> b \<le> cu_seq c \<and> 0 < limit)
    \<and> (case res of Inl _ \<Rightarrow> C later | Inr x \<Rightarrow> \<exists>mid. C mid \<and> committedFrom reg r C (hist @ mid) plan x (hist @ later))"
  using assms(4-11)
proof (induction fs arbitrary: st hist cache)
  case Nil
  then show ?case using assms(3) by (intro exI [of _ "[]"]) (auto simp: closedUnder_def)
next
  case (Cons f fs)
  have C0: "C []" using assms(3) by (simp add: closedUnder_def)
  have "\<forall>c. dget cache r = Some c \<longrightarrow> cursorAt reg r hist c \<and> h \<le> Suc (cu_seq c) \<and> 0 < limit" using Cons.prems(5,6) by fastforce
  from loadCursor_keeps [OF Cons.prems(2) assms(1,2) Cons.prems(3,4) this]
  obtain cache1 c where load: "loadCursor prime primeState reg limit (viewOf st r) r snap cache = Some (cache1, Inr c)"
      "cursorAt reg r hist c" "cu_seq c = length hist" "\<forall>c'. dget cache1 r = Some c' \<longrightarrow> c' = c \<and> 0 < limit" by blast
  have state: "cu_state c = foldRun reg (emptyRunState r) hist" using load(2,3) by (simp add: cursorAt_def)
  have loaded: "\<forall>c'. dget cache1 r = Some c' \<longrightarrow> cursorAt reg r (hist @ later) c' \<and> b \<le> cu_seq c' \<and> 0 < limit" for later
    using load(2-4) Cons.prems(7) by (auto intro: cursorAt_extends)
  have loaded0: "\<forall>c'. dget cache1 r = Some c' \<longrightarrow> cursorAt reg r hist c' \<and> b \<le> cu_seq c' \<and> 0 < limit"
    using loaded [of "[]"] by simp
  obtain mid where mid: "C mid" "keepsFrom (f st) r (hist @ mid) h" using keepsLogD [OF _ Cons.prems(2), of C f] Cons.prems(1) by auto
  show ?case
  proof (cases "plan c")
    case (Inl e)
    then have "st' = st" "cache' = cache1" "res = Inl e" using Cons.prems(8) load(1) by (auto simp: commitRound_def)
    with Cons.prems(2) loaded0 C0 show ?thesis by (intro exI [of _ "[]"]) simp
  next
    case plan: (Inr planned)
    show ?thesis
    proof (cases "pl_events planned = []")
      case True
      then have ended: "st' = st" "cache' = cache1" "res = Inr \<lparr>cr_value = pl_value planned, cr_cursor = c, cr_append = None\<rparr>"
        using Cons.prems(8) load(1) plan by (auto simp: commitRound_def)
      have "committedFrom reg r C hist plan \<lparr>cr_value = pl_value planned, cr_cursor = c, cr_append = None\<rparr> hist"
        unfolding committedFrom_def using load(3) state plan True by (intro exI [of _ planned]) simp
      with ended Cons.prems(2) loaded0 C0 show ?thesis by (intro exI [of _ "[]"]) (auto intro: exI [of _ "[]"])
    next
      case False
      show ?thesis
      proof (cases "append_events bytes (f st) r (stripSeq (pl_events planned)) (commitOptions c planned)")
        case (Inr p)
        obtain a st1 where p: "p = (a, st1)" by fastforce
        have ended: "st' = st1" "cache' = cache1" "res = Inr \<lparr>cr_value = pl_value planned, cr_cursor = c, cr_append = Some a\<rparr>"
          using Cons.prems(8) load(1) plan Inr p False by (auto simp: commitRound_def)
        let ?x = "\<lparr>cr_value = pl_value planned, cr_cursor = c, cr_append = Some a\<rparr>"
        show ?thesis
        proof (cases "ar_deduplicated a")
          case True
          then have "st1 = f st" using commit_conflict_keeps [OF Inr [unfolded p]] by simp
          moreover have "truthy (pl_idempotencyKey planned) \<noteq> None"
            using commit_known [OF Inr [unfolded p] True] by (simp add: commitOptions_def)
          moreover have "committedFrom reg r C (hist @ []) plan ?x (hist @ mid)"
            unfolding committedFrom_def using load(3) state plan True False mid(1) calculation(2) by (intro exI [of _ planned]) simp
          ultimately show ?thesis using ended mid(2) loaded C0 by (intro exI [of _ mid]) (auto intro: exI [of _ "[]"])
        next
          case fresh: False
          have "appendGuard (f st) r (commitOptions c planned) = Inr False"
            using append_events_success [OF Inr [unfolded p] fresh] by simp
          then have "tailOf (f st) r = length hist"
            using load(3) by (auto simp: appendGuard_def commitOptions_def Let_def split: option.splits if_splits)
          then have "mid = []" using mid by (simp add: keepsFrom_def)
          with mid have fst_h: "keepsFrom (f st) r hist h" by simp
          have "ao_fence (commitOptions c planned) = None" by (simp add: commitOptions_def)
          moreover have "h \<le> Suc (length hist)" using Cons.prems(6,7) by simp
          ultimately have "keepsFrom st1 r (hist @ numberEvents r (length hist) (stripSeq (pl_events planned))) h"
            using keepsFrom_append(1) [OF fst_h _ Inr [unfolded p] fresh] by simp
          moreover have "committedFrom reg r C (hist @ []) plan ?x (hist @ numberEvents r (length hist) (stripSeq (pl_events planned)))"
            unfolding committedFrom_def using load(3) state plan fresh False by (intro exI [of _ planned]) simp
          ultimately show ?thesis using ended loaded C0
            by (intro exI [of _ "numberEvents r (length hist) (stripSeq (pl_events planned))"]) (auto intro: exI [of _ "[]"])
        qed
      next
        case (Inl e)
        consider (conflict) x y z where "e = Conflict x y z" | (other) "\<nexists>x y z. e = Conflict x y z" by blast
        then show ?thesis
        proof cases
          case conflict
          let ?cache = "cacheDelete r cache1"
          have again: "commitRounds bytes prime primeState reg limit r snap plan fs (f st, ?cache) = Some ((st', cache'), res)"
            using Cons.prems(8) load(1) plan Inl False conflict by (simp add: commitRound_def)
          have gone: "dget ?cache r = None" by (simp add: cacheDelete_def)
          have "\<exists>later. keepsFrom st' r ((hist @ mid) @ later) h
              \<and> (\<forall>c. dget cache' r = Some c \<longrightarrow> cursorAt reg r ((hist @ mid) @ later) c \<and> b \<le> cu_seq c \<and> 0 < limit)
              \<and> (case res of Inl _ \<Rightarrow> C later | Inr x \<Rightarrow> \<exists>mid'. C mid' \<and> committedFrom reg r C ((hist @ mid) @ mid') plan x ((hist @ mid) @ later))"
            by (rule Cons.IH [OF _ mid(2) cursorAt_extends [OF Cons.prems(3)] Cons.prems(4) _ Cons.prems(6) _ again])
               (use Cons.prems(1,7) gone in auto)
          then obtain later where l: "keepsFrom st' r (hist @ mid @ later) h"
              "\<forall>c. dget cache' r = Some c \<longrightarrow> cursorAt reg r (hist @ mid @ later) c \<and> b \<le> cu_seq c \<and> 0 < limit"
              "case res of Inl _ \<Rightarrow> C later | Inr x \<Rightarrow> \<exists>mid'. C mid' \<and> committedFrom reg r C (hist @ mid @ mid') plan x (hist @ mid @ later)"
            unfolding append_assoc by blast
          have "case res of Inl _ \<Rightarrow> C (mid @ later) | Inr x \<Rightarrow> \<exists>mid'. C mid' \<and> committedFrom reg r C (hist @ mid') plan x (hist @ mid @ later)"
            using l(3) assms(3) mid(1) unfolding closedUnder_def by (cases res) (simp_all, metis)
          then show ?thesis using l(1,2) by (intro exI [of _ "mid @ later"]) simp
        next
          case other
          then have "st' = f st" "cache' = cache1" "res = Inl (StoreFailed e)"
            using Cons.prems(8) load(1) plan Inl False by (cases e; auto simp: commitRound_def)+
          with mid loaded show ?thesis by (intro exI [of _ mid]) simp
        qed
      qed
    qed
  qed
qed

text \<open>The same for an operation: what it planned and when, or that the repository failed.\<close>

definition plannedFrom ::
  "registry \<Rightarrow> string \<Rightarrow> (envelope list \<Rightarrow> bool) \<Rightarrow> envelope list \<Rightarrow> (run_cursor \<Rightarrow> operation_error + 'a commit_plan) \<Rightarrow>
     operation_error + 'a \<times> append_result option \<Rightarrow> envelope list \<Rightarrow> bool" where
  "plannedFrom reg r C seen plan res after \<longleftrightarrow> (\<exists>c. cu_seq c = length seen \<and> cu_state c = foldRun reg (emptyRunState r) seen
     \<and> (case res of
          Inl e \<Rightarrow> plan c = Inl e \<and> after = seen
        | Inr (v, appended) \<Rightarrow> (\<exists>planned. plan c = Inr planned \<and> v = pl_value planned
            \<and> (case appended of
                 None \<Rightarrow> pl_events planned = [] \<and> after = seen
               | Some a \<Rightarrow> pl_events planned \<noteq> [] \<and>
                   (if ar_deduplicated a then truthy (pl_idempotencyKey planned) \<noteq> None \<and> (\<exists>more. C more \<and> after = seen @ more)
                    else after = seen @ numberEvents r (length seen) (stripSeq (pl_events planned)))))))"

lemma plannedFromE:
  assumes "plannedFrom reg r C seen plan res after"
  obtains (fails) e c where "res = Inl e" "cu_seq c = length seen" "cu_state c = foldRun reg (emptyRunState r) seen" "plan c = Inl e" "after = seen"
  | (silent) planned c where "res = Inr (pl_value planned, None)" "cu_seq c = length seen"
      "cu_state c = foldRun reg (emptyRunState r) seen" "plan c = Inr planned" "pl_events planned = []" "after = seen"
  | (known) planned c a more where "res = Inr (pl_value planned, Some a)" "ar_deduplicated a" "cu_seq c = length seen"
      "cu_state c = foldRun reg (emptyRunState r) seen" "plan c = Inr planned" "pl_events planned \<noteq> []" "truthy (pl_idempotencyKey planned) \<noteq> None" "C more" "after = seen @ more"
  | (appends) planned c a where "res = Inr (pl_value planned, Some a)" "\<not> ar_deduplicated a" "cu_seq c = length seen"
      "cu_state c = foldRun reg (emptyRunState r) seen" "plan c = Inr planned" "pl_events planned \<noteq> []"
      "after = seen @ numberEvents r (length seen) (stripSeq (pl_events planned))"
  using assms unfolding plannedFrom_def by (fastforce split: sum.splits prod.splits option.splits if_splits)

lemma committed_planned:
  assumes "committedFrom reg r C seen (planOrFail plan) x after"
  shows "plannedFrom reg r C seen plan (map_sum id (\<lambda>v. (v, cr_append x)) (cr_value x)) after"
proof -
  obtain planned where x: "cu_seq (cr_cursor x) = length seen" "cu_state (cr_cursor x) = foldRun reg (emptyRunState r) seen"
     "planOrFail plan (cr_cursor x) = Inr planned" "cr_value x = pl_value planned"
     "case cr_append x of
          None \<Rightarrow> pl_events planned = [] \<and> after = seen
        | Some a \<Rightarrow> pl_events planned \<noteq> [] \<and> (if ar_deduplicated a then truthy (pl_idempotencyKey planned) \<noteq> None \<and> (\<exists>more. C more \<and> after = seen @ more)
            else after = seen @ numberEvents r (length seen) (stripSeq (pl_events planned)))"
    using assms unfolding committedFrom_def by blast
  show ?thesis
  proof (cases "plan (cr_cursor x)")
    case (Inl e)
    then have "planned = \<lparr>pl_events = [], pl_value = Inl e, pl_idempotencyKey = None\<rparr>" using x(3) by (simp add: planOrFail_def)
    with x Inl show ?thesis unfolding plannedFrom_def
      by (intro exI [of _ "cr_cursor x"]) (auto split: option.splits)
  next
    case (Inr p)
    then have "planned = \<lparr>pl_events = pl_events p, pl_value = Inr (pl_value p), pl_idempotencyKey = pl_idempotencyKey p\<rparr>"
      using x(3) by (simp add: planOrFail_def)
    with x Inr show ?thesis unfolding plannedFrom_def
      by (intro exI [of _ "cr_cursor x"]) (auto split: option.splits)
  qed
qed

text \<open>What the other writers of an environment append.\<close>

definition othersAppend :: "('c, 'd) wake_env_scheme \<Rightarrow> string \<Rightarrow> (envelope list \<Rightarrow> bool) \<Rightarrow> bool" where
  "othersAppend env r C \<longleftrightarrow> closedUnder C \<and> (\<forall>n. keepsLog r C (we_others env n))"

lemma commitRun_follow:
  assumes "steady env r" and "othersAppend env r C" and "runLog env r hist b (op_wake s)" and "commitRun env r plan s = Some (s', res)"
  shows "\<exists>later. runLog env r (hist @ later) b (op_wake s') \<and> wk_liveCount (op_wake s') = wk_liveCount (op_wake s)
    \<and> op_secrets s' = op_secrets s \<and> op_aborted s' = op_aborted s
    \<and> ((\<exists>e. res = Inl (WakeFailed (RepositoryFailed e))) \<and> C later
       \<or> (\<exists>mid. C mid \<and> plannedFrom (we_registry env) r C (hist @ mid) plan res (hist @ later)))"
proof -
  let ?w = "op_wake s"
  let ?n = "wk_tick ?w"
  let ?snap = "latestSnapshot (wk_snapshots ?w) r"
  obtain st cache result where commit: "commitRounds (we_bytes env) (we_prime env) (we_primeState env) (we_registry env) (we_cacheLimit env) r
        ?snap (planOrFail plan) (map (\<lambda>k. we_others env (Suc ?n + k)) [0..<maxCommitConflicts]) (wk_store ?w, wk_cache ?w) = Some ((st, cache), result)"
      "op_wake s' = ?w\<lparr>wk_store := st, wk_cache := cache, wk_tick := Suc ?n + maxCommitConflicts\<rparr>"
      "op_secrets s' = op_secrets s" "op_aborted s' = op_aborted s"
      "res = (case result of Inl e \<Rightarrow> Inl (WakeFailed (RepositoryFailed e)) | Inr x \<Rightarrow> map_sum id (\<lambda>v. (v, cr_append x)) (cr_value x))"
    using assms(4) steady_facts(3) [OF assms(1)]
    by (auto simp: commitRun_def obind_def inWake_def askWorld_def commit_def Let_def split: option.splits)
  obtain h where h: "keepsFrom (wk_store ?w) r hist h" "h \<le> Suc (cu_seq (startCursor r ?snap))" "h \<le> Suc b"
    by (rule runLog_head [OF assms(3)])
  have others: "closedUnder C" "\<forall>f \<in> set (map (\<lambda>k. we_others env (Suc ?n + k)) [0..<maxCommitConflicts]). keepsLog r C f"
    using assms(2) by (auto simp: othersAppend_def)
  have cached: "\<forall>c. dget (wk_cache ?w) r = Some c \<longrightarrow> cursorAt (we_registry env) r hist c \<and> b \<le> cu_seq c \<and> 0 < we_cacheLimit env"
    and b: "b \<le> length hist" using assms(3) by (auto simp: runLog_def)
  from commitRounds_follow [OF steady_facts(1,2) [OF assms(1)] others h(1) runLog_start(2) [OF assms(3)] h(2) cached h(3) b commit(1)]
  obtain later where later: "keepsFrom st r (hist @ later) h"
      "\<forall>c. dget cache r = Some c \<longrightarrow> cursorAt (we_registry env) r (hist @ later) c \<and> b \<le> cu_seq c \<and> 0 < we_cacheLimit env"
      "case result of Inl _ \<Rightarrow> C later
       | Inr x \<Rightarrow> \<exists>mid. C mid \<and> committedFrom (we_registry env) r C (hist @ mid) (planOrFail plan) x (hist @ later)" by blast
  have "runLog env r (hist @ later) b (?w\<lparr>wk_store := st\<rparr>)" by (rule runLog_extend [OF assms(3) later(1) h(1,2)])
  then have "runLog env r (hist @ later) b (op_wake s')" using later(2) by (simp add: runLog_def commit(2))
  moreover have "(\<exists>e. res = Inl (WakeFailed (RepositoryFailed e))) \<and> C later
      \<or> (\<exists>mid. C mid \<and> plannedFrom (we_registry env) r C (hist @ mid) plan res (hist @ later))"
  proof (cases result)
    case (Inr x)
    then obtain mid where "C mid" "committedFrom (we_registry env) r C (hist @ mid) (planOrFail plan) x (hist @ later)" using later(3) by auto
    with committed_planned [OF this(2)] show ?thesis using Inr commit(5) by auto
  qed (use commit(5) later(3) in simp)
  ultimately show ?thesis using commit(2-4) by (intro exI [of _ later]) simp
qed

section \<open>What the fold keeps\<close>

text \<open>The identity of the start changes with a start only, the processed keys are those of the durable events.\<close>

definition keptParts :: "run_state \<Rightarrow> string list \<times> run_start_identity option" where
  "keptParts s = (rs_processedIdempotencyKeys s, rs_startIdentity s)"

lemma keptParts_update [simp]:
  "keptParts (putThread s t) = keptParts s" "keptParts (dropThreadWork s i) = keptParts s" "keptParts (removeWait s i) = keptParts s"
  "keptParts (addWait s w) = keptParts s" "keptParts (putExecution s ex) = keptParts s" "keptParts (completeEffect s i) = keptParts s"
  "keptParts (s\<lparr>rs_status := a\<rparr>) = keptParts s" "keptParts (s\<lparr>rs_rootThreadId := b\<rparr>) = keptParts s"
  "keptParts (s\<lparr>rs_forkedFrom := c, rs_effectExecutions := d\<rparr>) = keptParts s" "keptParts (s\<lparr>rs_launchedRuns := f\<rparr>) = keptParts s"
  "keptParts (s\<lparr>rs_childCloseSent := h, rs_closeWaiting := g\<rparr>) = keptParts s" "keptParts (s\<lparr>rs_childCloseSent := h\<rparr>) = keptParts s"
  by (simp_all add: keptParts_def putThread_def dropThreadWork_def removeWait_def addWait_def putExecution_def completeEffect_def)

lemma keptParts_removeRace [simp]: "keptParts (removeRace s q) = keptParts s"
  unfolding removeRace_def by (rule foldl_invariant [where I = "\<lambda>x. keptParts x = keptParts s"]) simp_all

lemma keptParts_protocol:
  assumes "ev_type e \<noteq> ''runtime.run.started''"
  shows "keptParts (applyProtocol reg s e) = keptParts s"
proof -
  have "keptParts (runCompleted s e) = keptParts s" "keptParts (runCancelled s) = keptParts s" "keptParts (runForked s e) = keptParts s"
      "keptParts (runLaunched s e) = keptParts s" "keptParts (childSettled s e) = keptParts s" "keptParts (childCloseRequested s e) = keptParts s"
    by (simp_all add: runCompleted_def runCancelled_def runForked_def runLaunched_def childSettled_def childCloseRequested_def Let_def split: option.split)
  moreover have "keptParts (threadStarted reg s e) = keptParts s" "keptParts (threadCompleted s e) = keptParts s"
      "keptParts (threadFailed s e) = keptParts s" "keptParts (threadCancelled s e) = keptParts s"
    by (simp_all add: threadStarted_def threadCompleted_def threadFailed_def threadCancelled_def Let_def split: option.split)
  moreover have "keptParts (waitRegistered s e) = keptParts s" "keptParts (waitSatisfied s e) = keptParts s"
    by (simp_all add: waitRegistered_def waitSatisfied_def Let_def split: option.split json.split)
  moreover have "keptParts (attemptStarted s e) = keptParts s" "keptParts (executionProgress s e) = keptParts s"
      "keptParts (dispatchDeferred s e) = keptParts s" "keptParts (retryScheduled s e) = keptParts s" "keptParts (effectCancelled s e) = keptParts s"
    by (simp_all add: attemptStarted_def executionProgress_def dispatchDeferred_def retryScheduled_def effectCancelled_def Let_def split: option.split)
  ultimately show ?thesis using assms by (simp add: applyProtocol_def Let_def)
qed

lemma keptParts_reconcile [simp]: "keptParts (reconcileEffects s t e es x) = keptParts s" "keptParts (forgetCompletedEffects s t es) = keptParts s"
  by (simp_all add: keptParts_def reconcileEffects_def forgetCompletedEffects_def Let_def)

lemma keptParts_deliver [simp]: "keptParts (deliver reg s e x) = keptParts s"
  by (simp add: deliver_def Let_def split: option.split)

lemma keptParts_settle [simp]: "keptParts (settleEffect s e) = keptParts s" "keptParts (adoptRunId s e) = keptParts s"
  by (simp_all add: settleEffect_def adoptRunId_def split: option.split) (simp add: keptParts_def)

lemma keptParts_unhandled [simp]: "keptParts (failUnhandledEffect s e before) = keptParts s"
  by (simp add: failUnhandledEffect_def Let_def split: option.split)

lemma keptParts_event:
  assumes "ev_type e \<noteq> ''runtime.run.started''"
  shows "keptParts (foldEvent reg s e) = (if ev_ephemeral e then keptParts s else keptParts (recordIdempotencyKey (settleEffect (adoptRunId s e) e) e))"
  using assms by (simp add: foldEvent_def keptParts_protocol Let_def)

lemma startIdentity_event:
  "ev_type e \<noteq> ''runtime.run.started'' \<or> ev_ephemeral e \<Longrightarrow> rs_startIdentity (foldEvent reg s e) = rs_startIdentity s"
proof (cases "ev_ephemeral e")
  case False
  assume "ev_type e \<noteq> ''runtime.run.started'' \<or> ev_ephemeral e"
  with False have "keptParts (foldEvent reg s e) = keptParts (recordIdempotencyKey (settleEffect (adoptRunId s e) e) e)"
    by (simp add: keptParts_event)
  then have "rs_startIdentity (foldEvent reg s e) = rs_startIdentity (recordIdempotencyKey (settleEffect (adoptRunId s e) e) e)"
    by (simp add: keptParts_def)
  also have "\<dots> = rs_startIdentity (settleEffect (adoptRunId s e) e)"
    by (simp add: recordIdempotencyKey_def split: option.split)
  also have "\<dots> = rs_startIdentity s" using keptParts_settle [of "adoptRunId s e" e] keptParts_settle(2) [of s e] by (simp add: keptParts_def)
  finally show ?thesis .
qed simp

lemma startIdentity_foldRun:
  "calm es \<Longrightarrow> rs_startIdentity (foldRun reg s es) = rs_startIdentity s"
  by (induction es arbitrary: s) (auto simp: calm_def startIdentity_event)

section \<open>Starts\<close>

text \<open>The identity a start leaves in the log; the caller's names and ids are not empty.\<close>

definition durableIdentity :: "start_args \<Rightarrow> string \<Rightarrow> string \<Rightarrow> json \<Rightarrow> run_start_identity" where
  "durableIdentity args version threadId input = \<lparr>si_kind = sa_kind args, si_definitionName = sa_definitionName args,
     si_definitionVersion = version, si_input = input, si_requestedThreadId = sa_threadId args,
     si_idempotencyKey = sa_idempotencyKey args, si_rootThreadId = threadId, si_launchedBy = sa_launchedBy args,
     si_correlationId = sa_correlationId args, si_attributes = withDefault (sa_attributes args) [], si_trace = sa_trace args\<rparr>"

lemma readAttributes_written: "readAttributes (Some (JObj (map (\<lambda>(k, v). (k, JStr v)) attributes))) = attributes"
proof -
  have "decodeStringRecord (map (\<lambda>(k, v). (k, JStr v)) attributes) = Some attributes" by (induction attributes) auto
  then show ?thesis by (simp add: readAttributes_def)
qed

lemma readRunLaunchSource_written: "readRunLaunchSource (Some (launchSourceJson by)) = Some by"
  by (simp add: launchSourceJson_def readRunLaunchSource_def readString_def readNumber_def)

lemma readStoredTrace_written: "readStoredTrace (Some (traceJson t)) = Some t"
  by (cases t; cases "tr_tracestate t") (auto simp: traceJson_def readStoredTrace_def readString_def)

lemma runStarted_identity:
  assumes "ev_payload e = startedPayload args version threadId input" and "ev_idempotencyKey e = sa_idempotencyKey args"
    and "ev_correlationId e = sa_correlationId args"
    and "sa_kind args \<noteq> ''''" and "sa_definitionName args \<noteq> ''''" and "version \<noteq> ''''" and "threadId \<noteq> ''''"
  shows "rs_startIdentity (runStarted s e) = Some (durableIdentity args version threadId input)"
proof -
  let ?p = "payloadObject e"
  have p: "JObj ?p = startedPayload args version threadId input"
    using assms(1) by (simp add: payloadObject_def asObject_def startedPayload_def)
  have fields: "readString ?p ''rootThreadId'' = Some threadId" "readString ?p ''kind'' = Some (sa_kind args)"
      "readString ?p ''definitionName'' = Some (sa_definitionName args)" "readString ?p ''definitionVersion'' = Some version"
      "readString ?p ''requestedThreadId'' = sa_threadId args" "fieldOrNull ?p ''input'' = input"
    using p by (auto simp: startedPayload_def readString_def fieldOrNull_def orNullJson_def split: option.split)
  have "dget ?p ''launchedBy'' = map_option launchSourceJson (sa_launchedBy args)"
    using p by (auto simp: startedPayload_def split: option.splits if_splits)
  then have launched: "readRunLaunchSource (dget ?p ''launchedBy'') = sa_launchedBy args"
    using readRunLaunchSource_written by (cases "sa_launchedBy args") (auto simp: readRunLaunchSource_def)
  have "dget ?p ''trace'' = map_option traceJson (sa_trace args)"
    using p by (auto simp: startedPayload_def split: option.splits if_splits)
  then have trace: "readStoredTrace (dget ?p ''trace'') = sa_trace args"
    using readStoredTrace_written by (cases "sa_trace args") (auto simp: readStoredTrace_def)
  have "dget ?p ''attributes'' = (case sa_attributes args of None \<Rightarrow> None
      | Some a \<Rightarrow> if a = [] then None else Some (JObj (map (\<lambda>(k, v). (k, JStr v)) a)))"
    using p by (auto simp: startedPayload_def split: option.splits if_splits)
  then have attributes: "readAttributes (dget ?p ''attributes'') = withDefault (sa_attributes args) []"
    using readAttributes_written by (cases "sa_attributes args") (auto simp: readAttributes_def)
  show ?thesis
    using assms(2-7) by (simp add: runStarted_def fields launched trace attributes durableIdentity_def truthy_def Let_def)
qed

lemma startMismatches_own [simp]:
  "startMismatches (durableIdentity args version threadId input) (requestedIdentity args version input) = []"
  by (simp add: startMismatches_def durableIdentity_def requestedIdentity_def sameStringRecord_def list_all_iff)

lemma startIdentity_started:
  assumes "ev_type e = ''runtime.run.started''" and "\<not> ev_ephemeral e"
    and "\<And>s. rs_startIdentity (runStarted s e) = Some i"
  shows "rs_startIdentity (foldEvent reg s e) = Some i"
proof -
  have "keptParts (foldEvent reg s e) = keptParts (runStarted (recordIdempotencyKey (settleEffect (adoptRunId s e) e) e) e)"
    using assms(1,2) by (simp add: foldEvent_def applyProtocol_def Let_def)
  then show ?thesis using assms(3) by (simp add: keptParts_def)
qed

text \<open>No catalog of a module has a name in the namespace of the runtime.\<close>

definition reservedFree :: "event_catalog list \<Rightarrow> bool" where
  "reservedFree catalogs \<longleftrightarrow> list_all (\<lambda>c. \<not> startsWith ''runtime.'' (ca_namespace c @ ''.'') \<and> \<not> startsWith (ca_namespace c @ ''.'') ''runtime.'') catalogs"

lemma startsWith_prefix: "startsWith t p \<longleftrightarrow> prefix p t"
  unfolding startsWith_def by (metis append_eq_conv_conj prefix_def)

lemma findCatalog_reserved: "reservedFree catalogs \<Longrightarrow> startsWith t ''runtime.'' \<Longrightarrow> findCatalogAndEntry catalogs t = None"
proof (induction catalogs)
  case (Cons c catalogs)
  have "\<not> startsWith t (ca_namespace c @ ''.'')"
    using Cons.prems prefix_same_cases [of "ca_namespace c @ ''.''" t "''runtime.''"] by (auto simp: reservedFree_def startsWith_prefix)
  then show ?case using Cons by (simp add: reservedFree_def Let_def)
qed simp

lemma validateEvents_reserved:
  "reservedFree catalogs \<Longrightarrow> \<forall>i \<in> set inputs. startsWith (in_type i) ''runtime.'' \<Longrightarrow> validateEvents catalogs inputs = Inr inputs"
  by (induction inputs) (simp_all add: validateEventInput_def findCatalog_reserved)

lemma appended_batch [simp]:
  "map ev_type (numberEvents r n (stripSeq es)) = map ev_type es" "map ev_ephemeral (numberEvents r n (stripSeq es)) = map ev_ephemeral es"
  "map ev_idempotencyKey (numberEvents r n (stripSeq es)) = map ev_idempotencyKey es"
  by (induction es arbitrary: n) (simp_all add: stripSeq_def withAssignedSeq_def)

lemma appended_cons: "numberEvents r n (stripSeq (e # es)) = withAssignedSeq (e\<lparr>ev_seq := 0\<rparr>) r (Suc n) # numberEvents r (Suc n) (stripSeq es)"
  by (simp add: stripSeq_def)

lemma calm_types: "calm es \<longleftrightarrow> list_all (\<lambda>(t, x). t \<noteq> ''runtime.run.started'' \<or> x) (zip (map ev_type es) (map ev_ephemeral es))"
  by (induction es) (auto simp: calm_def)

lemma calm_appended [simp]: "calm (numberEvents r n (stripSeq es)) = calm es"
  by (simp add: calm_types)

lemma createEvents_types [simp]: "map ev_type (createEvents st n r inputs) = map in_type inputs"
  by (induction inputs arbitrary: n) simp_all

lemma calm_createEvents: "\<forall>i \<in> set inputs. in_type i \<noteq> ''runtime.run.started'' \<Longrightarrow> calm (createEvents st n r inputs)"
  by (induction inputs arbitrary: n) (auto simp: calm_def)

lemma threadStartedEvents_types:
  assumes "threadStartedEvents resolve kind name version input threadId parent = Inr es"
  shows "\<forall>i \<in> set es. startsWith (in_type i) ''runtime.'' \<and> in_type i \<noteq> ''runtime.run.started''"
  using assms by (auto simp: threadStartedEvents_def threadStartedInput_def threadFailedInput_def startsWith_def split: sum.splits option.splits if_splits)

lemma start_batch:
  assumes "reservedFree catalogs" and "threadStartedEvents resolve kind name version input threadId None = Inr es"
    and "sa_kind args \<noteq> ''''" and "sa_definitionName args \<noteq> ''''" and "version \<noteq> ''''" and "threadId \<noteq> ''''"
    and "validateAndCreateEvents catalogs st r (startInputs args version threadId es) origin None = Inr batch"
  shows "rs_startIdentity (foldRun reg s (numberEvents r n (stripSeq batch)))
      = Some (durableIdentity args version threadId (startedInputOf es (withDefault (sa_input args) JNull)))"
    and "calm (tl (numberEvents r n (stripSeq batch)))" and "batch \<noteq> []"
proof -
  let ?correlated = "\<lambda>event. event\<lparr>in_correlationId := orUndefined (sa_correlationId args)\<rparr>"
  note types = threadStartedEvents_types [OF assms(2)]
  have "validateEvents catalogs (startInputs args version threadId es) = Inr (startInputs args version threadId es)"
    using types by (intro validateEvents_reserved [OF assms(1)]) (auto simp: startInputs_def startsWith_def)
  then have "batch = createEvents st 0 r (map (withEventDefaults origin None) (startInputs args version threadId es))"
    using assms(7) by (simp add: validateAndCreateEvents_def)
  then obtain first rest where batch: "batch = first # createEvents st 1 r rest" "ev_type first = ''runtime.run.started''" "\<not> ev_ephemeral first"
      "ev_payload first = startedPayload args version threadId (startedInputOf es (withDefault (sa_input args) JNull))"
      "ev_idempotencyKey first = sa_idempotencyKey args" "ev_correlationId first = sa_correlationId args"
      "rest = map (withEventDefaults origin None \<circ> ?correlated) es"
    by (simp add: startInputs_def withEventDefaults_def orUndefined_def split: option.split)
  have quiet: "\<forall>i \<in> set rest. in_type i \<noteq> ''runtime.run.started''"
    using types by (auto simp: batch(7) withEventDefaults_def)
  let ?e = "withAssignedSeq (first\<lparr>ev_seq := 0\<rparr>) r (Suc n)"
  have log: "numberEvents r n (stripSeq batch) = ?e # numberEvents r (Suc n) (stripSeq (createEvents st 1 r rest))"
    by (simp add: batch(1) appended_cons)
  have calm: "calm (numberEvents r (Suc n) (stripSeq (createEvents st 1 r rest)))" using calm_createEvents [OF quiet] by simp
  have "rs_startIdentity (foldEvent reg s ?e)
      = Some (durableIdentity args version threadId (startedInputOf es (withDefault (sa_input args) JNull)))"
    by (rule startIdentity_started)
       (use batch runStarted_identity [OF _ _ _ assms(3-6)] in \<open>simp_all add: withAssignedSeq_def\<close>)
  then show "rs_startIdentity (foldRun reg s (numberEvents r n (stripSeq batch)))
      = Some (durableIdentity args version threadId (startedInputOf es (withDefault (sa_input args) JNull)))"
    using startIdentity_foldRun [OF calm] by (simp add: log)
  show "calm (tl (numberEvents r n (stripSeq batch)))" "batch \<noteq> []" using calm unfolding log by (simp_all add: batch(1))
qed

text \<open>How an operation in sequence got its result.\<close>

lemma obind_result:
  assumes "obind m f s = Some (s', res)"
  obtains e where "m s = Some (s', Inl e)" "res = Inl e" | x s1 where "m s = Some (s1, Inr x)" "f x s1 = Some (s', res)"
  using assms by (auto simp: obind_def split: option.splits sum.splits)

lemma inWake_ask [simp]: "inWake askWorld s = Some (s\<lparr>op_wake := (op_wake s)\<lparr>wk_tick := Suc (wk_tick (op_wake s))\<rparr>\<rparr>, Inr (wk_tick (op_wake s)))"
  by (simp add: inWake_def askWorld_def)

lemma inWake_stamps [simp]:
  "inWake (freshStamps env) s = Some (s\<lparr>op_wake := (op_wake s)\<lparr>wk_tick := Suc (wk_tick (op_wake s))\<rparr>\<rparr>, Inr (we_stamps env (wk_tick (op_wake s))))"
  by (simp add: inWake_def freshStamps_def wbind_def askWorld_def wreturn_def)

lemma obind_step: "m s = Some (s1, Inr x) \<Longrightarrow> obind m f s = f x s1"
  by (simp add: obind_def)

lemma obind_world [simp]:
  "obind (inWake askWorld) f s = f (wk_tick (op_wake s)) (s\<lparr>op_wake := (op_wake s)\<lparr>wk_tick := Suc (wk_tick (op_wake s))\<rparr>\<rparr>)"
  "obind (inWake (freshStamps env)) g s = g (we_stamps env (wk_tick (op_wake s))) (s\<lparr>op_wake := (op_wake s)\<lparr>wk_tick := Suc (wk_tick (op_wake s))\<rparr>\<rparr>)"
  by (rule obind_step, simp)+

lemma loadRun_follow:
  assumes "steady env r" and "othersAppend env r C" and "runLog env r hist b w" and "loadRun env r w = Some (w', res)"
  shows "\<exists>later c. C later \<and> runLog env r (hist @ later) b w' \<and> wk_liveCount w' = wk_liveCount w \<and> res = Inr c
    \<and> cu_seq c = length (hist @ later) \<and> cu_state c = foldRun (we_registry env) (emptyRunState r) (hist @ later)"
proof -
  let ?st = "we_others env (wk_tick w) (wk_store w)"
  obtain h where h: "keepsFrom (wk_store w) r hist h" "h \<le> Suc (cu_seq (startCursor r (latestSnapshot (wk_snapshots w) r)))" "h \<le> Suc b"
    by (rule runLog_head [OF assms(3)])
  obtain later where later: "C later" "keepsFrom ?st r (hist @ later) h"
    using keepsLogD [OF _ h(1)] assms(2) by (metis othersAppend_def)
  have grown: "runLog env r (hist @ later) b (w\<lparr>wk_store := ?st\<rparr>)" by (rule runLog_extend [OF assms(3) later(2) h(1,2)])
  then have "\<forall>c. dget (wk_cache w) r = Some c \<longrightarrow> cursorAt (we_registry env) r (hist @ later) c \<and> h \<le> Suc (cu_seq c) \<and> 0 < we_cacheLimit env"
    using h(3) by (fastforce simp: runLog_def)
  from loadCursor_keeps [OF later(2) steady_facts(1,2) [OF assms(1)] _ h(2) this]
  obtain cache c where c: "loadCursor (we_prime env) (we_primeState env) (we_registry env) (we_cacheLimit env) (viewOf ?st r) r
        (latestSnapshot (wk_snapshots w) r) (wk_cache w) = Some (cache, Inr c)"
      "cursorAt (we_registry env) r (hist @ later) c" "cu_seq c = length (hist @ later)"
      "\<forall>c'. dget cache r = Some c' \<longrightarrow> c' = c \<and> 0 < we_cacheLimit env"
    using runLog_start(2) [OF grown] by auto
  let ?w = "w\<lparr>wk_store := ?st, wk_cache := cache\<rparr>"
  have w': "w' = ?w\<lparr>wk_tick := Suc (Suc (wk_tick w))\<rparr>" "res = Inr c"
    using assms(4) c(1) steady_facts(3) [OF assms(1)] by (auto simp: loadRun_def wbind_def othersWrite_def askWorld_def)
  have "runLog env r (hist @ later) b ?w" using grown c(2-4) by (auto simp: runLog_def)
  then have "runLog env r (hist @ later) b w'" "wk_liveCount w' = wk_liveCount w" by (simp_all add: w')
  moreover have "cu_state c = foldRun (we_registry env) (emptyRunState r) (hist @ later)" using c(2,3) by (simp add: cursorAt_def)
  ultimately show ?thesis using later(1) c(3) w'(2) by blast
qed

lemma calm_closed: "closedUnder calm"
  by (auto simp: closedUnder_def calm_def)

lemma calm_tl_append: "calm (tl xs) \<Longrightarrow> calm ys \<Longrightarrow> calm (tl (xs @ ys))"
  by (cases xs; cases ys) (auto simp: calm_def)

text \<open>The input a definition makes of the caller's, and what a start asks for.\<close>

definition validatedInput :: "(string \<Rightarrow> string \<Rightarrow> string \<Rightarrow> effect_failure + resolved_definition option) \<Rightarrow> start_args \<Rightarrow> json" where
  "validatedInput resolve args =
     (let input = withDefault (sa_input args) JNull in
      case resolve (sa_kind args) (sa_definitionName args) (withDefault (sa_definitionVersion args) defaultDefinitionVersion) of
        Inr (Some d) \<Rightarrow>
          (case rd_validate d of None \<Rightarrow> input | Some validate \<Rightarrow> (case validate input of Inl _ \<Rightarrow> input | Inr v \<Rightarrow> v))
      | _ \<Rightarrow> input)"

definition startRequest ::
  "(string \<Rightarrow> string \<Rightarrow> string \<Rightarrow> effect_failure + resolved_definition option) \<Rightarrow> start_args \<Rightarrow> requested_start" where
  "startRequest resolve args =
     requestedIdentity args (withDefault (sa_definitionVersion args) defaultDefinitionVersion) (validatedInput resolve args)"

lemma startedInput_validated:
  "threadStartedEvents resolve (sa_kind args) (sa_definitionName args) (withDefault (sa_definitionVersion args) defaultDefinitionVersion)
     (withDefault (sa_input args) JNull) threadId None = Inr es \<Longrightarrow>
   startedInputOf es (withDefault (sa_input args) JNull) = validatedInput resolve args"
  by (auto simp: threadStartedEvents_def validatedInput_def startedInputOf_def threadStartedInput_def Let_def split: sum.splits option.splits)

lemma reconcileRunSecrets_result:
  "reconcileRunSecrets r x s = Some (s', res) \<Longrightarrow> op_wake s' = op_wake s \<and> op_aborted s' = op_aborted s"
  by (auto simp: reconcileRunSecrets_def Let_def split: option.splits if_splits)

text \<open>What the plan of a start leaves in the log, with the identity that was asked for.\<close>

definition agrees :: "registry \<Rightarrow> string \<Rightarrow> requested_start \<Rightarrow> string \<Rightarrow> envelope list \<Rightarrow> bool" where
  "agrees reg r requested rootId hist \<longleftrightarrow> (\<exists>i. rs_startIdentity (foldRun reg (emptyRunState r) hist) = Some i
     \<and> si_rootThreadId i = rootId \<and> startMismatches i requested = [])"

lemma agrees_later: "agrees reg r requested t hist \<Longrightarrow> calm later \<Longrightarrow> agrees reg r requested t (hist @ later)"
  by (simp add: agrees_def startIdentity_foldRun)

lemma agrees_asserted:
  assumes "assertSameDurableStart r s requested = Inr t" and "s = foldRun reg (emptyRunState r) hist"
  shows "agrees reg r requested t hist"
  using assms by (auto simp: assertSameDurableStart_def agrees_def Let_def split: option.splits if_splits)

lemma planStart_batch:
  assumes "reservedFree (re_catalogs env)" and "threadStartedEvents resolve (sa_kind args) (sa_definitionName args) version (withDefault (sa_input args) JNull) threadId None = Inr es"
    and "sa_kind args \<noteq> ''''" and "sa_definitionName args \<noteq> ''''" and "version \<noteq> ''''" and "threadId \<noteq> ''''"
    and "planStart env st r args version threadId es c = Inr planned" and "pl_events planned \<noteq> []" and "cu_seq c = length seen"
    and "requested = requestedIdentity args version (startedInputOf es (withDefault (sa_input args) JNull))"
  shows "seen = []" and "agrees reg r requested (fst (pl_value planned)) (numberEvents r 0 (stripSeq (pl_events planned)))"
    and "calm (tl (numberEvents r 0 (stripSeq (pl_events planned))))"
proof -
  have fresh: "cu_seq c = 0"
    using assms(7,8) by (cases "assertSameDurableStart r (cu_state c) (requestedIdentity args version (startedInputOf es (withDefault (sa_input args) JNull)))")
      (auto simp: planStart_def split: if_splits)
  then show "seen = []" using assms(9) by simp
  obtain batch where batch: "validateAndCreateEvents (re_catalogs env) st r (startInputs args version threadId es) (startOrigin args) None = Inr batch"
      "pl_events planned = batch" "fst (pl_value planned) = threadId"
    using assms(7) fresh by (auto simp: planStart_def split: sum.splits)
  note start = start_batch(1) [OF assms(1-6) batch(1), where n = 0] start_batch(2) [OF assms(1-6) batch(1), where n = 0]
  show "agrees reg r requested (fst (pl_value planned)) (numberEvents r 0 (stripSeq (pl_events planned)))"
    using start(1) [of reg "emptyRunState r"] assms(10) by (simp add: agrees_def batch(2,3)) (simp add: durableIdentity_def)
  show "calm (tl (numberEvents r 0 (stripSeq (pl_events planned))))" using start(2) by (simp add: batch(2))
qed

lemma planStart_nothing:
  assumes "planStart env st r args version threadId es c = Inr planned" and "pl_events planned = []"
    and "reservedFree (re_catalogs env)" and "threadStartedEvents resolve (sa_kind args) (sa_definitionName args) version (withDefault (sa_input args) JNull) threadId None = Inr es"
    and "sa_kind args \<noteq> ''''" and "sa_definitionName args \<noteq> ''''" and "version \<noteq> ''''" and "threadId \<noteq> ''''"
  shows "assertSameDurableStart r (cu_state c) (requestedIdentity args version (startedInputOf es (withDefault (sa_input args) JNull)))
    = Inr (fst (pl_value planned))"
proof (cases "0 < cu_seq c")
  case True
  then show ?thesis using assms(1)
    by (cases "assertSameDurableStart r (cu_state c) (requestedIdentity args version (startedInputOf es (withDefault (sa_input args) JNull)))")
       (auto simp: planStart_def)
next
  case False
  then obtain batch where "validateAndCreateEvents (re_catalogs env) st r (startInputs args version threadId es) (startOrigin args) None = Inr batch" "batch = []"
    using assms(1,2) by (auto simp: planStart_def split: sum.splits)
  with start_batch(3) [OF assms(3-8)] show ?thesis by blast
qed

definition namedStart :: "('c, 'd) runtime_env_scheme \<Rightarrow> start_args \<Rightarrow> bool" where
  "namedStart env args \<longleftrightarrow> sa_kind args \<noteq> '''' \<and> sa_definitionName args \<noteq> '''' \<and> sa_definitionVersion args \<noteq> Some ''''
     \<and> sa_threadId args \<noteq> Some '''' \<and> (\<forall>n. re_threadIds env n \<noteq> '''')"

text \<open>A start after its commit: the secrets, and when the start was known already, what it finds.\<close>

definition finishStart ::
  "('c, 'd) runtime_env_scheme \<Rightarrow> string \<Rightarrow> start_args \<Rightarrow> requested_start \<Rightarrow>
     (string \<times> run_state) \<times> append_result option \<Rightarrow> (string \<times> run_state) operation" where
  "finishStart env r args requested = (\<lambda>(started, appended). obind (reconcileRunSecrets r (sa_secrets args)) (\<lambda>_.
     if (case appended of None \<Rightarrow> True | Some a \<Rightarrow> \<not> ar_deduplicated a) then oreturn started
     else obind (loadOperation env r) (\<lambda>durable. obind (liftResult (assertSameDurableStart r (cu_state durable) requested))
       (\<lambda>rootId. oreturn (rootId, cu_state durable)))))"

lemma commitStart_steps:
  assumes "\<forall>n. re_resolve env n = resolve"
    and "version = withDefault (sa_definitionVersion args) defaultDefinitionVersion"
    and "threadId = withDefault (sa_threadId args) (re_threadIds env (wk_tick (op_wake s)))"
  shows "commitStart env args r s =
    (let t = wk_tick (op_wake s); asked = (\<lambda>n. s\<lparr>op_wake := (op_wake s)\<lparr>wk_tick := n\<rparr>\<rparr>) in
     case threadStartedEvents resolve (sa_kind args) (sa_definitionName args) version (withDefault (sa_input args) JNull) threadId None of
       Inl f \<Rightarrow> Some (asked (Suc (Suc t)), Inl (UnresolvedDefinition f))
     | Inr es \<Rightarrow>
         if withDefault (sa_secrets args) [] \<noteq> [] \<and> op_secrets s = None then Some (asked (Suc (Suc (Suc t))), Inl SecretsUnsupported)
         else obind (commitRun env r (planStart env (we_stamps env (Suc (Suc t))) r args version threadId es))
                (finishStart env r args (startRequest resolve args)) (asked (Suc (Suc (Suc t)))))"
proof -
  show ?thesis
  proof (cases "threadStartedEvents resolve (sa_kind args) (sa_definitionName args) version (withDefault (sa_input args) JNull) threadId None")
    case (Inl f)
    then have "resolveStart env args version threadId (s\<lparr>op_wake := (op_wake s)\<lparr>wk_tick := Suc (wk_tick (op_wake s))\<rparr>\<rparr>)
        = Some (s\<lparr>op_wake := (op_wake s)\<lparr>wk_tick := Suc (Suc (wk_tick (op_wake s)))\<rparr>\<rparr>, Inl (UnresolvedDefinition f))"
      using assms(1) by (simp add: resolveStart_def liftResult_def)
    then show ?thesis unfolding commitStart_def Let_def assms(2) [symmetric] obind_world assms(3) [symmetric]
      by (simp add: obind_def [of "resolveStart _ _ _ _"] Inl)
  next
    case (Inr es)
    have resolved: "resolveStart env args version threadId (s\<lparr>op_wake := (op_wake s)\<lparr>wk_tick := Suc (wk_tick (op_wake s))\<rparr>\<rparr>)
        = Some (s\<lparr>op_wake := (op_wake s)\<lparr>wk_tick := Suc (Suc (wk_tick (op_wake s)))\<rparr>\<rparr>, Inr es)"
      using assms(1) Inr by (simp add: resolveStart_def liftResult_def)
    have "startRequest resolve args = requestedIdentity args version (startedInputOf es (withDefault (sa_input args) JNull))"
      using startedInput_validated [of resolve args threadId es] Inr by (simp add: startRequest_def assms(2))
    then show ?thesis unfolding commitStart_def Let_def assms(2) [symmetric] obind_world assms(3) [symmetric]
        obind_step [where m = "resolveStart env args version threadId", OF resolved] finishStart_def
      by (simp add: Inr cong: if_cong)
  qed
qed

lemma finishStart_agrees:
  assumes "steady env r" and "othersAppend env r calm" and "runLog env r hist b (op_wake s)" and "calm (tl hist)"
    and "case appended of None \<Rightarrow> agrees (we_registry env) r requested (fst started) hist
         | Some a \<Rightarrow> ar_deduplicated a \<or> agrees (we_registry env) r requested (fst started) hist"
    and "finishStart env r args requested (started, appended) s = Some (s', res)"
  shows "\<exists>more. calm more \<and> runLog env r (hist @ more) b (op_wake s') \<and> wk_liveCount (op_wake s') = wk_liveCount (op_wake s)
    \<and> (\<forall>t x. res = Inr (t, x) \<longrightarrow> agrees (we_registry env) r requested t (hist @ more))"
proof (rule obind_result [OF assms(6) [unfolded finishStart_def prod.case]])
  fix e assume "reconcileRunSecrets r (sa_secrets args) s = Some (s', Inl e)" "res = Inl e"
  with reconcileRunSecrets_result assms(3) show ?thesis by (intro exI [of _ "[]"]) (auto simp: calm_def)
next
  fix u s2 assume u: "reconcileRunSecrets r (sa_secrets args) s = Some (s2, Inr u)"
    "(if (case appended of None \<Rightarrow> True | Some a \<Rightarrow> \<not> ar_deduplicated a) then oreturn started
      else obind (loadOperation env r) (\<lambda>durable. obind (liftResult (assertSameDurableStart r (cu_state durable) requested))
        (\<lambda>rootId. oreturn (rootId, cu_state durable)))) s2 = Some (s', res)"
  have log: "runLog env r hist b (op_wake s2)" "wk_liveCount (op_wake s2) = wk_liveCount (op_wake s)"
    using reconcileRunSecrets_result [OF u(1)] assms(3) by simp_all
  show ?thesis
  proof (cases "case appended of None \<Rightarrow> True | Some a \<Rightarrow> \<not> ar_deduplicated a")
    case True
    then have "s' = s2" "res = Inr started" using u(2) by (simp_all add: oreturn_def)
    with log assms(5) True show ?thesis by (intro exI [of _ "[]"]) (auto simp: calm_def split: option.splits)
  next
    case False
    obtain w res1 where load: "loadRun env r (op_wake s2) = Some (w, res1)"
      using u(2) False by (auto simp: obind_def loadOperation_def inWake_def split: option.splits)
    from loadRun_follow [OF assms(1,2) log(1) load] obtain more c where more: "calm more" "runLog env r (hist @ more) b w"
        "wk_liveCount w = wk_liveCount (op_wake s2)" "res1 = Inr c"
        "cu_state c = foldRun (we_registry env) (emptyRunState r) (hist @ more)" by auto
    have res: "op_wake s' = w" "res = map_sum id (\<lambda>rootId. (rootId, cu_state c)) (assertSameDurableStart r (cu_state c) requested)"
      using u(2) False load more(4)
      by (auto simp: obind_def loadOperation_def inWake_def liftResult_def oreturn_def split: sum.splits)
    have "agrees (we_registry env) r requested t (hist @ more)" if "res = Inr (t, y)" for t y
      using that res(2) agrees_asserted [OF _ more(5)] by (cases "assertSameDurableStart r (cu_state c) requested") auto
    with more log(2) res(1) show ?thesis by (intro exI [of _ more]) auto
  qed
qed

lemma planStart_committed:
  assumes "reservedFree (re_catalogs env)" and "threadStartedEvents resolve (sa_kind args) (sa_definitionName args) version (withDefault (sa_input args) JNull) threadId None = Inr es"
    and "sa_kind args \<noteq> ''''" and "sa_definitionName args \<noteq> ''''" and "version \<noteq> ''''" and "threadId \<noteq> ''''"
    and "requested = requestedIdentity args version (startedInputOf es (withDefault (sa_input args) JNull))"
    and "calm (tl hist)" and "calm mid"
    and "plannedFrom reg r calm (hist @ mid) (planStart env st r args version threadId es) (Inr (started, appended)) after"
  shows "\<exists>later. after = hist @ later \<and> calm (tl after) \<and> (case appended of None \<Rightarrow> agrees reg r requested (fst started) after
     | Some a \<Rightarrow> ar_deduplicated a \<or> agrees reg r requested (fst started) after)"
proof (rule plannedFromE [OF assms(10)], goal_cases fails silent known appends)
  case silent: (silent planned c)
  have "agrees reg r requested (fst started) after"
    using agrees_asserted [OF planStart_nothing [OF silent(4,5) assms(1-6)] silent(3)] silent(1,6) assms(7) by simp
  then show ?case using calm_tl_append [OF assms(8,9)] silent(1,6) by simp
next
  case known: (known planned c a more)
  then have "calm (mid @ more)" using assms(9) by simp
  then show ?case using calm_tl_append [OF assms(8)] known(1,2,9) by simp
next
  case appends: (appends planned c a)
  note batch = planStart_batch [OF assms(1-6) appends(5,6,3) assms(7)]
  have "hist = []" "after = numberEvents r 0 (stripSeq (pl_events planned))" using batch(1) appends(7) by simp_all
  with batch(2,3) show ?case using appends(1) by simp
qed simp

lemma commitStart_agrees:
  assumes "steady env r" and "othersAppend env r calm" and "reservedFree (re_catalogs env)" and "namedStart env args"
    and "\<forall>n. re_resolve env n = resolve" and "runLog env r hist b (op_wake s)" and "calm (tl hist)"
    and "commitStart env args r s = Some (s', res)"
  shows "\<exists>later. runLog env r (hist @ later) b (op_wake s') \<and> wk_liveCount (op_wake s') = wk_liveCount (op_wake s)
    \<and> calm (tl (hist @ later))
    \<and> (\<forall>t x. res = Inr (t, x) \<longrightarrow> agrees (we_registry env) r (startRequest resolve args) t (hist @ later))"
proof -
  define version where "version = withDefault (sa_definitionVersion args) defaultDefinitionVersion"
  define threadId where "threadId = withDefault (sa_threadId args) (re_threadIds env (wk_tick (op_wake s)))"
  have named: "sa_kind args \<noteq> ''''" "sa_definitionName args \<noteq> ''''" "version \<noteq> ''''" "threadId \<noteq> ''''"
    using assms(4) by (cases "sa_definitionVersion args"; cases "sa_threadId args"; simp add: namedStart_def version_def threadId_def defaultDefinitionVersion_def)+
  have idle: ?thesis if "op_wake s' = (op_wake s)\<lparr>wk_tick := m\<rparr>" "res = Inl e" for m e
    using that assms(6,7) by (intro exI [of _ "[]"]) simp
  note start = assms(8) [unfolded commitStart_steps [OF assms(5) version_def threadId_def] Let_def]
  show ?thesis
  proof (cases "threadStartedEvents resolve (sa_kind args) (sa_definitionName args) version (withDefault (sa_input args) JNull) threadId None")
    case (Inl f)
    then show ?thesis using start by (intro idle) auto
  next
    case (Inr es)
    have requested: "startRequest resolve args = requestedIdentity args version (startedInputOf es (withDefault (sa_input args) JNull))"
      using startedInput_validated [of resolve args threadId es] Inr by (simp add: startRequest_def version_def)
    let ?s = "s\<lparr>op_wake := (op_wake s)\<lparr>wk_tick := Suc (Suc (Suc (wk_tick (op_wake s))))\<rparr>\<rparr>"
    let ?plan = "planStart env (we_stamps env (Suc (Suc (wk_tick (op_wake s))))) r args version threadId es"
    have log: "runLog env r hist b (op_wake ?s)" using assms(6) by simp
    show ?thesis
    proof (cases "withDefault (sa_secrets args) [] \<noteq> [] \<and> op_secrets s = None")
      case True
      with start Inr show ?thesis by (intro idle) auto
    next
      case False
      with start Inr have committed: "obind (commitRun env r ?plan) (finishStart env r args (startRequest resolve args)) ?s = Some (s', res)" by auto
      show ?thesis
      proof (rule obind_result [OF committed])
        fix e assume e: "commitRun env r ?plan ?s = Some (s', Inl e)" "res = Inl e"
        from commitRun_follow [OF assms(1,2) log e(1)] obtain later where later: "runLog env r (hist @ later) b (op_wake s')"
            "wk_liveCount (op_wake s') = wk_liveCount (op_wake s)"
            "calm later \<or> (\<exists>mid. calm mid \<and> plannedFrom (we_registry env) r calm (hist @ mid) ?plan (Inl e) (hist @ later))" by auto
        have "calm later" using later(3) by (auto elim: plannedFromE)
        with later(1,2) e(2) calm_tl_append [OF assms(7)] show ?thesis by blast
      next
        fix x s1 assume x: "commitRun env r ?plan ?s = Some (s1, Inr x)" "finishStart env r args (startRequest resolve args) x s1 = Some (s', res)"
        obtain started appended where xp: "x = (started, appended)" by fastforce
        from commitRun_follow [OF assms(1,2) log x(1)] obtain later mid where later: "runLog env r (hist @ later) b (op_wake s1)"
            "wk_liveCount (op_wake s1) = wk_liveCount (op_wake s)"
            "calm mid" "plannedFrom (we_registry env) r calm (hist @ mid) ?plan (Inr x) (hist @ later)" by auto
        from planStart_committed [OF assms(3) Inr named requested assms(7) later(3) later(4) [unfolded xp]]
        have after: "calm (tl (hist @ later))" "case appended of None \<Rightarrow> agrees (we_registry env) r (startRequest resolve args) (fst started) (hist @ later)
            | Some a \<Rightarrow> ar_deduplicated a \<or> agrees (we_registry env) r (startRequest resolve args) (fst started) (hist @ later)" by auto
        from finishStart_agrees [OF assms(1,2) later(1) after x(2) [unfolded xp]] later(2) calm_tl_append [OF after(1)]
        show ?thesis by (metis append.assoc)
      qed
    qed
  qed
qed


section \<open>Commits that append nothing\<close>

lemma commitRun_silent:
  assumes "steady env r" and "runLog env r hist b (op_wake s)"
    and "\<forall>c. cu_seq c = length hist \<longrightarrow> cu_state c = foldRun (we_registry env) (emptyRunState r) hist \<longrightarrow>
      plan c = map_sum id (\<lambda>v. \<lparr>pl_events = [], pl_value = v, pl_idempotencyKey = None\<rparr>) out"
  shows "\<exists>s'. commitRun env r plan s = Some (s', map_sum id (\<lambda>v. (v, None)) out) \<and> runLog env r hist b (op_wake s')
    \<and> wk_liveCount (op_wake s') = wk_liveCount (op_wake s) \<and> op_secrets s' = op_secrets s \<and> op_aborted s' = op_aborted s"
proof -
  let ?w = "op_wake s"
  let ?n = "wk_tick ?w"
  obtain h where h: "keepsFrom (wk_store ?w) r hist h" "h \<le> Suc (cu_seq (startCursor r (latestSnapshot (wk_snapshots ?w) r)))" "h \<le> Suc b"
    by (rule runLog_head [OF assms(2)])
  have "\<forall>c. dget (wk_cache ?w) r = Some c \<longrightarrow> cursorAt (we_registry env) r hist c \<and> h \<le> Suc (cu_seq c) \<and> 0 < we_cacheLimit env"
    using assms(2) h(3) by (fastforce simp: runLog_def)
  from loadCursor_keeps [OF h(1) steady_facts(1,2) [OF assms(1)] runLog_start(2) [OF assms(2)] h(2) this]
  obtain cache c where c: "loadCursor (we_prime env) (we_primeState env) (we_registry env) (we_cacheLimit env) (viewOf (wk_store ?w) r) r
        (latestSnapshot (wk_snapshots ?w) r) (wk_cache ?w) = Some (cache, Inr c)"
      "cursorAt (we_registry env) r hist c" "cu_seq c = length hist" "\<forall>c'. dget cache r = Some c' \<longrightarrow> c' = c \<and> 0 < we_cacheLimit env" by blast
  have plan: "plan c = map_sum id (\<lambda>v. \<lparr>pl_events = [], pl_value = v, pl_idempotencyKey = None\<rparr>) out"
    using assms(3) c(2,3) by (simp add: cursorAt_def)
  have "[0..<maxCommitConflicts] = 0 # [1..<maxCommitConflicts]" by (simp add: maxCommitConflicts_def upt_conv_Cons)
  then have "commit (we_bytes env) (we_prime env) (we_primeState env) (we_registry env) (we_cacheLimit env) r
        (latestSnapshot (wk_snapshots ?w) r) (planOrFail plan) (\<lambda>k. we_others env (Suc ?n + k)) (wk_store ?w, wk_cache ?w)
      = Some ((wk_store ?w, cache), Inr \<lparr>cr_value = out, cr_cursor = c, cr_append = None\<rparr>)"
    using c(1) plan by (cases out) (simp_all add: commit_def commitRound_def planOrFail_def)
  then have "commitRun env r plan s = Some (s\<lparr>op_wake := ?w\<lparr>wk_cache := cache, wk_tick := Suc ?n + maxCommitConflicts\<rparr>\<rparr>, map_sum id (\<lambda>v. (v, None)) out)"
    using steady_facts(3) [OF assms(1)] by (simp add: commitRun_def obind_def inWake_def askWorld_def)
  moreover have "runLog env r hist b (?w\<lparr>wk_cache := cache, wk_tick := Suc ?n + maxCommitConflicts\<rparr>)"
    using assms(2) c(2-4) by (auto simp: runLog_def)
  ultimately show ?thesis by simp
qed


section \<open>Signals\<close>

lemma processed_foldEvent:
  "set (rs_processedIdempotencyKeys s) \<subseteq> set (rs_processedIdempotencyKeys (foldEvent reg s e))"
  "\<not> ev_ephemeral e \<Longrightarrow> truthy (ev_idempotencyKey e) = Some k \<Longrightarrow> k \<in> set (rs_processedIdempotencyKeys (foldEvent reg s e))"
proof -
  have protocol: "rs_processedIdempotencyKeys (applyProtocol reg s e) = rs_processedIdempotencyKeys s" for s
  proof (cases "ev_type e = ''runtime.run.started''")
    case True
    then show ?thesis by (simp add: applyProtocol_def runStarted_def Let_def)
  next
    case False
    from keptParts_protocol [OF this, of reg s] show ?thesis by (simp add: keptParts_def)
  qed
  have "rs_processedIdempotencyKeys (failUnhandledEffect (deliver reg s e x) e before) = rs_processedIdempotencyKeys s" for s x before
    using keptParts_unhandled [of "deliver reg s e x" e before] keptParts_deliver [of reg s e x] by (simp add: keptParts_def)
  then have kept: "rs_processedIdempotencyKeys (foldEvent reg s e) = rs_processedIdempotencyKeys
      (if ev_ephemeral e then s else recordIdempotencyKey (settleEffect (adoptRunId s e) e) e)"
    by (simp add: foldEvent_def protocol Let_def)
  show "set (rs_processedIdempotencyKeys s) \<subseteq> set (rs_processedIdempotencyKeys (foldEvent reg s e))"
    unfolding kept by (auto simp: recordIdempotencyKey_def split: option.split)
  show "\<not> ev_ephemeral e \<Longrightarrow> truthy (ev_idempotencyKey e) = Some k \<Longrightarrow> k \<in> set (rs_processedIdempotencyKeys (foldEvent reg s e))"
    unfolding kept by (auto simp: recordIdempotencyKey_def split: option.split)
qed

lemma processed_foldRun:
  "set (rs_processedIdempotencyKeys s) \<subseteq> set (rs_processedIdempotencyKeys (foldRun reg s es))
   \<and> (\<forall>e \<in> set es. \<not> ev_ephemeral e \<longrightarrow> (\<forall>k. truthy (ev_idempotencyKey e) = Some k \<longrightarrow> k \<in> set (rs_processedIdempotencyKeys (foldRun reg s es))))"
proof (induction es arbitrary: s)
  case (Cons e es)
  show ?case using Cons.IH [of "foldEvent reg s e"] processed_foldEvent [where s = s and reg = reg and e = e] by (simp, blast)
qed simp

text \<open>The durable keys of a log.\<close>

definition keysIn :: "envelope list \<Rightarrow> string set" where
  "keysIn hist = {k. \<exists>e \<in> set hist. \<not> ev_ephemeral e \<and> truthy (ev_idempotencyKey e) = Some k}"

lemma keysIn_processed: "k \<in> keysIn hist \<Longrightarrow> k \<in> set (rs_processedIdempotencyKeys (foldRun reg s hist))"
  using processed_foldRun by (auto simp: keysIn_def)

lemma unprocessedEvents_none:
  assumes "\<And>e. e \<in> set events \<Longrightarrow> processedKey processed signalKey \<or> processedKey processed (orElse (orNull (in_idempotencyKey e)) signalKey)"
  shows "unprocessedEvents signalKey processed events = []"
  using assms by (auto simp: unprocessedEvents_def filter_empty_conv)

text \<open>
  C12. A signal that was received is not received again: when the key of the signal, or the key of each of its
  events, is the key of a durable event in the log, signalling appends nothing, interrupts nothing and returns
  the state of the run, whether the run is over or not.
\<close>

theorem signal_once:
  assumes "steady env r" and "runLog env r hist b (op_wake s)"
    and "\<forall>e \<in> set events. \<exists>k \<in> keysIn hist. signalKey = Some k \<or> orElse (orNull (in_idempotencyKey e)) signalKey = Some k"
  shows "\<exists>s'. signalAdmitted env r events signalKey s = Some (s', Inr (foldRun (we_registry env) (emptyRunState r) hist))
    \<and> runLog env r hist b (op_wake s') \<and> op_aborted s' = op_aborted s"
proof -
  let ?state = "foldRun (we_registry env) (emptyRunState r) hist"
  let ?s = "s\<lparr>op_wake := (op_wake s)\<lparr>wk_tick := Suc (wk_tick (op_wake s))\<rparr>\<rparr>"
  let ?plan = "planSignal env (we_stamps env (wk_tick (op_wake s))) r events signalKey"
  have known: "processedKey (rs_processedIdempotencyKeys ?state) (Some k)" if "k \<in> keysIn hist" for k
    using that keysIn_processed [OF that, of "we_registry env" "emptyRunState r"]
    by (auto simp: processedKey_def keysIn_def truthy_eq_Some)
  then have "unprocessedEvents signalKey (rs_processedIdempotencyKeys ?state) events = []"
    using assms(3) by (intro unprocessedEvents_none) metis
  then have plan: "\<forall>c. cu_seq c = length hist \<longrightarrow> cu_state c = ?state \<longrightarrow>
      ?plan c = map_sum id (\<lambda>v. \<lparr>pl_events = [], pl_value = v, pl_idempotencyKey = None\<rparr>) (Inr ?state)"
    by (simp add: planSignal_def Let_def)
  have "runLog env r hist b (op_wake ?s)" using assms(2) by simp
  from commitRun_silent [OF assms(1) this plan] obtain s' where "commitRun env r ?plan ?s = Some (s', Inr (?state, None))"
      "runLog env r hist b (op_wake s')" "op_aborted s' = op_aborted s" by auto
  then show ?thesis by (intro exI [of _ s']) (simp add: signalAdmitted_def obind_def [of "commitRun _ _ _"] oreturn_def)
qed

text \<open>Events from outside, once they are validated and in the batch of a signal.\<close>

definition outsideEvent :: "envelope \<Rightarrow> bool" where
  "outsideEvent e \<longleftrightarrow> ev_effectId e = None \<and> externalType (ev_type e)"

lemma outside_waits: "outsideEvent e \<Longrightarrow> rs_waits (foldEvent reg s e) = rs_waits s"
proof (cases "ev_ephemeral e")
  case False
  assume "outsideEvent e"
  with False have "foldEvent reg s e = deliver reg (recordIdempotencyKey (adoptRunId s e) e) e None"
    by (simp add: outsideEvent_def external_event_delivered)
  then show ?thesis by (simp add: recordIdempotencyKey_def adoptRunId_def split: option.split)
qed simp

lemma outside_waits_foldRun: "\<forall>e \<in> set es. outsideEvent e \<Longrightarrow> rs_waits (foldRun reg s es) = rs_waits s"
  by (induction es arbitrary: s) (simp_all add: outside_waits)

lemma validateEvents_same:
  "validateEvents catalogs inputs = Inr vs \<Longrightarrow> map in_type vs = map in_type inputs \<and> map in_effectId vs = map in_effectId inputs"
proof (induction inputs arbitrary: vs)
  case (Cons i inputs)
  then obtain v vs' where v: "validateEventInput catalogs i = Inr v" "validateEvents catalogs inputs = Inr vs'" "vs = v # vs'"
    by (auto split: sum.splits)
  then have "in_type v = in_type i" "in_effectId v = in_effectId i" by (auto simp: validateEventInput_def split: option.splits sum.splits)
  with Cons.IH [OF v(2)] v(3) show ?case by simp
qed simp

lemma admitExternalEvents_outside:
  "admitExternalEvents events = Inr admitted \<Longrightarrow> i \<in> set admitted \<Longrightarrow> in_effectId i = Null \<and> externalType (in_type i)"
proof (induction events arbitrary: admitted)
  case (Cons e events)
  then obtain a as' where a: "admitExternalEvent e = Inr a" "admitExternalEvents events = Inr as'" "admitted = a # as'"
    by (auto split: sum.splits)
  then have "in_effectId a = Null" "externalType (in_type a)"
    by (auto simp: admitExternalEvent_def externalType_def split: if_splits option.splits event_origin.splits)
  with Cons a show ?case by auto
qed simp

lemma batch_outside:
  assumes "validateAndCreateEvents catalogs st r inputs origin t = Inr batch"
    and "\<And>i. i \<in> set inputs \<Longrightarrow> orNull (in_effectId i) = None \<and> externalType (in_type i)" and "e \<in> set batch"
  shows "outsideEvent e"
proof -
  obtain vs where vs: "validateEvents catalogs inputs = Inr vs" "batch = createEvents st 0 r (map (withEventDefaults origin t) vs)"
    using assms(1) by (cases "validateEvents catalogs inputs") (auto simp: validateAndCreateEvents_def)
  obtain v k where v: "v \<in> set vs" "e = createEvent (st k) r (withEventDefaults origin t v) 0"
    using createEvents_member [OF assms(3) [unfolded vs(2)]] by auto
  obtain j where j: "j < length vs" "vs ! j = v" using v(1) by (auto simp: in_set_conv_nth)
  have "length vs = length inputs" using validateEvents_same [OF vs(1)] by (metis length_map)
  moreover have "in_type v = in_type (inputs ! j)" "in_effectId v = in_effectId (inputs ! j)"
    using validateEvents_same [OF vs(1)] j calculation by (metis nth_map)+
  ultimately show ?thesis using assms(2) [of "inputs ! j"] j(1) v(2) by (simp add: outsideEvent_def withEventDefaults_def)
qed

lemma validateAndCreate_types:
  assumes "validateAndCreateEvents catalogs st r inputs origin t = Inr batch"
  shows "map ev_type batch = map in_type inputs"
proof -
  obtain vs where vs: "validateEvents catalogs inputs = Inr vs" "batch = createEvents st 0 r (map (withEventDefaults origin t) vs)"
    using assms(1) by (cases "validateEvents catalogs inputs") (auto simp: validateAndCreateEvents_def)
  then show ?thesis using validateEvents_same [OF vs(1)] by (simp add: withEventDefaults_def comp_def)
qed

lemma planSignal_nothing:
  assumes "planSignal env st r events signalKey c = Inr planned" and "pl_events planned = []"
  shows "unprocessedEvents signalKey (rs_processedIdempotencyKeys (cu_state c)) events = []"
proof (rule ccontr)
  assume "unprocessedEvents signalKey (rs_processedIdempotencyKeys (cu_state c)) events \<noteq> []"
  then obtain batch where "validateAndCreateEvents (re_catalogs env) st r (map (withSignalKey signalKey)
      (unprocessedEvents signalKey (rs_processedIdempotencyKeys (cu_state c)) events)) (OriginExternal None) (rs_rootThreadId (cu_state c)) = Inr batch" "batch = []"
    using assms by (auto simp: planSignal_def Let_def split: sum.splits if_splits)
  from validateAndCreate_types [OF this(1)] this(2) show False
    using \<open>unprocessedEvents _ _ _ \<noteq> []\<close> by simp
qed

lemma planSignal_key:
  assumes "planSignal env st r events signalKey c = Inr planned" and "truthy signalKey = None"
  shows "truthy (pl_idempotencyKey planned) = None"
proof -
  have "truthy (map_option ((@) ''signal:'') None) = None" by (simp add: truthy_def)
  with assms show ?thesis by (auto simp: planSignal_def truthy_def Let_def split: sum.splits if_splits)
qed

lemma planSignal_batch:
  assumes "planSignal env st r events signalKey c = Inr planned" and "pl_events planned \<noteq> []"
    and "\<And>i. i \<in> set events \<Longrightarrow> in_effectId i = Null \<and> externalType (in_type i)"
  obtains batch where "pl_events planned = batch @ createEvents st (length batch) r (waitSatisfiedEvents (foldRun (we_registry env) (cu_state c) batch) batch)"
    and "\<forall>e \<in> set batch. outsideEvent e"
    and "map ev_type batch = map in_type (unprocessedEvents signalKey (rs_processedIdempotencyKeys (cu_state c)) events)"
proof -
  let ?filtered = "unprocessedEvents signalKey (rs_processedIdempotencyKeys (cu_state c)) events"
  have "?filtered \<noteq> []" using assms(1,2) by (auto simp: planSignal_def Let_def)
  then obtain batch where batch: "validateAndCreateEvents (re_catalogs env) st r (map (withSignalKey signalKey) ?filtered) (OriginExternal None) (rs_rootThreadId (cu_state c)) = Inr batch"
      "pl_events planned = batch @ createEvents st (length batch) r (waitSatisfiedEvents (foldRun (we_registry env) (cu_state c) batch)
        (if isRunTerminal (cu_state c) \<or> rs_closeWaiting (cu_state c) then filter (\<lambda>e. \<not> isSettlement (ev_type e)) batch else batch))"
    using assms(1) by (auto simp: planSignal_def Let_def split: sum.splits if_splits)
  have "i \<in> set events" if "i \<in> set ?filtered" for i using that by (auto simp: unprocessedEvents_def split: if_splits)
  then have "orNull (in_effectId i) = None \<and> externalType (in_type i)" if "i \<in> set (map (withSignalKey signalKey) ?filtered)" for i
    using that assms(3) by (auto simp: withSignalKey_def)
  then have outside: "\<forall>e \<in> set batch. outsideEvent e" using batch_outside [OF batch(1)] by blast
  have "filter (\<lambda>e. \<not> isSettlement (ev_type e)) batch = batch"
    using outside by (auto simp: filter_id_conv outsideEvent_def externalType_def isSettlement_def startsWith_def externalRuntimeEventTypes_def)
  moreover have "map ev_type batch = map in_type ?filtered" using validateAndCreate_types [OF batch(1)] by (simp add: withSignalKey_def comp_def)
  ultimately show thesis using that [of batch] batch(2) outside by simp
qed

lemma renumbered [simp]:
  "mayNotSatisfy (withAssignedSeq (e\<lparr>ev_seq := q\<rparr>) r n) = mayNotSatisfy e" "matchingWait (withAssignedSeq (e\<lparr>ev_seq := q\<rparr>) r n) w = matchingWait e w"
  "satisfiesOnly (withAssignedSeq (e\<lparr>ev_seq := q\<rparr>) r n) = satisfiesOnly e" "waitOf (withAssignedSeq (e\<lparr>ev_seq := q\<rparr>) r n) = waitOf e"
  "outsideEvent (withAssignedSeq (e\<lparr>ev_seq := q\<rparr>) r n) = outsideEvent e"
  by (simp_all add: withAssignedSeq_def mayNotSatisfy_def matchingWait_def matchesWait_def satisfiesOnly_def waitOf_def payloadObject_def
      outsideEvent_def split: wait_condition.split option.split)

lemma appended_empty [simp]: "numberEvents r n (stripSeq []) = []"
  by (simp add: stripSeq_def)

lemma satisfiable_appended [simp]: "satisfiable (numberEvents r n (stripSeq es)) w = satisfiable es w"
  by (induction es arbitrary: n) (simp_all add: appended_cons satisfiable_def)

lemma satisfiable_append: "satisfiable (xs @ ys) w \<longleftrightarrow> satisfiable xs w \<or> satisfiable ys w"
  by (simp add: satisfiable_def)

lemma satisfied_appended:
  "\<forall>e \<in> set es. satisfiesOnly e \<Longrightarrow> \<forall>e \<in> set (numberEvents r n (stripSeq es)). satisfiesOnly e"
  "waitOf ` set (numberEvents r n (stripSeq es)) = waitOf ` set es"
  by (induction es arbitrary: n) (simp_all add: appended_cons)

lemma appended_types: "map ev_type (numberEvents r n (stripSeq es)) = map ev_type es"
  by (induction es arbitrary: n) (simp_all add: appended_cons)

lemma outside_appended: "\<forall>e \<in> set es. outsideEvent e \<Longrightarrow> \<forall>e \<in> set (numberEvents r n (stripSeq es)). outsideEvent e"
  by (induction es arbitrary: n) (simp_all add: appended_cons)

lemma stripSeq_append [simp]: "stripSeq (xs @ ys) = stripSeq xs @ stripSeq ys"
  by (simp add: stripSeq_def)

lemma numberEvents_append: "numberEvents r n (xs @ ys) = numberEvents r n xs @ numberEvents r (n + length xs) ys"
  by (induction xs arbitrary: n) simp_all

text \<open>Folding a batch of outside events with the waits they satisfy.\<close>

lemma signal_batch_waits:
  assumes "run_ok s" and "\<forall>e \<in> set batch. outsideEvent e"
    and "after = foldRun reg s (numberEvents r n (stripSeq (batch @ createEvents st k r (waitSatisfiedEvents (foldRun reg s batch) batch))))"
  shows "set (rs_waits after) \<subseteq> set (rs_waits s)"
    and "w \<in> set (dvals (rs_waits s)) \<Longrightarrow> satisfiable batch w \<Longrightarrow> wt_waitId w \<noteq> '''' \<Longrightarrow> dget (rs_waits after) (wt_waitId w) = None"
proof -
  define satisfied where "satisfied = waitSatisfiedEvents (foldRun reg s batch) batch"
  let ?sat = "createEvents st k r satisfied"
  let ?mid = "foldRun reg s (numberEvents r n (stripSeq batch))"
  let ?tail = "numberEvents r (n + length batch) (stripSeq ?sat)"
  have after: "after = foldRun reg ?mid ?tail" by (simp add: assms(3) satisfied_def numberEvents_append)
  have waits: "rs_waits ?mid = rs_waits s" by (rule outside_waits_foldRun [OF outside_appended [OF assms(2)]])
  have "satisfiesOnly e" if "e \<in> set ?sat" for e
    using createEvents_member [OF that] waitSatisfiedFrom_inputs
    by (fastforce simp: satisfiesOnly_def satisfied_def waitSatisfiedEvents_def satisfiedInput_def)
  then have only: "\<forall>e \<in> set ?tail. satisfiesOnly e" using satisfied_appended(1) by blast
  note folds = foldRun_satisfied_waits [OF only, of reg ?mid, folded after, unfolded waits]
  then show "set (rs_waits after) \<subseteq> set (rs_waits s)" by blast
  assume w: "w \<in> set (dvals (rs_waits s))" "satisfiable batch w" "wt_waitId w \<noteq> ''''"
  have "keyed wt_waitId (rs_waits s)" using run_ok_keyed(2) [OF assms(1)] .
  then have "Some (wt_waitId w) \<in> set (map satisfiedId satisfied)"
    using waitSatisfiedFrom_spec [of "rs_waits s" batch] w(1,2) by (simp add: satisfied_def waitSatisfiedEvents_def outside_waits_foldRun [OF assms(2)])
  then obtain i where i: "i \<in> set satisfied" "satisfiedId i = Some (wt_waitId w)" by auto
  obtain j where "createEvent (st j) r i 0 \<in> set ?sat" using createEvents_mem [OF i(1)] by blast
  moreover have "waitOf (createEvent (st j) r i 0) = Some (wt_waitId w)"
    using i(2) by (simp add: waitOf_def satisfiedId_def payloadObject_def)
  ultimately have "Some (wt_waitId w) \<in> waitOf ` set ?tail" unfolding satisfied_appended(2) by (metis imageI)
  then have "wt_waitId w \<notin> set (dkeys (rs_waits after))" using folds w(3) by (metis imageE)
  then show "dget (rs_waits after) (wt_waitId w) = None" by (simp add: map_of_eq_None_iff)
qed

lemma run_ok_foldRun: "run_ok s \<Longrightarrow> run_ok (foldRun reg s es)"
  by (induction es arbitrary: s) (simp_all add: run_ok_foldEvent)

lemma quiet_closed: "closedUnder (\<lambda>es. es = [])"
  by (simp add: closedUnder_def)

text \<open>A signal that returned, when nobody else writes: nothing was new, or the batch and the waits it satisfies.\<close>

lemma signalAdmitted_follow:
  assumes "steady env r" and "othersAppend env r (\<lambda>es. es = [])" and "runLog env r hist b (op_wake s)"
    and "admitExternalEvents events = Inr admitted" and "signalAdmitted env r admitted signalKey s = Some (s', Inr x)"
  obtains (silent) "x = foldRun (we_registry env) (emptyRunState r) hist" "runLog env r hist b (op_wake s')"
      "truthy signalKey = None \<Longrightarrow> unprocessedEvents signalKey (rs_processedIdempotencyKeys x) admitted = []"
  | (appends) batch st k where "x = foldRun (we_registry env) (emptyRunState r) hist"
      "runLog env r (hist @ numberEvents r (length hist) (stripSeq (batch @ createEvents st k r (waitSatisfiedEvents (foldRun (we_registry env) x batch) batch)))) b (op_wake s')"
      "map ev_type batch = map in_type (unprocessedEvents signalKey (rs_processedIdempotencyKeys x) admitted)" "\<forall>e \<in> set batch. outsideEvent e"
proof -
  let ?state = "foldRun (we_registry env) (emptyRunState r) hist"
  let ?s = "s\<lparr>op_wake := (op_wake s)\<lparr>wk_tick := Suc (wk_tick (op_wake s))\<rparr>\<rparr>"
  let ?st = "we_stamps env (wk_tick (op_wake s))"
  let ?plan = "planSignal env ?st r admitted signalKey"
  have log: "runLog env r hist b (op_wake ?s)" using assms(3) by simp
  obtain s1 appended where committed: "commitRun env r ?plan ?s = Some (s1, Inr (x, appended))" "op_wake s' = op_wake s1"
    using assms(5) unfolding signalAdmitted_def obind_world
    by (elim obind_result) (auto simp: oreturn_def abortThreads_def obind_def split: option.splits)
  from commitRun_follow [OF assms(1,2) log committed(1)] obtain later where later: "runLog env r (hist @ later) b (op_wake s1)"
      "plannedFrom (we_registry env) r (\<lambda>es. es = []) hist ?plan (Inr (x, appended)) (hist @ later)" by auto
  have planned_value: "pl_value planned = cu_state c" if "?plan c = Inr planned" for c planned
    using that by (auto simp: planSignal_def Let_def split: sum.splits if_splits)
  show thesis
  proof (rule plannedFromE [OF later(2)], goal_cases fails unchanged known appends)
    case (unchanged planned c)
    then show ?case using silent later(1) committed(2) planned_value planSignal_nothing [OF unchanged(4,5)] by auto
  next
    case (known planned c a more)
    then have "truthy signalKey \<noteq> None" using planSignal_key [OF known(5)] known(7) by blast
    with known show ?case using silent later(1) committed(2) planned_value by auto
  next
    case new: (appends planned c a)
    then have state: "cu_state c = ?state" "x = ?state" using planned_value by auto
    obtain batch where batch: "pl_events planned = batch @ createEvents ?st (length batch) r (waitSatisfiedEvents (foldRun (we_registry env) (cu_state c) batch) batch)"
        "\<forall>e \<in> set batch. outsideEvent e" "map ev_type batch = map in_type (unprocessedEvents signalKey (rs_processedIdempotencyKeys (cu_state c)) admitted)"
      by (rule planSignal_batch [OF new(5,6) admitExternalEvents_outside [OF assms(4)]])
    show ?case
      by (rule appends [OF state(2) _ _ batch(2)])
        (use later(1) committed(2) new(7) batch(1,3) state in \<open>simp_all del: stripSeq_append\<close>)
  qed simp
qed


section \<open>Forks\<close>


section \<open>Retries by an operator\<close>

lemma operatorRetry_execution:
  assumes "planRetry stamp now r eid c = Inr planned" and "eid \<noteq> ''''"
  shows "\<exists>e x. pl_events planned = [e] \<and> dget (rs_effectExecutions (cu_state c)) eid = Some x
    \<and> List.member retryableStatuses (ex_status x) \<and> ev_type e = ''runtime.effect.retry.scheduled''
    \<and> (\<forall>reg s n. \<exists>y. dget (rs_effectExecutions (foldEvent reg s (withAssignedSeq (e\<lparr>ev_seq := 0\<rparr>) r n))) eid = Some y
        \<and> ex_status y = RetryWait \<and> ex_attempt y = ex_attempt x \<and> ex_nextAttemptAt y = Some now)"
proof -
  obtain x item where x: "dget (rs_effectExecutions (cu_state c)) eid = Some x" "List.member retryableStatuses (ex_status x)"
      "planned = \<lparr>pl_events = [createEvent stamp r (operatorRetryInput eid now x item) 0], pl_value = (), pl_idempotencyKey = None\<rparr>"
    using assms(1) by (auto simp: planRetry_def split: option.splits if_splits)
  let ?e = "createEvent stamp r (operatorRetryInput eid now x item) 0"
  have "\<exists>y. dget (rs_effectExecutions (foldEvent reg s (withAssignedSeq (?e\<lparr>ev_seq := 0\<rparr>) r n))) eid = Some y
        \<and> ex_status y = RetryWait \<and> ex_attempt y = ex_attempt x \<and> ex_nextAttemptAt y = Some now" for reg s n
  proof -
    let ?f = "withAssignedSeq (?e\<lparr>ev_seq := 0\<rparr>) r n"
    have fields: "\<not> ev_ephemeral ?f" "ev_effectId ?f = None" "ev_type ?f = ''runtime.effect.retry.scheduled''"
        "payloadObject ?f = [(''effectId'', JStr eid), (''attempt'', JNum (ex_attempt x)), (''nextAttemptAt'', JNum now),
         (''error'', JStr (''operator retry from '' @ executionStatusText (ex_status x)))]"
      by (simp_all add: operatorRetryInput_def withAssignedSeq_def payloadObject_def asObject_def)
    have attempt: "payloadAttempt ?f = Some (eid, ex_attempt x)" by (rule attempt_fields [OF assms(2) fields(4)])
    have at_time: "readNumber (payloadObject ?f) ''nextAttemptAt'' = Some now" by (simp add: fields(4) readNumber_def)
    have "rs_effectExecutions (foldEvent reg s ?f) = rs_effectExecutions (retryScheduled (recordIdempotencyKey (adoptRunId s ?f) ?f) ?f)"
      using fields(1-3) by (simp add: foldEvent_executions settleEffect_def applyProtocol_def progressTypes_def Let_def)
    then show ?thesis by (auto simp: retryScheduled_def attempt at_time)
  qed
  with x show ?thesis by (intro exI [of _ ?e] exI [of _ x]) (simp add: operatorRetryInput_def)
qed

text \<open>
  C16. An operator retries only what is stuck: when the retry of an effect is committed, the attempt it was
  planned for was ambiguous, timed out, being cancelled or waiting to be dispatched, and the log ends with the
  event that puts the same attempt back to wait for a retry that is due now, whatever others wrote before.
  A refused retry writes nothing.
\<close>

theorem operator_retry:
  assumes "steady env r" and "othersAppend env r C" and "runLog env r hist b (op_wake s)" and "eid \<noteq> ''''"
    and "commitRun env r (planRetry stamp now r eid) s = Some (s', res)"
  shows "\<exists>later. runLog env r (hist @ later) b (op_wake s') \<and> (case res of
      Inl _ \<Rightarrow> C later
    | Inr _ \<Rightarrow> \<exists>mid e x y. C mid \<and> later = mid @ [e]
        \<and> dget (rs_effectExecutions (foldRun (we_registry env) (emptyRunState r) (hist @ mid))) eid = Some x
        \<and> ex_status x \<in> {Ambiguous, TimedOut, CancelRequested, DispatchWait}
        \<and> dget (rs_effectExecutions (foldRun (we_registry env) (emptyRunState r) (hist @ later))) eid = Some y
        \<and> ex_status y = RetryWait \<and> ex_attempt y = ex_attempt x \<and> ex_nextAttemptAt y = Some now)"
proof -
  from commitRun_follow [OF assms(1-3,5)] obtain later where later: "runLog env r (hist @ later) b (op_wake s')"
      "(\<exists>e. res = Inl (WakeFailed (RepositoryFailed e))) \<and> C later
       \<or> (\<exists>mid. C mid \<and> plannedFrom (we_registry env) r C (hist @ mid) (planRetry stamp now r eid) res (hist @ later))" by blast
  from later(2) show ?thesis
  proof (elim disjE exE conjE)
    fix mid assume mid: "C mid" "plannedFrom (we_registry env) r C (hist @ mid) (planRetry stamp now r eid) res (hist @ later)"
    show ?thesis
    proof (rule plannedFromE [OF mid(2)], goal_cases fails silent known appends)
      case (appends planned c a)
      from operatorRetry_execution [OF appends(5) assms(4)] obtain e x where e: "pl_events planned = [e]"
          "dget (rs_effectExecutions (cu_state c)) eid = Some x" "List.member retryableStatuses (ex_status x)"
          "\<forall>reg s n. \<exists>y. dget (rs_effectExecutions (foldEvent reg s (withAssignedSeq (e\<lparr>ev_seq := 0\<rparr>) r n))) eid = Some y
            \<and> ex_status y = RetryWait \<and> ex_attempt y = ex_attempt x \<and> ex_nextAttemptAt y = Some now" by blast
      have new: "later = mid @ [withAssignedSeq (e\<lparr>ev_seq := 0\<rparr>) r (Suc (length (hist @ mid)))]"
        using appends(7) by (simp add: e(1) stripSeq_def)
      from e(4) obtain y where "dget (rs_effectExecutions (foldEvent (we_registry env) (foldRun (we_registry env) (emptyRunState r) (hist @ mid))
            (withAssignedSeq (e\<lparr>ev_seq := 0\<rparr>) r (Suc (length (hist @ mid)))))) eid = Some y"
          "ex_status y = RetryWait" "ex_attempt y = ex_attempt x" "ex_nextAttemptAt y = Some now" by blast
      moreover have "ex_status x \<in> {Ambiguous, TimedOut, CancelRequested, DispatchWait}" using e(3) by (simp add: retryableStatuses_def)
      ultimately show ?case using later(1) mid(1) e(2) appends(1,4) new
        by (intro exI [of _ later]) auto
    qed (use later(1) mid(1) in \<open>auto simp: planRetry_def split: option.splits if_splits\<close>)
  qed (use later(1) in auto)
qed

section \<open>Runs that are over, and runs that never began\<close>


text \<open>
  A signal to a run that was never started is appended as its first events; from then on the run cannot be
  started: every start fails because the log has no identity of a start.
\<close>

lemma signalled_run_cannot_start:
  assumes "steady env r" and "othersAppend env r (\<lambda>es. es = [])" and "runLog env r [] b (op_wake s)"
    and "admitExternalEvents events = Inr admitted" and "admitted \<noteq> []" and "signalAdmitted env r admitted None s = Some (s', Inr x)"
    and "\<forall>n. re_resolve env n = resolve"
    and "resolve (sa_kind args) (sa_definitionName args) (withDefault (sa_definitionVersion args) defaultDefinitionVersion) = Inr (Some d)"
    and "sa_secrets args = None"
  shows "\<exists>s2. commitStart env args r s' = Some (s2, Inl (NoStartIdentity r))"
proof -
  have new: "unprocessedEvents None (rs_processedIdempotencyKeys (emptyRunState r)) admitted = admitted"
    by (simp add: unprocessedEvents_def processedKey_def emptyRunState_def truthy_def split: option.split)
  obtain hist where hist: "runLog env r hist b (op_wake s')" "hist \<noteq> []" "calm hist"
  proof (rule signalAdmitted_follow [OF assms(1-4,6)], goal_cases silent appends)
    case silent
    then show ?case using new assms(5) by (simp add: truthy_def)
  next
    case (appends batch st k)
    let ?all = "batch @ createEvents st k r (waitSatisfiedEvents (foldRun (we_registry env) x batch) batch)"
    have "?all \<noteq> []" using appends(2,4) new assms(5) by auto
    then have "numberEvents r 0 (stripSeq ?all) \<noteq> []" by (cases ?all) (simp_all add: appended_cons del: stripSeq_append)
    moreover have "calm ?all"
    proof -
      have "calm batch" using appends(5) by (auto simp: calm_def outsideEvent_def externalType_def startsWith_def externalRuntimeEventTypes_def)
      moreover have "calm (createEvents st k r (waitSatisfiedEvents (foldRun (we_registry env) x batch) batch))"
        by (rule calm_createEvents) (auto simp: waitSatisfiedEvents_def satisfiedInput_def dest!: waitSatisfiedFrom_inputs)
      ultimately show ?thesis by (auto simp: calm_def)
    qed
    ultimately show ?case using appends(3) appends(1) [of "numberEvents r 0 (stripSeq ?all)"] by (simp del: stripSeq_append)
  qed
  have none: "rs_startIdentity (foldRun (we_registry env) (emptyRunState r) hist) = None"
    using startIdentity_foldRun [OF hist(3)] by (simp add: emptyRunState_def)
  let ?version = "withDefault (sa_definitionVersion args) defaultDefinitionVersion"
  let ?threadId = "withDefault (sa_threadId args) (re_threadIds env (wk_tick (op_wake s')))"
  obtain es where es: "threadStartedEvents resolve (sa_kind args) (sa_definitionName args) ?version (withDefault (sa_input args) JNull) ?threadId None = Inr es"
    using assms(8) by (cases "threadStartedEvents resolve (sa_kind args) (sa_definitionName args) ?version (withDefault (sa_input args) JNull) ?threadId None")
      (auto simp: threadStartedEvents_def split: option.splits sum.splits)
  let ?s = "s'\<lparr>op_wake := (op_wake s')\<lparr>wk_tick := Suc (Suc (Suc (wk_tick (op_wake s'))))\<rparr>\<rparr>"
  let ?plan = "planStart env (we_stamps env (Suc (Suc (wk_tick (op_wake s'))))) r args ?version ?threadId es"
  have log: "runLog env r hist b (op_wake ?s)" using hist(1) by simp
  have plan: "\<forall>c. cu_seq c = length hist \<longrightarrow> cu_state c = foldRun (we_registry env) (emptyRunState r) hist \<longrightarrow>
      ?plan c = map_sum id (\<lambda>v. \<lparr>pl_events = [], pl_value = v, pl_idempotencyKey = None\<rparr>) (Inl (NoStartIdentity r))"
    using hist(2) none by (simp add: planStart_def assertSameDurableStart_def)
  from commitRun_silent [OF assms(1) log plan] obtain s2 where "commitRun env r ?plan ?s = Some (s2, Inl (NoStartIdentity r))" by auto
  then show ?thesis using assms(9)
    by (intro exI [of _ s2]) (simp add: commitStart_steps [OF assms(7) refl refl] Let_def es obind_def)
qed

end
