(* ===== verification/Operation_Examples.thy ===== *)
theory Operation_Examples
  imports Operation_Properties Wake_Liveness
begin

text \<open>
  Runs on which the properties of the operations are applied: a run that is started, signalled and over, the
  copy of a failed run, and an attempt that is stuck.
\<close>

section \<open>A run that is started, signalled and forked\<close>

definition opsEnv :: "unit runtime_env" where
  "opsEnv = wake_env.extend napEnv (runtime_env.fields [] (\<lambda>_ _ _ _. Inr (Some \<lparr>rd_validate = None\<rparr>)) [] (\<lambda>_. False) (\<lambda>_. ''t''))"

definition opsOver :: "memory_store \<Rightarrow> operation_state" where
  "opsOver st = \<lparr>op_wake = \<lparr>wk_store = st, wk_cache = [], wk_liveCount = 0, wk_snapshots = [], wk_tick = 0, wk_outputs = []\<rparr>,
     op_secrets = None, op_aborted = []\<rparr>"

definition storeOf :: "envelope list \<Rightarrow> memory_store" where
  "storeOf es = snd (appendLog emptyStore ''r'' es noOptions)"

definition opsStart :: start_args where
  "opsStart = \<lparr>sa_kind = ''nap'', sa_definitionName = ''n'', sa_definitionVersion = None, sa_input = None, sa_threadId = None,
     sa_idempotencyKey = Some ''k'', sa_launchedBy = None, sa_correlationId = None, sa_attributes = None, sa_secrets = None, sa_trace = None\<rparr>"

definition opsBatch :: "envelope list" where
  "opsBatch = createEvents (we_stamps opsEnv 0) 0 ''r'' (startInputs opsStart defaultDefinitionVersion ''t''
     (case threadStartedEvents (re_resolve opsEnv 0) ''nap'' ''n'' defaultDefinitionVersion JNull ''t'' None of Inl _ \<Rightarrow> [] | Inr es \<Rightarrow> es)
     @ [(eventInput ''runtime.wait.registered'' (JObj [(''waitId'', JStr ''w''), (''threadId'', JStr ''t''), (''on'', waitJson (WaitOnEvent (OneType ''go'') None))])) \<lparr>in_threadId := Val ''t''\<rparr>])"

definition opsHist :: "envelope list" where
  "opsHist = numberEvents ''r'' 0 opsBatch"

lemma ops_env:
  "we_registry opsEnv = napRegistry" "re_resolve opsEnv n = (\<lambda>_ _ _. Inr (Some \<lparr>rd_validate = None\<rparr>))" "re_catalogs opsEnv = []"
  "we_others opsEnv n = (\<lambda>st. st)" "we_cacheLimit opsEnv = 4" "re_threadIds opsEnv n = ''t''"
  by (simp_all add: opsEnv_def napEnv_def wake_env.extend_def runtime_env.fields_def)

lemma ops_steady: "steady opsEnv r" "othersAppend opsEnv r calm" "othersAppend opsEnv r (\<lambda>es. es = [])"
proof -
  show "steady opsEnv r"
    unfolding steady_def ops_env(4)
    by (auto simp: opsEnv_def napEnv_def wake_env.extend_def runtime_env.fields_def neverFails_def keepOne_def intro!: exI [of _ "[]"])
  show "othersAppend opsEnv r calm" "othersAppend opsEnv r (\<lambda>es. es = [])"
    by (auto simp: othersAppend_def calm_closed quiet_closed keepsLog_def ops_env(4) calm_def intro!: exI [of _ "[]"])
qed

lemma ops_log:
  assumes "hist = numberEvents ''r'' 0 es"
  shows "runLog env ''r'' hist 0 (op_wake (opsOver (storeOf es)))"
proof -
  have "append_events noBytes emptyStore ''r'' es noOptions
      = Inr (\<lparr>ar_sequences = fst (appendLog emptyStore ''r'' es noOptions), ar_tail = tailOf (storeOf es) ''r'', ar_deduplicated = False\<rparr>, storeOf es)"
    by (simp add: storeOf_def append_events_def appendGuard_def fencingGuard_def case_prod_unfold Let_def)
  from keepsFrom_append(1) [OF _ _ this, of "[]" 1] have "keepsFrom (storeOf es) ''r'' hist 1"
    by (simp add: assms keepsFrom_def emptyStore_def tailOf_def)
  then show ?thesis by (auto simp: runLog_def opsOver_def snapshotsOf_def intro: exI [of _ 1])
qed

lemma ops_empty: "runLog env r [] 0 (op_wake (opsOver emptyStore))"
  by (auto simp: runLog_def opsOver_def snapshotsOf_def keepsFrom_def emptyStore_def tailOf_def)

lemma ops_start:
  "case commitStart opsEnv opsStart ''r'' (opsOver emptyStore) of Some (_, Inr (t, _)) \<Rightarrow> t = ''t'' | _ \<Rightarrow> False"
  by code_simp

lemma ops_identity:
  "opsHist \<noteq> []" "map_option si_rootThreadId (rs_startIdentity (foldRun napRegistry (emptyRunState ''r'') opsHist)) = Some ''t''"
  "startMismatches (the (rs_startIdentity (foldRun napRegistry (emptyRunState ''r'') opsHist)))
     (startRequest (re_resolve opsEnv 0) (opsStart\<lparr>sa_input := Some (JStr ''x'')\<rparr>)) = [''input'']"
  by code_simp+


definition opsAdmitted :: "event_input list" where
  "opsAdmitted = (case admitExternalEvents [(eventInput ''go'' JNull)\<lparr>in_idempotencyKey := Val ''g''\<rparr>] of Inl _ \<Rightarrow> [] | Inr admitted \<Rightarrow> admitted)"

lemma ops_admitted: "admitExternalEvents [(eventInput ''go'' JNull)\<lparr>in_idempotencyKey := Val ''g''\<rparr>] = Inr opsAdmitted"
  by code_simp

lemma ops_signal:
  "case signalAdmitted opsEnv ''r'' opsAdmitted None (opsOver (storeOf opsBatch)) of
     Some (s', Inr x) \<Rightarrow> tailOf (wk_store (op_wake s')) ''r'' = 5 \<and> rs_status x = RunRunning | _ \<Rightarrow> False"
  by code_simp

lemma ops_keys: "list_ex (\<lambda>e. \<not> ev_ephemeral e \<and> truthy (ev_idempotencyKey e) = Some ''k'') opsHist"
  by code_simp



lemma signal_once_witness:
  "\<exists>s'. signalAdmitted opsEnv ''r'' opsAdmitted (Some ''k'') (opsOver (storeOf opsBatch))
      = Some (s', Inr (foldRun napRegistry (emptyRunState ''r'') opsHist)) \<and> runLog opsEnv ''r'' opsHist 0 (op_wake s')"
proof -
  have "\<forall>e \<in> set opsAdmitted. \<exists>k \<in> keysIn opsHist. Some ''k'' = Some k \<or> orElse (orNull (in_idempotencyKey e)) (Some ''k'') = Some k"
    using ops_keys by (auto simp: keysIn_def list_ex_iff)
  from signal_once [OF ops_steady(1) ops_log [OF opsHist_def] this] show ?thesis by (auto simp: ops_env)
qed


section \<open>A copy of the failed run, and an attempt that is stuck\<close>

abbreviation copyEnv :: "unit runtime_env" where
  "copyEnv \<equiv> opsEnv\<lparr>we_registry := copyRegistry\<rparr>"

lemma copy_env: "steady copyEnv r" "othersAppend copyEnv r (\<lambda>es. es = [])" "we_registry copyEnv = copyRegistry"
proof -
  have "steady copyEnv r \<longleftrightarrow> steady opsEnv r" unfolding steady_def by (intro conj_cong refl) simp_all
  then show "steady copyEnv r" using ops_steady(1) by blast
  show "othersAppend copyEnv r (\<lambda>es. es = [])" using ops_steady(3) [of r] unfolding othersAppend_def by simp
qed simp

definition stuckEvents :: "envelope list" where
  "stuckEvents = take 2 failedLog
     @ [createEvent (''e3'', 2) ''r'' ((eventInput ''runtime.effect.ambiguous'' (JObj [(''effectId'', JStr ''a:1:0''), (''attempt'', JNum 1)]))
          \<lparr>in_threadId := Val ''a''\<rparr>) 3]"

definition stuckHist :: "envelope list" where
  "stuckHist = numberEvents ''r'' 0 stuckEvents"

lemma stuck_state:
  "map_option ex_status (dget (rs_effectExecutions (foldRun copyRegistry (emptyRunState ''r'') stuckHist)) ''a:1:0'') = Some Ambiguous"
  "map oe_effectId (rs_outstandingEffects (foldRun copyRegistry (emptyRunState ''r'') stuckHist)) = [''a:1:0'']"
  by code_simp+

lemma stuck_retry:
  "case commitRun copyEnv ''r'' (planRetry (''p'', 5) 7 ''r'' ''a:1:0'') (opsOver (storeOf stuckEvents)) of Some (_, Inr _) \<Rightarrow> True | _ \<Rightarrow> False"
  by code_simp

lemma copy_commit:
  "case commitRun copyEnv ''f'' (planForkCommit ''s'' ''f'' (fp_events failedPlan)) (opsOver emptyStore) of Some (_, Inr _) \<Rightarrow> True | _ \<Rightarrow> False"
  by code_simp

definition overHist :: "envelope list" where
  "overHist = numberEvents ''r'' 0 (opsBatch @ [createEvent (''e9'', 9) ''r'' (eventInput ''runtime.run.completed'' (JObj [])) 0])"

lemma over_state:
  "isRunTerminal (foldRun napRegistry (emptyRunState ''r'') overHist)"
  "rs_status (foldRun napRegistry (emptyRunState ''r'') overHist) = RunCompleted"
  "unprocessedEvents None (rs_processedIdempotencyKeys (foldRun napRegistry (emptyRunState ''r'') overHist)) opsAdmitted = opsAdmitted"
  "map in_type opsAdmitted = [''go'']"
  by code_simp+


lemma operator_retry_witness:
  "\<exists>s' e y. commitRun copyEnv ''r'' (planRetry (''p'', 5) 7 ''r'' ''a:1:0'') (opsOver (storeOf stuckEvents)) = Some s'
    \<and> runLog copyEnv ''r'' (stuckHist @ [e]) 0 (op_wake (fst s'))
    \<and> dget (rs_effectExecutions (foldRun copyRegistry (emptyRunState ''r'') (stuckHist @ [e]))) ''a:1:0'' = Some y
    \<and> ex_status y = RetryWait \<and> ex_nextAttemptAt y = Some 7"
proof -
  obtain s' v where committed: "commitRun copyEnv ''r'' (planRetry (''p'', 5) 7 ''r'' ''a:1:0'') (opsOver (storeOf stuckEvents)) = Some (s', Inr v)"
    using stuck_retry by (auto split: option.splits prod.splits sum.splits)
  obtain later where later: "runLog copyEnv ''r'' (stuckHist @ later) 0 (op_wake s')"
      "\<exists>mid e x y. mid = [] \<and> later = mid @ [e]
        \<and> dget (rs_effectExecutions (foldRun copyRegistry (emptyRunState ''r'') (stuckHist @ later))) ''a:1:0'' = Some y
        \<and> ex_status y = RetryWait \<and> ex_nextAttemptAt y = Some 7"
    using operator_retry [OF copy_env(1,2) ops_log [OF stuckHist_def] _ committed] unfolding copy_env(3) by auto
  then obtain e y where "later = [e]" "dget (rs_effectExecutions (foldRun copyRegistry (emptyRunState ''r'') (stuckHist @ later))) ''a:1:0'' = Some y"
      "ex_status y = RetryWait" "ex_nextAttemptAt y = Some 7" by auto
  with later(1) committed show ?thesis by auto
qed


end
