(* ===== verification/Agent_Threads.thy ===== *)
theory Agent_Threads
  imports Fold
begin

text \<open>
  \<open>packages/agent/src\<close>: the thread of an agent (\<open>threads.ts\<close>, \<open>types.ts\<close>, \<open>transcript.ts\<close>) and the two effects it
  asks for, a turn of the model and the execution of a tool (\<open>effects.ts\<close>, \<open>definitions.ts\<close>, \<open>stop-when.ts\<close>).
  \<open>agentStep\<close> takes a typed event, \<open>agentEffects\<close> lists what the thread asks the host for. The model, the
  handlers and schemas of tools, the compactor and the texts of JSON values and numbers are arguments. A tag
  that the thread puts on an effect without a tag of its own is kept where the effect has a place for one.
\<close>

section \<open>State\<close>

record tool_call =
  tc_id :: string
  tc_name :: string
  tc_arguments :: json

datatype message_role = RoleSystem | RoleUser | RoleAssistant | RoleTool

record message =
  msg_role :: message_role
  msg_content :: string
  msg_toolCallId :: "string option"
  msg_name :: "string option"
  msg_toolCalls :: "tool_call list option"

record agent_spawn =
  as_childThreadId :: string
  as_kind :: string
  as_definitionName :: string
  as_definitionVersion :: string
  as_toolCallId :: string
  as_input :: json
  as_depth :: "number option"

record agent_pending_effects =
  ae_toolCallId :: string
  ae_effects :: "runtime_effect list"
  ae_waitOn :: "(event_types \<times> json option) option"

record agent_emit =
  am_id :: string
  am_event :: event_input

record agent_state =
  ag_definitionName :: "string option"
  ag_definitionVersion :: "string option"
  ag_lines :: "message list"
  ag_pendingToolCalls :: "tool_call list"
  ag_executingToolCalls :: "tool_call list"
  ag_pendingSpawns :: "agent_spawn list"
  ag_pendingEffects :: "agent_pending_effects list"
  ag_pendingEmits :: "agent_emit list"
  ag_needsLlmCall :: bool
  ag_turn :: number
  ag_maxTurns :: number
  ag_depth :: number
  ag_structuredOutput :: json
  ag_alreadyCompactedTurns :: "number list"
  ag_pendingSteer :: "message option"
  ag_input :: json
  ag_output :: json
  ag_pendingEffectTools :: "(string \<times> string) dict"
    \<comment> \<open>tool call id and name\<close>
  ag_consumedSteerMessageIds :: "string list"
  ag_abandonedChildThreadIds :: "string list"

definition agentInitialState :: "string option \<Rightarrow> string option \<Rightarrow> json \<Rightarrow> agent_state" where
  "agentInitialState definitionName definitionVersion input = \<lparr>ag_definitionName = definitionName,
     ag_definitionVersion = definitionVersion, ag_lines = [], ag_pendingToolCalls = [], ag_executingToolCalls = [],
     ag_pendingSpawns = [], ag_pendingEffects = [], ag_pendingEmits = [], ag_needsLlmCall = False, ag_turn = 0,
     ag_maxTurns = 20, ag_depth = 0, ag_structuredOutput = JNull, ag_alreadyCompactedTurns = [], ag_pendingSteer = None,
     ag_input = input, ag_output = JNull, ag_pendingEffectTools = [], ag_consumedSteerMessageIds = [],
     ag_abandonedChildThreadIds = []\<rparr>"

section \<open>The transcript\<close>

definition plainMessage :: "message_role \<Rightarrow> string \<Rightarrow> message" where
  "plainMessage role content =
     \<lparr>msg_role = role, msg_content = content, msg_toolCallId = None, msg_name = None, msg_toolCalls = None\<rparr>"

definition inputToLine :: "(json \<Rightarrow> string) \<Rightarrow> json \<Rightarrow> message option" where
  "inputToLine text input = (case input of
     JNull \<Rightarrow> None
   | JStr s \<Rightarrow> Some (plainMessage RoleUser s)
   | _ \<Rightarrow> Some (plainMessage RoleUser (withDefault
       (orElse (readString (asObject input) ''text'') (orElse (readString (asObject input) ''task'')
         (orElse (readString (asObject input) ''topic'') (readString (asObject input) ''prompt'')))) (text input))))"

definition callsOf :: "message \<Rightarrow> tool_call list" where
  "callsOf line = withDefault (msg_toolCalls line) []"

text \<open>The call goes to the last message of the assistant, once.\<close>

definition attachToolCall :: "message list \<Rightarrow> tool_call \<Rightarrow> message list" where
  "attachToolCall lines call =
     (case dropWhile (\<lambda>line. msg_role line \<noteq> RoleAssistant) (rev lines) of
        [] \<Rightarrow> lines
      | line # before \<Rightarrow>
          if list_ex (\<lambda>item. tc_id item = tc_id call) (callsOf line) then lines
          else rev before @ [line\<lparr>msg_toolCalls := Some (callsOf line @ [call])\<rparr>]
            @ rev (takeWhile (\<lambda>line. msg_role line \<noteq> RoleAssistant) (rev lines)))"

definition answeredIds :: "message list \<Rightarrow> string list" where
  "answeredIds lines = List.map_filter (\<lambda>line. truthy (msg_toolCallId line)) lines"

definition stoppedToolResult :: string where
  "stoppedToolResult = ''Stopped before the tool returned a result.''"

definition openCalls :: "message list \<Rightarrow> tool_call list" where
  "openCalls lines = concat (map (\<lambda>line.
     if msg_role line = RoleAssistant then filter (\<lambda>call. \<not> List.member (answeredIds lines) (tc_id call)) (callsOf line) else []) lines)"

definition closeOpenToolCalls :: "message list \<Rightarrow> message list" where
  "closeOpenToolCalls lines = lines @ map (\<lambda>call.
     (plainMessage RoleTool stoppedToolResult)\<lparr>msg_toolCallId := Some (tc_id call), msg_name := Some (tc_name call)\<rparr>) (openCalls lines)"

section \<open>Events\<close>

text \<open>What an agent thread is delivered and what a turn and a tool produce, decoded by the schemas of the events.\<close>

datatype agent_event =
    AgentStarted "string option" "string option" "json option"
    \<comment> \<open>definition name and version, input\<close>
  | AgentLineage number
  | TurnStarted number
  | MessageReceived message
  | AgentMessage message
  | ToolCallRequested tool_call
  | ToolResult string string json "string option"
    \<comment> \<open>tool call id, name, result, error\<close>
  | AgentSteered message "bool option" "string option"
    \<comment> \<open>message, interrupt, message id\<close>
  | ContextCompacted number "message list option"
  | TurnStopped
  | SpawnRequested agent_spawn
  | EffectsRequested nat string "runtime_effect list" "(event_types \<times> json option) option"
    \<comment> \<open>number of the event, tool call id, effects, what to wait for\<close>
  | AgentEffectFailed "string option" string
    \<comment> \<open>effect id, error\<close>
  | AgentWaitSatisfied "json option" "json option"
    \<comment> \<open>tag, event\<close>
  | TurnUsage number number
  | AgentCompleted json
  | AgentFailed string
  | OtherAgentEvent

section \<open>The step\<close>

text \<open>Drop the turn in progress: answer its open tool calls and cancel the children they started.\<close>

definition abandonTurn :: "agent_state \<Rightarrow> agent_state" where
  "abandonTurn s = s\<lparr>ag_lines := closeOpenToolCalls (ag_lines s), ag_pendingSteer := None, ag_pendingToolCalls := [],
     ag_executingToolCalls := [], ag_pendingSpawns := [], ag_pendingEffects := [], ag_pendingEmits := [],
     ag_pendingEffectTools := [], ag_needsLlmCall := False,
     ag_abandonedChildThreadIds := ag_abandonedChildThreadIds s @ map as_childThreadId (ag_pendingSpawns s)\<rparr>"

definition agentStarted ::
  "(json \<Rightarrow> string) \<Rightarrow> agent_state \<Rightarrow> string option \<Rightarrow> string option \<Rightarrow> json option \<Rightarrow> agent_state" where
  "agentStarted text s name version given =
     (let input = withDefault given (ag_input s)
      in s\<lparr>ag_definitionName := orElse (truthy name) (ag_definitionName s),
           ag_definitionVersion := Some (withDefault (orElse version (ag_definitionVersion s)) defaultDefinitionVersion),
           ag_input := input,
           ag_lines := (case inputToLine text input of None \<Rightarrow> ag_lines s | Some line \<Rightarrow> [line]),
           ag_needsLlmCall := True\<rparr>)"

definition resultId :: "string \<Rightarrow> string" where
  "resultId toolCallId = ''res_'' @ toolCallId"

definition structuredOutputToolName :: string where
  "structuredOutputToolName = ''submit_output''"

definition toolResulted ::
  "(json \<Rightarrow> string) \<Rightarrow> agent_state \<Rightarrow> string \<Rightarrow> string \<Rightarrow> json \<Rightarrow> string option \<Rightarrow> agent_state" where
  "toolResulted text s toolCallId name result error =
     (let pending = filter (\<lambda>c. tc_id c \<noteq> toolCallId) (ag_pendingToolCalls s);
          content = withDefault (truthy error) (text result)
      in s\<lparr>ag_lines := ag_lines s
             @ [(plainMessage RoleTool content)\<lparr>msg_toolCallId := Some toolCallId, msg_name := Some name\<rparr>],
           ag_structuredOutput :=
             (if name = structuredOutputToolName \<and> truthy error = None \<and> result \<noteq> JNull
              then (case result of
                      JObj fs \<Rightarrow> (case dget fs ''output'' of Some out \<Rightarrow> out | None \<Rightarrow> result)
                    | _ \<Rightarrow> result)
              else ag_structuredOutput s),
           ag_pendingToolCalls := pending,
           ag_executingToolCalls := filter (\<lambda>c. tc_id c \<noteq> toolCallId) (ag_executingToolCalls s),
           ag_pendingSpawns := filter (\<lambda>p. as_toolCallId p \<noteq> toolCallId) (ag_pendingSpawns s),
           ag_pendingEffects := filter (\<lambda>p. ae_toolCallId p \<noteq> toolCallId) (ag_pendingEffects s),
           ag_pendingEmits := filter (\<lambda>p. am_id p \<noteq> resultId toolCallId) (ag_pendingEmits s),
           ag_needsLlmCall := (pending = [])\<rparr>)"

definition agentSteered :: "agent_state \<Rightarrow> message \<Rightarrow> bool option \<Rightarrow> string option \<Rightarrow> agent_state" where
  "agentSteered s line interrupt messageId =
     (let consumed = (case truthy messageId of
            None \<Rightarrow> ag_consumedSteerMessageIds s
          | Some i \<Rightarrow> if List.member (ag_consumedSteerMessageIds s) i then ag_consumedSteerMessageIds s
              else ag_consumedSteerMessageIds s @ [i])
      in if withDefault interrupt False
         then (abandonTurn s)\<lparr>ag_lines := ag_lines (abandonTurn s) @ [line], ag_pendingSteer := Some line,
                ag_needsLlmCall := True, ag_consumedSteerMessageIds := consumed\<rparr>
         else s\<lparr>ag_lines := ag_lines s @ [line], ag_pendingSteer := Some line, ag_consumedSteerMessageIds := consumed\<rparr>)"

definition spawnRequested :: "agent_state \<Rightarrow> agent_spawn \<Rightarrow> agent_state" where
  "spawnRequested s p = s
     \<lparr>ag_executingToolCalls := filter (\<lambda>c. tc_id c \<noteq> as_toolCallId p) (ag_executingToolCalls s),
      ag_pendingSpawns := filter (\<lambda>q. as_toolCallId q \<noteq> as_toolCallId p) (ag_pendingSpawns s)
        @ [p\<lparr>as_depth := Some (withDefault (as_depth p) (ag_depth s + 1))\<rparr>]\<rparr>"

definition toolEffectTag :: "string \<Rightarrow> nat \<Rightarrow> runtime_effect \<Rightarrow> string" where
  "toolEffectTag toolCallId idx e =
     withDefault (effectTag e) (toolCallId @ ''_'' @ effectType e @ ''_'' @ showNat idx)"

definition taggedEffect :: "string \<Rightarrow> nat \<Rightarrow> runtime_effect \<Rightarrow> runtime_effect" where
  "taggedEffect toolCallId idx e =
     (let tag = toolEffectTag toolCallId idx e in
      case e of
        WaitEffect w on _ \<Rightarrow> WaitEffect w on (Some (JStr tag))
      | EmitEffect ev _ \<Rightarrow> EmitEffect ev (Some tag)
      | CancelEffect t _ \<Rightarrow> CancelEffect t (Some tag)
      | LaunchEffect r k n v i c _ \<Rightarrow> LaunchEffect r k n v i c (Some tag)
      | CancelRunEffect r _ \<Rightarrow> CancelRunEffect r (Some tag)
      | InvokeEffect t i _ due \<Rightarrow> InvokeEffect t i (Some tag) due
      | _ \<Rightarrow> e)"

definition effectsRequested ::
  "agent_state \<Rightarrow> nat \<Rightarrow> string \<Rightarrow> runtime_effect list \<Rightarrow> (event_types \<times> json option) option \<Rightarrow> agent_state" where
  "effectsRequested s seq toolCallId effects waitOn =
     (let name = (case find (\<lambda>c. tc_id c = toolCallId) (ag_executingToolCalls s) of None \<Rightarrow> ''tool'' | Some c \<Rightarrow> tc_name c);
          keys = showNat seq # toolCallId # map (\<lambda>(idx, e). toolEffectTag toolCallId idx e) (enumerate 0 effects)
      in s\<lparr>ag_executingToolCalls := filter (\<lambda>c. tc_id c \<noteq> toolCallId) (ag_executingToolCalls s),
           ag_pendingEffects := filter (\<lambda>p. ae_toolCallId p \<noteq> toolCallId) (ag_pendingEffects s)
             @ [\<lparr>ae_toolCallId = toolCallId, ae_effects = map (\<lambda>(idx, e). taggedEffect toolCallId idx e) (enumerate 0 effects),
                 ae_waitOn = waitOn\<rparr>],
           ag_pendingEffectTools := foldl (\<lambda>m k. dput k (toolCallId, name) m) (ag_pendingEffectTools s) keys\<rparr>)"

definition toolResultInput :: "number \<Rightarrow> string \<Rightarrow> string \<Rightarrow> json \<Rightarrow> string option \<Rightarrow> string \<Rightarrow> event_input" where
  "toolResultInput turn toolCallId name result error threadId =
     (eventInput ''agent.tool.result'' (JObj
        [(''turn'', JNum turn), (''toolCallId'', JStr toolCallId), (''name'', JStr name), (''result'', result),
         (''error'', case error of None \<Rightarrow> JNull | Some e \<Rightarrow> JStr e)]))\<lparr>in_threadId := Val threadId\<rparr>"

text \<open>The thread will emit the result of the tool call.\<close>

definition answerTool :: "agent_state \<Rightarrow> string \<Rightarrow> string \<Rightarrow> string \<Rightarrow> json \<Rightarrow> string option \<Rightarrow> agent_state" where
  "answerTool s threadId toolCallId name result error = s
     \<lparr>ag_pendingEffects := filter (\<lambda>p. ae_toolCallId p \<noteq> toolCallId) (ag_pendingEffects s),
      ag_pendingEmits := filter (\<lambda>p. am_id p \<noteq> resultId toolCallId) (ag_pendingEmits s)
        @ [\<lparr>am_id = resultId toolCallId, am_event = toolResultInput (ag_turn s) toolCallId name result error threadId\<rparr>]\<rparr>"

text \<open>
  The parts of the id of an effect. \<open>numberText\<close> is the text of the number a part reads as, when it is finite.
\<close>

fun splitColons :: "string \<Rightarrow> string list" where
  "splitColons [] = [[]]"
| "splitColons (c # cs) =
     (if c = CHR '':'' then [] # splitColons cs
      else (case splitColons cs of [] \<Rightarrow> [[c]] | part # parts \<Rightarrow> (c # part) # parts))"

fun joinColons :: "string list \<Rightarrow> string" where
  "joinColons [] = ''''"
| "joinColons [part] = part"
| "joinColons (part # parts) = part @ '':'' @ joinColons parts"

definition parseEffectId :: "(string \<Rightarrow> string option) \<Rightarrow> string \<Rightarrow> (string \<times> string + string) option" where
  "parseEffectId numberText effectId =
     (case splitColons effectId of
        [threadId, a, b] \<Rightarrow> (case (numberText a, numberText b) of
            (Some seq, Some index) \<Rightarrow> Some (Inl (seq, index)) | _ \<Rightarrow> Some (Inr (joinColons [a, b])))
      | threadId # part # parts \<Rightarrow> Some (Inr (joinColons (part # parts)))
      | _ \<Rightarrow> None)"

text \<open>The tool call whose effect failed: by the tag, by the event that caused it, or by its pending effects.\<close>

definition failedTool :: "(string \<Rightarrow> string option) \<Rightarrow> agent_state \<Rightarrow> string option \<Rightarrow> (string \<times> string) option" where
  "failedTool numberText s effectId =
     (let parsed = Option.bind (truthy effectId) (parseEffectId numberText);
          tag = (case parsed of Some (Inr t) \<Rightarrow> Some t | _ \<Rightarrow> None);
          causing = (case parsed of Some (Inl (seq, _)) \<Rightarrow> Some seq | _ \<Rightarrow> None)
      in orElse (Option.bind (truthy tag) (dget (ag_pendingEffectTools s)))
           (orElse (Option.bind causing (dget (ag_pendingEffectTools s)))
             (case tag of
                None \<Rightarrow> None
              | Some t \<Rightarrow> map_option (\<lambda>item. (ae_toolCallId item, ''tool''))
                  (find (\<lambda>item. list_ex (\<lambda>e. effectTag e = Some t) (ae_effects item) \<or> startsWith t (ae_toolCallId item))
                    (ag_pendingEffects s)))))"

definition agentEffectFailed ::
  "(string \<Rightarrow> string option) \<Rightarrow> agent_state \<Rightarrow> string \<Rightarrow> string option \<Rightarrow> string \<Rightarrow> agent_state" where
  "agentEffectFailed numberText s threadId effectId error' =
     (let error = (if error' = '''' then ''effect failed'' else error') in
      if isWithdrawnError error then s
      else (case failedTool numberText s effectId of
              None \<Rightarrow> s
            | Some (toolCallId, name) \<Rightarrow>
                (answerTool s threadId toolCallId name JNull (Some error))
                  \<lparr>ag_pendingEffectTools := filter (\<lambda>(_, v). fst v \<noteq> toolCallId) (ag_pendingEffectTools s)\<rparr>))"

definition agentWaitSatisfied :: "agent_state \<Rightarrow> string \<Rightarrow> json option \<Rightarrow> json option \<Rightarrow> agent_state" where
  "agentWaitSatisfied s threadId tag event =
     (case tag of
        Some (JObj fs) \<Rightarrow>
          (case truthy (readString fs ''toolCallId'') of
             None \<Rightarrow> s
           | Some toolCallId \<Rightarrow>
               (let name = withDefault (readString fs ''name'') ''child'';
                    outcome = waitOutcome event tag None;
                    result = (case outcome of Inl _ \<Rightarrow> JNull | Inr v \<Rightarrow> v);
                    error = (case outcome of Inl e \<Rightarrow> Some e | Inr _ \<Rightarrow> None)
                in (answerTool s threadId toolCallId name result error)
                     \<lparr>ag_pendingSpawns := filter (\<lambda>p. as_toolCallId p \<noteq> toolCallId) (ag_pendingSpawns s)\<rparr>))
      | _ \<Rightarrow> s)"

definition agentStep ::
  "(json \<Rightarrow> string) \<Rightarrow> (string \<Rightarrow> string option) \<Rightarrow> string \<Rightarrow> agent_state \<Rightarrow> agent_event \<Rightarrow> agent_state" where
  "agentStep text numberText threadId s event = (case event of
     AgentStarted name version input \<Rightarrow> agentStarted text s name version input
   | AgentLineage depth \<Rightarrow> s\<lparr>ag_depth := depth\<rparr>
   | TurnStarted turn \<Rightarrow> s\<lparr>ag_turn := turn, ag_needsLlmCall := False, ag_pendingSteer := None, ag_abandonedChildThreadIds := []\<rparr>
   | MessageReceived line \<Rightarrow> s\<lparr>ag_lines := ag_lines s @ [line], ag_needsLlmCall := (ag_pendingToolCalls s = [])\<rparr>
   | AgentMessage line \<Rightarrow> s\<lparr>ag_lines := ag_lines s @ [line]\<rparr>
   | ToolCallRequested call \<Rightarrow> s\<lparr>ag_lines := attachToolCall (ag_lines s) call,
       ag_pendingToolCalls := ag_pendingToolCalls s @ [call], ag_executingToolCalls := ag_executingToolCalls s @ [call],
       ag_needsLlmCall := False\<rparr>
   | ToolResult toolCallId name result error \<Rightarrow> toolResulted text s toolCallId name result error
   | AgentSteered line interrupt messageId \<Rightarrow> agentSteered s line interrupt messageId
   | ContextCompacted turn messages \<Rightarrow> s\<lparr>ag_lines := withDefault messages (ag_lines s),
       ag_alreadyCompactedTurns := ag_alreadyCompactedTurns s @ [turn]\<rparr>
   | TurnStopped \<Rightarrow> abandonTurn s
   | SpawnRequested p \<Rightarrow> spawnRequested s p
   | EffectsRequested seq toolCallId effects waitOn \<Rightarrow> effectsRequested s seq toolCallId effects waitOn
   | AgentEffectFailed effectId error \<Rightarrow> agentEffectFailed numberText s threadId effectId error
   | AgentWaitSatisfied tag event' \<Rightarrow> agentWaitSatisfied s threadId tag event'
   | _ \<Rightarrow> s)"

section \<open>What the thread asks for\<close>

definition roleName :: "message_role \<Rightarrow> string" where
  "roleName r = (case r of RoleSystem \<Rightarrow> ''system'' | RoleUser \<Rightarrow> ''user'' | RoleAssistant \<Rightarrow> ''assistant'' | RoleTool \<Rightarrow> ''tool'')"

definition toolCallJson :: "tool_call \<Rightarrow> json" where
  "toolCallJson c = JObj [(''id'', JStr (tc_id c)), (''name'', JStr (tc_name c)), (''arguments'', tc_arguments c)]"

definition messageJson :: "message \<Rightarrow> json" where
  "messageJson m = JObj ([(''role'', JStr (roleName (msg_role m))), (''content'', JStr (msg_content m))]
     @ optField ''toolCallId'' JStr (msg_toolCallId m) @ optField ''name'' JStr (msg_name m)
     @ optField ''toolCalls'' (\<lambda>cs. JArr (map toolCallJson cs)) (msg_toolCalls m))"

definition callLlm :: "(number \<Rightarrow> string) \<Rightarrow> agent_state \<Rightarrow> runtime_effect" where
  "callLlm showNumber s =
     (let turn = ag_turn s + 1 in
      InvokeEffect ''agent.callLLM'' (JObj
        ([(''turn'', JNum turn)] @ optField ''definitionName'' JStr (ag_definitionName s)
         @ [(''definitionVersion'', JStr (withDefault (ag_definitionVersion s) defaultDefinitionVersion)),
            (''messages'', JArr (map messageJson (ag_lines s))), (''input'', ag_input s),
            (''structuredOutput'', ag_structuredOutput s),
            (''alreadyCompacted'', JBool (List.member (ag_alreadyCompactedTurns s) turn)),
            (''consumedSteerMessageIds'', JArr (map JStr (ag_consumedSteerMessageIds s)))]))
        (Some (''llm_turn_'' @ showNumber turn)) None)"

definition executeToolCall :: "agent_state \<Rightarrow> tool_call \<Rightarrow> runtime_effect" where
  "executeToolCall s call = InvokeEffect ''agent.executeTool'' (JObj
     ([(''turn'', JNum (ag_turn s))] @ optField ''definitionName'' JStr (ag_definitionName s)
      @ [(''definitionVersion'', JStr (withDefault (ag_definitionVersion s) defaultDefinitionVersion)),
         (''toolCall'', toolCallJson call), (''input'', ag_input s), (''depth'', JNum (ag_depth s))]))
     (Some (''tool_'' @ tc_id call)) None"

definition lineageInput :: "agent_state \<Rightarrow> agent_spawn \<Rightarrow> event_input" where
  "lineageInput s p = (eventInput ''agent.lineage'' (JObj [(''depth'', JNum (withDefault (as_depth p) (ag_depth s + 1)))]))
     \<lparr>in_threadId := Val (as_childThreadId p)\<rparr>"

definition spawnAsked :: "string \<Rightarrow> agent_state \<Rightarrow> agent_spawn \<Rightarrow> runtime_effect list" where
  "spawnAsked threadId s p =
     [SpawnEffect (as_childThreadId p) (as_kind p) (as_definitionName p) (as_definitionVersion p) (as_input p)]
     @ (if as_kind p = ''agent'' then [EmitEffect (lineageInput s p) (Some (''lineage_'' @ as_childThreadId p))] else [])
     @ [WaitEffect (createWaitId threadId (''spawn_'' @ as_childThreadId p))
          (WaitOnEvent (AnyType [''runtime.thread.completed'', ''runtime.thread.failed''])
            (Some (JObj [(''threadId'', JStr (as_childThreadId p))])))
          (Some (JObj [(''toolCallId'', JStr (as_toolCallId p)), (''name'', JStr (as_definitionName p))]))]"

definition effectsAsked :: "string \<Rightarrow> agent_pending_effects \<Rightarrow> runtime_effect list" where
  "effectsAsked threadId p = ae_effects p @ (case ae_waitOn p of
     None \<Rightarrow> []
   | Some (types, pattern) \<Rightarrow> [WaitEffect (createWaitId threadId (''effects_'' @ ae_toolCallId p)) (WaitOnEvent types pattern)
       (Some (JObj [(''toolCallId'', JStr (ae_toolCallId p))]))])"

definition agentEffects :: "(number \<Rightarrow> string) \<Rightarrow> agent_state \<Rightarrow> string \<Rightarrow> runtime_effect list" where
  "agentEffects showNumber s threadId =
     (if ag_needsLlmCall s then [callLlm showNumber s] else [])
     @ map (executeToolCall s) (ag_executingToolCalls s)
     @ concat (map (spawnAsked threadId s) (ag_pendingSpawns s))
     @ concat (map (effectsAsked threadId) (ag_pendingEffects s))
     @ map (\<lambda>p. EmitEffect (am_event p) None) (ag_pendingEmits s)
     @ map (\<lambda>t. CancelEffect t None) (ag_abandonedChildThreadIds s)"

section \<open>A turn of the model\<close>

record turn_result =
  tn_message :: message
  tn_toolCalls :: "tool_call list option"
  tn_output :: "json option"
  tn_usage :: "(number \<times> number) option"

record stop_context =
  sx_turn :: number
  sx_maxTurns :: number
  sx_messages :: "message list"
  sx_toolCalls :: "tool_call list"
  sx_result :: turn_result

definition hasToolCall :: "string \<Rightarrow> stop_context \<Rightarrow> bool" where
  "hasToolCall name ctx \<longleftrightarrow> list_ex (\<lambda>c. tc_name c = name) (sx_toolCalls ctx)"

definition stepCountIs :: "number \<Rightarrow> stop_context \<Rightarrow> bool" where
  "stepCountIs n ctx \<longleftrightarrow> n \<le> sx_turn ctx"

text \<open>
  The kinds of tools. A schema is given by what it does with the arguments, a handler by what it returns; the
  left of a result is the message of the error.
\<close>

datatype agent_tool =
    FunctionTool string "json \<Rightarrow> string + json" "json \<Rightarrow> string + json"
    \<comment> \<open>name, schema, handler\<close>
  | ThreadTool string "json \<Rightarrow> string + json" string string string "json \<Rightarrow> json"
    \<comment> \<open>name, schema, kind, name and version of the child, \<open>mapInput\<close>\<close>
  | EffectsTool string "json \<Rightarrow> string + json" "json \<Rightarrow> runtime_effect list" "(event_types \<times> json option) option"
    \<comment> \<open>name, schema, effects, what to wait for\<close>

fun toolName :: "agent_tool \<Rightarrow> string" where
  "toolName (FunctionTool n _ _) = n"
| "toolName (ThreadTool n _ _ _ _ _) = n"
| "toolName (EffectsTool n _ _ _) = n"

record agent_definition =
  ad_tools :: "agent_tool list"
  ad_resolveTools :: "(string \<Rightarrow> number \<Rightarrow> json \<Rightarrow> string + agent_tool list) option"
  ad_output :: "(json \<Rightarrow> string + json) option"
    \<comment> \<open>the schema of the output\<close>
  ad_compact :: "(message list \<Rightarrow> string + message list) option"
  ad_maxTurns :: "number option"
  ad_conversational :: bool
  ad_stopWhen :: "(stop_context \<Rightarrow> bool) option"

definition submitOutputTool :: "(json \<Rightarrow> string + json) \<Rightarrow> agent_tool" where
  "submitOutputTool schema = FunctionTool structuredOutputToolName schema
     (\<lambda>output. Inr (JObj [(''accepted'', JBool True), (''output'', output)]))"

text \<open>Static tools, then \<open>resolveTools\<close>, then \<open>submit_output\<close> when the agent declares an output.\<close>

definition agentTools :: "agent_definition \<Rightarrow> string \<Rightarrow> number \<Rightarrow> json \<Rightarrow> string + agent_tool list" where
  "agentTools d threadId turn input =
     (case (case ad_resolveTools d of None \<Rightarrow> Inr [] | Some resolve \<Rightarrow> resolve threadId turn input) of
        Inl e \<Rightarrow> Inl e
      | Inr resolved \<Rightarrow> Inr (ad_tools d @ resolved
          @ (case ad_output d of None \<Rightarrow> [] | Some schema \<Rightarrow> [submitOutputTool schema])))"

definition compactionRecentMessages :: nat where
  "compactionRecentMessages = 4"

fun windowStart :: "message list \<Rightarrow> nat \<Rightarrow> nat" where
  "windowStart messages 0 = 0"
| "windowStart messages (Suc n) =
     (if 1 < Suc n \<and> Suc n < length messages \<and> msg_role (messages ! Suc n) = RoleTool then windowStart messages n else Suc n)"

text \<open>Keeps the first message and the most recent ones, never starting the recent ones on a tool result.\<close>

definition defaultAgentCompactor :: "message list \<Rightarrow> message list" where
  "defaultAgentCompactor messages =
     (let start = windowStart messages (length messages - compactionRecentMessages)
      in if start \<le> 1 then messages
         else take 1 messages
           @ [plainMessage RoleSystem (''['' @ showNat (start - 1) @ '' earlier messages compacted for context window]'')]
           @ drop start messages)"

datatype turn_error = TurnError string bool
  \<comment> \<open>the message, and whether it reports an overflow of the context\<close>

text \<open>\<open>executeTurn\<close> answers the first and the second call of the model.\<close>

definition completeTurn ::
  "agent_definition \<Rightarrow> number \<Rightarrow> bool \<Rightarrow> (nat \<Rightarrow> message list \<Rightarrow> turn_error + turn_result) \<Rightarrow> message list \<Rightarrow>
     string + agent_event list \<times> message list \<times> turn_result" where
  "completeTurn d turn alreadyCompacted executeTurn messages = (case executeTurn 0 messages of
     Inr result \<Rightarrow> Inr ([], messages, result)
   | Inl (TurnError e overflow) \<Rightarrow>
       if overflow \<and> \<not> alreadyCompacted
       then (case (case ad_compact d of None \<Rightarrow> Inr (defaultAgentCompactor messages) | Some compactor \<Rightarrow> compactor messages) of
               Inl e' \<Rightarrow> Inl e'
             | Inr compacted \<Rightarrow> (case executeTurn 1 compacted of
                 Inl (TurnError e' _) \<Rightarrow> Inl e'
               | Inr result \<Rightarrow> Inr ([ContextCompacted turn (Some compacted)], compacted, result)))
       else Inl e)"

record llm_input =
  li_turn :: number
  li_threadId :: string
  li_messages :: "message list"
  li_input :: json
  li_structuredOutput :: json
  li_alreadyCompacted :: bool
  li_consumedSteerMessageIds :: "string list"

definition turnCompleted :: "llm_input \<Rightarrow> turn_result \<Rightarrow> agent_event" where
  "turnCompleted args result =
     (let output = (if li_structuredOutput args \<noteq> JNull then li_structuredOutput args
            else (case tn_output result of
                    Some out \<Rightarrow> if out \<noteq> JNull then out else JObj [(''text'', JStr (msg_content (tn_message result)))]
                  | None \<Rightarrow> JObj [(''text'', JStr (msg_content (tn_message result)))]))
      in AgentCompleted (if li_consumedSteerMessageIds args = [] then output
           else JObj [(''output'', output), (''consumedSteerMessageIds'', JArr (map JStr (li_consumedSteerMessageIds args)))]))"

text \<open>\<open>definition\<close> is what the name and version of the agent resolve to.\<close>

definition runCallLlm ::
  "(number \<Rightarrow> string) \<Rightarrow> agent_definition option \<Rightarrow> (nat \<Rightarrow> message list \<Rightarrow> turn_error + turn_result) \<Rightarrow> llm_input \<Rightarrow>
     string + agent_event list" where
  "runCallLlm showNumber resolved executeTurn args = (case resolved of
     None \<Rightarrow> Inr [AgentFailed (''Unknown agent definition for '' @ li_threadId args)]
   | Some d \<Rightarrow>
       (let maxTurns = withDefault (ad_maxTurns d) 20; turn = li_turn args in
        if maxTurns < turn then Inr [AgentFailed (''Max turns exceeded ('' @ showNumber maxTurns @ '')'')]
        else (case agentTools d (li_threadId args) turn (li_input args) of
          Inl e \<Rightarrow> Inl e
        | Inr tools \<Rightarrow> (case completeTurn d turn (li_alreadyCompacted args) executeTurn (li_messages args) of
            Inl e \<Rightarrow> Inl e
          | Inr (compacted, messages, result) \<Rightarrow>
              (let toolCalls = withDefault (orElse (tn_toolCalls result) (msg_toolCalls (tn_message result))) [];
                   shouldStop = (case ad_stopWhen d of None \<Rightarrow> False | Some stops \<Rightarrow> stops
                     \<lparr>sx_turn = turn, sx_maxTurns = maxTurns, sx_messages = messages, sx_toolCalls = toolCalls, sx_result = result\<rparr>);
                   events = [TurnStarted turn] @ compacted @ [AgentMessage (tn_message result)]
                     @ (case tn_usage result of None \<Rightarrow> [] | Some (i, out) \<Rightarrow> [TurnUsage i out])
               in if shouldStop
                  then Inr (events @ (if ad_conversational d then [] else [turnCompleted args result]))
                  else Inr (events @ map ToolCallRequested toolCalls
                    @ (if toolCalls = [] \<and> \<not> ad_conversational d then [turnCompleted args result] else [])))))))"

section \<open>The execution of a tool\<close>

definition teamMemberMaxDepth :: number where
  "teamMemberMaxDepth = 3"

definition submitError :: "string \<Rightarrow> string \<Rightarrow> string" where
  "submitError name error =
     (if name = structuredOutputToolName
      then ''Output validation failed: '' @ error @ ''. Fix the fields and call '' @ structuredOutputToolName @ '' again.''
      else error)"

text \<open>\<open>childThreadId\<close> is a fresh id.\<close>

definition executeTool ::
  "agent_definition option \<Rightarrow> string \<Rightarrow> number \<Rightarrow> tool_call \<Rightarrow> json \<Rightarrow> number option \<Rightarrow> string \<Rightarrow> nat \<Rightarrow> agent_event" where
  "executeTool resolved threadId turn call input givenDepth childThreadId seq =
     (let failed = (\<lambda>e. ToolResult (tc_id call) (tc_name call) JNull (Some e)) in
      case resolved of
        None \<Rightarrow> failed ''Unknown agent definition''
      | Some d \<Rightarrow> (case agentTools d threadId turn input of
          Inl e \<Rightarrow> failed (''Could not resolve tools: '' @ e)
        | Inr tools \<Rightarrow> (case find (\<lambda>tool. toolName tool = tc_name call) tools of
            None \<Rightarrow> failed (''Unknown tool: '' @ tc_name call)
          | Some (FunctionTool name schema handler) \<Rightarrow>
              (case schema (tc_arguments call) of
                 Inl e \<Rightarrow> failed (submitError name e)
               | Inr v \<Rightarrow> (case handler v of
                   Inl e \<Rightarrow> failed e | Inr result \<Rightarrow> ToolResult (tc_id call) (tc_name call) result None))
          | Some (ThreadTool name schema kind childName childVersion mapInput) \<Rightarrow>
              (let depth = withDefault givenDepth 0 in
               if teamMemberMaxDepth \<le> depth then failed ''Subagent depth limit reached (max depth: 3)''
               else (case schema (tc_arguments call) of
                 Inl e \<Rightarrow> failed e
               | Inr v \<Rightarrow> SpawnRequested \<lparr>as_childThreadId = childThreadId, as_kind = kind, as_definitionName = childName,
                   as_definitionVersion = childVersion, as_toolCallId = tc_id call, as_input = mapInput v, as_depth = Some (depth + 1)\<rparr>))
          | Some (EffectsTool name schema effects waitOn) \<Rightarrow>
              (case schema (tc_arguments call) of
                 Inl e \<Rightarrow> failed e
               | Inr v \<Rightarrow> EffectsRequested seq (tc_id call) (effects v) waitOn))))"

text \<open>Threads whose effects a signal interrupts.\<close>

definition interruptsOnSignal :: "event_input \<Rightarrow> string list" where
  "interruptsOnSignal event =
     (if in_type event = ''agent.turn.stopped''
        \<or> in_type event = ''agent.steered'' \<and> dget (asObject (in_payload event)) ''interrupt'' = Some (JBool True)
      then (case truthy (orNull (in_threadId event)) of None \<Rightarrow> [] | Some t \<Rightarrow> [t]) else [])"

end
