(* ===== verification/Spec2Isabelle.thy ===== *)
theory Spec2Isabelle
  imports Wake_Liveness Workflow_Properties Run_Contexts Operation_Examples Agent_Threads
begin

text \<open>
  A model of the execution engine of looms, a runtime for durable event-sourced agents and workflows
  (\<open>packages/core\<close>, \<open>packages/runtime\<close>, \<open>packages/workflow\<close>), with the theorems that make it correct.

  \<^bold>\<open>The program.\<close> A run is an append-only log of events. Folding the log gives the state of the run: threads,
  the effects they ask for, what they wait for. A wake loads a run, folds it, fires what is due, hands effects
  to a worker or runs them on the host, appends what came of it, and parks the run until its next deadline.
  Nothing but the log is durable, so a crash, a second host or a lost message must leave the fold right: an
  effect that completed is never issued again, a callback counts once, a parked run is woken in time.

  \<^bold>\<open>The theories and the code they model.\<close>
    \<^item> \<open>Looms_Prelude\<close>: JSON values, dictionaries in insertion order, numbers, and the lemmas on them.
    \<^item> Data of \<open>packages/core/src\<close>: \<open>Ids\<close> (\<open>ids.ts\<close>), \<open>Envelope\<close> (\<open>envelope.ts\<close>), \<open>Effects\<close> (\<open>effects.ts\<close>),
      \<open>Run_State\<close> (\<open>state.ts\<close>, \<open>thread.ts\<close>), \<open>Match\<close> (\<open>match.ts\<close>).
    \<^item> The reducer: \<open>Fold\<close> (\<open>fold.ts\<close>, one definition per event type, then delivery and reconciliation),
      \<open>Fold_Invariants\<close> and \<open>Fold_Properties\<close> (what it keeps and does), \<open>Replay\<close> (cursors, superseded attempts).
    \<^item> The log: \<open>Event_Store\<close> (\<open>store.ts\<close>, the memory store with its subscriptions, and guarded trims), \<open>Event_Log\<close>
      (what it promises; the locale \<open>event_log\<close> of the laws of a log, interpreted on it), \<open>Repository\<close>
      (\<open>repository.ts\<close>: loading, folding an append, the commit loop; the locale \<open>paged_log\<close>), \<open>Snapshot_Store\<close>
      (\<open>snapshot-store.ts\<close>, saving, pruning and the trim behind a snapshot).
    \<^item> The runtime (\<open>packages/runtime/src\<close>): \<open>Runtime_Helpers\<close>, \<open>Runtime_Properties\<close> (\<open>helpers.ts\<close>,
      \<open>retry-policy.ts\<close>), \<open>Deadlines\<close> (\<open>deadline-transition-planner.ts\<close>), \<open>Worker_Dispatch\<close>, \<open>Worker_Callbacks\<close>,
      \<open>Cancellation\<close> (also \<open>child-run.ts\<close>, \<open>effect-admission.ts\<close>), \<open>Local_Effects\<close> (\<open>dispatch-effect.ts\<close>,
      \<open>local-effect-executor.ts\<close>), \<open>Wake_Engine\<close> (\<open>wake-engine.ts\<close>) with \<open>Wake_Properties\<close> and \<open>Wake_Liveness\<close>,
      \<open>Run_Contexts\<close> (\<open>run-execution-context.ts\<close>, \<open>ingress.ts\<close>: the fibres that share a run, as interleaved steps).
    \<^item> Forks and operations: \<open>Fork\<close> (\<open>packages/core/src/fork.ts\<close>), \<open>Runtime_Operations\<close> (\<open>runtime.ts\<close>, \<open>run-start.ts\<close>,
      \<open>validate-event.ts\<close>: starting, launching, signalling, retrying, forking a run), \<open>Operation_Properties\<close>, and the
      runs on which they are applied in \<open>Operation_Examples\<close>.
    \<^item> Workflows (\<open>packages/workflow/src\<close>): \<open>Workflow_Graph\<close> (\<open>graph.ts\<close>, \<open>definitions.ts\<close>), \<open>Workflow_Schedule\<close>
      (\<open>effects.ts\<close>), \<open>Workflow_Threads\<close> (\<open>threads.ts\<close>), \<open>Workflow_Properties\<close>.

  \<^bold>\<open>How the model reads the code.\<close> A definition has the name of the function it translates. Interfaces are
  records, unions are datatypes, an object used as a dictionary is an association list in insertion order, a
  number is a rational, \<open>null\<close> and \<open>undefined\<close> are \<open>None\<close> where the code treats them alike. An effect that can fail
  returns a sum, with the error on the left. Fresh ids and times are arguments (\<open>stamps\<close>). In a wake every
  question to the world (the clock, ids, what other writers appended in between, pushes, handlers, the
  launcher) is numbered and answered by the environment record, and the theorems hold for every environment.
  Code that is not in the repository, the effect and schema libraries, handlers and definitions of users, the
  worker, is a field of a record or an argument.

  \<^bold>\<open>What the lemmas show.\<close>
    \<^item> The reducer keeps \<open>run_ok\<close>; a completed effect stays completed and is not issued again; terminal threads
      stay terminal; failing, cancelling and settling leave no work behind; races settle once.
    \<^item> The store numbers batches without gaps, is idempotent per key, fences, never loses an event of a
      subscription, and trims only what is covered; a commit is planned against the log it is appended to.
    \<^item> Loading from scratch, from the cache, from a snapshot or past an append always gives the fold of the log.
    \<^item> The planners do exactly what is due, within limits; folding a plan leaves nothing to plan again.
    \<^item> A wake keeps all of that in every environment, and asks to be woken in time; fibres that share a run lose
      no wake, do its operations one at a time, and share its context.
    \<^item> Starts and signals that are repeated change nothing, against other writers too; a signal resumes what waits
      for it and is refused by a run that is over; a fork replays its source up to the cut and is made once; an
      operator retries only what is stuck.
    \<^item> A workflow runs every node at most once at a time and after its sources, within its concurrency, and is
      never stuck when fallbacks make no cycle.

  \<^bold>\<open>Bounds and loops.\<close> The commit loop has sixteen rounds (\<open>maxCommitConflicts\<close>) and \<open>wakeLoop\<close> as many as
  \<open>maxWakeIterations\<close>, as in the code, with the error of the code when they run out. The topological sort ends by a
  measure on what is unplaced. Loops the code does not bound (the walk over parents, reading pages, evicting,
  repeating a wake) are partial functions into \<open>option\<close>, and it is proved when they return.

  \<^bold>\<open>Not modelled.\<close> Rounding of doubles. Schemas, HTTP, SSE, WebSocket and database drivers, which are calls of
  libraries; observation, tracing and metrics, which nothing reads back; the client, debugger, React bindings,
  command line, documentation and hosts, which hold no state of a run; projectors, whose work is SQL in other
  engines; the packages of agents, evaluators and schedules, which are modules of definitions run by the engine
  modelled here. The components of the manifest say for each part what is left out.
\<close>

end
